(* ===== verification/Prelude.thy ===== *)
theory Prelude
  imports Main "HOL-Library.Word" "HOL-Library.AList" "HOL-Library.Char_ord"
    "HOL-Library.List_Lexorder" "HOL-Library.Multiset"
begin

text \<open>
  The shared base of the development: the values of the TypeScript code (byte arrays, bigints,
  strings), the exceptions it throws, the effect of a statement (new state, emitted events,
  exception) with the sequencing the language gives it, the array and string operations of the
  standard library that the sources use, and the generic lemmas and collections of lemmas the
  component theories rest on.
\<close>

named_theorems effect_simps \<open>unfolding of the statement combinators\<close>
named_theorems inv_intros \<open>preservation of component invariants\<close>

section \<open>Values\<close>

type_synonym bytes = "8 word list"
type_synonym bigint = int

text \<open>
  The error codes of the protocol that the modelled code passes to \<open>check\<close>, and the exceptions:
  a \<open>CodeException\<close> of \<open>core/dlog/src/check.ts\<close>, a plain \<open>Error\<close>, and an exception
  raised inside a library the sources call. A message is kept without its interpolated parts.
\<close>

datatype Err = ERR_UNSPECIFIED | STREAM_EMPTY | STREAM_BAD_EVENT | BAD_EVENT | BAD_EVENT_ID
  | BAD_EVENT_SIGNATURE | BAD_DELEGATE_SIG | BAD_PUBLIC_KEY | BAD_PAYLOAD | BAD_HASH_FORMAT
  | INTERNAL_ERROR_SWITCH | BAD_SYNC_COOKIE | RESOURCE_EXHAUSTED | DEBUG_ERROR

datatype js_error = CodeException string Err | JsError string | LibError string

section \<open>Statements\<close>

text \<open>
  A statement that may change the state \<open>'s\<close>, emit events \<open>'e\<close> and throw: the state after it
  (kept when it throws, as an object mutated before a \<open>throw\<close> stays mutated), the events in
  the order they were emitted, and the exception if one was thrown.
\<close>

type_synonym ('s, 'e) outcome = "'s \<times> 'e list \<times> js_error option"

definition pass :: "'s \<Rightarrow> ('s, 'e) outcome" where
  "pass s = (s, [], None)"

definition throw :: "js_error \<Rightarrow> 's \<Rightarrow> ('s, 'e) outcome" where
  "throw e s = (s, [], Some e)"

text \<open>\<open>emitter?.emit(e)\<close>: an emitter argument is modelled by whether it is defined.\<close>

definition emit :: "bool \<Rightarrow> 'e \<Rightarrow> 's \<Rightarrow> ('s, 'e) outcome" where
  "emit emitter e s = (s, if emitter then [e] else [], None)"

definition then_do :: "('s, 'e) outcome \<Rightarrow> ('s \<Rightarrow> ('t, 'e) outcome) \<Rightarrow> ('s \<Rightarrow> 't) \<Rightarrow> ('t, 'e) outcome"
where
  "then_do r f stopped =
     (case r of
        (s, es, Some e) \<Rightarrow> (stopped s, es, Some e)
      | (s, es, None) \<Rightarrow> (case f s of (t, es', e') \<Rightarrow> (t, es @ es', e')))"

text \<open>Sequencing of two statements on the same state.\<close>

abbreviation andThen :: "('s, 'e) outcome \<Rightarrow> ('s \<Rightarrow> ('s, 'e) outcome) \<Rightarrow> ('s, 'e) outcome" where
  "andThen r f \<equiv> then_do r f (\<lambda>s. s)"

text \<open>\<open>check(value, message, code)\<close> of \<open>core/dlog/src/check.ts\<close>.\<close>

definition check :: "bool \<Rightarrow> string \<Rightarrow> Err \<Rightarrow> 's \<Rightarrow> ('s, 'e) outcome" where
  "check value message code s = (if value then pass s else throw (CodeException message code) s)"

text \<open>An expression that may throw, evaluated before a statement that uses its value.\<close>

definition with_value :: "js_error + 'a \<Rightarrow> ('a \<Rightarrow> 's \<Rightarrow> ('s, 'e) outcome) \<Rightarrow> 's \<Rightarrow> ('s, 'e) outcome"
where
  "with_value v f s = (case v of Inl e \<Rightarrow> throw e s | Inr a \<Rightarrow> f a s)"

text \<open>A \<open>for ... of\<close> loop, and \<open>try { ... } catch { log }\<close>.\<close>

fun for_each :: "('x \<Rightarrow> 's \<Rightarrow> ('s, 'e) outcome) \<Rightarrow> 'x list \<Rightarrow> 's \<Rightarrow> ('s, 'e) outcome" where
  "for_each f [] s = pass s"
| "for_each f (x # xs) s = andThen (f x s) (for_each f xs)"

definition try_catch :: "('s, 'e) outcome \<Rightarrow> ('s, 'e) outcome" where
  "try_catch r = (case r of (s, es, _) \<Rightarrow> (s, es, None))"

abbreviation out_state :: "('s, 'e) outcome \<Rightarrow> 's" where
  "out_state r \<equiv> fst r"

abbreviation out_events :: "('s, 'e) outcome \<Rightarrow> 'e list" where
  "out_events r \<equiv> fst (snd r)"

abbreviation out_error :: "('s, 'e) outcome \<Rightarrow> js_error option" where
  "out_error r \<equiv> snd (snd r)"

text \<open>Expressions that may throw, in sequence, and \<open>check\<close> in such a sequence.\<close>

fun bindE :: "'e + 'a \<Rightarrow> ('a \<Rightarrow> 'e + 'b) \<Rightarrow> 'e + 'b" where
  "bindE (Inl e) f = Inl e"
| "bindE (Inr a) f = f a"

definition checkE :: "bool \<Rightarrow> string \<Rightarrow> Err \<Rightarrow> js_error + unit" where
  "checkE value message code = (if value then Inr () else Inl (CodeException message code))"

text \<open>A sub-object updated in place: run the statement on a field and write the field back.\<close>

definition on_field :: "('s \<Rightarrow> 'a) \<Rightarrow> ('a \<Rightarrow> 's \<Rightarrow> 's) \<Rightarrow> ('a \<Rightarrow> ('a, 'e) outcome) \<Rightarrow> 's \<Rightarrow> ('s, 'e) outcome"
where
  "on_field get put f s = (case f (get s) of (a, es, e) \<Rightarrow> (put a s, es, e))"

section \<open>Arrays\<close>

fun findIndex :: "('a \<Rightarrow> bool) \<Rightarrow> 'a list \<Rightarrow> nat option" where
  "findIndex P [] = None"
| "findIndex P (x # xs) = (if P x then Some 0 else map_option Suc (findIndex P xs))"

definition removeAt :: "nat \<Rightarrow> 'a list \<Rightarrow> 'a list" where
  "removeAt i xs = take i xs @ drop (Suc i) xs"

definition insertAt :: "nat \<Rightarrow> 'a \<Rightarrow> 'a list \<Rightarrow> 'a list" where
  "insertAt i x xs = take i xs @ x # drop i xs"

section \<open>Strings\<close>

definition startsWith :: "string \<Rightarrow> string \<Rightarrow> bool" where
  "startsWith s p = (take (length p) s = p)"

definition endsWith :: "string \<Rightarrow> string \<Rightarrow> bool" where
  "endsWith s p = (length p \<le> length s \<and> drop (length s - length p) s = p)"

definition slice :: "nat \<Rightarrow> nat \<Rightarrow> string \<Rightarrow> string" where
  "slice a b s = drop a (take b s)"

definition padEnd :: "string \<Rightarrow> nat \<Rightarrow> char \<Rightarrow> string" where
  "padEnd s n c = s @ replicate (n - length s) c"

definition char_lower :: "char \<Rightarrow> char" where
  "char_lower c = (let n = (of_char c :: nat) in if 65 \<le> n \<and> n \<le> 90 then char_of (n + 32) else c)"

definition toLowerCase :: "string \<Rightarrow> string" where
  "toLowerCase s = map char_lower s"

text \<open>Strings and optional strings as conditions: the empty string is falsy.\<close>

definition truthy :: "string option \<Rightarrow> bool" where
  "truthy s = (s \<noteq> None \<and> s \<noteq> Some [])"

section \<open>Lemmas on statements\<close>

declare pass_def [effect_simps] throw_def [effect_simps] emit_def [effect_simps]
  then_do_def [effect_simps] check_def [effect_simps] with_value_def [effect_simps]
  try_catch_def [effect_simps] on_field_def [effect_simps]

lemma andThen_state:
  "out_state (andThen r f) = (if out_error r = None then out_state (f (out_state r)) else out_state r)"
  by (auto simp: then_do_def split: prod.splits option.splits)

lemma andThen_error:
  "out_error (andThen r f) = (if out_error r = None then out_error (f (out_state r)) else out_error r)"
  by (auto simp: then_do_def split: prod.splits option.splits)

lemma andThen_inv:
  assumes "P (out_state r)" and "\<And>s. P s \<Longrightarrow> P (out_state (f s))"
  shows "P (out_state (andThen r f))"
  using assms by (simp add: andThen_state)

lemma for_each_inv:
  assumes "P s" and "\<And>x s. x \<in> set xs \<Longrightarrow> P s \<Longrightarrow> P (out_state (f x s))"
  shows "P (out_state (for_each f xs s))"
  using assms
proof (induction xs arbitrary: s)
  case Nil
  then show ?case by (simp add: pass_def)
next
  case (Cons x xs)
  show ?case unfolding for_each.simps
  proof (rule andThen_inv)
    show "P (out_state (f x s))" using Cons.prems by simp
    show "\<And>s. P s \<Longrightarrow> P (out_state (for_each f xs s))" using Cons.IH Cons.prems(2) by simp
  qed
qed

lemma for_each_append:
  "for_each f (xs @ ys) s = andThen (for_each f xs s) (for_each f ys)"
  by (induction xs arbitrary: s) (auto simp: effect_simps split: prod.splits option.splits)

lemma for_each_no_error:
  assumes "\<And>x s. x \<in> set xs \<Longrightarrow> out_error (f x s) = None"
  shows "out_error (for_each f xs s) = None"
  using assms
  by (induction xs arbitrary: s) (auto simp: andThen_error pass_def)

lemma for_each_fold:
  assumes "\<And>x s. x \<in> set xs \<Longrightarrow> out_error (f x s) = None"
  shows "out_state (for_each f xs s) = fold (\<lambda>x s. out_state (f x s)) xs s"
  using assms
  by (induction xs arbitrary: s) (auto simp: andThen_state pass_def)

lemma with_value_state [simp]:
  "out_state (with_value v f s) = (case v of Inl e \<Rightarrow> s | Inr a \<Rightarrow> out_state (f a s))"
  by (auto simp: effect_simps split: sum.splits)

lemma on_field_state [simp]: "out_state (on_field get put f s) = put (out_state (f (get s))) s"
  by (auto simp: on_field_def split: prod.splits)

lemma on_field_error [simp]: "out_error (on_field get put f s) = out_error (f (get s))"
  by (auto simp: on_field_def split: prod.splits)

lemma on_field_events [simp]: "out_events (on_field get put f s) = out_events (f (get s))"
  by (auto simp: on_field_def split: prod.splits)

lemma try_catch_state [simp]: "out_state (try_catch r) = out_state r"
  by (auto simp: try_catch_def split: prod.splits)

lemma try_catch_error [simp]: "out_error (try_catch r) = None"
  by (auto simp: try_catch_def split: prod.splits)

lemma out_basic [simp]:
  "out_state (pass s) = s" "out_error (pass s) = None" "out_events (pass s) = []"
  "out_state (throw e s) = s" "out_error (throw e s) = Some e" "out_events (throw e s) = []"
  "out_state (emit b v s) = s" "out_error (emit b v s) = None"
  "out_state (check c m k s) = s" "out_error (check c m k s) = None \<longleftrightarrow> c"
  by (auto simp: effect_simps)

lemma bindE_Inr: "bindE r f = Inr b \<longleftrightarrow> (\<exists>a. r = Inr a \<and> f a = Inr b)"
  by (cases r) auto

lemma checkE_Inr [simp]: "checkE v m c = Inr u \<longleftrightarrow> v"
  by (simp add: checkE_def)

lemma checkE_True [simp]: "checkE True m c = Inr ()"
  by (simp add: checkE_def)

section \<open>A stepping component and its invariant\<close>

text \<open>
  Every component of the program is driven by a stream of inputs. The locale states what a
  component promises (its operations keep its invariant) and gives its client the invariant in
  every state that a sequence of inputs reaches.
\<close>

definition run :: "('i \<Rightarrow> 's \<Rightarrow> ('s, 'e) outcome) \<Rightarrow> 'i list \<Rightarrow> 's \<Rightarrow> 's" where
  "run step inputs s = fold (\<lambda>i s. out_state (step i s)) inputs s"

fun legal_run :: "('i \<Rightarrow> 's \<Rightarrow> ('s, 'e) outcome) \<Rightarrow> ('i \<Rightarrow> 's \<Rightarrow> bool) \<Rightarrow> 'i list \<Rightarrow> 's \<Rightarrow> bool" where
  "legal_run step legal [] s = True"
| "legal_run step legal (i # inputs) s = (legal i s \<and> legal_run step legal inputs (out_state (step i s)))"

lemma run_simps [simp]:
  "run step [] s = s" "run step (i # inputs) s = run step inputs (out_state (step i s))"
  "run step (inputs @ inputs') s = run step inputs' (run step inputs s)"
  by (simp_all add: run_def)

lemma legal_run_True [simp]: "legal_run step (\<lambda>_ _. True) inputs s"
  by (induction inputs arbitrary: s) simp_all

locale stepping =
  fixes step :: "'i \<Rightarrow> 's \<Rightarrow> ('s, 'e) outcome"
    and inv :: "'s \<Rightarrow> bool"
    and legal :: "'i \<Rightarrow> 's \<Rightarrow> bool"
  assumes step_inv: "inv s \<Longrightarrow> legal i s \<Longrightarrow> inv (out_state (step i s))"
begin

lemma run_inv:
  assumes "inv s" and "legal_run step legal inputs s"
  shows "inv (run step inputs s)"
  using assms by (induction inputs arbitrary: s) (auto intro: step_inv)

lemma for_each_step_inv:
  assumes "inv s" and "\<And>i s. i \<in> set inputs \<Longrightarrow> inv s \<Longrightarrow> legal i s"
  shows "inv (out_state (for_each step inputs s))"
  using assms by (intro for_each_inv [where P = inv]) (auto intro: step_inv)

end

section \<open>Lemmas on arrays and strings\<close>

lemma findIndex_None: "findIndex P xs = None \<longleftrightarrow> (\<forall>x \<in> set xs. \<not> P x)"
  by (induction xs) auto

lemma findIndex_Some:
  "findIndex P xs = Some i \<longleftrightarrow> i < length xs \<and> P (xs ! i) \<and> (\<forall>j < i. \<not> P (xs ! j))"
proof (induction xs arbitrary: i)
  case Nil
  then show ?case by simp
next
  case (Cons x xs)
  show ?case
  proof (cases i)
    case 0
    then show ?thesis by auto
  next
    case (Suc k)
    have "(\<forall>j < Suc k. \<not> P ((x # xs) ! j)) \<longleftrightarrow> \<not> P x \<and> (\<forall>j < k. \<not> P (xs ! j))"
      by (simp add: All_less_Suc2)
    then show ?thesis using Cons.IH [of k] Suc by auto
  qed
qed

lemma removeAt_split:
  assumes "i < length xs"
  obtains ys zs where "xs = ys @ xs ! i # zs" "length ys = i" "removeAt i xs = ys @ zs"
  using assms id_take_nth_drop [of i xs] that [of "take i xs" "drop (Suc i) xs"]
  by (simp add: removeAt_def)

lemma set_removeAt: "set (removeAt i xs) \<subseteq> set xs"
  by (auto simp: removeAt_def dest: in_set_takeD in_set_dropD)

lemma mset_removeAt: "i < length xs \<Longrightarrow> mset (removeAt i xs) = mset xs - {#xs ! i#}"
  by (elim removeAt_split) (metis add_mset_remove_trivial mset_append mset.simps(2) union_mset_add_mset_right)

lemma set_insertAt [simp]: "set (insertAt i x xs) = insert x (set xs)"
proof -
  have "set xs = set (take i xs) \<union> set (drop i xs)"
    by (metis append_take_drop_id set_append)
  then show ?thesis by (auto simp: insertAt_def)
qed

lemma mset_insertAt: "mset (insertAt i x xs) = add_mset x (mset xs)"
proof -
  have "mset xs = mset (take i xs) + mset (drop i xs)"
    by (metis append_take_drop_id mset_append)
  then show ?thesis by (simp add: insertAt_def)
qed

lemma length_toLowerCase [simp]: "length (toLowerCase s) = length s"
  by (simp add: toLowerCase_def)

lemma toLowerCase_append [simp]: "toLowerCase (s @ t) = toLowerCase s @ toLowerCase t"
  by (simp add: toLowerCase_def)

lemma startsWith_append [simp]: "startsWith (p @ s) p"
  by (simp add: startsWith_def)

end
