(* ===== verification/Externs.thy ===== *)
theory Externs
  imports Prelude
begin

text \<open>
  The functions of third-party packages that the sources call (ethereum-cryptography, ethers,
  the protobuf runtime), gathered in one record that is the first argument of every definition
  that uses one, the documented laws the code relies on as named predicates, and
  \<open>core/dlog/src/binary.ts\<close>, which wraps them. A concrete instance with the laws proved for it
  shows that they can hold together.
\<close>

section \<open>Messages carried as JSON\<close>

text \<open>
  The messages of \<open>protocol/payloads.proto\<close> that travel encrypted and are read with the
  generated \<open>fromJsonString\<close>. The content of a post is kept in its serialised form.
\<close>

datatype ChannelMessage =
    CM_post string
  | CM_reaction string string
  | CM_edit string string
  | CM_redaction string "string option"
  | CM_undefined

record ChannelProperties =
  cp_name :: string
  cp_topic :: string

record FullyReadMarker =
  frm_channelId :: string
  frm_threadParentId :: "string option"
  frm_eventId :: string
  frm_eventNum :: bigint
  frm_beginUnreadWindow :: bigint
  frm_endUnreadWindow :: bigint
  frm_isUnread :: bool
  frm_markedReadAtTs :: bigint
  frm_mentions :: int

type_synonym FullyReadMarkers = "(string \<times> FullyReadMarker) list"

section \<open>The packages' functions\<close>

record externs =
  x_bytesToHex :: "bytes \<Rightarrow> string"
  x_hexToBytes :: "string \<Rightarrow> js_error + bytes"
  x_equalsBytes :: "bytes \<Rightarrow> bytes \<Rightarrow> bool"
  x_utf8ToBytes :: "string \<Rightarrow> bytes"
  x_bytesToUtf8 :: "bytes \<Rightarrow> string"
  x_base64Enc :: "bytes \<Rightarrow> string"
  x_base64Dec :: "string \<Rightarrow> js_error + bytes"
  x_keccak256 :: "bytes \<Rightarrow> bytes"
  x_getAddress :: "string \<Rightarrow> js_error + string"
  x_isAddress :: "string \<Rightarrow> bool"
  x_arrayify :: "string \<Rightarrow> js_error + bytes"
  x_channelMessageFromJson :: "string \<Rightarrow> js_error + ChannelMessage"
  x_channelPropertiesFromJson :: "string \<Rightarrow> js_error + ChannelProperties"
  x_fullyReadMarkersFromJson :: "string \<Rightarrow> js_error + FullyReadMarkers"
  x_sessionKeysFromJson :: "string \<Rightarrow> js_error + string list"

definition is_hex_digit :: "char \<Rightarrow> bool" where
  "is_hex_digit c = (c \<in> set ''0123456789abcdef'')"

text \<open>The test \<open>/^[0-9a-f]*$/\<close>.\<close>

definition isLowercaseHex :: "string \<Rightarrow> bool" where
  "isLowercaseHex s = list_all is_hex_digit s"

text \<open>
  \<open>bytesToHex\<close> writes two lower-case digits per byte and \<open>hexToBytes\<close> reads them back;
  \<open>equalsBytes\<close> compares byte by byte; a keccak digest has 32 bytes.
\<close>

definition hex_codec :: "externs \<Rightarrow> bool" where
  "hex_codec x =
     ((\<forall>b. isLowercaseHex (x_bytesToHex x b) \<and> length (x_bytesToHex x b) = 2 * length b) \<and>
      (\<forall>b. x_hexToBytes x (x_bytesToHex x b) = Inr b))"

definition equals_bytes_law :: "externs \<Rightarrow> bool" where
  "equals_bytes_law x = (\<forall>a b. x_equalsBytes x a b = (a = b))"

definition keccak_law :: "externs \<Rightarrow> bool" where
  "keccak_law x = (\<forall>b. length (x_keccak256 x b) = 32)"

text \<open>
  \<open>getAddress\<close> accepts 40 hexadecimal digits with or without the prefix and returns the prefixed
  address with checksum casing, which it accepts unchanged; \<open>isAddress\<close> tells whether it accepts;
  \<open>arrayify\<close> reads a prefixed hexadecimal string of either case.
\<close>

definition address_codec :: "externs \<Rightarrow> bool" where
  "address_codec x =
     ((\<forall>s. length s = 40 \<and> isLowercaseHex s \<longrightarrow>
         (\<exists>d. x_getAddress x s = Inr (''0x'' @ d) \<and> x_getAddress x (''0x'' @ s) = Inr (''0x'' @ d) \<and>
              toLowerCase d = s)) \<and>
      (\<forall>s a. x_getAddress x s = Inr a \<longrightarrow> x_getAddress x a = Inr a) \<and>
      (\<forall>s. x_isAddress x s = (\<exists>a. x_getAddress x s = Inr a)) \<and>
      (\<forall>d b. toLowerCase d = x_bytesToHex x b \<longrightarrow> x_arrayify x (''0x'' @ d) = Inr b))"

definition externs_laws :: "externs \<Rightarrow> bool" where
  "externs_laws x = (hex_codec x \<and> equals_bytes_law x \<and> keccak_law x \<and> address_codec x)"

section \<open>binary.ts\<close>

definition bin_fromBase64 :: "externs \<Rightarrow> string \<Rightarrow> js_error + bytes" where
  "bin_fromBase64 x base64String = x_base64Dec x base64String"

definition bin_toBase64 :: "externs \<Rightarrow> bytes \<Rightarrow> string" where
  "bin_toBase64 x uint8Array = x_base64Enc x uint8Array"

definition bin_fromHexString :: "externs \<Rightarrow> string \<Rightarrow> js_error + bytes" where
  "bin_fromHexString x hexString = x_hexToBytes x hexString"

definition bin_toHexString :: "externs \<Rightarrow> bytes \<Rightarrow> string" where
  "bin_toHexString x uint8Array = x_bytesToHex x uint8Array"

definition bin_fromString :: "externs \<Rightarrow> string \<Rightarrow> bytes" where
  "bin_fromString x str = x_utf8ToBytes x str"

definition bin_toString :: "externs \<Rightarrow> bytes \<Rightarrow> string" where
  "bin_toString x buf = x_bytesToUtf8 x buf"

definition slice_last :: "nat \<Rightarrow> string \<Rightarrow> string" where
  "slice_last n s = drop (length s - n) s"

definition shortenHexString :: "string \<Rightarrow> string" where
  "shortenHexString s =
     (if startsWith s ''0x'' then
        (if length s > 12 then slice 0 6 s @ ''..'' @ slice_last 4 s else s)
      else
        (if length s > 10 then slice 0 4 s @ ''..'' @ slice_last 4 s else s))"

definition isHexString :: "string \<Rightarrow> bool" where
  "isHexString value =
     (if length value = 0 \<or> odd (length value) then False
      else
        let digits = (if startsWith value ''0x'' then drop 2 value else value)
        in digits \<noteq> [] \<and> list_all (\<lambda>c. c \<in> set ''0123456789abcdefABCDEF'') digits)"

text \<open>A byte array that may be \<open>undefined\<close> or \<open>null\<close> is \<open>None\<close> in either case.\<close>

definition bin_equal :: "externs \<Rightarrow> bytes option \<Rightarrow> bytes option \<Rightarrow> bool" where
  "bin_equal x a b =
     (if (case a of None \<Rightarrow> True | Some v \<Rightarrow> length v = 0) \<and>
         (case b of None \<Rightarrow> True | Some v \<Rightarrow> length v = 0)
      then True
      else (case (a, b) of (Some v, Some w) \<Rightarrow> x_equalsBytes x v w | _ \<Rightarrow> False))"

text \<open>The comparison the sources mean: absent and empty are the same.\<close>

definition bytes_or_empty :: "bytes option \<Rightarrow> bytes" where
  "bytes_or_empty a = (case a of None \<Rightarrow> [] | Some v \<Rightarrow> v)"

section \<open>A concrete instance\<close>

definition hex_digit :: "nat \<Rightarrow> char" where
  "hex_digit n = (''0123456789abcdef'' ! n)"

definition hex_value :: "char \<Rightarrow> nat option" where
  "hex_value c = findIndex (\<lambda>d. d = char_lower c) ''0123456789abcdef''"

fun to_hex :: "bytes \<Rightarrow> string" where
  "to_hex [] = []"
| "to_hex (b # bs) = hex_digit (unat b div 16) # hex_digit (unat b mod 16) # to_hex bs"

fun from_hex :: "string \<Rightarrow> js_error + bytes" where
  "from_hex [] = Inr []"
| "from_hex [c] = Inl (LibError ''odd length'')"
| "from_hex (c # d # s) =
     (case (hex_value c, hex_value d) of
        (Some m, Some n) \<Rightarrow> bindE (from_hex s) (\<lambda>bs. Inr (of_nat (16 * m + n) # bs))
      | _ \<Rightarrow> Inl (LibError ''not a digit''))"

definition strip_0x :: "string \<Rightarrow> string" where
  "strip_0x s = (if startsWith s ''0x'' then drop 2 s else s)"

definition sample_getAddress :: "string \<Rightarrow> js_error + string" where
  "sample_getAddress s =
     (let d = toLowerCase (strip_0x s)
      in if length d = 40 \<and> isLowercaseHex d then Inr (''0x'' @ d)
         else Inl (LibError ''invalid address''))"

definition sample_externs :: externs where
  "sample_externs = \<lparr>
     x_bytesToHex = to_hex,
     x_hexToBytes = (\<lambda>s. from_hex (strip_0x s)),
     x_equalsBytes = (\<lambda>a b. a = b),
     x_utf8ToBytes = map (\<lambda>c. of_nat (of_char c)),
     x_bytesToUtf8 = map (\<lambda>b. char_of (unat b)),
     x_base64Enc = to_hex,
     x_base64Dec = from_hex,
     x_keccak256 = (\<lambda>b. take 32 (b @ replicate 32 0)),
     x_getAddress = sample_getAddress,
     x_isAddress = (\<lambda>s. \<not> isl (sample_getAddress s)),
     x_arrayify = (\<lambda>s. from_hex (toLowerCase (strip_0x s))),
     x_channelMessageFromJson =
       (\<lambda>s. if s = [] then Inl (LibError ''bad json'') else Inr (CM_post s)),
     x_channelPropertiesFromJson =
       (\<lambda>s. if s = [] then Inl (LibError ''bad json'') else Inr \<lparr>cp_name = s, cp_topic = []\<rparr>),
     x_fullyReadMarkersFromJson =
       (\<lambda>s. if s = [] then Inl (LibError ''bad json'') else Inr []),
     x_sessionKeysFromJson =
       (\<lambda>s. if s = [] then Inl (LibError ''bad json'') else Inr [s])\<rparr>"

section \<open>Lemmas\<close>

lemma isLowercaseHex_append [simp]:
  "isLowercaseHex (s @ t) \<longleftrightarrow> isLowercaseHex s \<and> isLowercaseHex t"
  by (simp add: isLowercaseHex_def)

lemma isLowercaseHex_replicate [simp]: "isLowercaseHex (replicate n CHR ''0'')"
  by (induction n) (auto simp: isLowercaseHex_def is_hex_digit_def)

lemma isLowercaseHex_take: "isLowercaseHex s \<Longrightarrow> isLowercaseHex (take n s)"
  by (auto simp: isLowercaseHex_def list_all_iff dest: in_set_takeD)

lemma isLowercaseHex_drop: "isLowercaseHex s \<Longrightarrow> isLowercaseHex (drop n s)"
  by (auto simp: isLowercaseHex_def list_all_iff dest: in_set_dropD)

lemma char_lower_hex_digit: "is_hex_digit c \<Longrightarrow> char_lower c = c"
  unfolding is_hex_digit_def by (auto simp: char_lower_def)

lemma toLowerCase_hex [simp]: "isLowercaseHex s \<Longrightarrow> toLowerCase s = s"
  by (auto simp: toLowerCase_def isLowercaseHex_def list_all_iff char_lower_hex_digit
      intro: map_idI)

lemma toLowerCase_0x [simp]: "toLowerCase (CHR ''0'' # CHR ''x'' # s) = CHR ''0'' # CHR ''x'' # toLowerCase s"
  by (simp add: toLowerCase_def char_lower_def)

lemma hex_no_0x: "isLowercaseHex s \<Longrightarrow> \<not> startsWith s ''0x''"
  by (cases s; cases "tl s") (auto simp: startsWith_def isLowercaseHex_def is_hex_digit_def)

lemma bin_equal_iff:
  "equals_bytes_law x \<Longrightarrow> bin_equal x a b \<longleftrightarrow> bytes_or_empty a = bytes_or_empty b"
  by (auto simp: bin_equal_def bytes_or_empty_def equals_bytes_law_def split: option.splits)

lemma hex_digit_hex: "n < 16 \<Longrightarrow> is_hex_digit (hex_digit n)"
  unfolding hex_digit_def is_hex_digit_def by (intro nth_mem) simp

lemma hex_value_digit:
  assumes "n < 16"
  shows "hex_value (hex_digit n) = Some n"
proof -
  have "list_all (\<lambda>n. hex_value (hex_digit n) = Some n) [0..<16]" by code_simp
  then show ?thesis using assms by (simp add: list_all_iff)
qed

lemma unat_byte_less: "unat (b :: 8 word) < 256"
  using unsigned_less [of b, where ?'a = nat] by simp

lemma to_hex_laws:
  "isLowercaseHex (to_hex b)" "length (to_hex b) = 2 * length b" "from_hex (to_hex b) = Inr b"
proof (induction b)
  case (Cons w b)
  have d: "unat w div 16 < 16" using unat_byte_less [of w] by simp
  note h = hex_value_digit [OF d] hex_value_digit [of "unat w mod 16"]
  { case 1 then show ?case using Cons hex_digit_hex [OF d] hex_digit_hex [of "unat w mod 16"]
      by (simp add: isLowercaseHex_def) }
  { case 2 then show ?case using Cons by simp }
  { case 3
    have "word_of_nat (16 * (unat w div 16) + unat w mod 16) = w" by simp
    then show ?case using Cons h by simp }
qed (simp_all add: isLowercaseHex_def)

lemma char_lower_idem [simp]: "char_lower (char_lower c) = char_lower c"
proof (cases "65 \<le> (of_char c :: nat) \<and> (of_char c :: nat) \<le> 90")
  case True
  then show ?thesis by (simp add: char_lower_def)
next
  case False
  then show ?thesis by (auto simp: char_lower_def Let_def)
qed

lemma toLowerCase_idem [simp]: "toLowerCase (toLowerCase s) = toLowerCase s"
  by (simp add: toLowerCase_def)

lemma strip_0x_0x [simp]: "strip_0x (CHR ''0'' # CHR ''x'' # s) = s"
  by (simp add: strip_0x_def startsWith_def)

lemma strip_0x_hex [simp]: "isLowercaseHex s \<Longrightarrow> strip_0x s = s"
  by (simp add: strip_0x_def hex_no_0x)

lemma sample_laws: "externs_laws sample_externs"
proof -
  have "hex_codec sample_externs"
    by (simp add: hex_codec_def sample_externs_def to_hex_laws)
  moreover have "equals_bytes_law sample_externs" "keccak_law sample_externs"
    by (simp_all add: equals_bytes_law_def keccak_law_def sample_externs_def min_def)
  moreover have "address_codec sample_externs"
    unfolding address_codec_def
    by (auto simp: sample_externs_def sample_getAddress_def Let_def to_hex_laws
        split: if_splits)
  ultimately show ?thesis by (simp add: externs_laws_def)
qed

end
