(* ===== verification/Ids.thy ===== *)
theory Ids
  imports Externs
begin

text \<open>
  Stream and user identifiers: \<open>core/sdk/src/id.ts\<close> and the hashing helpers of
  \<open>core/sdk/src/utils.ts\<close>. A stream id is 64 lower-case hexadecimal digits, the first two of
  which name the kind of stream; a user id is a checksummed Ethereum address.
\<close>

definition STREAM_ID_BYTES_LENGTH :: nat where
  "STREAM_ID_BYTES_LENGTH = 32"

definition STREAM_ID_STRING_LENGTH :: nat where
  "STREAM_ID_STRING_LENGTH = STREAM_ID_BYTES_LENGTH * 2"

section \<open>utils.ts\<close>

definition hashString :: "externs \<Rightarrow> string \<Rightarrow> string" where
  "hashString x s = bin_toHexString x (x_keccak256 x (x_utf8ToBytes x s))"

definition usernameChecksum :: "externs \<Rightarrow> string \<Rightarrow> string \<Rightarrow> string" where
  "usernameChecksum x username streamId = hashString x (toLowerCase username @ '':'' @ streamId)"

section \<open>User ids and raw conversions\<close>

text \<open>An argument of type \<open>string | Uint8Array\<close>.\<close>

datatype id_arg = StringId string | BytesId bytes

definition userIdFromAddress :: "externs \<Rightarrow> bytes \<Rightarrow> js_error + string" where
  "userIdFromAddress x address = x_getAddress x (bin_toHexString x address)"

definition addressFromUserId :: "externs \<Rightarrow> string \<Rightarrow> js_error + bytes" where
  "addressFromUserId x userId =
     bindE (x_getAddress x userId) (\<lambda>normalizedAddress. x_arrayify x normalizedAddress)"

definition streamIdToBytes :: "externs \<Rightarrow> string \<Rightarrow> js_error + bytes" where
  "streamIdToBytes x streamId = bin_fromHexString x streamId"

definition streamIdFromBytes :: "externs \<Rightarrow> bytes \<Rightarrow> string" where
  "streamIdFromBytes x b = bin_toHexString x b"

definition streamIdAsString :: "externs \<Rightarrow> id_arg \<Rightarrow> string" where
  "streamIdAsString x streamId =
     (case streamId of StringId s \<Rightarrow> s | BytesId b \<Rightarrow> streamIdFromBytes x b)"

definition streamIdAsBytes :: "externs \<Rightarrow> id_arg \<Rightarrow> js_error + bytes" where
  "streamIdAsBytes x streamId =
     (case streamId of StringId s \<Rightarrow> streamIdToBytes x s | BytesId b \<Rightarrow> Inr b)"

definition isUserId :: "externs \<Rightarrow> id_arg \<Rightarrow> bool" where
  "isUserId x userId =
     (case userId of BytesId b \<Rightarrow> length b = 20 | StringId s \<Rightarrow> x_isAddress x s)"

section \<open>Prefixes and the parts of a stream id\<close>

datatype StreamPrefix = Channel | DM | GDM | Media | Space | User | UserDevice | UserInbox
  | UserSettings

fun prefixValue :: "StreamPrefix \<Rightarrow> string" where
  "prefixValue Channel = ''20''"
| "prefixValue DM = ''88''"
| "prefixValue GDM = ''77''"
| "prefixValue Media = ''ff''"
| "prefixValue Space = ''10''"
| "prefixValue User = ''a8''"
| "prefixValue UserDevice = ''ad''"
| "prefixValue UserInbox = ''a1''"
| "prefixValue UserSettings = ''a5''"

definition allowedStreamPrefixes :: "StreamPrefix list" where
  "allowedStreamPrefixes = [Channel, DM, GDM, Media, Space, User, UserDevice, UserInbox, UserSettings]"

fun expectedIdentityLenByPrefix :: "StreamPrefix \<Rightarrow> nat" where
  "expectedIdentityLenByPrefix User = 40"
| "expectedIdentityLenByPrefix UserDevice = 40"
| "expectedIdentityLenByPrefix UserSettings = 40"
| "expectedIdentityLenByPrefix UserInbox = 40"
| "expectedIdentityLenByPrefix Space = 40"
| "expectedIdentityLenByPrefix Channel = 62"
| "expectedIdentityLenByPrefix Media = 62"
| "expectedIdentityLenByPrefix DM = 62"
| "expectedIdentityLenByPrefix GDM = 62"

text \<open>The enum member a two-character string denotes, if it denotes one.\<close>

definition prefixOf :: "string \<Rightarrow> StreamPrefix option" where
  "prefixOf s = find (\<lambda>p. prefixValue p = s) allowedStreamPrefixes"

definition areValidStreamIdParts :: "string \<Rightarrow> string \<Rightarrow> bool" where
  "areValidStreamIdParts prefix identity =
     (case prefixOf prefix of
        None \<Rightarrow> False
      | Some p \<Rightarrow>
          if \<not> isLowercaseHex identity then False
          else if length identity \<noteq> expectedIdentityLenByPrefix p then
            (if length identity \<noteq> 62 then False
             else list_all (\<lambda>i. identity ! i = CHR ''0'')
                    [expectedIdentityLenByPrefix p..<length identity])
          else True)"

definition isValidStreamId :: "string \<Rightarrow> bool" where
  "isValidStreamId streamId = areValidStreamIdParts (slice 0 2 streamId) (drop 2 streamId)"

definition checkStreamId :: "string \<Rightarrow> js_error + unit" where
  "checkStreamId streamId = checkE (isValidStreamId streamId) ''Invalid stream id'' ERR_UNSPECIFIED"

section \<open>Making stream ids\<close>

definition makeStreamId :: "StreamPrefix \<Rightarrow> string \<Rightarrow> js_error + string" where
  "makeStreamId prefix identity0 =
     (let identity1 = toLowerCase identity0;
          identity = (if startsWith identity1 ''0x'' then drop 2 identity1 else identity1)
      in bindE (checkE (areValidStreamIdParts (prefixValue prefix) identity)
                  ''Invalid stream id parts'' ERR_UNSPECIFIED)
           (\<lambda>_. Inr (padEnd (prefixValue prefix @ identity) STREAM_ID_STRING_LENGTH CHR ''0'')))"

text \<open>The common body of the four \<open>makeUser...StreamId\<close> functions.\<close>

definition makeUserScopedStreamId :: "StreamPrefix \<Rightarrow> externs \<Rightarrow> id_arg \<Rightarrow> js_error + string" where
  "makeUserScopedStreamId prefix x userId =
     bindE (checkE (isUserId x userId) ''Invalid user id'' ERR_UNSPECIFIED)
       (\<lambda>_. bindE (case userId of BytesId b \<Rightarrow> userIdFromAddress x b | StringId s \<Rightarrow> Inr s)
              (makeStreamId prefix))"

definition makeUserStreamId :: "externs \<Rightarrow> id_arg \<Rightarrow> js_error + string" where
  "makeUserStreamId = makeUserScopedStreamId User"

definition makeUserSettingsStreamId :: "externs \<Rightarrow> id_arg \<Rightarrow> js_error + string" where
  "makeUserSettingsStreamId = makeUserScopedStreamId UserSettings"

definition makeUserDeviceKeyStreamId :: "externs \<Rightarrow> id_arg \<Rightarrow> js_error + string" where
  "makeUserDeviceKeyStreamId = makeUserScopedStreamId UserDevice"

definition makeUserInboxStreamId :: "externs \<Rightarrow> id_arg \<Rightarrow> js_error + string" where
  "makeUserInboxStreamId = makeUserScopedStreamId UserInbox"

definition makeSpaceStreamId :: "string \<Rightarrow> js_error + string" where
  "makeSpaceStreamId spaceContractAddress = makeStreamId Space spaceContractAddress"

text \<open>\<open>hexNanoId\<close> is the random generator of the nanoid package; its default size is 62.\<close>

definition genId :: "(nat \<Rightarrow> string) \<Rightarrow> nat option \<Rightarrow> string" where
  "genId hexNanoId sz = hexNanoId (case sz of Some n \<Rightarrow> n | None \<Rightarrow> 62)"

definition makeUniqueChannelStreamId :: "(nat \<Rightarrow> string) \<Rightarrow> string \<Rightarrow> js_error + string" where
  "makeUniqueChannelStreamId hexNanoId spaceId =
     makeStreamId Channel (slice 2 42 spaceId @ genId hexNanoId (Some 22))"

definition makeDefaultChannelStreamId :: "string \<Rightarrow> js_error + string" where
  "makeDefaultChannelStreamId spaceContractAddressOrId =
     (if startsWith spaceContractAddressOrId (prefixValue Space)
      then Inr (prefixValue Channel @ drop 2 spaceContractAddressOrId)
      else makeStreamId Channel (spaceContractAddressOrId @ replicate 22 CHR ''0''))"

definition isDefaultChannelId :: "string \<Rightarrow> bool" where
  "isDefaultChannelId streamId =
     (if slice 0 2 streamId \<noteq> prefixValue Channel then False
      else endsWith streamId (replicate 22 CHR ''0''))"

definition makeUniqueGDMChannelStreamId :: "(nat \<Rightarrow> string) \<Rightarrow> js_error + string" where
  "makeUniqueGDMChannelStreamId hexNanoId = makeStreamId GDM (genId hexNanoId None)"

definition makeUniqueMediaStreamId :: "(nat \<Rightarrow> string) \<Rightarrow> js_error + string" where
  "makeUniqueMediaStreamId hexNanoId = makeStreamId Media (genId hexNanoId None)"

text \<open>\<open>[a, b].map(toLowerCase).sort().join('-')\<close>.\<close>

definition join_dash :: "string list \<Rightarrow> string" where
  "join_dash ss = concat (case ss of [] \<Rightarrow> [] | s # rest \<Rightarrow> s # map (\<lambda>t. ''-'' @ t) rest)"

definition makeDMStreamId :: "externs \<Rightarrow> string \<Rightarrow> string \<Rightarrow> js_error + string" where
  "makeDMStreamId x userIdA userIdB =
     (let concatenated = join_dash (sort (map toLowerCase [userIdA, userIdB]));
          hashed = hashString x concatenated
      in makeStreamId DM (slice 0 62 hashed))"

section \<open>Recognising stream ids\<close>

definition hasPrefix :: "StreamPrefix \<Rightarrow> externs \<Rightarrow> id_arg \<Rightarrow> bool" where
  "hasPrefix prefix x streamId = startsWith (streamIdAsString x streamId) (prefixValue prefix)"

definition isUserStreamId :: "externs \<Rightarrow> id_arg \<Rightarrow> bool" where
  "isUserStreamId = hasPrefix User"

definition isSpaceStreamId :: "externs \<Rightarrow> id_arg \<Rightarrow> bool" where
  "isSpaceStreamId = hasPrefix Space"

definition isChannelStreamId :: "externs \<Rightarrow> id_arg \<Rightarrow> bool" where
  "isChannelStreamId = hasPrefix Channel"

definition isDMChannelStreamId :: "externs \<Rightarrow> id_arg \<Rightarrow> bool" where
  "isDMChannelStreamId = hasPrefix DM"

definition isUserDeviceStreamId :: "externs \<Rightarrow> id_arg \<Rightarrow> bool" where
  "isUserDeviceStreamId = hasPrefix UserDevice"

definition isUserSettingsStreamId :: "externs \<Rightarrow> id_arg \<Rightarrow> bool" where
  "isUserSettingsStreamId = hasPrefix UserSettings"

definition isMediaStreamId :: "externs \<Rightarrow> id_arg \<Rightarrow> bool" where
  "isMediaStreamId = hasPrefix Media"

definition isGDMChannelStreamId :: "externs \<Rightarrow> id_arg \<Rightarrow> bool" where
  "isGDMChannelStreamId = hasPrefix GDM"

definition isUserInboxStreamId :: "externs \<Rightarrow> id_arg \<Rightarrow> bool" where
  "isUserInboxStreamId = hasPrefix UserInbox"

definition getUserAddressFromStreamId :: "externs \<Rightarrow> string \<Rightarrow> js_error + bytes" where
  "getUserAddressFromStreamId x streamId =
     (let prefix = slice 0 2 streamId
      in if prefix \<noteq> prefixValue User \<and> prefix \<noteq> prefixValue UserDevice \<and>
            prefix \<noteq> prefixValue UserSettings \<and> prefix \<noteq> prefixValue UserInbox
         then Inl (JsError ''Invalid stream id'')
         else if length streamId \<noteq> STREAM_ID_STRING_LENGTH \<or> \<not> isLowercaseHex streamId
         then Inl (JsError ''Invalid stream id format'')
         else
           let addressPart = slice 2 42 streamId;
               paddingPart = drop 42 streamId
           in if paddingPart \<noteq> replicate 22 CHR ''0''
              then Inl (JsError ''Invalid stream id padding'')
              else addressFromUserId x (''0x'' @ addressPart))"

definition getUserIdFromStreamId :: "externs \<Rightarrow> string \<Rightarrow> js_error + string" where
  "getUserIdFromStreamId x streamId =
     bindE (getUserAddressFromStreamId x streamId) (userIdFromAddress x)"

section \<open>Lemmas\<close>

lemma prefixOf_value [simp]: "prefixOf (prefixValue p) = Some p"
  by (cases p) (simp_all add: prefixOf_def allowedStreamPrefixes_def)

lemma prefixOf_Some: "prefixOf s = Some p \<longleftrightarrow> s = prefixValue p"
  using prefixOf_value [of p] by (auto simp: prefixOf_def find_Some_iff)

lemma length_prefixValue [simp]: "length (prefixValue p) = 2"
  by (cases p) simp_all

lemma prefixValue_hex [simp]: "isLowercaseHex (prefixValue p)"
  by (cases p) (simp_all add: isLowercaseHex_def is_hex_digit_def)

lemma prefixValue_inj: "prefixValue p = prefixValue q \<longleftrightarrow> p = q"
  by (metis option.inject prefixOf_value)

lemma expectedLen_le: "expectedIdentityLenByPrefix p \<le> 62"
  by (cases p) simp_all

lemma slice_prefix [simp]: "slice 0 2 (prefixValue p @ s) = prefixValue p"
  by (simp add: slice_def)

lemma drop_prefix [simp]: "drop 2 (prefixValue p @ s) = s"
  by simp

lemma startsWith_prefix [simp]: "startsWith (prefixValue p @ s) (prefixValue q) \<longleftrightarrow> p = q"
  by (auto simp: startsWith_def prefixValue_inj)

text \<open>What the check on the parts of an id accepts, stated without the loop.\<close>

lemma areValidStreamIdParts_iff:
  "areValidStreamIdParts (prefixValue p) s \<longleftrightarrow>
     isLowercaseHex s \<and>
     (length s = expectedIdentityLenByPrefix p \<or>
      length s = 62 \<and> drop (expectedIdentityLenByPrefix p) s =
        replicate (62 - expectedIdentityLenByPrefix p) CHR ''0'')"
proof -
  have "list_all (\<lambda>i. s ! i = CHR ''0'') [n..<length s] \<longleftrightarrow> drop n s = replicate (length s - n) CHR ''0''"
    if "n \<le> length s" for n
    using that by (auto simp: list_all_iff list_eq_iff_nth_eq)
      (metis add_diff_inverse_nat diff_less_mono linorder_not_less)
  then show ?thesis
    using expectedLen_le [of p] by (auto simp: areValidStreamIdParts_def)
qed

lemma makeStreamId_hex:
  assumes "isLowercaseHex s"
  shows "makeStreamId p s =
    (if areValidStreamIdParts (prefixValue p) s
     then Inr (prefixValue p @ s @ replicate (62 - length s) CHR ''0'')
     else Inl (CodeException ''Invalid stream id parts'' ERR_UNSPECIFIED))"
  using assms hex_no_0x [OF assms]
  by (simp add: makeStreamId_def checkE_def padEnd_def STREAM_ID_STRING_LENGTH_def
      STREAM_ID_BYTES_LENGTH_def)

lemma makeStreamId_0x:
  assumes "toLowerCase d = s" "isLowercaseHex s"
  shows "makeStreamId p (''0x'' @ d) = makeStreamId p s"
  using assms hex_no_0x [OF assms(2)]
  by (simp add: makeStreamId_def) (simp add: startsWith_def)

lemma makeStreamId_Inr:
  assumes "makeStreamId p s = Inr i"
  obtains d where "isLowercaseHex d" "areValidStreamIdParts (prefixValue p) d"
    "i = prefixValue p @ d @ replicate (62 - length d) CHR ''0''"
proof -
  let ?s1 = "toLowerCase s"
  let ?d = "if startsWith ?s1 ''0x'' then drop 2 ?s1 else ?s1"
  have v: "areValidStreamIdParts (prefixValue p) ?d"
    and i: "i = prefixValue p @ ?d @ replicate (62 - length ?d) CHR ''0''"
    using assms by (auto simp: makeStreamId_def Let_def bindE_Inr padEnd_def
        STREAM_ID_STRING_LENGTH_def STREAM_ID_BYTES_LENGTH_def split: if_splits)
  then show ?thesis using that [of ?d] by (simp add: areValidStreamIdParts_iff)
qed

lemma padded_identity:
  assumes "areValidStreamIdParts (prefixValue p) d"
  shows "areValidStreamIdParts (prefixValue p) (d @ replicate (62 - length d) CHR ''0'')"
    and "length (d @ replicate (62 - length d) CHR ''0'') = 62"
  using assms expectedLen_le [of p] by (auto simp: areValidStreamIdParts_iff)

lemma address_hex:
  assumes "hex_codec x" "length b = 20"
  shows "isLowercaseHex (x_bytesToHex x b)" "length (x_bytesToHex x b) = 40"
  using assms by (simp_all add: hex_codec_def)

lemma userIdFromAddress_ok:
  assumes "hex_codec x" "address_codec x" "length b = 20"
  obtains d where "userIdFromAddress x b = Inr (''0x'' @ d)" "toLowerCase d = x_bytesToHex x b"
    "addressFromUserId x (''0x'' @ d) = Inr b" "addressFromUserId x (''0x'' @ x_bytesToHex x b) = Inr b"
proof -
  from assms address_hex [OF assms(1,3)] obtain d where
    d: "x_getAddress x (x_bytesToHex x b) = Inr (''0x'' @ d)"
      "x_getAddress x (''0x'' @ x_bytesToHex x b) = Inr (''0x'' @ d)" "toLowerCase d = x_bytesToHex x b"
    unfolding address_codec_def by blast
  moreover have "x_getAddress x (''0x'' @ d) = Inr (''0x'' @ d)" "x_arrayify x (''0x'' @ d) = Inr b"
    using d assms(2) unfolding address_codec_def by blast+
  ultimately show ?thesis
    using that [of d] by (simp add: userIdFromAddress_def addressFromUserId_def bin_toHexString_def)
qed

lemma sort_two: "sort [a, b :: 'a :: linorder] = sort [b, a]"
  by auto

section \<open>Properties\<close>

text \<open>
  Every id that \<open>makeStreamId\<close> returns is a full stream id: 64 lower-case hexadecimal digits
  that \<open>isValidStreamId\<close> accepts, whose first two characters denote exactly the prefix it was made
  for; and making an id from its own identity part gives it back.
\<close>
theorem makeStreamId_valid:
  assumes "makeStreamId p identity = Inr i"
  shows "length i = STREAM_ID_STRING_LENGTH \<and> isLowercaseHex i \<and> isValidStreamId i \<and>
    prefixOf (slice 0 2 i) = Some p \<and> makeStreamId p (drop 2 i) = Inr i"
proof -
  from assms obtain d where d: "isLowercaseHex d" "areValidStreamIdParts (prefixValue p) d"
    "i = prefixValue p @ d @ replicate (62 - length d) CHR ''0''" by (rule makeStreamId_Inr)
  let ?e = "d @ replicate (62 - length d) CHR ''0''"
  note e = padded_identity [OF d(2)]
  have hex: "isLowercaseHex ?e" using d(1) by simp
  have "makeStreamId p ?e = Inr (prefixValue p @ ?e)"
    using e by (simp only: makeStreamId_hex [OF hex] if_True) simp
  then show ?thesis
    using d e hex by (simp add: isValidStreamId_def STREAM_ID_STRING_LENGTH_def STREAM_ID_BYTES_LENGTH_def)
qed

theorem makeStreamId_valid_witness:
  "isValidStreamId (''10'' @ replicate 40 CHR ''b'' @ replicate 22 CHR ''0'')"
proof -
  have "makeStreamId Space (''0x'' @ replicate 40 CHR ''B'') =
    Inr (''10'' @ replicate 40 CHR ''b'' @ replicate 22 CHR ''0'')"
    by code_simp
  from makeStreamId_valid [OF this] show ?thesis by blast
qed

text \<open>
  The id of each of a user's four streams determines the user: for every 20-byte address the id
  is made, and reading the address (or the user id) back from it gives the one it was made for.
\<close>
theorem user_stream_id_roundtrip:
  assumes "hex_codec x" "address_codec x" "length b = 20"
    and "p \<in> {User, UserSettings, UserDevice, UserInbox}"
  shows "\<exists>i. makeUserScopedStreamId p x (BytesId b) = Inr i \<and>
    getUserAddressFromStreamId x i = Inr b \<and> getUserIdFromStreamId x i = userIdFromAddress x b"
proof -
  obtain d where d: "userIdFromAddress x b = Inr (''0x'' @ d)" "toLowerCase d = x_bytesToHex x b"
    "addressFromUserId x (''0x'' @ x_bytesToHex x b) = Inr b"
    using userIdFromAddress_ok [OF assms(1-3)] by blast
  note h = address_hex [OF assms(1,3)]
  let ?i = "prefixValue p @ x_bytesToHex x b @ replicate 22 CHR ''0''"
  have v: "areValidStreamIdParts (prefixValue p) (x_bytesToHex x b)"
    using assms(4) h by (auto simp: areValidStreamIdParts_iff simp del: prefixValue.simps)
  have "makeStreamId p (''0x'' @ d) = Inr ?i"
    unfolding makeStreamId_0x [OF d(2) h(1)] using v h by (simp add: makeStreamId_hex)
  then have "makeUserScopedStreamId p x (BytesId b) = Inr ?i"
    using assms(3) d(1) by (simp add: makeUserScopedStreamId_def isUserId_def)
  moreover have "getUserAddressFromStreamId x ?i = Inr b"
    using assms(4) h d(3)
    by (auto simp: getUserAddressFromStreamId_def STREAM_ID_STRING_LENGTH_def
        STREAM_ID_BYTES_LENGTH_def slice_def Let_def simp del: prefixValue.simps)
  ultimately show ?thesis by (auto simp: getUserIdFromStreamId_def)
qed

theorem user_stream_id_roundtrip_witness:
  "\<exists>i. makeUserScopedStreamId UserInbox sample_externs (BytesId (replicate 20 171)) = Inr i \<and>
    getUserAddressFromStreamId sample_externs i = Inr (replicate 20 171)"
  using user_stream_id_roundtrip [of sample_externs "replicate 20 171" UserInbox] sample_laws
  by (auto simp: externs_laws_def)

text \<open>
  The direct-message stream of two users is one stream: \<open>makeDMStreamId\<close> always returns an id,
  a DM stream id, that depends neither on the order of the two users nor on the case their
  addresses are written in.
\<close>
theorem makeDMStreamId_symmetric:
  assumes "hex_codec x" "keccak_law x"
  shows "\<exists>i. makeDMStreamId x a b = Inr i \<and> makeDMStreamId x b a = Inr i \<and>
    makeDMStreamId x (toLowerCase a) (toLowerCase b) = Inr i \<and>
    isDMChannelStreamId x (StringId i) \<and> length i = STREAM_ID_STRING_LENGTH"
proof -
  let ?h = "take 62 (hashString x (join_dash (sort (map toLowerCase [a, b]))))"
  have h: "isLowercaseHex ?h" "length ?h = 62"
    using assms by (simp_all add: hashString_def bin_toHexString_def hex_codec_def keccak_law_def
        isLowercaseHex_take)
  have sym: "sort (map toLowerCase [b, a]) = sort (map toLowerCase [a, b])"
    unfolding list.map by (rule sort_two)
  have v: "areValidStreamIdParts (prefixValue DM) ?h"
    using h by (simp only: areValidStreamIdParts_iff) simp
  have "makeStreamId DM ?h = Inr (prefixValue DM @ ?h)"
    unfolding makeStreamId_hex [OF h(1)] using v h(2) by simp
  then show ?thesis
    using h sym by (simp add: makeDMStreamId_def slice_def isDMChannelStreamId_def hasPrefix_def
        streamIdAsString_def STREAM_ID_STRING_LENGTH_def STREAM_ID_BYTES_LENGTH_def
        startsWith_def)
qed

theorem makeDMStreamId_symmetric_witness:
  "\<exists>i. makeDMStreamId sample_externs ''0xAb'' ''0xCd'' = Inr i \<and>
    makeDMStreamId sample_externs ''0xCd'' ''0xAb'' = Inr i"
  using makeDMStreamId_symmetric [of sample_externs "''0xAb''" "''0xCd''"] sample_laws
  by (auto simp: externs_laws_def)

text \<open>
  A space has one default channel: the id computed from the space's contract address and the id
  computed from the space's stream id are the same valid channel id, which
  \<open>isDefaultChannelId\<close> recognises.
\<close>
theorem default_channel_of_space:
  assumes "isLowercaseHex (toLowerCase d)" "length d = 40"
  shows "\<exists>s c. makeSpaceStreamId (''0x'' @ d) = Inr s \<and>
    makeDefaultChannelStreamId s = Inr c \<and> makeDefaultChannelStreamId (''0x'' @ d) = Inr c \<and>
    isValidStreamId c \<and> isDefaultChannelId c \<and> length c = STREAM_ID_STRING_LENGTH"
proof -
  let ?d = "toLowerCase d" and ?z = "replicate 22 CHR ''0''"
  have "makeSpaceStreamId (''0x'' @ d) = Inr (prefixValue Space @ ?d @ ?z)"
    using assms unfolding makeSpaceStreamId_def makeStreamId_0x [OF refl assms(1)]
    by (simp add: makeStreamId_hex areValidStreamIdParts_iff del: prefixValue.simps)
  moreover have "makeStreamId Channel (''0x'' @ d @ ?z) = Inr (prefixValue Channel @ ?d @ ?z)"
  proof -
    have l: "isLowercaseHex (toLowerCase (d @ ?z))" using assms(1) by simp
    have "makeStreamId Channel (''0x'' @ d @ ?z) = makeStreamId Channel (?d @ ?z)"
      using makeStreamId_0x [OF refl l] by simp
    then show ?thesis
      using l assms by (simp add: makeStreamId_hex areValidStreamIdParts_iff del: prefixValue.simps)
  qed
  moreover have "\<not> startsWith (''0x'' @ d) (prefixValue Space)" by (simp add: startsWith_def)
  ultimately show ?thesis
    using assms by (simp add: makeDefaultChannelStreamId_def isValidStreamId_def
        areValidStreamIdParts_iff isDefaultChannelId_def endsWith_def STREAM_ID_STRING_LENGTH_def
        STREAM_ID_BYTES_LENGTH_def del: prefixValue.simps)
qed

theorem default_channel_of_space_witness:
  "\<exists>s c. makeSpaceStreamId (''0x'' @ replicate 40 CHR ''E'') = Inr s \<and>
    makeDefaultChannelStreamId s = Inr c \<and> isDefaultChannelId c"
proof -
  have "isLowercaseHex (toLowerCase (replicate 40 CHR ''E''))" by code_simp
  then show ?thesis using default_channel_of_space [of "replicate 40 CHR ''E''"] by auto
qed

end
