(* ===== verification/Protocol.thy ===== *)
theory Protocol
  imports Ids
begin

text \<open>
  The data of the protocol: the messages of \<open>protocol/protocol.proto\<close> that the client handles
  (a oneof is a datatype whose last constructor is the undefined case, an enum has a constructor
  for the numbers it does not name, an \<open>optional\<close> or message field is an option), the event
  types of \<open>core/sdk/src/types.ts\<close> and \<open>encryptedContentTypes.ts\<close>, and the events the streams emit
  (\<open>streamEvents.ts\<close>).
\<close>

section \<open>Messages\<close>

datatype MembershipOp = SO_UNSPECIFIED | SO_INVITE | SO_JOIN | SO_LEAVE | SO_unrecognized int

datatype ChannelOp = CO_UNSPECIFIED | CO_CREATED | CO_DELETED | CO_UPDATED | CO_unrecognized int

record EncryptedData =
  ed_ciphertext :: string
  ed_algorithm :: string
  ed_senderKey :: string
  ed_sessionId :: string
  ed_checksum :: "string option"
  ed_refEventId :: "string option"

record WrappedEncryptedData =
  wed_data :: "EncryptedData option"
  wed_eventNum :: bigint
  wed_eventHash :: bytes

record EventRef =
  er_streamId :: bytes
  er_hash :: bytes
  er_signature :: bytes

record SyncCookie =
  sc_nodeAddress :: bytes
  sc_streamId :: bytes
  sc_minipoolGen :: bigint
  sc_minipoolSlot :: bigint
  sc_prevMiniblockHash :: bytes

record MemberPayload_Membership =
  mm_op :: MembershipOp
  mm_userAddress :: bytes
  mm_initiatorAddress :: bytes
  mm_streamParentId :: "bytes option"

text \<open>Also the \<open>KeySolicitationContent\<close> of the encryption package, which has the same fields.\<close>

record KeySolicitation =
  ks_deviceKey :: string
  ks_fallbackKey :: string
  ks_isNewDevice :: bool
  ks_sessionIds :: "string list"

record KeyFulfillment =
  kf_userAddress :: bytes
  kf_deviceKey :: string
  kf_sessionIds :: "string list"

record Nft =
  nft_chainId :: int
  nft_contractAddress :: bytes
  nft_tokenId :: bytes

datatype MemberPayload =
    MP_membership MemberPayload_Membership
  | MP_keySolicitation KeySolicitation
  | MP_keyFulfillment KeyFulfillment
  | MP_username EncryptedData
  | MP_displayName EncryptedData
  | MP_ensAddress bytes
  | MP_nft Nft
  | MP_undefined

record SpacePayload_Channel =
  spc_op :: ChannelOp
  spc_channelId :: bytes
  spc_originEvent :: "EventRef option"

text \<open>An inception message: the ids it carries; the test settings are not read by the client.\<close>

datatype SpacePayload = SP_inception bytes | SP_channel SpacePayload_Channel | SP_undefined

record ChannelPayload_Inception =
  chi_streamId :: bytes
  chi_spaceId :: bytes

datatype ChannelPayload =
    CP_inception ChannelPayload_Inception | CP_message EncryptedData | CP_redaction bytes | CP_undefined

record DmChannelPayload_Inception =
  dmi_streamId :: bytes
  dmi_firstPartyAddress :: bytes
  dmi_secondPartyAddress :: bytes

datatype DmChannelPayload =
    DMP_inception DmChannelPayload_Inception | DMP_message EncryptedData | DMP_undefined

record GdmChannelPayload_Inception =
  gdi_streamId :: bytes
  gdi_channelProperties :: "EncryptedData option"

datatype GdmChannelPayload =
    GDMP_inception GdmChannelPayload_Inception | GDMP_message EncryptedData
  | GDMP_channelProperties EncryptedData | GDMP_undefined

record UserMembership =
  um_streamId :: bytes
  um_op :: MembershipOp
  um_inviter :: "bytes option"
  um_streamParentId :: "bytes option"

record UserMembershipAction =
  uma_streamId :: bytes
  uma_userId :: bytes
  uma_op :: MembershipOp
  uma_streamParentId :: "bytes option"

datatype UserPayload =
    UP_inception bytes | UP_userMembership UserMembership
  | UP_userMembershipAction UserMembershipAction | UP_undefined

record DeviceSummary =
  ds_lowerBound :: bigint
  ds_upperBound :: bigint

record GroupEncryptionSessions =
  ges_streamId :: bytes
  ges_senderKey :: string
  ges_sessionIds :: "string list"
  ges_ciphertexts :: "(string \<times> string) list"

record UserInboxPayload_Ack =
  ack_deviceKey :: string
  ack_miniblockNum :: bigint

datatype UserInboxPayload =
    UIP_inception bytes | UIP_ack UserInboxPayload_Ack
  | UIP_groupEncryptionSessions GroupEncryptionSessions | UIP_undefined

record UserBlock =
  ub_userId :: bytes
  ub_isBlocked :: bool
  ub_eventNum :: bigint

text \<open>A \<open>UserBlocks\<close> entry of a snapshot; its \<open>Block\<close> items have the last two fields of
  \<^typ>\<open>UserBlock\<close>, and the client pushes whole \<^typ>\<open>UserBlock\<close> messages on the same array.\<close>

record UserBlocks =
  ubs_userId :: bytes
  ubs_blocks :: "(bool \<times> bigint) list"

record UserSettings_FullyReadMarkers =
  ufr_streamId :: bytes
  ufr_content :: "string option"

datatype UserSettingsPayload =
    USP_inception bytes | USP_fullyReadMarkers UserSettings_FullyReadMarkers
  | USP_userBlock UserBlock | USP_undefined

record UserDevice =
  ud_deviceKey :: string
  ud_fallbackKey :: string

datatype UserDeviceKeyPayload =
    UDKP_inception bytes | UDKP_encryptionDevice UserDevice | UDKP_undefined

record MediaPayload_Inception =
  mi_streamId :: bytes
  mi_channelId :: bytes
  mi_chunkCount :: int
  mi_spaceId :: "bytes option"

record MediaPayload_Chunk =
  mc_data :: bytes
  mc_chunkIndex :: int

datatype MediaPayload = MEP_inception MediaPayload_Inception | MEP_chunk MediaPayload_Chunk | MEP_undefined

section \<open>Snapshots\<close>

record Snapshot_Member =
  sm_userAddress :: bytes
  sm_miniblockNum :: bigint
  sm_eventNum :: bigint
  sm_solicitations :: "KeySolicitation list"
  sm_username :: "WrappedEncryptedData option"
  sm_displayName :: "WrappedEncryptedData option"
  sm_ensAddress :: bytes
  sm_nft :: "Nft option"

record UserSettings_Snapshot =
  uss_fullyReadMarkers :: "UserSettings_FullyReadMarkers list"
  uss_userBlocksList :: "UserBlocks list"

datatype Snapshot_content =
    SC_space "SpacePayload_Channel list"
  | SC_channel "ChannelPayload_Inception option"
  | SC_user "UserMembership list"
  | SC_userSettings UserSettings_Snapshot
  | SC_userDeviceKey "UserDevice list"
  | SC_media "MediaPayload_Inception option"
  | SC_dmChannel "DmChannelPayload_Inception option"
  | SC_gdmChannel "WrappedEncryptedData option"
  | SC_userInbox "(string \<times> DeviceSummary) list"
  | SC_undefined

record Snapshot =
  sn_members :: "Snapshot_Member list option"
  sn_snapshotVersion :: int
  sn_content :: Snapshot_content

datatype SnapshotCaseType = spaceContent | channelContent | userContent | userSettingsContent
  | userDeviceKeyContent | mediaContent | dmChannelContent | gdmChannelContent | userInboxContent

section \<open>Events\<close>

record MiniblockHeader =
  mh_miniblockNum :: bigint
  mh_prevMiniblockHash :: bytes
  mh_eventHashes :: "bytes list"
  mh_snapshot :: "Snapshot option"
  mh_eventNumOffset :: bigint
  mh_prevSnapshotMiniblockNum :: bigint
  mh_contentSet :: bool

datatype StreamEvent_payload =
    PL_miniblockHeader MiniblockHeader
  | PL_memberPayload MemberPayload
  | PL_spacePayload SpacePayload
  | PL_channelPayload ChannelPayload
  | PL_userPayload UserPayload
  | PL_userSettingsPayload UserSettingsPayload
  | PL_userDeviceKeyPayload UserDeviceKeyPayload
  | PL_userInboxPayload UserInboxPayload
  | PL_mediaPayload MediaPayload
  | PL_dmChannelPayload DmChannelPayload
  | PL_gdmChannelPayload GdmChannelPayload
  | PL_undefined

record StreamEvent =
  se_creatorAddress :: bytes
  se_delegateSig :: bytes
  se_salt :: bytes
  se_prevMiniblockHash :: "bytes option"
  se_createdAtEpochMs :: bigint
  se_delegateExpiryEpochMs :: bigint
  se_payload :: StreamEvent_payload

record ParsedEvent =
  pe_event :: StreamEvent
  pe_hash :: bytes
  pe_hashStr :: string
  pe_prevMiniblockHashStr :: "string option"
  pe_creatorUserId :: string

record ParsedMiniblock =
  pm_hash :: bytes
  pm_header :: MiniblockHeader
  pm_events :: "ParsedEvent list"

datatype LocalEventStatus = sending | sent | failed

record LocalEvent =
  le_localId :: string
  le_channelMessage :: ChannelMessage
  le_status :: LocalEventStatus

section \<open>Encrypted and decrypted content\<close>

datatype ContentKind = textKind | channelMessageKind | channelPropertiesKind

record EncryptedContent =
  ec_kind :: ContentKind
  ec_content :: EncryptedData

datatype DecryptedContent =
    DC_text string | DC_channelMessage ChannelMessage | DC_channelProperties ChannelProperties

definition toDecryptedContent :: "externs \<Rightarrow> ContentKind \<Rightarrow> string \<Rightarrow> js_error + DecryptedContent" where
  "toDecryptedContent x kind content =
     (case kind of
        textKind \<Rightarrow> Inr (DC_text content)
      | channelMessageKind \<Rightarrow> bindE (x_channelMessageFromJson x content) (\<lambda>m. Inr (DC_channelMessage m))
      | channelPropertiesKind \<Rightarrow>
          bindE (x_channelPropertiesFromJson x content) (\<lambda>m. Inr (DC_channelProperties m)))"

definition isEncryptedContentKind :: "string \<Rightarrow> bool" where
  "isEncryptedContentKind kind =
     (kind = ''text'' \<or> kind = ''channelMessage'' \<or> kind = ''channelProperties'')"

record DecryptionSessionError =
  dse_missingSession :: bool
  dse_kind :: string
  dse_encryptedData :: EncryptedData
  dse_error :: "string option"

section \<open>Timeline events\<close>

record StreamTimelineEvent =
  te_hashStr :: string
  te_creatorUserId :: string
  te_eventNum :: bigint
  te_createdAtEpochMs :: bigint
  te_localEvent :: "LocalEvent option"
  te_remoteEvent :: "ParsedEvent option"
  te_decryptedContent :: "DecryptedContent option"
  te_decryptedContentError :: "DecryptionSessionError option"
  te_miniblockNum :: "bigint option"
  te_confirmedEventNum :: "bigint option"

definition isLocalEvent :: "StreamTimelineEvent \<Rightarrow> bool" where
  "isLocalEvent event = (te_localEvent event \<noteq> None)"

definition isRemoteEvent :: "StreamTimelineEvent \<Rightarrow> bool" where
  "isRemoteEvent event = (te_remoteEvent event \<noteq> None)"

definition isDecryptedEvent :: "StreamTimelineEvent \<Rightarrow> bool" where
  "isDecryptedEvent event = (te_decryptedContent event \<noteq> None \<and> te_remoteEvent event \<noteq> None)"

definition isConfirmedEvent :: "StreamTimelineEvent \<Rightarrow> bool" where
  "isConfirmedEvent event =
     (isRemoteEvent event \<and> te_confirmedEventNum event \<noteq> None \<and> te_miniblockNum event \<noteq> None)"

definition makeRemoteTimelineEvent ::
  "ParsedEvent \<Rightarrow> bigint \<Rightarrow> bigint option \<Rightarrow> bigint option \<Rightarrow> StreamTimelineEvent" where
  "makeRemoteTimelineEvent parsedEvent eventNum miniblockNum confirmedEventNum =
     \<lparr>te_hashStr = pe_hashStr parsedEvent,
      te_creatorUserId = pe_creatorUserId parsedEvent,
      te_eventNum = eventNum,
      te_createdAtEpochMs = se_createdAtEpochMs (pe_event parsedEvent),
      te_localEvent = None,
      te_remoteEvent = Some parsedEvent,
      te_decryptedContent = None,
      te_decryptedContentError = None,
      te_miniblockNum = miniblockNum,
      te_confirmedEventNum = confirmedEventNum\<rparr>"

section \<open>Emitted events\<close>

record StreamChange =
  ch_prepended :: "StreamTimelineEvent list option"
  ch_appended :: "StreamTimelineEvent list option"
  ch_updated :: "StreamTimelineEvent list option"
  ch_confirmed :: "StreamTimelineEvent list option"

definition noChange :: StreamChange where
  "noChange = \<lparr>ch_prepended = None, ch_appended = None, ch_updated = None, ch_confirmed = None\<rparr>"

datatype emission =
    newGroupSessions GroupEncryptionSessions string
  | newEncryptedContent string string EncryptedContent
  | newKeySolicitation string string bytes KeySolicitation
  | updatedKeySolicitation string string bytes KeySolicitation
  | userDeviceKeyMessage string string UserDevice
  | streamNewUserJoined string string
  | streamNewUserInvited string string
  | streamUserLeft string string
  | streamMembershipUpdated string string
  | streamPendingMembershipUpdated string string
  | userJoinedStream string
  | userInvitedToStream string
  | userLeftStream string
  | userStreamMembershipChanged string
  | spaceChannelCreated string string
  | spaceChannelUpdated string string
  | spaceChannelDeleted string string
  | fullyReadMarkersUpdated string FullyReadMarkers
  | userBlockUpdated UserBlock
  | eventDecrypted string SnapshotCaseType StreamTimelineEvent
  | streamInitialized string SnapshotCaseType
  | streamUpToDate string
  | streamUpdated string SnapshotCaseType StreamChange
  | streamLocalEventUpdated string SnapshotCaseType string StreamTimelineEvent
  | streamLatestTimestampUpdated string
  | streamUsernameUpdated string string
  | streamDisplayNameUpdated string string
  | streamPendingUsernameUpdated string string
  | streamPendingDisplayNameUpdated string string
  | streamEnsAddressUpdated string string
  | streamNftUpdated string string
  | streamChannelPropertiesUpdated string

end
