(* ===== verification/Migrations.thy ===== *)
theory Migrations
  imports Protocol "HOL-Library.Sublist"
begin

text \<open>
  The snapshot migrations of \<open>core/sdk/src/migrations\<close>: the loop that compacts an array in
  place, the migration that applies it, and the driver that runs the migrations a snapshot has not
  seen. The lemmas relate the index-based loop to the library's \<^const>\<open>remdups_adj\<close>.
\<close>

section \<open>Snapshot migrations\<close>

text \<open>The loop of \<open>compactFunc\<close>: \<open>i\<close> and \<open>j\<close> are its indices, the array is updated in place.\<close>

function compactLoop ::
  "externs \<Rightarrow> ('a \<Rightarrow> bytes) \<Rightarrow> nat \<Rightarrow> nat \<Rightarrow> 'a list \<Rightarrow> 'a list \<times> nat" where
  "compactLoop x keyFn i j elements =
     (if i < length elements then
        let key2 = keyFn (elements ! i);
            key1 = keyFn (elements ! (i - 1))
        in if \<not> bin_equal x (Some key2) (Some key1)
           then compactLoop x keyFn (Suc i) (Suc j) (elements[j := elements ! i])
           else compactLoop x keyFn (Suc i) j elements
      else (elements, j))"
  by pat_completeness auto
termination by (relation "measure (\<lambda>(_, _, i, _, es). length es - i)") auto

declare compactLoop.simps [simp del]

definition compactFunc :: "externs \<Rightarrow> ('a \<Rightarrow> bytes) \<Rightarrow> 'a list \<Rightarrow> 'a list" where
  "compactFunc x keyFn elements =
     (if length elements = 0 then elements
      else (case compactLoop x keyFn 1 1 elements of (es, j) \<Rightarrow> take j es))"

definition snapshotMigration0000 :: "Snapshot \<Rightarrow> Snapshot" where
  "snapshotMigration0000 snapshot = snapshot"

definition snapshotMigration0001 :: "externs \<Rightarrow> Snapshot \<Rightarrow> Snapshot" where
  "snapshotMigration0001 x snapshot =
     (let s1 = (case sn_members snapshot of
                  Some joined \<Rightarrow> snapshot\<lparr>sn_members := Some (compactFunc x sm_userAddress joined)\<rparr>
                | None \<Rightarrow> snapshot)
      in case sn_content s1 of
           SC_space channels \<Rightarrow> s1\<lparr>sn_content := SC_space (compactFunc x spc_channelId channels)\<rparr>
         | SC_user memberships \<Rightarrow> s1\<lparr>sn_content := SC_user (compactFunc x um_streamId memberships)\<rparr>
         | SC_userSettings u \<Rightarrow>
             s1\<lparr>sn_content := SC_userSettings
                 (u\<lparr>uss_fullyReadMarkers := compactFunc x ufr_streamId (uss_fullyReadMarkers u)\<rparr>)\<rparr>
         | _ \<Rightarrow> s1)"

definition SNAPSHOT_MIGRATIONS :: "externs \<Rightarrow> (Snapshot \<Rightarrow> Snapshot) list" where
  "SNAPSHOT_MIGRATIONS x = [snapshotMigration0000, snapshotMigration0001 x]"

text \<open>An index outside the array of migrations is \<open>undefined\<close>, and calling it throws.\<close>

function migrateLoop :: "externs \<Rightarrow> int \<Rightarrow> Snapshot \<Rightarrow> js_error + Snapshot" where
  "migrateLoop x i result =
     (if i < int (length (SNAPSHOT_MIGRATIONS x)) then
        (if i < 0 then Inl (JsError ''SNAPSHOT_MIGRATIONS[i] is not a function'')
         else migrateLoop x (i + 1) ((SNAPSHOT_MIGRATIONS x ! nat i) result))
      else Inr result)"
  by pat_completeness auto
termination by (relation "measure (\<lambda>(x, i, _). nat (int (length (SNAPSHOT_MIGRATIONS x)) - i))") auto

declare migrateLoop.simps [simp del]

definition migrateSnapshot :: "externs \<Rightarrow> Snapshot \<Rightarrow> js_error + Snapshot" where
  "migrateSnapshot x snapshot =
     (let currentVersion = int (length (SNAPSHOT_MIGRATIONS x))
      in if sn_snapshotVersion snapshot \<ge> currentVersion then Inr snapshot
         else bindE (migrateLoop x (sn_snapshotVersion snapshot) snapshot)
                (\<lambda>result. Inr (result\<lparr>sn_snapshotVersion := currentVersion\<rparr>)))"

section \<open>The loop and its reference\<close>

text \<open>The reference: the first element, and every other whose key differs from that of the element before it.\<close>

definition firsts :: "('a \<Rightarrow> bytes) \<Rightarrow> 'a list \<Rightarrow> 'a list" where
  "firsts keyFn es = nths es {i. i = 0 \<or> keyFn (es ! i) \<noteq> keyFn (es ! (i - 1))}"

text \<open>The same for the elements after \<open>p\<close>, along the recursion of the list.\<close>

fun kept :: "('a \<Rightarrow> bytes) \<Rightarrow> 'a \<Rightarrow> 'a list \<Rightarrow> 'a list" where
  "kept keyFn p [] = []"
| "kept keyFn p (e # es) = (if keyFn e = keyFn p then kept keyFn e es else e # kept keyFn e es)"

lemma compactLoop_kept:
  assumes "equals_bytes_law x" "1 \<le> i" "j \<le> i" "i \<le> length es"
  shows "(case compactLoop x keyFn i j es of (es', j') \<Rightarrow> take j' es') =
    take j es @ kept keyFn (es ! (i - 1)) (drop i es)"
  using assms
proof (induction x keyFn i j es rule: compactLoop.induct)
  case (1 x keyFn i j es)
  show ?case
  proof (cases "i < length es")
    case False
    then show ?thesis using "1.prems" by (subst compactLoop.simps) simp
  next
    case True
    then have d: "drop i es = es ! i # drop (Suc i) es" by (simp add: Cons_nth_drop_Suc)
    have eq: "bin_equal x (Some (keyFn (es ! i))) (Some (keyFn (es ! (i - 1)))) \<longleftrightarrow>
      keyFn (es ! i) = keyFn (es ! (i - 1))"
      using "1.prems"(1) by (simp add: bin_equal_iff bytes_or_empty_def)
    show ?thesis
    proof (cases "keyFn (es ! i) = keyFn (es ! (i - 1))")
      case same: True
      then show ?thesis
        using "1.IH"(2) [OF True refl refl] "1.prems" True d eq
        by (subst compactLoop.simps) (simp add: Let_def)
    next
      case diff: False
      let ?es = "es[j := es ! i]"
      have "take (Suc j) ?es = take j es @ [es ! i]" "?es ! i = es ! i"
        using True "1.prems" by (simp_all add: take_Suc_conv_app_nth nth_list_update)
      moreover have "drop (Suc i) ?es = drop (Suc i) es" using "1.prems" by simp
      ultimately show ?thesis
        using "1.IH"(1) [OF True refl refl] "1.prems" True d eq diff
        by (subst compactLoop.simps) (simp add: Let_def)
    qed
  qed
qed

lemma compactFunc_kept:
  assumes "equals_bytes_law x"
  shows "compactFunc x keyFn es = (case es of [] \<Rightarrow> [] | e # es' \<Rightarrow> e # kept keyFn e es')"
  using compactLoop_kept [OF assms, of 1 1 es keyFn]
  by (cases es) (simp_all add: compactFunc_def)

lemma kept_nths: "kept keyFn p es = nths es {i. keyFn (es ! i) \<noteq> keyFn ((p # es) ! i)}"
  by (induction es arbitrary: p) (simp_all add: nths_Cons)

lemma compactFunc_firsts:
  assumes "equals_bytes_law x"
  shows "compactFunc x keyFn = firsts keyFn"
proof
  fix es
  show "compactFunc x keyFn es = firsts keyFn es"
    by (cases es) (simp_all add: compactFunc_kept [OF assms] firsts_def kept_nths nths_Cons)
qed

lemma kept_keys: "keyFn p # map keyFn (kept keyFn p es) = remdups_adj (map keyFn (p # es))"
proof (induction es arbitrary: p)
  case (Cons e es)
  then show ?case using Cons.IH [of e] by (cases "keyFn e = keyFn p") simp_all
qed simp

lemma kept_subseq: "subseq (kept keyFn p es) es"
  by (induction es arbitrary: p) auto

lemma migrateLoop_steps:
  "migrateLoop x 0 s = Inr (snapshotMigration0001 x s)"
  "migrateLoop x 1 s = Inr (snapshotMigration0001 x s)"
proof -
  have two: "migrateLoop x 2 t = Inr t" for t
    by (subst migrateLoop.simps) (simp add: SNAPSHOT_MIGRATIONS_def)
  show one: "migrateLoop x 1 s = Inr (snapshotMigration0001 x s)" for s
    by (subst migrateLoop.simps) (simp add: SNAPSHOT_MIGRATIONS_def two)
  show "migrateLoop x 0 s = Inr (snapshotMigration0001 x s)"
    by (subst migrateLoop.simps) (simp add: SNAPSHOT_MIGRATIONS_def one snapshotMigration0000_def)
qed

text \<open>The keys of the arrays that are compacted, and the snapshot with its arrays compacted.\<close>

definition snapshot_keys :: "Snapshot \<Rightarrow> bytes list list" where
  "snapshot_keys s =
     [case sn_members s of None \<Rightarrow> [] | Some ms \<Rightarrow> map sm_userAddress ms,
      case sn_content s of
         SC_space cs \<Rightarrow> map spc_channelId cs
       | SC_user ms \<Rightarrow> map um_streamId ms
       | SC_userSettings u \<Rightarrow> map ufr_streamId (uss_fullyReadMarkers u)
       | _ \<Rightarrow> []]"

definition compacted :: "Snapshot \<Rightarrow> Snapshot" where
  "compacted s = s
     \<lparr>sn_members := map_option (firsts sm_userAddress) (sn_members s),
      sn_content :=
        (case sn_content s of
           SC_space cs \<Rightarrow> SC_space (firsts spc_channelId cs)
         | SC_user ms \<Rightarrow> SC_user (firsts um_streamId ms)
         | SC_userSettings u \<Rightarrow> SC_userSettings (u\<lparr>uss_fullyReadMarkers := firsts ufr_streamId (uss_fullyReadMarkers u)\<rparr>)
         | c \<Rightarrow> c)\<rparr>"

lemma compactFunc_keys:
  assumes "equals_bytes_law x"
  shows "map keyFn (compactFunc x keyFn es) = remdups_adj (map keyFn es)"
  using kept_keys by (cases es) (simp_all add: compactFunc_kept [OF assms])

lemma snapshotMigration0001_compacted:
  "equals_bytes_law x \<Longrightarrow> snapshotMigration0001 x s = compacted s"
  by (auto simp: snapshotMigration0001_def compacted_def Let_def compactFunc_firsts split: option.splits Snapshot_content.splits)

lemma distinct_remdups_adj_sorted: "sorted ks \<Longrightarrow> distinct (remdups_adj ks)" for ks :: "bytes list"
  by (induction ks rule: remdups_adj.induct) auto

lemma firsts_keys: "map keyFn (firsts keyFn es) = remdups_adj (map keyFn es)"
proof (cases es)
  case (Cons e es')
  then have "firsts keyFn es = e # kept keyFn e es'" by (simp add: firsts_def kept_nths nths_Cons)
  then show ?thesis using kept_keys [of keyFn e es'] Cons by simp
qed (simp add: firsts_def)

lemma snapshot_keys_compacted: "snapshot_keys (compacted s) = map remdups_adj (snapshot_keys s)"
  by (simp add: snapshot_keys_def compacted_def firsts_keys split: option.splits Snapshot_content.splits)

section \<open>Properties\<close>

text \<open>
  The in-place loop of \<open>compactFunc\<close> removes exactly the repeated neighbours: the keys of
  the result are the keys of the input with each run of equal keys collapsed to one, its elements
  are elements of the input in their order, and on an array sorted by key the keys of the result
  are pairwise distinct.
\<close>
theorem compactFunc_correct:
  assumes "equals_bytes_law x"
  shows "map keyFn (compactFunc x keyFn es) = remdups_adj (map keyFn es) \<and>
    subseq (compactFunc x keyFn es) es \<and>
    (sorted (map keyFn es) \<longrightarrow> distinct (map keyFn (compactFunc x keyFn es)))"
proof -
  have "subseq (compactFunc x keyFn es) es"
    using kept_subseq by (cases es) (simp_all add: compactFunc_kept [OF assms])
  then show ?thesis using compactFunc_keys [OF assms] distinct_remdups_adj_sorted by metis
qed

theorem compactFunc_correct_witness:
  "distinct (map (\<lambda>b. [b]) (compactFunc sample_externs (\<lambda>b. [b]) [1, 1, 2, 3, 3]))"
  using compactFunc_correct [of sample_externs "\<lambda>b. [b]" "[1, 1, 2, 3, 3]"] sample_laws
  by (simp add: externs_laws_def)

text \<open>
  (C31) Migrating a snapshot fails exactly on a negative version. A snapshot of the current version or a newer one is
  left as it is. An older one gets the current version, and in each of its arrays of members, channels, memberships and read markers
  the first element of every run of equal keys is kept, in order; everything else is unchanged. So no key is
  lost, and the keys of an array that was sorted are distinct afterwards. Migrating again changes nothing.
\<close>
theorem migrateSnapshot_correct:
  assumes "equals_bytes_law x"
  shows "case migrateSnapshot x s of
      Inl e \<Rightarrow> sn_snapshotVersion s < 0
    | Inr r \<Rightarrow> 0 \<le> sn_snapshotVersion s \<and> migrateSnapshot x r = Inr r \<and>
        (if 2 \<le> sn_snapshotVersion s then r = s
         else r = (compacted s)\<lparr>sn_snapshotVersion := 2\<rparr> \<and> map set (snapshot_keys r) = map set (snapshot_keys s) \<and>
           (\<forall>i < 2. sorted (snapshot_keys s ! i) \<longrightarrow> distinct (snapshot_keys r ! i)))"
proof -
  consider "2 \<le> sn_snapshotVersion s" | "sn_snapshotVersion s < 0" | "sn_snapshotVersion s = 0 \<or> sn_snapshotVersion s = 1" by linarith
  then show ?thesis
  proof cases
    case 1
    then show ?thesis by (simp add: migrateSnapshot_def SNAPSHOT_MIGRATIONS_def)
  next
    case 2
    then show ?thesis by (subst migrateSnapshot_def, subst migrateLoop.simps) (simp add: SNAPSHOT_MIGRATIONS_def)
  next
    case 3
    let ?r = "(compacted s)\<lparr>sn_snapshotVersion := 2\<rparr>"
    have r: "migrateSnapshot x s = Inr ?r"
      using 3 migrateLoop_steps snapshotMigration0001_compacted [OF assms] by (auto simp: migrateSnapshot_def SNAPSHOT_MIGRATIONS_def)
    have keys: "snapshot_keys ?r = map remdups_adj (snapshot_keys s)"
      using snapshot_keys_compacted [of s] by (simp add: snapshot_keys_def)
    then have "distinct (snapshot_keys ?r ! i)" if "i < 2" "sorted (snapshot_keys s ! i)" for i
      using that distinct_remdups_adj_sorted by (simp add: snapshot_keys_def nth_Cons split: nat.splits)
    then show ?thesis using 3 r keys by (auto simp: migrateSnapshot_def SNAPSHOT_MIGRATIONS_def)
  qed
qed

text \<open>Two members, the first entered twice, of a user stream with a repeated membership.\<close>

definition sample_joined_member :: "bytes \<Rightarrow> bigint \<Rightarrow> Snapshot_Member" where
  "sample_joined_member a n = \<lparr>sm_userAddress = a, sm_miniblockNum = n, sm_eventNum = 0, sm_solicitations = [], sm_username = None,
     sm_displayName = None, sm_ensAddress = [], sm_nft = None\<rparr>"

definition sample_snapshot :: Snapshot where
  "sample_snapshot =
     \<lparr>sn_members = Some [sample_joined_member [1] 5, sample_joined_member [1] 6, sample_joined_member [2] 7], sn_snapshotVersion = 0,
      sn_content = SC_user [\<lparr>um_streamId = [3], um_op = SO_JOIN, um_inviter = None, um_streamParentId = None\<rparr>,
        \<lparr>um_streamId = [3], um_op = SO_JOIN, um_inviter = None, um_streamParentId = None\<rparr>]\<rparr>"

theorem migrateSnapshot_correct_witness:
  "\<exists>r. migrateSnapshot sample_externs sample_snapshot = Inr r \<and> sn_snapshotVersion r = 2 \<and>
    sn_members r = Some [sample_joined_member [1] 5, sample_joined_member [2] 7] \<and> snapshot_keys r = [[[1], [2]], [[3]]]"
proof -
  have law: "equals_bytes_law sample_externs" using sample_laws by (simp add: externs_laws_def)
  then obtain r where "migrateSnapshot sample_externs sample_snapshot = Inr r" "r = (compacted sample_snapshot)\<lparr>sn_snapshotVersion := 2\<rparr>"
    using migrateSnapshot_correct [OF law, of sample_snapshot]
    by (cases "migrateSnapshot sample_externs sample_snapshot") (simp_all add: sample_snapshot_def)
  then show ?thesis
    by (simp add: compacted_def sample_snapshot_def sample_joined_member_def firsts_def nths_Cons snapshot_keys_def)
qed

end
