(* ===== verification/Membership.thy ===== *)
theory Membership
  imports Protocol
begin

text \<open>
  The membership sets of a stream (\<open>streamStateView_Members_Membership.ts\<close>) and the key
  solicitations of a member (\<open>streamStateView_Members_Solicitations.ts\<close>, with \<open>removeCommon\<close> of
  \<open>utils.ts\<close>). The lemmas give the sets as a function of the history of confirmed operations and
  the session ids a fulfilment leaves open.
\<close>

section \<open>Membership sets\<close>

record Membership =
  ms_streamId :: string
  ms_joinedUsers :: "string set"
  ms_invitedUsers :: "string set"
  ms_leftUsers :: "string set"
  ms_pendingJoinedUsers :: "string set"
  ms_pendingInvitedUsers :: "string set"
  ms_pendingLeftUsers :: "string set"
  ms_pendingMembershipEvents :: "string \<rightharpoonup> MemberPayload_Membership"

datatype EventStatus = pendingStatus | confirmedStatus

definition Membership_new :: "string \<Rightarrow> Membership" where
  "Membership_new streamId =
     \<lparr>ms_streamId = streamId, ms_joinedUsers = {}, ms_invitedUsers = {}, ms_leftUsers = {},
      ms_pendingJoinedUsers = {}, ms_pendingInvitedUsers = {}, ms_pendingLeftUsers = {},
      ms_pendingMembershipEvents = Map.empty\<rparr>"

definition isMemberJoined :: "string \<Rightarrow> Membership \<Rightarrow> bool" where
  "isMemberJoined userId m = (userId \<in> ms_joinedUsers m)"

definition isMember :: "MembershipOp \<Rightarrow> string \<Rightarrow> Membership \<Rightarrow> bool" where
  "isMember membership userId m =
     (case membership of
        SO_INVITE \<Rightarrow> userId \<in> ms_invitedUsers m
      | SO_JOIN \<Rightarrow> userId \<in> ms_joinedUsers m
      | SO_LEAVE \<Rightarrow> userId \<notin> ms_invitedUsers m \<and> userId \<notin> ms_joinedUsers m
      | SO_UNSPECIFIED \<Rightarrow> False
      | SO_unrecognized _ \<Rightarrow> False)"

definition participants :: "Membership \<Rightarrow> string set" where
  "participants m = ms_joinedUsers m \<union> ms_invitedUsers m \<union> ms_leftUsers m"

definition joinedParticipants :: "Membership \<Rightarrow> string set" where
  "joinedParticipants m = ms_joinedUsers m"

definition joinedOrInvitedParticipants :: "Membership \<Rightarrow> string set" where
  "joinedOrInvitedParticipants m = ms_joinedUsers m \<union> ms_invitedUsers m"

definition emitMembershipChange :: "string \<Rightarrow> bool \<Rightarrow> Membership \<Rightarrow> (Membership, emission) outcome" where
  "emitMembershipChange userId stateEmitter m =
     emit stateEmitter (streamMembershipUpdated (ms_streamId m) userId) m"

text \<open>\<open>Set.add\<close> returns the set, so the tests on it in the source always succeed.\<close>

definition applyMembershipEvent ::
  "string \<Rightarrow> MembershipOp \<Rightarrow> EventStatus \<Rightarrow> bool \<Rightarrow> Membership \<Rightarrow> (Membership, emission) outcome" where
  "applyMembershipEvent userId op type stateEmitter m =
     (case op of
        SO_INVITE \<Rightarrow>
          (if type = confirmedStatus then
             let m' = m\<lparr>ms_pendingInvitedUsers := ms_pendingInvitedUsers m - {userId},
                        ms_invitedUsers := insert userId (ms_invitedUsers m)\<rparr>
             in andThen (emit stateEmitter (streamNewUserInvited (ms_streamId m) userId) m')
                  (emitMembershipChange userId stateEmitter)
           else
             emit stateEmitter (streamPendingMembershipUpdated (ms_streamId m) userId)
               (m\<lparr>ms_pendingInvitedUsers := insert userId (ms_pendingInvitedUsers m)\<rparr>))
      | SO_JOIN \<Rightarrow>
          (if type = confirmedStatus then
             let m' = m\<lparr>ms_pendingJoinedUsers := ms_pendingJoinedUsers m - {userId},
                        ms_joinedUsers := insert userId (ms_joinedUsers m)\<rparr>
             in andThen (emit stateEmitter (streamNewUserJoined (ms_streamId m) userId) m')
                  (emitMembershipChange userId stateEmitter)
           else
             emit stateEmitter (streamPendingMembershipUpdated (ms_streamId m) userId)
               (m\<lparr>ms_pendingJoinedUsers := insert userId (ms_pendingJoinedUsers m)\<rparr>))
      | SO_LEAVE \<Rightarrow>
          (if type = confirmedStatus then
             let wasJoined = userId \<in> ms_joinedUsers m;
                 wasInvited = userId \<in> ms_invitedUsers m;
                 m' = m\<lparr>ms_joinedUsers := ms_joinedUsers m - {userId},
                        ms_invitedUsers := ms_invitedUsers m - {userId},
                        ms_pendingLeftUsers := ms_pendingLeftUsers m - {userId},
                        ms_leftUsers := insert userId (ms_leftUsers m)\<rparr>
             in if wasJoined \<or> wasInvited then
                  andThen (emit stateEmitter (streamUserLeft (ms_streamId m) userId) m')
                    (emitMembershipChange userId stateEmitter)
                else pass m'
           else
             emit stateEmitter (streamPendingMembershipUpdated (ms_streamId m) userId)
               (m\<lparr>ms_pendingLeftUsers := insert userId (ms_pendingLeftUsers m)\<rparr>))
      | SO_UNSPECIFIED \<Rightarrow> pass m
      | SO_unrecognized _ \<Rightarrow> pass m)"

section \<open>Key solicitations\<close>

fun removeCommon :: "string list \<Rightarrow> string list \<Rightarrow> string list" where
  "removeCommon [] y = []"
| "removeCommon (a # x) [] = a # x"
| "removeCommon (a # x) (b # y) =
     (if a < b then a # removeCommon x (b # y)
      else if a > b then removeCommon (a # x) y
      else removeCommon x y)"

record StreamMember =
  smb_userId :: string
  smb_userAddress :: bytes
  smb_miniblockNum :: "bigint option"
  smb_eventNum :: "bigint option"
  smb_solicitations :: "KeySolicitation list"
  smb_encryptedUsername :: "WrappedEncryptedData option"
  smb_encryptedDisplayName :: "WrappedEncryptedData option"
  smb_ensAddress :: "bytes option"
  smb_nft :: "Nft option"

definition initSolicitations ::
  "string \<Rightarrow> StreamMember list \<Rightarrow> bool \<Rightarrow> 's \<Rightarrow> ('s, emission) outcome" where
  "initSolicitations streamId members encryptionEmitter =
     for_each (\<lambda>member. for_each (\<lambda>event.
         emit encryptionEmitter
           (newKeySolicitation streamId (smb_userId member) (smb_userAddress member) event))
       (smb_solicitations member)) members"

text \<open>
  \<open>sessionIds.sort()\<close> sorts the array of the payload in place, so the state is the member and the
  payload, and the payload that is emitted has the sorted ids.
\<close>

definition applySolicitation ::
  "string \<Rightarrow> bool \<Rightarrow> StreamMember \<times> KeySolicitation \<Rightarrow> (StreamMember \<times> KeySolicitation, emission) outcome"
where
  "applySolicitation streamId encryptionEmitter us =
     (case us of (user, solicitation) \<Rightarrow>
        let kept = filter (\<lambda>y. ks_deviceKey y \<noteq> ks_deviceKey solicitation) (smb_solicitations user);
            solicitation' = solicitation\<lparr>ks_sessionIds := sort (ks_sessionIds solicitation)\<rparr>;
            user' = user\<lparr>smb_solicitations := kept @
                      [\<lparr>ks_deviceKey = ks_deviceKey solicitation,
                        ks_fallbackKey = ks_fallbackKey solicitation,
                        ks_isNewDevice = ks_isNewDevice solicitation,
                        ks_sessionIds = ks_sessionIds solicitation'\<rparr>]\<rparr>
        in emit encryptionEmitter
             (newKeySolicitation streamId (smb_userId user) (smb_userAddress user) solicitation')
             (user', solicitation'))"

definition applyFulfillment ::
  "string \<Rightarrow> bool \<Rightarrow> StreamMember \<times> KeyFulfillment \<Rightarrow> (StreamMember \<times> KeyFulfillment, emission) outcome"
where
  "applyFulfillment streamId encryptionEmitter uf =
     (case uf of (user, fulfillment) \<Rightarrow>
        case findIndex (\<lambda>y. ks_deviceKey y = kf_deviceKey fulfillment) (smb_solicitations user) of
          None \<Rightarrow> pass (user, fulfillment)
        | Some index \<Rightarrow>
            let prev = smb_solicitations user ! index;
                fulfillment' = fulfillment\<lparr>kf_sessionIds := sort (kf_sessionIds fulfillment)\<rparr>;
                newEvent = \<lparr>ks_deviceKey = ks_deviceKey prev, ks_fallbackKey = ks_fallbackKey prev,
                            ks_isNewDevice = False,
                            ks_sessionIds = removeCommon (ks_sessionIds prev) (kf_sessionIds fulfillment')\<rparr>
            in emit encryptionEmitter
                 (updatedKeySolicitation streamId (smb_userId user) (smb_userAddress user) newEvent)
                 (user\<lparr>smb_solicitations := (smb_solicitations user)[index := newEvent]\<rparr>, fulfillment'))"

section \<open>Lemmas on membership\<close>

text \<open>A history of operations, oldest first, applied to the sets, and its confirmed part.\<close>

definition applyHistory ::
  "(string \<times> MembershipOp \<times> EventStatus) list \<Rightarrow> Membership \<Rightarrow> Membership" where
  "applyHistory ops m =
     fold (\<lambda>(userId, op, type) m. out_state (applyMembershipEvent userId op type True m)) ops m"

definition confirmedOps ::
  "(string \<times> MembershipOp \<times> EventStatus) list \<Rightarrow> (string \<times> MembershipOp) list" where
  "confirmedOps ops = map (\<lambda>(u, op, _). (u, op)) (filter (\<lambda>(_, _, t). t = confirmedStatus) ops)"

text \<open>The operation on a user, among those that satisfy \<open>P\<close>, that was confirmed last.\<close>

definition lastOp :: "(MembershipOp \<Rightarrow> bool) \<Rightarrow> string \<Rightarrow> (string \<times> MembershipOp) list \<Rightarrow> MembershipOp option"
where
  "lastOp P userId ops = map_option snd (find (\<lambda>(u, op). u = userId \<and> P op) (rev ops))"

lemma lastOp_snoc [simp]:
  "lastOp P userId (ops @ [(u, op)]) = (if u = userId \<and> P op then Some op else lastOp P userId ops)"
  by (simp add: lastOp_def)

lemma lastOp_Nil [simp]: "lastOp P userId [] = None"
  by (simp add: lastOp_def)

lemma confirmedOps_snoc [simp]:
  "confirmedOps (ops @ [(u, op, t)]) =
     confirmedOps ops @ (if t = confirmedStatus then [(u, op)] else [])"
  "confirmedOps [] = []"
  by (simp_all add: confirmedOps_def)

lemma applyHistory_snoc [simp]:
  "applyHistory (ops @ [(u, op, t)]) m = out_state (applyMembershipEvent u op t True (applyHistory ops m))"
  "applyHistory [] m = m"
  by (simp_all add: applyHistory_def)

lemma applyMembershipEvent_no_error [simp]:
  "out_error (applyMembershipEvent userId op type em m) = None"
  by (simp add: applyMembershipEvent_def emitMembershipChange_def Let_def andThen_error
      split: MembershipOp.split)

lemmas applyMembershipEvent_sets =
  applyMembershipEvent_def emitMembershipChange_def Let_def andThen_state

lemma confirmed_sets:
  "ms_joinedUsers (out_state (applyMembershipEvent u op confirmedStatus em m)) =
     (if op = SO_JOIN then insert u (ms_joinedUsers m)
      else if op = SO_LEAVE then ms_joinedUsers m - {u} else ms_joinedUsers m)"
  "ms_invitedUsers (out_state (applyMembershipEvent u op confirmedStatus em m)) =
     (if op = SO_INVITE then insert u (ms_invitedUsers m)
      else if op = SO_LEAVE then ms_invitedUsers m - {u} else ms_invitedUsers m)"
  "ms_leftUsers (out_state (applyMembershipEvent u op confirmedStatus em m)) =
     (if op = SO_LEAVE then insert u (ms_leftUsers m) else ms_leftUsers m)"
  by (cases op; simp add: applyMembershipEvent_sets)+

lemma pending_sets:
  "ms_joinedUsers (out_state (applyMembershipEvent u op pendingStatus em m)) = ms_joinedUsers m"
  "ms_invitedUsers (out_state (applyMembershipEvent u op pendingStatus em m)) = ms_invitedUsers m"
  "ms_leftUsers (out_state (applyMembershipEvent u op pendingStatus em m)) = ms_leftUsers m"
  by (cases op; simp add: applyMembershipEvent_sets)+

lemma applyMembershipEvent_frame [simp]:
  "ms_streamId (out_state (applyMembershipEvent u op type em m)) = ms_streamId m"
  "ms_pendingMembershipEvents (out_state (applyMembershipEvent u op type em m)) =
     ms_pendingMembershipEvents m"
  by (cases op; simp add: applyMembershipEvent_sets)+

section \<open>Lemmas on solicitations\<close>

lemma removeCommon_set: "set (removeCommon x y) \<subseteq> set x"
  by (induction x y rule: removeCommon.induct) auto

lemma removeCommon_sorted: "sorted x \<Longrightarrow> sorted (removeCommon x y)"
proof (induction x y rule: removeCommon.induct)
  case (3 a x b y)
  then show ?case using removeCommon_set [of x "b # y"] by (auto split: if_splits)
qed simp_all

lemma mset_diff_absent: "b \<notin># M \<Longrightarrow> M - add_mset b N = M - N"
  by (simp add: diff_single_trivial minus_add_mset_if_not_in_lhs)

lemma removeCommon_mset:
  "sorted x \<Longrightarrow> sorted y \<Longrightarrow> mset (removeCommon x y) = mset x - mset y"
proof (induction x y rule: removeCommon.induct)
  case (3 a x b y)
  show ?case
  proof (cases "a < b")
    case True
    have "a \<notin># mset (b # y)" using True "3.prems"(2) by auto
    then have "mset (a # x) - mset (b # y) = add_mset a (mset x - mset (b # y))"
      by (simp add: add_mset_diff_bothsides minus_add_mset_if_not_in_lhs)
    then show ?thesis using True 3 by simp
  next
    case False
    show ?thesis
    proof (cases "a > b")
      case True
      then have "b \<notin># mset (a # x)" using "3.prems"(1) by auto
      then show ?thesis using True False 3 by (simp add: mset_diff_absent)
    next
      case eq: False
      then show ?thesis using False 3 by simp
    qed
  qed
qed simp_all

lemma history_invited:
  "u \<in> ms_invitedUsers (applyHistory ops (Membership_new sid)) \<longleftrightarrow>
     lastOp (\<lambda>op. op = SO_INVITE \<or> op = SO_LEAVE) u (confirmedOps ops) = Some SO_INVITE"
proof (induction ops rule: rev_induct)
  case (snoc a ops)
  obtain v op t where "a = (v, op, t)" by (cases a)
  then show ?case using snoc by (cases t) (auto simp: confirmed_sets pending_sets)
qed (simp add: Membership_new_def)

lemma history_joined:
  "u \<in> ms_joinedUsers (applyHistory ops (Membership_new sid)) \<longleftrightarrow>
     lastOp (\<lambda>op. op = SO_JOIN \<or> op = SO_LEAVE) u (confirmedOps ops) = Some SO_JOIN"
proof (induction ops rule: rev_induct)
  case (snoc a ops)
  obtain v op t where "a = (v, op, t)" by (cases a)
  then show ?case using snoc by (cases t) (auto simp: confirmed_sets pending_sets)
qed (simp add: Membership_new_def)

lemma history_participants:
  "participants (applyHistory ops (Membership_new sid)) =
     {u. \<exists>op \<in> {SO_INVITE, SO_JOIN, SO_LEAVE}. (u, op) \<in> set (confirmedOps ops)}"
proof (induction ops rule: rev_induct)
  case (snoc a ops)
  obtain v op t where "a = (v, op, t)" by (cases a)
  then show ?case using snoc
    by (cases t; cases op) (auto simp: participants_def confirmed_sets pending_sets)
qed (simp add: Membership_new_def participants_def)

section \<open>The solicitations of a member as a stepping component\<close>

datatype SolicitOp = Solicit KeySolicitation | Fulfil KeyFulfillment

definition solicitStep :: "string \<Rightarrow> bool \<Rightarrow> SolicitOp \<Rightarrow> StreamMember \<Rightarrow> (StreamMember, emission) outcome"
where
  "solicitStep streamId em op user =
     (case op of
        Solicit s \<Rightarrow> (case applySolicitation streamId em (user, s) of ((user', _), r) \<Rightarrow> (user', r))
      | Fulfil f \<Rightarrow> (case applyFulfillment streamId em (user, f) of ((user', _), r) \<Rightarrow> (user', r)))"

text \<open>At most one open solicitation per device, with its session ids in order.\<close>

definition solicit_inv :: "StreamMember \<Rightarrow> bool" where
  "solicit_inv user =
     (distinct (map ks_deviceKey (smb_solicitations user)) \<and>
      list_all (\<lambda>s. sorted (ks_sessionIds s)) (smb_solicitations user))"

lemma distinct_map_filter_snoc:
  "distinct (map f xs) \<Longrightarrow> distinct (map f (filter (\<lambda>y. f y \<noteq> k) xs))"
  by (induction xs) auto

lemma applySolicitation_inv:
  "solicit_inv user \<Longrightarrow> solicit_inv (fst (out_state (applySolicitation sid em (user, s))))"
  by (auto simp: solicit_inv_def applySolicitation_def Let_def emit_def list_all_iff
      distinct_map_filter_snoc)

lemma map_update_same: "i < length xs \<Longrightarrow> f v = f (xs ! i) \<Longrightarrow> map f (xs[i := v]) = map f xs"
  by (metis list_update_id map_update)

lemma applyFulfillment_inv:
  "solicit_inv user \<Longrightarrow> solicit_inv (fst (out_state (applyFulfillment sid em (user, f))))"
  by (auto simp: solicit_inv_def applyFulfillment_def Let_def emit_def list_all_iff pass_def
      findIndex_Some map_update_same removeCommon_sorted
      split: option.split dest!: subsetD [OF set_update_subset_insert])

lemma solicitStep_inv: "solicit_inv user \<Longrightarrow> solicit_inv (out_state (solicitStep sid em op user))"
  using applySolicitation_inv applyFulfillment_inv
  by (cases op) (simp_all add: solicitStep_def split: prod.splits, (metis fst_conv)+)

interpretation solicit: stepping "solicitStep sid em" solicit_inv "\<lambda>_ _. True" for sid em
  by unfold_locales (rule solicitStep_inv)

lemma filter_update:
  assumes "i < length xs" "\<not> P (xs ! i)" "\<not> P v"
  shows "filter P (xs[i := v]) = filter P xs"
proof -
  have "filter P xs = filter P (take i xs @ xs ! i # drop (Suc i) xs)"
    using assms(1) by (simp add: id_take_nth_drop [symmetric])
  then show ?thesis using assms by (simp add: upd_conv_take_nth_drop)
qed

text \<open>The solicitation a fulfilment finds is the only one of its device.\<close>

lemma findIndex_unique:
  assumes "distinct (map f xs)" "x \<in> set xs" "f x = k"
  obtains i where "findIndex (\<lambda>y. f y = k) xs = Some i" "i < length xs" "xs ! i = x"
proof -
  obtain i where i: "findIndex (\<lambda>y. f y = k) xs = Some i"
    using assms(2,3) findIndex_None [of "\<lambda>y. f y = k" xs] by (metis not_Some_eq)
  then have "i < length xs" "f (xs ! i) = f x" using assms(3) by (auto simp: findIndex_Some)
  moreover from this have "xs ! i = x" using assms(1,2) by (meson distinct_map inj_onD nth_mem)
  ultimately show ?thesis using that i by blast
qed

definition sample_member :: StreamMember where
  "sample_member =
     \<lparr>smb_userId = ''u'', smb_userAddress = [1], smb_miniblockNum = None, smb_eventNum = None,
      smb_solicitations = [], smb_encryptedUsername = None, smb_encryptedDisplayName = None,
      smb_ensAddress = None, smb_nft = None\<rparr>"

definition sample_solicitation :: KeySolicitation where
  "sample_solicitation =
     \<lparr>ks_deviceKey = ''d'', ks_fallbackKey = ''f'', ks_isNewDevice = True, ks_sessionIds = [''a'', ''b'']\<rparr>"

section \<open>Properties\<close>

text \<open>
  (C28) Membership is decided by the confirmed operations alone, and by the last of them: after any
  interleaving of pending and confirmed operations a user is joined exactly when the last confirmed
  join or leave of that user is a join, invited exactly when the last confirmed invite or leave is
  an invite, and a participant exactly when some operation on that user was confirmed.
\<close>
theorem membership_history:
  "isMember SO_JOIN u (applyHistory ops (Membership_new sid)) =
     (lastOp (\<lambda>op. op = SO_JOIN \<or> op = SO_LEAVE) u (confirmedOps ops) = Some SO_JOIN)
   \<and> isMember SO_INVITE u (applyHistory ops (Membership_new sid)) =
     (lastOp (\<lambda>op. op = SO_INVITE \<or> op = SO_LEAVE) u (confirmedOps ops) = Some SO_INVITE)
   \<and> (u \<in> participants (applyHistory ops (Membership_new sid))) =
     ((u, SO_INVITE) \<in> set (confirmedOps ops) \<or> (u, SO_JOIN) \<in> set (confirmedOps ops) \<or>
      (u, SO_LEAVE) \<in> set (confirmedOps ops))"
  by (simp add: isMember_def history_joined history_invited history_participants)

text \<open>
  \<open>removeCommon\<close> on two sorted arrays is the difference of the two multisets of ids, sorted.
\<close>
theorem removeCommon_difference:
  assumes "sorted x" "sorted y"
  shows "mset (removeCommon x y) = mset x - mset y \<and> sorted (removeCommon x y)"
  using assms by (simp add: removeCommon_mset removeCommon_sorted)

theorem removeCommon_difference_witness:
  "mset (removeCommon [''a'', ''b'', ''b''] [''b'', ''c'']) = {#''a'', ''b''#}"
proof -
  have "sorted [''a'', ''b'', ''b'']" "sorted [''b'', ''c'']" by code_simp+
  from removeCommon_difference [OF this] show ?thesis by simp
qed

text \<open>On an array that is not sorted it can leave an id that the second array lists.\<close>

lemma removeCommon_unsorted: "removeCommon [''b'', ''a''] [''a'', ''b''] = [''a'']"
  by code_simp

text \<open>
  Whatever sequence of solicitations and fulfilments a member's device sends, at most one
  solicitation per device is open and its session ids are sorted.
\<close>
theorem one_solicitation_per_device:
  assumes "smb_solicitations user = []"
  shows "solicit_inv (run (solicitStep sid em) ops user)"
  by (rule solicit.run_inv) (simp_all add: assms solicit_inv_def)

theorem one_solicitation_per_device_witness:
  "solicit_inv (run (solicitStep ''s'' True)
     [Solicit \<lparr>ks_deviceKey = ''d'', ks_fallbackKey = ''f'', ks_isNewDevice = True, ks_sessionIds = [''b'', ''a'']\<rparr>,
      Fulfil \<lparr>kf_userAddress = [], kf_deviceKey = ''d'', kf_sessionIds = [''a'']\<rparr>]
     sample_member)"
  by (rule one_solicitation_per_device) (simp add: sample_member_def)

text \<open>
  A fulfilment closes exactly the ids it lists: when a device's solicitation is open, the
  fulfilment replaces it by one with the listed ids removed and no longer marked as a new device,
  keeps the solicitations of every other device, and announces the replacement.
\<close>
theorem fulfillment_exact:
  assumes "solicit_inv user" "s \<in> set (smb_solicitations user)" "ks_deviceKey s = kf_deviceKey f"
  shows "\<exists>s'. s' \<in> set (smb_solicitations (fst (out_state (applyFulfillment sid True (user, f))))) \<and>
    ks_deviceKey s' = ks_deviceKey s \<and> ks_fallbackKey s' = ks_fallbackKey s \<and> \<not> ks_isNewDevice s' \<and>
    mset (ks_sessionIds s') = mset (ks_sessionIds s) - mset (kf_sessionIds f) \<and>
    out_events (applyFulfillment sid True (user, f)) =
      [updatedKeySolicitation sid (smb_userId user) (smb_userAddress user) s'] \<and>
    filter (\<lambda>y. ks_deviceKey y \<noteq> kf_deviceKey f)
      (smb_solicitations (fst (out_state (applyFulfillment sid True (user, f))))) =
    filter (\<lambda>y. ks_deviceKey y \<noteq> kf_deviceKey f) (smb_solicitations user)"
proof -
  let ?sols = "smb_solicitations user"
  have d: "distinct (map ks_deviceKey ?sols)" and so: "sorted (ks_sessionIds s)"
    using assms(1,2) by (auto simp: solicit_inv_def list_all_iff)
  obtain i where i: "findIndex (\<lambda>y. ks_deviceKey y = kf_deviceKey f) ?sols = Some i"
    "i < length ?sols" "?sols ! i = s"
    using findIndex_unique [OF d assms(2,3)] by blast
  let ?s' = "\<lparr>ks_deviceKey = ks_deviceKey s, ks_fallbackKey = ks_fallbackKey s, ks_isNewDevice = False,
    ks_sessionIds = removeCommon (ks_sessionIds s) (sort (kf_sessionIds f))\<rparr>"
  have "applyFulfillment sid True (user, f) =
    ((user\<lparr>smb_solicitations := ?sols[i := ?s']\<rparr>, f\<lparr>kf_sessionIds := sort (kf_sessionIds f)\<rparr>),
     [updatedKeySolicitation sid (smb_userId user) (smb_userAddress user) ?s'], None)"
    using i by (simp add: applyFulfillment_def Let_def emit_def)
  moreover have "?s' \<in> set (?sols[i := ?s'])" using i(2) by (rule set_update_memI)
  moreover have "mset (ks_sessionIds ?s') = mset (ks_sessionIds s) - mset (kf_sessionIds f)"
    using so by (simp add: removeCommon_mset)
  moreover have "filter (\<lambda>y. ks_deviceKey y \<noteq> kf_deviceKey f) (?sols[i := ?s']) =
    filter (\<lambda>y. ks_deviceKey y \<noteq> kf_deviceKey f) ?sols"
    using i assms(3) by (intro filter_update) simp_all
  ultimately show ?thesis by (intro exI [of _ ?s']) simp
qed

theorem fulfillment_exact_witness:
  "\<exists>s'. s' \<in> set (smb_solicitations (fst (out_state (applyFulfillment ''s'' True
      (sample_member\<lparr>smb_solicitations := [sample_solicitation]\<rparr>,
       \<lparr>kf_userAddress = [], kf_deviceKey = ''d'', kf_sessionIds = [''a'']\<rparr>))))) \<and>
    mset (ks_sessionIds s') = {#''b''#}"
proof -
  have "sorted [''a'', ''b'']" by code_simp
  then have "solicit_inv (sample_member\<lparr>smb_solicitations := [sample_solicitation]\<rparr>)"
    by (simp add: solicit_inv_def sample_solicitation_def)
  from fulfillment_exact [OF this, of sample_solicitation
      "\<lparr>kf_userAddress = [], kf_deviceKey = ''d'', kf_sessionIds = [''a'']\<rparr>" "''s''"]
  show ?thesis by (auto simp: sample_solicitation_def)
qed

end
