(* ===== verification/UserMetadata.thy ===== *)
theory UserMetadata
  imports Protocol
begin

text \<open>
  What the members of a stream say about themselves: usernames, display names, ENS addresses and
  NFTs (\<open>userMetadata_Usernames.ts\<close>, \<open>userMetadata_DisplayNames.ts\<close>,
  \<open>userMetadata_EnsAddresses.ts\<close>, \<open>userMetadata_Nft.ts\<close>) and the object that holds the four
  (\<open>streamStateView_UserMetadata.ts\<close>). The four classes keep the same index from users to their
  latest event; the locale \<open>event_registry\<close> states that contract once.
\<close>

section \<open>Usernames\<close>

record NameEvent =
  ne_encryptedData :: EncryptedData
  ne_userId :: string
  ne_pending :: bool

record Usernames =
  un_streamId :: string
  un_plaintextUsernames :: "string \<rightharpoonup> string"
  un_userIdToEventId :: "string \<rightharpoonup> string"
  un_confirmedUserIds :: "string set"
  un_usernameEvents :: "string \<rightharpoonup> NameEvent"
  un_checksums :: "string set"

definition Usernames_new :: "string \<Rightarrow> Usernames" where
  "Usernames_new streamId =
     \<lparr>un_streamId = streamId, un_plaintextUsernames = Map.empty, un_userIdToEventId = Map.empty,
      un_confirmedUserIds = {}, un_usernameEvents = Map.empty, un_checksums = {}\<rparr>"

definition setLocalUsername :: "string \<Rightarrow> string \<Rightarrow> bool \<Rightarrow> Usernames \<Rightarrow> (Usernames, emission) outcome" where
  "setLocalUsername userId username emitter s =
     emit emitter (streamPendingUsernameUpdated (un_streamId s) userId)
       (s\<lparr>un_plaintextUsernames := (un_plaintextUsernames s)(userId \<mapsto> username)\<rparr>)"

definition resetLocalUsername :: "string \<Rightarrow> bool \<Rightarrow> Usernames \<Rightarrow> (Usernames, emission) outcome" where
  "resetLocalUsername userId emitter s =
     emit emitter (streamPendingUsernameUpdated (un_streamId s) userId)
       (s\<lparr>un_plaintextUsernames := (un_plaintextUsernames s)(userId := None)\<rparr>)"

definition usernameAvailable :: "string \<Rightarrow> Usernames \<Rightarrow> bool" where
  "usernameAvailable checksum s = (checksum \<notin> un_checksums s)"

definition cleartextUsernameAvailable :: "externs \<Rightarrow> string \<Rightarrow> Usernames \<Rightarrow> bool" where
  "cleartextUsernameAvailable x username s =
     usernameAvailable (usernameChecksum x username (un_streamId s)) s"

definition emitUsernameUpdated :: "string \<Rightarrow> bool \<Rightarrow> Usernames \<Rightarrow> (Usernames, emission) outcome" where
  "emitUsernameUpdated eventId emitter s =
     (case un_usernameEvents s eventId of
        None \<Rightarrow> pass s
      | Some event \<Rightarrow>
          if un_plaintextUsernames s (ne_userId event) = None then pass s
          else emit emitter
                 (if ne_pending event
                  then streamPendingUsernameUpdated (un_streamId s) (ne_userId event)
                  else streamUsernameUpdated (un_streamId s) (ne_userId event)) s)"

definition removeUsernameEventForUserId :: "string \<Rightarrow> Usernames \<Rightarrow> Usernames" where
  "removeUsernameEventForUserId userId s =
     (case un_userIdToEventId s userId of
        None \<Rightarrow> s
      | Some eventId \<Rightarrow>
          if eventId = [] then s
          else (case un_usernameEvents s eventId of
                  None \<Rightarrow> s
                | Some event \<Rightarrow>
                    s\<lparr>un_checksums := un_checksums s -
                        {case ed_checksum (ne_encryptedData event) of Some c \<Rightarrow> c | None \<Rightarrow> []},
                      un_usernameEvents := (un_usernameEvents s)(eventId := None)\<rparr>))"

definition addUsernameEventForUserId ::
  "string \<Rightarrow> string \<Rightarrow> EncryptedData \<Rightarrow> bool \<Rightarrow> Usernames \<Rightarrow> Usernames" where
  "addUsernameEventForUserId userId eventId encryptedData pending s =
     (if \<not> truthy (ed_checksum encryptedData) then s
      else s\<lparr>un_userIdToEventId := (un_userIdToEventId s)(userId \<mapsto> eventId),
             un_checksums := insert (the (ed_checksum encryptedData)) (un_checksums s),
             un_usernameEvents := (un_usernameEvents s)(eventId \<mapsto>
               \<lparr>ne_encryptedData = encryptedData, ne_userId = userId, ne_pending = pending\<rparr>)\<rparr>)"

definition Usernames_addEncryptedData ::
  "string \<Rightarrow> EncryptedData \<Rightarrow> string \<Rightarrow> bool \<Rightarrow> string option \<Rightarrow> bool \<Rightarrow> bool \<Rightarrow>
   Usernames \<Rightarrow> (Usernames, emission) outcome" where
  "Usernames_addEncryptedData eventId encryptedData userId pending cleartext
       encryptionEmitter stateEmitter s =
     (if \<not> truthy (ed_checksum encryptedData) then pass s
      else if \<not> usernameAvailable (the (ed_checksum encryptedData)) s then pass s
      else
        let s1 = removeUsernameEventForUserId userId s;
            s2 = addUsernameEventForUserId userId eventId encryptedData pending s1
        in andThen
             (if truthy cleartext
              then pass (s2\<lparr>un_plaintextUsernames := (un_plaintextUsernames s2)(userId \<mapsto> the cleartext)\<rparr>)
              else emit encryptionEmitter
                     (newEncryptedContent (un_streamId s) eventId
                        \<lparr>ec_kind = textKind, ec_content = encryptedData\<rparr>)
                     (s2\<lparr>un_plaintextUsernames := (un_plaintextUsernames s2)(userId := None)\<rparr>))
             (\<lambda>s3. emitUsernameUpdated eventId stateEmitter
                (if \<not> pending then s3\<lparr>un_confirmedUserIds := insert userId (un_confirmedUserIds s3)\<rparr>
                 else s3)))"

definition Usernames_onConfirmEvent :: "string \<Rightarrow> bool \<Rightarrow> Usernames \<Rightarrow> (Usernames, emission) outcome" where
  "Usernames_onConfirmEvent eventId emitter s =
     (case un_usernameEvents s eventId of
        None \<Rightarrow> pass s
      | Some event \<Rightarrow>
          let s1 = s\<lparr>un_usernameEvents := (un_usernameEvents s)(eventId \<mapsto> event\<lparr>ne_pending := False\<rparr>),
                     un_confirmedUserIds := insert (ne_userId event) (un_confirmedUserIds s)\<rparr>
          in if un_plaintextUsernames s1 (ne_userId event) \<noteq> None
             then emitUsernameUpdated eventId emitter s1 else pass s1)"

definition Usernames_onDecryptedContent ::
  "externs \<Rightarrow> string \<Rightarrow> string \<Rightarrow> bool \<Rightarrow> Usernames \<Rightarrow> (Usernames, emission) outcome" where
  "Usernames_onDecryptedContent x eventId content emitter s =
     (case un_usernameEvents s eventId of
        None \<Rightarrow> pass s
      | Some event \<Rightarrow>
          if \<not> truthy (ed_checksum (ne_encryptedData event)) then pass s
          else if ed_checksum (ne_encryptedData event) \<noteq> Some (usernameChecksum x content (un_streamId s))
          then pass s
          else emitUsernameUpdated eventId emitter
                 (s\<lparr>un_plaintextUsernames := (un_plaintextUsernames s)(ne_userId event \<mapsto> content)\<rparr>))"

record UsernameInfo =
  ui_username :: string
  ui_usernameConfirmed :: bool
  ui_usernameEncrypted :: bool

definition Usernames_info :: "string \<Rightarrow> Usernames \<Rightarrow> UsernameInfo" where
  "Usernames_info userId s =
     (let name = (case un_plaintextUsernames s userId of Some n \<Rightarrow> n | None \<Rightarrow> [])
      in if \<not> truthy (un_userIdToEventId s userId)
         then \<lparr>ui_username = name, ui_usernameConfirmed = False, ui_usernameEncrypted = False\<rparr>
         else \<lparr>ui_username = name,
               ui_usernameConfirmed = (userId \<in> un_confirmedUserIds s),
               ui_usernameEncrypted =
                 (un_usernameEvents s (the (un_userIdToEventId s userId)) \<noteq> None \<and>
                  un_plaintextUsernames s userId = None)\<rparr>)"

section \<open>Display names\<close>

record DisplayNames =
  dn_streamId :: string
  dn_userIdToEventId :: "string \<rightharpoonup> string"
  dn_plaintextDisplayNames :: "string \<rightharpoonup> string"
  dn_displayNameEvents :: "string \<rightharpoonup> NameEvent"

definition DisplayNames_new :: "string \<Rightarrow> DisplayNames" where
  "DisplayNames_new streamId =
     \<lparr>dn_streamId = streamId, dn_userIdToEventId = Map.empty, dn_plaintextDisplayNames = Map.empty,
      dn_displayNameEvents = Map.empty\<rparr>"

definition emitDisplayNameUpdated :: "string \<Rightarrow> bool \<Rightarrow> DisplayNames \<Rightarrow> (DisplayNames, emission) outcome" where
  "emitDisplayNameUpdated eventId emitter s =
     (case dn_displayNameEvents s eventId of
        None \<Rightarrow> pass s
      | Some event \<Rightarrow>
          if dn_plaintextDisplayNames s (ne_userId event) = None then pass s
          else emit emitter
                 (if ne_pending event
                  then streamPendingDisplayNameUpdated (dn_streamId s) (ne_userId event)
                  else streamDisplayNameUpdated (dn_streamId s) (ne_userId event)) s)"

definition DisplayNames_removeEventForUserId :: "string \<Rightarrow> DisplayNames \<Rightarrow> DisplayNames" where
  "DisplayNames_removeEventForUserId userId s =
     (case dn_userIdToEventId s userId of
        None \<Rightarrow> s
      | Some eventId \<Rightarrow>
          if eventId = [] then s
          else (case dn_displayNameEvents s eventId of
                  None \<Rightarrow> s
                | Some event \<Rightarrow>
                    s\<lparr>dn_displayNameEvents := (dn_displayNameEvents s)(eventId := None)\<rparr>))"

definition DisplayNames_addEventForUserId ::
  "string \<Rightarrow> string \<Rightarrow> EncryptedData \<Rightarrow> bool \<Rightarrow> DisplayNames \<Rightarrow> DisplayNames" where
  "DisplayNames_addEventForUserId userId eventId encryptedData pending s =
     s\<lparr>dn_userIdToEventId := (dn_userIdToEventId s)(userId \<mapsto> eventId),
       dn_displayNameEvents := (dn_displayNameEvents s)(eventId \<mapsto>
         \<lparr>ne_encryptedData = encryptedData, ne_userId = userId, ne_pending = pending\<rparr>)\<rparr>"

definition DisplayNames_addEncryptedData ::
  "string \<Rightarrow> EncryptedData \<Rightarrow> string \<Rightarrow> bool \<Rightarrow> string option \<Rightarrow> bool \<Rightarrow> bool \<Rightarrow>
   DisplayNames \<Rightarrow> (DisplayNames, emission) outcome" where
  "DisplayNames_addEncryptedData eventId encryptedData userId pending cleartext
       encryptionEmitter stateEmitter s =
     (let s1 = DisplayNames_removeEventForUserId userId s;
          s2 = DisplayNames_addEventForUserId userId eventId encryptedData pending s1
      in andThen
           (if truthy cleartext
            then pass (s2\<lparr>dn_plaintextDisplayNames := (dn_plaintextDisplayNames s2)(userId \<mapsto> the cleartext)\<rparr>)
            else emit encryptionEmitter
                   (newEncryptedContent (dn_streamId s) eventId
                      \<lparr>ec_kind = textKind, ec_content = encryptedData\<rparr>)
                   (s2\<lparr>dn_plaintextDisplayNames := (dn_plaintextDisplayNames s2)(userId := None)\<rparr>))
           (emitDisplayNameUpdated eventId stateEmitter))"

definition DisplayNames_onConfirmEvent ::
  "string \<Rightarrow> bool \<Rightarrow> DisplayNames \<Rightarrow> (DisplayNames, emission) outcome" where
  "DisplayNames_onConfirmEvent eventId emitter s =
     (case dn_displayNameEvents s eventId of
        None \<Rightarrow> pass s
      | Some event \<Rightarrow>
          let s1 = s\<lparr>dn_displayNameEvents :=
                       (dn_displayNameEvents s)(eventId \<mapsto> event\<lparr>ne_pending := False\<rparr>)\<rparr>
          in if dn_plaintextDisplayNames s1 (ne_userId event) \<noteq> None
             then emitDisplayNameUpdated eventId emitter s1 else pass s1)"

definition DisplayNames_onDecryptedContent ::
  "string \<Rightarrow> string \<Rightarrow> bool \<Rightarrow> DisplayNames \<Rightarrow> (DisplayNames, emission) outcome" where
  "DisplayNames_onDecryptedContent eventId content emitter s =
     (case dn_displayNameEvents s eventId of
        None \<Rightarrow> pass s
      | Some event \<Rightarrow>
          emitDisplayNameUpdated eventId emitter
            (s\<lparr>dn_plaintextDisplayNames := (dn_plaintextDisplayNames s)(ne_userId event \<mapsto> content)\<rparr>))"

record DisplayNameInfo =
  di_displayName :: string
  di_displayNameEncrypted :: bool

definition DisplayNames_info :: "string \<Rightarrow> DisplayNames \<Rightarrow> DisplayNameInfo" where
  "DisplayNames_info userId s =
     \<lparr>di_displayName = (case dn_plaintextDisplayNames s userId of Some n \<Rightarrow> n | None \<Rightarrow> []),
      di_displayNameEncrypted =
        (dn_plaintextDisplayNames s userId = None \<and> dn_userIdToEventId s userId \<noteq> None)\<rparr>"

section \<open>ENS addresses\<close>

record EnsEvent =
  ee_ensAddress :: bytes
  ee_userId :: string
  ee_pending :: bool

record EnsAddresses =
  en_streamId :: string
  en_userIdToEventId :: "string \<rightharpoonup> string"
  en_confirmedEnsAddresses :: "string \<rightharpoonup> string"
  en_ensAddressEvents :: "string \<rightharpoonup> EnsEvent"

definition EnsAddresses_new :: "string \<Rightarrow> EnsAddresses" where
  "EnsAddresses_new streamId =
     \<lparr>en_streamId = streamId, en_userIdToEventId = Map.empty, en_confirmedEnsAddresses = Map.empty,
      en_ensAddressEvents = Map.empty\<rparr>"

text \<open>\<open>confirmedEnsAddresses.set\<close> or \<open>delete\<close>, depending on the length of the address.\<close>

definition setConfirmedEns :: "externs \<Rightarrow> string \<Rightarrow> bytes \<Rightarrow> EnsAddresses \<Rightarrow> (EnsAddresses, emission) outcome"
where
  "setConfirmedEns x userId ensAddress s =
     (if length ensAddress > 0
      then with_value (userIdFromAddress x ensAddress)
             (\<lambda>a s. pass (s\<lparr>en_confirmedEnsAddresses := (en_confirmedEnsAddresses s)(userId \<mapsto> a)\<rparr>)) s
      else pass (s\<lparr>en_confirmedEnsAddresses := (en_confirmedEnsAddresses s)(userId := None)\<rparr>))"

definition EnsAddresses_applySnapshot ::
  "externs \<Rightarrow> (string \<times> bytes) list \<Rightarrow> EnsAddresses \<Rightarrow> (EnsAddresses, emission) outcome" where
  "EnsAddresses_applySnapshot x ensAddresses =
     for_each (\<lambda>(userId, ensAddress) s.
       if length ensAddress > 0
       then with_value (userIdFromAddress x ensAddress)
              (\<lambda>a s. pass (s\<lparr>en_confirmedEnsAddresses := (en_confirmedEnsAddresses s)(userId \<mapsto> a)\<rparr>)) s
       else pass s) ensAddresses"

definition emitEnsAddressUpdated :: "string \<Rightarrow> bool \<Rightarrow> EnsAddresses \<Rightarrow> (EnsAddresses, emission) outcome" where
  "emitEnsAddressUpdated eventId emitter s =
     (case en_ensAddressEvents s eventId of
        None \<Rightarrow> pass s
      | Some event \<Rightarrow>
          if ee_pending event then pass s
          else emit emitter (streamEnsAddressUpdated (en_streamId s) (ee_userId event)) s)"

definition EnsAddresses_removeEventForUserId :: "string \<Rightarrow> EnsAddresses \<Rightarrow> EnsAddresses" where
  "EnsAddresses_removeEventForUserId userId s =
     (case en_userIdToEventId s userId of
        None \<Rightarrow> s
      | Some eventId \<Rightarrow>
          if eventId = [] then s
          else (case en_ensAddressEvents s eventId of
                  None \<Rightarrow> s
                | Some event \<Rightarrow>
                    s\<lparr>en_ensAddressEvents := (en_ensAddressEvents s)(eventId := None)\<rparr>))"

definition EnsAddresses_addEventForUserId ::
  "string \<Rightarrow> string \<Rightarrow> bytes \<Rightarrow> bool \<Rightarrow> EnsAddresses \<Rightarrow> EnsAddresses" where
  "EnsAddresses_addEventForUserId userId eventId ensAddress pending s =
     s\<lparr>en_userIdToEventId := (en_userIdToEventId s)(userId \<mapsto> eventId),
       en_ensAddressEvents := (en_ensAddressEvents s)(eventId \<mapsto>
         \<lparr>ee_ensAddress = ensAddress, ee_userId = userId, ee_pending = pending\<rparr>)\<rparr>"

definition addEnsAddressEvent ::
  "externs \<Rightarrow> string \<Rightarrow> bytes \<Rightarrow> string \<Rightarrow> bool \<Rightarrow> bool \<Rightarrow> EnsAddresses \<Rightarrow> (EnsAddresses, emission) outcome"
where
  "addEnsAddressEvent x eventId ensAddress userId pending stateEmitter s =
     (let s1 = EnsAddresses_removeEventForUserId userId s
      in andThen (if \<not> pending then setConfirmedEns x userId ensAddress s1 else pass s1)
           (\<lambda>s2. emitEnsAddressUpdated eventId stateEmitter
                    (EnsAddresses_addEventForUserId userId eventId ensAddress pending s2)))"

definition EnsAddresses_onConfirmEvent ::
  "externs \<Rightarrow> string \<Rightarrow> bool \<Rightarrow> EnsAddresses \<Rightarrow> (EnsAddresses, emission) outcome" where
  "EnsAddresses_onConfirmEvent x eventId emitter s =
     (case en_ensAddressEvents s eventId of
        None \<Rightarrow> pass s
      | Some event \<Rightarrow>
          andThen
            (setConfirmedEns x (ee_userId event) (ee_ensAddress event)
               (s\<lparr>en_ensAddressEvents :=
                    (en_ensAddressEvents s)(eventId \<mapsto> event\<lparr>ee_pending := False\<rparr>)\<rparr>))
            (emitEnsAddressUpdated eventId emitter))"

definition EnsAddresses_info :: "string \<Rightarrow> EnsAddresses \<Rightarrow> string option" where
  "EnsAddresses_info userId s = en_confirmedEnsAddresses s userId"

section \<open>NFTs\<close>

record NftEvent =
  nv_nft :: Nft
  nv_userId :: string
  nv_pending :: bool

record Nfts =
  nf_streamId :: string
  nf_userIdToEventId :: "string \<rightharpoonup> string"
  nf_confirmedNfts :: "string \<rightharpoonup> Nft"
  nf_nftEvents :: "string \<rightharpoonup> NftEvent"

definition Nfts_new :: "string \<Rightarrow> Nfts" where
  "Nfts_new streamId =
     \<lparr>nf_streamId = streamId, nf_userIdToEventId = Map.empty, nf_confirmedNfts = Map.empty,
      nf_nftEvents = Map.empty\<rparr>"

definition isValidNft :: "Nft \<Rightarrow> bool" where
  "isValidNft nft =
     (length (nft_tokenId nft) > 0 \<and> length (nft_contractAddress nft) > 0 \<and> nft_chainId nft > 0)"

definition Nfts_applySnapshot :: "(string \<times> Nft) list \<Rightarrow> Nfts \<Rightarrow> Nfts" where
  "Nfts_applySnapshot nfts s =
     fold (\<lambda>(userId, nft) s.
             if isValidNft nft then s\<lparr>nf_confirmedNfts := (nf_confirmedNfts s)(userId \<mapsto> nft)\<rparr> else s)
       nfts s"

definition setConfirmedNft :: "string \<Rightarrow> Nft \<Rightarrow> Nfts \<Rightarrow> Nfts" where
  "setConfirmedNft userId nft s =
     (if isValidNft nft then s\<lparr>nf_confirmedNfts := (nf_confirmedNfts s)(userId \<mapsto> nft)\<rparr>
      else s\<lparr>nf_confirmedNfts := (nf_confirmedNfts s)(userId := None)\<rparr>)"

definition emitNftUpdated :: "string \<Rightarrow> bool \<Rightarrow> Nfts \<Rightarrow> (Nfts, emission) outcome" where
  "emitNftUpdated eventId emitter s =
     (case nf_nftEvents s eventId of
        None \<Rightarrow> pass s
      | Some event \<Rightarrow>
          if nv_pending event then pass s
          else emit emitter (streamNftUpdated (nf_streamId s) (nv_userId event)) s)"

definition Nfts_removeEventForUserId :: "string \<Rightarrow> Nfts \<Rightarrow> Nfts" where
  "Nfts_removeEventForUserId userId s =
     (case nf_userIdToEventId s userId of
        None \<Rightarrow> s
      | Some eventId \<Rightarrow>
          if eventId = [] then s
          else (case nf_nftEvents s eventId of
                  None \<Rightarrow> s
                | Some event \<Rightarrow> s\<lparr>nf_nftEvents := (nf_nftEvents s)(eventId := None)\<rparr>))"

definition Nfts_addEventForUserId :: "string \<Rightarrow> string \<Rightarrow> Nft \<Rightarrow> bool \<Rightarrow> Nfts \<Rightarrow> Nfts" where
  "Nfts_addEventForUserId userId eventId nft pending s =
     s\<lparr>nf_userIdToEventId := (nf_userIdToEventId s)(userId \<mapsto> eventId),
       nf_nftEvents := (nf_nftEvents s)(eventId \<mapsto>
         \<lparr>nv_nft = nft, nv_userId = userId, nv_pending = pending\<rparr>)\<rparr>"

definition addNftEvent :: "string \<Rightarrow> Nft \<Rightarrow> string \<Rightarrow> bool \<Rightarrow> bool \<Rightarrow> Nfts \<Rightarrow> (Nfts, emission) outcome" where
  "addNftEvent eventId nft userId pending stateEmitter s =
     (let s1 = Nfts_removeEventForUserId userId s;
          s2 = (if \<not> pending then setConfirmedNft userId nft s1 else s1);
          s3 = Nfts_addEventForUserId userId eventId nft pending s2
      in emitNftUpdated eventId stateEmitter s3)"

definition Nfts_onConfirmEvent :: "string \<Rightarrow> bool \<Rightarrow> Nfts \<Rightarrow> (Nfts, emission) outcome" where
  "Nfts_onConfirmEvent eventId emitter s =
     (case nf_nftEvents s eventId of
        None \<Rightarrow> pass s
      | Some event \<Rightarrow>
          emitNftUpdated eventId emitter
            (setConfirmedNft (nv_userId event) (nv_nft event)
               (s\<lparr>nf_nftEvents := (nf_nftEvents s)(eventId \<mapsto> event\<lparr>nv_pending := False\<rparr>)\<rparr>)))"

record NftInfo =
  ni_tokenId :: string
  ni_contractAddress :: string
  ni_chainId :: int

definition Nfts_info :: "externs \<Rightarrow> string \<Rightarrow> Nfts \<Rightarrow> js_error + NftInfo option" where
  "Nfts_info x userId s =
     (case nf_confirmedNfts s userId of
        None \<Rightarrow> Inr None
      | Some nft \<Rightarrow>
          bindE (userIdFromAddress x (nft_contractAddress nft))
            (\<lambda>a. Inr (Some \<lparr>ni_tokenId = bin_toString x (nft_tokenId nft), ni_contractAddress = a,
                              ni_chainId = nft_chainId nft\<rparr>)))"

section \<open>The four together\<close>

record UserMetadata =
  md_usernames :: Usernames
  md_displayNames :: DisplayNames
  md_ensAddresses :: EnsAddresses
  md_nfts :: Nfts

definition UserMetadata_new :: "string \<Rightarrow> UserMetadata" where
  "UserMetadata_new streamId =
     \<lparr>md_usernames = Usernames_new streamId, md_displayNames = DisplayNames_new streamId,
      md_ensAddresses = EnsAddresses_new streamId, md_nfts = Nfts_new streamId\<rparr>"

abbreviation on_usernames ::
  "(Usernames \<Rightarrow> (Usernames, emission) outcome) \<Rightarrow> UserMetadata \<Rightarrow> (UserMetadata, emission) outcome" where
  "on_usernames f \<equiv> on_field md_usernames (\<lambda>v. md_usernames_update (\<lambda>_. v)) f"

abbreviation on_displayNames ::
  "(DisplayNames \<Rightarrow> (DisplayNames, emission) outcome) \<Rightarrow> UserMetadata \<Rightarrow> (UserMetadata, emission) outcome" where
  "on_displayNames f \<equiv> on_field md_displayNames (\<lambda>v. md_displayNames_update (\<lambda>_. v)) f"

abbreviation on_ensAddresses ::
  "(EnsAddresses \<Rightarrow> (EnsAddresses, emission) outcome) \<Rightarrow> UserMetadata \<Rightarrow> (UserMetadata, emission) outcome" where
  "on_ensAddresses f \<equiv> on_field md_ensAddresses (\<lambda>v. md_ensAddresses_update (\<lambda>_. v)) f"

abbreviation on_nfts ::
  "(Nfts \<Rightarrow> (Nfts, emission) outcome) \<Rightarrow> UserMetadata \<Rightarrow> (UserMetadata, emission) outcome" where
  "on_nfts f \<equiv> on_field md_nfts (\<lambda>v. md_nfts_update (\<lambda>_. v)) f"

text \<open>\<open>cleartexts?.[eventId]\<close>, and the stable sort of the payloads by event number.\<close>

type_synonym cleartexts = "(string \<rightharpoonup> string) option"

definition cleartextOf :: "cleartexts \<Rightarrow> string \<Rightarrow> string option" where
  "cleartextOf cleartexts eventId = (case cleartexts of None \<Rightarrow> None | Some m \<Rightarrow> m eventId)"

definition sortPayloads ::
  "(string \<times> WrappedEncryptedData) list \<Rightarrow> (string \<times> WrappedEncryptedData) list" where
  "sortPayloads payloads = sort_key (\<lambda>p. wed_eventNum (snd p)) payloads"

text \<open>One name of the snapshot; an entry without data is skipped.\<close>

definition snapshotName ::
  "externs \<Rightarrow> cleartexts \<Rightarrow> (string \<Rightarrow> EncryptedData \<Rightarrow> string \<Rightarrow> string option \<Rightarrow> 's \<Rightarrow> ('s, emission) outcome) \<Rightarrow>
   string \<times> WrappedEncryptedData \<Rightarrow> 's \<Rightarrow> ('s, emission) outcome" where
  "snapshotName x cleartexts add payload s =
     (case wed_data (snd payload) of
        None \<Rightarrow> pass s
      | Some data \<Rightarrow>
          let eventId = bin_toHexString x (wed_eventHash (snd payload))
          in add eventId data (fst payload) (cleartextOf cleartexts eventId) s)"

definition UserMetadata_applySnapshot ::
  "externs \<Rightarrow> (string \<times> WrappedEncryptedData) list \<Rightarrow> (string \<times> WrappedEncryptedData) list \<Rightarrow>
   (string \<times> bytes) list \<Rightarrow> (string \<times> Nft) list \<Rightarrow> cleartexts \<Rightarrow> bool \<Rightarrow>
   UserMetadata \<Rightarrow> (UserMetadata, emission) outcome" where
  "UserMetadata_applySnapshot x usernames displayNames ensAddresses nfts cleartexts encryptionEmitter s =
     andThen
       (andThen
          (andThen
             (on_usernames (for_each
                (snapshotName x cleartexts
                   (\<lambda>eventId data userId clearText.
                      Usernames_addEncryptedData eventId data userId False clearText
                        encryptionEmitter False))
                (sortPayloads usernames)) s)
             (on_displayNames (for_each
                (snapshotName x cleartexts
                   (\<lambda>eventId data userId clearText.
                      DisplayNames_addEncryptedData eventId data userId False clearText
                        encryptionEmitter False))
                (sortPayloads displayNames))))
          (on_ensAddresses (EnsAddresses_applySnapshot x ensAddresses)))
       (on_nfts (\<lambda>n. pass (Nfts_applySnapshot nfts n)))"

definition UserMetadata_onConfirmedEvent ::
  "externs \<Rightarrow> string \<Rightarrow> bool \<Rightarrow> UserMetadata \<Rightarrow> (UserMetadata, emission) outcome" where
  "UserMetadata_onConfirmedEvent x eventId stateEmitter s =
     andThen (andThen (andThen
       (on_usernames (Usernames_onConfirmEvent eventId stateEmitter) s)
       (on_displayNames (DisplayNames_onConfirmEvent eventId stateEmitter)))
       (on_ensAddresses (EnsAddresses_onConfirmEvent x eventId stateEmitter)))
       (on_nfts (Nfts_onConfirmEvent eventId stateEmitter))"

definition appendDisplayName ::
  "string \<Rightarrow> EncryptedData \<Rightarrow> string \<Rightarrow> string option \<Rightarrow> bool \<Rightarrow> bool \<Rightarrow>
   UserMetadata \<Rightarrow> (UserMetadata, emission) outcome" where
  "appendDisplayName eventId data userId cleartext encryptionEmitter stateEmitter =
     on_displayNames (DisplayNames_addEncryptedData eventId data userId True cleartext
       encryptionEmitter stateEmitter)"

definition appendUsername ::
  "string \<Rightarrow> EncryptedData \<Rightarrow> string \<Rightarrow> string option \<Rightarrow> bool \<Rightarrow> bool \<Rightarrow>
   UserMetadata \<Rightarrow> (UserMetadata, emission) outcome" where
  "appendUsername eventId data userId cleartext encryptionEmitter stateEmitter =
     on_usernames (Usernames_addEncryptedData eventId data userId True cleartext
       encryptionEmitter stateEmitter)"

definition appendEnsAddress ::
  "externs \<Rightarrow> string \<Rightarrow> bytes \<Rightarrow> string \<Rightarrow> bool \<Rightarrow> UserMetadata \<Rightarrow> (UserMetadata, emission) outcome" where
  "appendEnsAddress x eventId ensAddress userId stateEmitter =
     on_ensAddresses (addEnsAddressEvent x eventId ensAddress userId True stateEmitter)"

definition appendNft ::
  "string \<Rightarrow> Nft \<Rightarrow> string \<Rightarrow> bool \<Rightarrow> UserMetadata \<Rightarrow> (UserMetadata, emission) outcome" where
  "appendNft eventId nft userId stateEmitter = on_nfts (addNftEvent eventId nft userId True stateEmitter)"

definition UserMetadata_onDecryptedContent ::
  "externs \<Rightarrow> string \<Rightarrow> string \<Rightarrow> bool \<Rightarrow> UserMetadata \<Rightarrow> (UserMetadata, emission) outcome" where
  "UserMetadata_onDecryptedContent x eventId content emitter s =
     andThen (on_displayNames (DisplayNames_onDecryptedContent eventId content emitter) s)
       (on_usernames (Usernames_onDecryptedContent x eventId content emitter))"

record UserInfo =
  uinf_username :: UsernameInfo
  uinf_displayName :: DisplayNameInfo
  uinf_ensAddress :: "string option"
  uinf_nft :: "NftInfo option"

definition userInfo :: "externs \<Rightarrow> string \<Rightarrow> UserMetadata \<Rightarrow> js_error + UserInfo" where
  "userInfo x userId s =
     bindE (Nfts_info x userId (md_nfts s))
       (\<lambda>nft. Inr \<lparr>uinf_username = Usernames_info userId (md_usernames s),
                     uinf_displayName = DisplayNames_info userId (md_displayNames s),
                     uinf_ensAddress = EnsAddresses_info userId (md_ensAddresses s),
                     uinf_nft = nft\<rparr>)"

section \<open>The index from users to their latest event\<close>

text \<open>
  The contract the four classes share: \<open>remove\<close> drops the event the index has for a user,
  \<open>add\<close> stores an event and indexes it. A client that removes before it adds, with event ids
  that are fresh, has at most one live event per user.
\<close>

locale event_registry =
  fixes idx :: "'s \<Rightarrow> string \<rightharpoonup> string"
    and evs :: "'s \<Rightarrow> string \<rightharpoonup> 'v"
    and owner :: "'v \<Rightarrow> string"
    and valid :: "'v \<Rightarrow> bool"
    and remove :: "string \<Rightarrow> 's \<Rightarrow> 's"
    and add :: "string \<Rightarrow> string \<Rightarrow> 'v \<Rightarrow> 's \<Rightarrow> 's"
  assumes remove_idx: "idx (remove u s) = idx s"
    and remove_evs: "evs (remove u s) =
      (if truthy (idx s u) then (evs s)(the (idx s u) := None) else evs s)"
    and add_idx: "owner v = u \<Longrightarrow> valid v \<Longrightarrow> idx (add u e v s) = (idx s)(u \<mapsto> e)"
    and add_evs: "owner v = u \<Longrightarrow> valid v \<Longrightarrow> evs (add u e v s) = (evs s)(e \<mapsto> v)"
begin

definition reg_inv :: "'s \<Rightarrow> bool" where
  "reg_inv s =
     ((\<forall>u e. idx s u = Some e \<longrightarrow> e \<noteq> [] \<and> (\<exists>v. evs s e = Some v \<and> owner v = u)) \<and>
      (\<forall>e v. evs s e = Some v \<longrightarrow> idx s (owner v) = Some e))"

lemma reg_inv_idx: "reg_inv s \<Longrightarrow> idx s u = Some e \<Longrightarrow> e \<noteq> [] \<and> (\<exists>v. evs s e = Some v \<and> owner v = u)"
  by (simp add: reg_inv_def)

lemma reg_inv_evs: "reg_inv s \<Longrightarrow> evs s e = Some v \<Longrightarrow> idx s (owner v) = Some e"
  by (simp add: reg_inv_def)

lemma replace_evs:
  assumes "reg_inv s" "owner v = u" "valid v" "evs s e = None"
  shows "evs (add u e v (remove u s)) e' =
    (if e' = e then Some v else case evs s e' of None \<Rightarrow> None | Some w \<Rightarrow> if owner w = u then None else Some w)"
proof (cases "idx s u")
  case None
  then have "owner w \<noteq> u" if "evs s e' = Some w" for w
    using reg_inv_evs [OF assms(1) that] by auto
  then show ?thesis
    using None assms by (auto simp: add_evs remove_evs truthy_def split: option.split)
next
  case (Some d)
  then obtain w where w: "d \<noteq> []" "evs s d = Some w" "owner w = u"
    using reg_inv_idx [OF assms(1)] by blast
  have "owner w' = u \<longleftrightarrow> e' = d" if "evs s e' = Some w'" for w'
    using reg_inv_evs [OF assms(1) that] Some w that by auto
  then show ?thesis
    using Some w assms by (auto simp: add_evs remove_evs truthy_def split: option.split)
qed

lemma replace_inv:
  assumes "reg_inv s" "owner v = u" "valid v" "e \<noteq> []" "evs s e = None"
  shows "reg_inv (add u e v (remove u s))"
  unfolding reg_inv_def replace_evs [OF assms(1-3,5)]
  using assms reg_inv_idx [OF assms(1)] reg_inv_evs [OF assms(1)]
  by (fastforce simp: add_idx remove_idx split: option.splits if_splits)

lemma one_event_per_user:
  assumes "reg_inv s" "evs s e = Some v" "evs s e' = Some v'" "owner v = owner v'"
  shows "e = e'"
  using assms reg_inv_evs by (metis option.inject)

lemma reg_inv_cong:
  assumes "idx s' = idx s" "\<And>e. map_option owner (evs s' e) = map_option owner (evs s e)" "reg_inv s"
  shows "reg_inv s'"
proof -
  have "evs s' e = Some v \<Longrightarrow> \<exists>v'. evs s e = Some v' \<and> owner v' = owner v" for e v
    using assms(2) [of e] by (cases "evs s e") auto
  moreover have "evs s e = Some v \<Longrightarrow> \<exists>v'. evs s' e = Some v' \<and> owner v' = owner v" for e v
    using assms(2) [of e] by (cases "evs s' e") auto
  ultimately show ?thesis using assms(1,3) unfolding reg_inv_def by metis
qed

end

interpretation un: event_registry un_userIdToEventId un_usernameEvents ne_userId
  "\<lambda>v. truthy (ed_checksum (ne_encryptedData v))" removeUsernameEventForUserId
  "\<lambda>u e v. addUsernameEventForUserId u e (ne_encryptedData v) (ne_pending v)"
  by unfold_locales
    (auto simp: removeUsernameEventForUserId_def addUsernameEventForUserId_def truthy_def
      split: option.splits)

interpretation dn: event_registry dn_userIdToEventId dn_displayNameEvents ne_userId "\<lambda>_. True"
  DisplayNames_removeEventForUserId
  "\<lambda>u e v. DisplayNames_addEventForUserId u e (ne_encryptedData v) (ne_pending v)"
  by unfold_locales
    (auto simp: DisplayNames_removeEventForUserId_def DisplayNames_addEventForUserId_def truthy_def
      split: option.splits)

interpretation en: event_registry en_userIdToEventId en_ensAddressEvents ee_userId "\<lambda>_. True"
  EnsAddresses_removeEventForUserId
  "\<lambda>u e v. EnsAddresses_addEventForUserId u e (ee_ensAddress v) (ee_pending v)"
  by unfold_locales
    (auto simp: EnsAddresses_removeEventForUserId_def EnsAddresses_addEventForUserId_def truthy_def
      split: option.splits)

interpretation nf: event_registry nf_userIdToEventId nf_nftEvents nv_userId "\<lambda>_. True"
  Nfts_removeEventForUserId
  "\<lambda>u e v. Nfts_addEventForUserId u e (nv_nft v) (nv_pending v)"
  by unfold_locales
    (auto simp: Nfts_removeEventForUserId_def Nfts_addEventForUserId_def truthy_def
      split: option.splits)

section \<open>Usernames as a stepping component\<close>

datatype UsernameOp =
    UAdd string EncryptedData string bool "string option"
  | UConfirm string
  | UDecrypted string string
  | USetLocal string string
  | UResetLocal string

definition usernamesStep :: "externs \<Rightarrow> UsernameOp \<Rightarrow> Usernames \<Rightarrow> (Usernames, emission) outcome" where
  "usernamesStep x op s =
     (case op of
        UAdd eventId data userId pending cleartext \<Rightarrow>
          Usernames_addEncryptedData eventId data userId pending cleartext True True s
      | UConfirm eventId \<Rightarrow> Usernames_onConfirmEvent eventId True s
      | UDecrypted eventId content \<Rightarrow> Usernames_onDecryptedContent x eventId content True s
      | USetLocal userId username \<Rightarrow> setLocalUsername userId username True s
      | UResetLocal userId \<Rightarrow> resetLocalUsername userId True s)"

text \<open>An event is added once, and its id is a hash, hence not empty.\<close>

definition usernamesLegal :: "UsernameOp \<Rightarrow> Usernames \<Rightarrow> bool" where
  "usernamesLegal op s =
     (case op of UAdd eventId _ _ _ _ \<Rightarrow> eventId \<noteq> [] \<and> un_usernameEvents s eventId = None | _ \<Rightarrow> True)"

abbreviation checksumOf :: "NameEvent \<Rightarrow> string option" where
  "checksumOf v \<equiv> ed_checksum (ne_encryptedData v)"

text \<open>The claimed checksums are those of the live events, and no two live events share one.\<close>

definition claimOf :: "Usernames \<Rightarrow> string \<rightharpoonup> string" where
  "claimOf s e = Option.bind (un_usernameEvents s e) checksumOf"

definition claims_inv :: "Usernames \<Rightarrow> bool" where
  "claims_inv s =
     ((\<forall>e. un_usernameEvents s e \<noteq> None \<longrightarrow> truthy (claimOf s e)) \<and>
      un_checksums s = ran (claimOf s) \<and>
      (\<forall>e e' c. claimOf s e = Some c \<longrightarrow> claimOf s e' = Some c \<longrightarrow> e = e'))"

definition usernames_inv :: "Usernames \<Rightarrow> bool" where
  "usernames_inv s = (un.reg_inv s \<and> claims_inv s)"

lemma claims_live:
  assumes "claims_inv s" "un_usernameEvents s e = Some v"
  shows "\<exists>c. checksumOf v = Some c \<and> c \<noteq> []"
proof -
  have "truthy (claimOf s e)" using assms unfolding claims_inv_def by simp
  then show ?thesis using assms(2) by (auto simp: claimOf_def truthy_def)
qed

lemma claims_unique: "claims_inv s \<Longrightarrow> claimOf s e = Some c \<Longrightarrow> claimOf s e' = Some c \<Longrightarrow> e = e'"
  unfolding claims_inv_def by blast

lemma claims_ran: "claims_inv s \<Longrightarrow> c \<in> un_checksums s \<longleftrightarrow> (\<exists>e. claimOf s e = Some c)"
  unfolding claims_inv_def ran_def by auto

lemma ran_remove_unique:
  assumes "m d = Some c" "\<And>e. m e = Some c \<Longrightarrow> e = d"
  shows "ran (m(d := None)) = ran m - {c}"
proof (rule set_eqI)
  fix b
  have "(\<exists>e. (m(d := None)) e = Some b) \<longleftrightarrow> b \<noteq> c \<and> (\<exists>e. m e = Some b)"
    using assms by (metis fun_upd_apply option.distinct(1) option.inject)
  then show "b \<in> ran (m(d := None)) \<longleftrightarrow> b \<in> ran m - {c}"
    unfolding ran_def by (simp only: mem_Collect_eq Diff_iff singleton_iff conj_commute)
qed

lemma remove_claims:
  assumes "claims_inv s"
  shows "claims_inv (removeUsernameEventForUserId u s)"
proof (cases "\<exists>d w. un_userIdToEventId s u = Some d \<and> d \<noteq> [] \<and> un_usernameEvents s d = Some w")
  case False
  then have "removeUsernameEventForUserId u s = s"
    by (auto simp: removeUsernameEventForUserId_def split: option.splits)
  then show ?thesis using assms by simp
next
  case True
  then obtain d w where d: "un_userIdToEventId s u = Some d" "d \<noteq> []" "un_usernameEvents s d = Some w"
    by blast
  obtain c where c: "checksumOf w = Some c" using claims_live [OF assms d(3)] by blast
  let ?r = "removeUsernameEventForUserId u s"
  have ev: "un_usernameEvents ?r = (un_usernameEvents s)(d := None)"
    and ck: "un_checksums ?r = un_checksums s - {c}"
    using d c by (simp_all add: removeUsernameEventForUserId_def)
  have cl: "claimOf ?r = (claimOf s)(d := None)" unfolding claimOf_def ev by (rule ext) simp
  have "claimOf s d = Some c" using d c by (simp add: claimOf_def)
  then have "ran ((claimOf s)(d := None)) = ran (claimOf s) - {c}"
    using claims_unique [OF assms] by (intro ran_remove_unique)
  then show ?thesis
    using assms unfolding claims_inv_def cl ev ck by simp
qed

lemma add_claims:
  assumes "claims_inv s" "truthy (ed_checksum data)" "the (ed_checksum data) \<notin> un_checksums s"
    and "un_usernameEvents s e = None"
  shows "claims_inv (addUsernameEventForUserId u e data p s)"
proof -
  obtain c where c: "ed_checksum data = Some c" "c \<noteq> []" using assms(2) by (auto simp: truthy_def)
  let ?r = "addUsernameEventForUserId u e data p s"
  have ev: "un_usernameEvents ?r = (un_usernameEvents s)(e \<mapsto>
      \<lparr>ne_encryptedData = data, ne_userId = u, ne_pending = p\<rparr>)"
    and ck: "un_checksums ?r = insert c (un_checksums s)"
    using assms(2) c by (simp_all add: addUsernameEventForUserId_def)
  have cl: "claimOf ?r = (claimOf s)(e \<mapsto> c)" unfolding claimOf_def ev using c by (intro ext) simp
  have n: "claimOf s e' \<noteq> Some c" for e' using assms(1,3) c claims_ran by auto
  have "claimOf s e = None" using assms(4) by (simp add: claimOf_def)
  then have "ran ((claimOf s)(e \<mapsto> c)) = insert c (ran (claimOf s))" by simp
  then show ?thesis
    using assms(1) c n unfolding claims_inv_def cl ev ck truthy_def by simp (use n in blast)
qed

lemma claims_cong:
  "claimOf s' = claimOf s \<Longrightarrow> un_checksums s' = un_checksums s \<Longrightarrow>
   (\<And>e. un_usernameEvents s' e = None \<longleftrightarrow> un_usernameEvents s e = None) \<Longrightarrow> claims_inv s \<Longrightarrow> claims_inv s'"
  by (simp add: claims_inv_def)

lemma emitUsernameUpdated_state [simp]:
  "out_state (emitUsernameUpdated e em s) = s" "out_error (emitUsernameUpdated e em s) = None"
  by (simp_all add: emitUsernameUpdated_def split: option.split)

text \<open>Fields that neither the index nor the claims depend on.\<close>

lemma usernames_inv_cong:
  "un_userIdToEventId s' = un_userIdToEventId s \<Longrightarrow> un_usernameEvents s' = un_usernameEvents s \<Longrightarrow>
   un_checksums s' = un_checksums s \<Longrightarrow> usernames_inv s \<Longrightarrow> usernames_inv s'"
  by (simp add: usernames_inv_def un.reg_inv_def claims_inv_def claimOf_def [abs_def])

lemma Usernames_add_state:
  "out_state (Usernames_addEncryptedData e data u p ct em em' s) =
     (if truthy (ed_checksum data) \<and> usernameAvailable (the (ed_checksum data)) s then
        let s2 = addUsernameEventForUserId u e data p (removeUsernameEventForUserId u s)
        in s2\<lparr>un_plaintextUsernames := (un_plaintextUsernames s2)(u := if truthy ct then ct else None),
              un_confirmedUserIds :=
                (if p then un_confirmedUserIds s2 else insert u (un_confirmedUserIds s2))\<rparr>
      else s)"
  by (auto simp: Usernames_addEncryptedData_def Let_def andThen_state truthy_def)

lemma Usernames_add_inv:
  assumes "usernames_inv s" "e \<noteq> []" "un_usernameEvents s e = None"
  shows "usernames_inv (out_state (Usernames_addEncryptedData e data u p ct em em' s))"
proof (cases "truthy (ed_checksum data) \<and> usernameAvailable (the (ed_checksum data)) s")
  case True
  let ?v = "\<lparr>ne_encryptedData = data, ne_userId = u, ne_pending = p\<rparr>"
  let ?r = "removeUsernameEventForUserId u s"
  have "claims_inv ?r" using assms(1) by (simp add: usernames_inv_def remove_claims)
  moreover have "un_checksums ?r \<subseteq> un_checksums s" "un_usernameEvents ?r e = None"
    using assms(3) by (auto simp: removeUsernameEventForUserId_def split: option.split)
  ultimately have "claims_inv (addUsernameEventForUserId u e data p ?r)"
    using True by (intro add_claims) (auto simp: usernameAvailable_def)
  moreover have "un.reg_inv (addUsernameEventForUserId u e data p ?r)"
    using un.replace_inv [of s ?v u e] True assms by (simp add: usernames_inv_def)
  ultimately have "usernames_inv (addUsernameEventForUserId u e data p ?r)"
    by (simp add: usernames_inv_def)
  then show ?thesis
    unfolding Usernames_add_state if_P [OF True] Let_def by (rule usernames_inv_cong [rotated 3]) simp_all
next
  case False
  then show ?thesis using assms(1) by (simp only: Usernames_add_state if_False)
qed

lemma Usernames_confirm_inv:
  assumes "usernames_inv s"
  shows "usernames_inv (out_state (Usernames_onConfirmEvent e em s))"
proof (cases "un_usernameEvents s e")
  case None
  then show ?thesis using assms by (simp add: Usernames_onConfirmEvent_def)
next
  case (Some v)
  let ?s = "out_state (Usernames_onConfirmEvent e em s)"
  have s: "?s = s\<lparr>un_usernameEvents := (un_usernameEvents s)(e \<mapsto> v\<lparr>ne_pending := False\<rparr>),
      un_confirmedUserIds := insert (ne_userId v) (un_confirmedUserIds s)\<rparr>"
    using Some by (simp add: Usernames_onConfirmEvent_def Let_def)
  have "claimOf ?s = claimOf s" unfolding s claimOf_def using Some by (intro ext) simp
  moreover have "un.reg_inv ?s"
    by (rule un.reg_inv_cong [of _ s]) (use assms Some in \<open>auto simp: s usernames_inv_def\<close>)
  moreover have "claims_inv ?s"
    by (rule claims_cong [OF calculation(1)]) (use assms Some in \<open>auto simp: s usernames_inv_def\<close>)
  ultimately show ?thesis by (simp add: usernames_inv_def)
qed

lemma Usernames_plaintext_inv:
  "usernames_inv s \<Longrightarrow> usernames_inv (s\<lparr>un_plaintextUsernames := m\<rparr>)"
  by (rule usernames_inv_cong [rotated 3]) simp_all

lemma Usernames_decrypted_inv:
  "usernames_inv s \<Longrightarrow> usernames_inv (out_state (Usernames_onDecryptedContent x e c em s))"
  by (simp add: Usernames_onDecryptedContent_def Usernames_plaintext_inv split: option.split)

lemma usernamesStep_inv:
  assumes "usernames_inv s" "usernamesLegal op s"
  shows "usernames_inv (out_state (usernamesStep x op s))"
  using assms
  by (cases op) (simp_all add: usernamesStep_def usernamesLegal_def Usernames_add_inv
      Usernames_confirm_inv Usernames_decrypted_inv setLocalUsername_def resetLocalUsername_def
      Usernames_plaintext_inv)

interpretation usernames: stepping "usernamesStep x" usernames_inv usernamesLegal for x
  by unfold_locales (rule usernamesStep_inv)

section \<open>What is shown is what was claimed\<close>

text \<open>
  Every name shown for a user hashes to the checksum that user claims. Names enter by decryption,
  where the code compares the two, or as the cleartext of an added event, where it does not and the
  caller has to.
\<close>

definition claimedName :: "externs \<Rightarrow> Usernames \<Rightarrow> string \<Rightarrow> string \<Rightarrow> bool" where
  "claimedName x s u name =
     (\<exists>e. un_userIdToEventId s u = Some e \<and> claimOf s e = Some (usernameChecksum x name (un_streamId s)))"

definition shown_inv :: "externs \<Rightarrow> Usernames \<Rightarrow> bool" where
  "shown_inv x s =
     (usernames_inv s \<and> (\<forall>u name. un_plaintextUsernames s u = Some name \<longrightarrow> claimedName x s u name))"

definition shownLegal :: "externs \<Rightarrow> UsernameOp \<Rightarrow> Usernames \<Rightarrow> bool" where
  "shownLegal x op s =
     (usernamesLegal op s \<and>
      (case op of
         UAdd _ data _ _ cleartext \<Rightarrow>
           truthy cleartext \<longrightarrow> ed_checksum data = Some (usernameChecksum x (the cleartext) (un_streamId s))
       | USetLocal _ _ \<Rightarrow> False
       | _ \<Rightarrow> True))"

lemma usernames_streamId [simp]: "un_streamId (out_state (usernamesStep x op s)) = un_streamId s"
  by (cases op) (simp_all add: usernamesStep_def Usernames_add_state Usernames_onConfirmEvent_def
      Usernames_onDecryptedContent_def setLocalUsername_def resetLocalUsername_def Let_def
      addUsernameEventForUserId_def removeUsernameEventForUserId_def split: option.split)

lemma claimedName_cong:
  "un_userIdToEventId s' u = un_userIdToEventId s u \<Longrightarrow> claimOf s' = claimOf s \<Longrightarrow>
   un_streamId s' = un_streamId s \<Longrightarrow> claimedName x s' u name = claimedName x s u name"
  by (simp add: claimedName_def)

lemma shown_add:
  assumes "shown_inv x s" "shownLegal x (UAdd e data u p ct) s"
  shows "shown_inv x (out_state (usernamesStep x (UAdd e data u p ct) s))"
proof (cases "truthy (ed_checksum data) \<and> usernameAvailable (the (ed_checksum data)) s")
  case False
  then show ?thesis
    unfolding usernamesStep_def UsernameOp.case Usernames_add_state if_not_P [OF False] by (simp add: assms(1))
next
  case True
  let ?r = "out_state (usernamesStep x (UAdd e data u p ct) s)"
  let ?v = "\<lparr>ne_encryptedData = data, ne_userId = u, ne_pending = p\<rparr>"
  let ?t = "addUsernameEventForUserId u e data p (removeUsernameEventForUserId u s)"
  have inv: "usernames_inv s" and leg: "usernamesLegal (UAdd e data u p ct) s" and
    e: "e \<noteq> []" "un_usernameEvents s e = None"
    using assms by (simp_all add: shown_inv_def shownLegal_def usernamesLegal_def)
  have r: "un_usernameEvents ?r = un_usernameEvents ?t" "un_userIdToEventId ?r = un_userIdToEventId ?t"
      "un_plaintextUsernames ?r = (un_plaintextUsernames ?t)(u := if truthy ct then ct else None)"
    unfolding usernamesStep_def UsernameOp.case Usernames_add_state if_P [OF True] Let_def by simp_all
  have idx: "un_userIdToEventId ?r = (un_userIdToEventId s)(u \<mapsto> e)"
    using True un.add_idx [of ?v u e] by (simp add: r un.remove_idx)
  have pt: "un_plaintextUsernames ?t = un_plaintextUsernames s"
    by (simp add: addUsernameEventForUserId_def removeUsernameEventForUserId_def split: option.split)
  have cl: "claimOf ?r e' = (if e' = e then ed_checksum data
      else case un_usernameEvents s e' of None \<Rightarrow> None | Some w \<Rightarrow> if ne_userId w = u then None else checksumOf w)" for e'
    using un.replace_evs [of s ?v u e e'] inv True e
    by (auto simp: claimOf_def r usernames_inv_def split: option.split)
  have "claimedName x ?r u' name" if "un_plaintextUsernames ?r u' = Some name" for u' name
  proof (cases "u' = u")
    case same: True
    then show ?thesis using that assms(2) idx cl [of e]
      by (auto simp: r claimedName_def shownLegal_def split: if_splits)
  next
    case False
    then have "claimedName x s u' name" using that assms(1) by (simp add: r pt shown_inv_def)
    then obtain d where d: "un_userIdToEventId s u' = Some d"
      "claimOf s d = Some (usernameChecksum x name (un_streamId s))" by (auto simp: claimedName_def)
    then obtain w where w: "un_usernameEvents s d = Some w" "ne_userId w = u'"
      using inv un.reg_inv_idx [of s u' d] by (auto simp: usernames_inv_def)
    then have "d \<noteq> e" using e by auto
    then show ?thesis using d w False idx cl [of d] by (auto simp: claimedName_def claimOf_def)
  qed
  then show ?thesis using usernamesStep_inv [OF inv leg] by (simp add: shown_inv_def)
qed

lemma shown_step:
  assumes "shown_inv x s" "shownLegal x op s"
  shows "shown_inv x (out_state (usernamesStep x op s))"
proof (cases op)
  case (UAdd e data u p ct)
  then show ?thesis using shown_add assms by blast
next
  case (UConfirm e)
  have "claimOf (out_state (Usernames_onConfirmEvent e True s)) = claimOf s"
    by (rule ext) (simp add: Usernames_onConfirmEvent_def Let_def claimOf_def split: option.split)
  moreover have "un_userIdToEventId (out_state (Usernames_onConfirmEvent e True s)) = un_userIdToEventId s"
    "un_plaintextUsernames (out_state (Usernames_onConfirmEvent e True s)) = un_plaintextUsernames s"
    "un_streamId (out_state (Usernames_onConfirmEvent e True s)) = un_streamId s"
    by (simp_all add: Usernames_onConfirmEvent_def Let_def split: option.split)
  ultimately show ?thesis
    using assms(1) UConfirm Usernames_confirm_inv [of s e True]
    by (simp add: shown_inv_def usernamesStep_def claimedName_def)
next
  case (UDecrypted e c)
  have inv: "usernames_inv s" using assms(1) by (simp add: shown_inv_def)
  show ?thesis
    using assms(1) Usernames_decrypted_inv [OF inv, of x e c True] inv un.reg_inv_evs [of s e]
    by (auto simp: UDecrypted usernamesStep_def shown_inv_def claimedName_def claimOf_def usernames_inv_def
        Usernames_onDecryptedContent_def split: option.splits if_splits)
next
  case (USetLocal u n)
  then show ?thesis using assms(2) by (simp add: shownLegal_def)
next
  case (UResetLocal u)
  have "claimOf (s\<lparr>un_plaintextUsernames := m\<rparr>) = claimOf s" for m
    by (rule ext) (simp add: claimOf_def)
  then show ?thesis using assms(1)
    by (auto simp: UResetLocal usernamesStep_def shown_inv_def resetLocalUsername_def claimedName_def
        intro: Usernames_plaintext_inv)
qed

interpretation shown: stepping "usernamesStep x" "shown_inv x" "shownLegal x" for x
  by unfold_locales (rule shown_step)

lemma Usernames_new_inv: "usernames_inv (Usernames_new sid)" "shown_inv x (Usernames_new sid)"
  by (simp_all add: usernames_inv_def shown_inv_def un.reg_inv_def claims_inv_def claimOf_def [abs_def]
      Usernames_new_def)

section \<open>The invariant of the four classes together\<close>

definition metadata_inv :: "UserMetadata \<Rightarrow> bool" where
  "metadata_inv s =
     (usernames_inv (md_usernames s) \<and> dn.reg_inv (md_displayNames s) \<and>
      en.reg_inv (md_ensAddresses s) \<and> nf.reg_inv (md_nfts s))"

definition metadata_fresh :: "string \<Rightarrow> UserMetadata \<Rightarrow> bool" where
  "metadata_fresh e s =
     (e \<noteq> [] \<and> un_usernameEvents (md_usernames s) e = None \<and>
      dn_displayNameEvents (md_displayNames s) e = None \<and>
      en_ensAddressEvents (md_ensAddresses s) e = None \<and> nf_nftEvents (md_nfts s) e = None)"

lemma emit_states [simp]:
  "out_state (emitDisplayNameUpdated e em d) = d" "out_error (emitDisplayNameUpdated e em d) = None"
  "out_state (emitEnsAddressUpdated e em a) = a" "out_error (emitEnsAddressUpdated e em a) = None"
  "out_state (emitNftUpdated e em n) = n" "out_error (emitNftUpdated e em n) = None"
  by (simp_all add: emitDisplayNameUpdated_def emitEnsAddressUpdated_def emitNftUpdated_def
      split: option.split)

lemma DisplayNames_add_inv:
  assumes "dn.reg_inv s" "e \<noteq> []" "dn_displayNameEvents s e = None"
  shows "dn.reg_inv (out_state (DisplayNames_addEncryptedData e data u p ct em em' s))"
proof -
  let ?t = "DisplayNames_addEventForUserId u e data p (DisplayNames_removeEventForUserId u s)"
  let ?r = "out_state (DisplayNames_addEncryptedData e data u p ct em em' s)"
  have t: "dn.reg_inv ?t"
    using dn.replace_inv [of s "\<lparr>ne_encryptedData = data, ne_userId = u, ne_pending = p\<rparr>" u e] assms by simp
  have "dn_userIdToEventId ?r = dn_userIdToEventId ?t" "dn_displayNameEvents ?r = dn_displayNameEvents ?t"
    by (simp_all add: DisplayNames_addEncryptedData_def Let_def andThen_state)
  then show ?thesis using dn.reg_inv_cong [OF _ _ t] by simp
qed

lemma EnsAddresses_add_inv:
  assumes "en.reg_inv s" "e \<noteq> []" "en_ensAddressEvents s e = None"
  shows "en.reg_inv (out_state (addEnsAddressEvent x e a u True em s))"
  using en.replace_inv [of s "\<lparr>ee_ensAddress = a, ee_userId = u, ee_pending = True\<rparr>" u e] assms
  by (simp add: addEnsAddressEvent_def Let_def andThen_state)

lemma Nfts_add_inv:
  assumes "nf.reg_inv s" "e \<noteq> []" "nf_nftEvents s e = None"
  shows "nf.reg_inv (out_state (addNftEvent e nft u True em s))"
  using nf.replace_inv [of s "\<lparr>nv_nft = nft, nv_userId = u, nv_pending = True\<rparr>" u e] assms
  by (simp add: addNftEvent_def Let_def)

lemma DisplayNames_confirm_inv:
  "dn.reg_inv s \<Longrightarrow> dn.reg_inv (out_state (DisplayNames_onConfirmEvent e em s))"
  by (rule dn.reg_inv_cong [of _ s])
    (simp_all add: DisplayNames_onConfirmEvent_def Let_def split: option.split)

lemma DisplayNames_decrypted_inv:
  "dn.reg_inv s \<Longrightarrow> dn.reg_inv (out_state (DisplayNames_onDecryptedContent e c em s))"
  by (rule dn.reg_inv_cong [of _ s])
    (simp_all add: DisplayNames_onDecryptedContent_def Let_def split: option.split)

lemma setConfirmedEns_frame [simp]:
  "en_userIdToEventId (out_state (setConfirmedEns x u a s)) = en_userIdToEventId s"
  "en_ensAddressEvents (out_state (setConfirmedEns x u a s)) = en_ensAddressEvents s"
  by (simp_all add: setConfirmedEns_def split: sum.split)

lemma EnsAddresses_confirm_inv:
  "en.reg_inv s \<Longrightarrow> en.reg_inv (out_state (EnsAddresses_onConfirmEvent x e em s))"
  by (rule en.reg_inv_cong [of _ s])
    (simp_all add: EnsAddresses_onConfirmEvent_def andThen_state split: option.split)

lemma Nfts_confirm_inv: "nf.reg_inv s \<Longrightarrow> nf.reg_inv (out_state (Nfts_onConfirmEvent e em s))"
  by (rule nf.reg_inv_cong [of _ s])
    (simp_all add: Nfts_onConfirmEvent_def setConfirmedNft_def split: option.split)

lemmas metadata_ops_inv = Usernames_add_inv Usernames_confirm_inv Usernames_decrypted_inv
  DisplayNames_add_inv DisplayNames_confirm_inv DisplayNames_decrypted_inv
  EnsAddresses_add_inv EnsAddresses_confirm_inv Nfts_add_inv Nfts_confirm_inv

lemma metadata_append_inv:
  assumes "metadata_inv s" "metadata_fresh e s"
  shows "metadata_inv (out_state (appendDisplayName e data u ct em em' s))"
    and "metadata_inv (out_state (appendUsername e data u ct em em' s))"
    and "metadata_inv (out_state (appendEnsAddress x e a u em' s))"
    and "metadata_inv (out_state (appendNft e nft u em' s))"
  using assms by (simp_all add: metadata_inv_def metadata_fresh_def metadata_ops_inv
      appendDisplayName_def appendUsername_def appendEnsAddress_def appendNft_def)

lemma metadata_confirm_inv:
  "metadata_inv s \<Longrightarrow> metadata_inv (out_state (UserMetadata_onConfirmedEvent x e em s))"
  by (simp add: UserMetadata_onConfirmedEvent_def andThen_state metadata_inv_def metadata_ops_inv)

lemma metadata_decrypted_inv:
  "metadata_inv s \<Longrightarrow> metadata_inv (out_state (UserMetadata_onDecryptedContent x e c em s))"
  by (simp add: UserMetadata_onDecryptedContent_def andThen_state metadata_inv_def metadata_ops_inv)

lemma UserMetadata_new_inv: "metadata_inv (UserMetadata_new sid)"
  by (simp add: metadata_inv_def UserMetadata_new_def Usernames_new_inv dn.reg_inv_def en.reg_inv_def
      nf.reg_inv_def DisplayNames_new_def EnsAddresses_new_def Nfts_new_def)

section \<open>Claims in a snapshot\<close>

text \<open>The event id and the checksum of a username entry of a snapshot.\<close>

definition entryId :: "externs \<Rightarrow> string \<times> WrappedEncryptedData \<Rightarrow> string" where
  "entryId x p = bin_toHexString x (wed_eventHash (snd p))"

definition entryClaim :: "string \<times> WrappedEncryptedData \<Rightarrow> string option" where
  "entryClaim p = Option.bind (wed_data (snd p)) ed_checksum"

text \<open>Entries of distinct users with distinct event ids that all claim a checksum.\<close>

definition entries_ok :: "externs \<Rightarrow> (string \<times> WrappedEncryptedData) list \<Rightarrow> bool" where
  "entries_ok x ps =
     (distinct (map fst ps) \<and> distinct (map (entryId x) ps) \<and>
      list_all (\<lambda>p. entryId x p \<noteq> [] \<and> truthy (entryClaim p)) ps)"

abbreviation snapshotNames where
  "snapshotNames x ct em \<equiv> for_each (snapshotName x ct
     (\<lambda>eventId data userId c. Usernames_addEncryptedData eventId data userId False c em False))"

definition entries_inv :: "externs \<Rightarrow> (string \<times> WrappedEncryptedData) list \<Rightarrow> Usernames \<Rightarrow> bool" where
  "entries_inv x ps s =
     (dom (un_userIdToEventId s) \<subseteq> fst ` set ps \<and>
      dom (un_usernameEvents s) \<subseteq> entryId x ` set ps \<and>
      un_checksums s = {c. \<exists>p \<in> set ps. entryClaim p = Some c} \<and>
      (\<forall>i < length ps. (entryId x (ps ! i) \<in> dom (un_usernameEvents s)) \<longleftrightarrow>
         entryClaim (ps ! i) \<notin> entryClaim ` set (take i ps)))"

lemma snapshotName_no_error [simp]:
  "out_error (snapshotName x ct (\<lambda>eventId data userId c.
     Usernames_addEncryptedData eventId data userId False c em em') p s) = None"
  by (simp add: snapshotName_def Let_def Usernames_addEncryptedData_def andThen_error split: option.split)

lemma entries_inv_snoc:
  assumes "entries_inv x ps s" "entries_ok x (ps @ [p])"
  shows "entries_inv x (ps @ [p]) (out_state (snapshotName x ct (\<lambda>eventId data userId c.
     Usernames_addEncryptedData eventId data userId False c em False) p s))"
proof -
  obtain u w where p: "p = (u, w)" by (cases p)
  from assms(2) obtain d c where d: "wed_data w = Some d" "ed_checksum d = Some c" "c \<noteq> []"
    by (auto simp: entries_ok_def entryClaim_def truthy_def p split: Option.bind_splits)
  let ?e = "entryId x p"
  have u: "un_userIdToEventId s u = None" and e: "?e \<notin> dom (un_usernameEvents s)"
    using assms by (auto simp: entries_inv_def entries_ok_def p)
  have cp: "entryClaim p = Some c" using d by (simp add: entryClaim_def p)
  have taken: "c \<in> un_checksums s \<longleftrightarrow> entryClaim p \<in> entryClaim ` set ps"
    using assms(1) unfolding entries_inv_def cp by (simp add: image_iff) metis
  let ?s = "out_state (snapshotName x ct (\<lambda>eventId data userId c.
     Usernames_addEncryptedData eventId data userId False c em False) p s)"
  have s: "?s = out_state (Usernames_addEncryptedData ?e d u False (cleartextOf ct ?e) em False s)"
    using d by (simp add: snapshotName_def p entryId_def Let_def)
  show ?thesis
  proof (cases "c \<in> un_checksums s")
    case True
    then have "?s = s" unfolding s Usernames_add_state using d by (simp add: usernameAvailable_def)
    then show ?thesis
      using True taken assms(1) e cp unfolding entries_inv_def
      by (auto simp: nth_append less_Suc_eq)
  next
    case False
    have "dom (un_userIdToEventId ?s) = insert u (dom (un_userIdToEventId s))"
      "dom (un_usernameEvents ?s) = insert ?e (dom (un_usernameEvents s))"
      "un_checksums ?s = insert c (un_checksums s)"
      using False d u unfolding s Usernames_add_state
      by (auto simp: usernameAvailable_def truthy_def Let_def addUsernameEventForUserId_def
          removeUsernameEventForUserId_def)
    note upd = this
    have "(entryId x ((ps @ [p]) ! i) \<in> dom (un_usernameEvents ?s)) \<longleftrightarrow>
        entryClaim ((ps @ [p]) ! i) \<notin> entryClaim ` set (take i (ps @ [p]))" if "i < Suc (length ps)" for i
    proof (cases "i < length ps")
      case True
      then have "entryId x (ps ! i) \<in> entryId x ` set ps" by simp
      then have "entryId x (ps ! i) \<noteq> ?e" using assms(2) by (auto simp: entries_ok_def)
      then show ?thesis using True upd(2) assms(1) by (simp add: nth_append entries_inv_def)
    next
      case last: False
      then have "i = length ps" using that by simp
      then show ?thesis using upd(2) False taken by simp
    qed
    then show ?thesis
      using upd assms(1) cp unfolding entries_inv_def by (auto simp: p)
  qed
qed

lemma snapshotNames_entries:
  "entries_ok x ps \<Longrightarrow> entries_inv x ps (out_state (snapshotNames x ct em ps (Usernames_new sid)))"
proof (induction ps rule: rev_induct)
  case Nil
  then show ?case by (simp add: entries_inv_def Usernames_new_def)
next
  case (snoc p ps)
  have "entries_ok x ps" using snoc.prems by (auto simp: entries_ok_def)
  then show ?case
    using entries_inv_snoc [OF snoc.IH snoc.prems]
    by (simp add: for_each_append andThen_state for_each_no_error)
qed

section \<open>Properties\<close>

definition sample_data :: "string \<Rightarrow> EncryptedData" where
  "sample_data checksum =
     \<lparr>ed_ciphertext = ''c'', ed_algorithm = ''a'', ed_senderKey = ''k'', ed_sessionId = ''i'',
      ed_checksum = Some checksum, ed_refEventId = None\<rparr>"

text \<open>
  (C2) A username has one owner. After any sequence of added, confirmed and decrypted events with
  fresh event ids, two different live username events belong to different users and claim
  different checksums; and an event that claims a checksum already claimed changes nothing and
  announces nothing.
\<close>
theorem username_claims_unique:
  assumes "legal_run (usernamesStep x) usernamesLegal ops (Usernames_new sid)"
    and "s = run (usernamesStep x) ops (Usernames_new sid)"
    and "un_usernameEvents s e = Some v"
  shows "(un_usernameEvents s e' = Some v' \<longrightarrow> e \<noteq> e' \<longrightarrow>
      ne_userId v \<noteq> ne_userId v' \<and> checksumOf v \<noteq> checksumOf v') \<and>
    (ed_checksum data = checksumOf v \<longrightarrow>
      Usernames_addEncryptedData d data u p ct em em' s = (s, [], None))"
proof -
  have inv: "usernames_inv s"
    unfolding assms(2) by (rule usernames.run_inv [OF Usernames_new_inv(1) assms(1)])
  obtain c where c: "checksumOf v = Some c" using inv claims_live assms(3) unfolding usernames_inv_def by blast
  moreover have "claimOf s e = checksumOf v" using assms(3) by (simp add: claimOf_def)
  ultimately have "c \<in> un_checksums s" using inv claims_ran [of s c] unfolding usernames_inv_def by auto
  then have "Usernames_addEncryptedData d data u p ct em em' s = pass s" if "ed_checksum data = checksumOf v"
    using that c by (simp add: Usernames_addEncryptedData_def usernameAvailable_def)
  moreover have "checksumOf v \<noteq> checksumOf v'" if "un_usernameEvents s e' = Some v'" "e \<noteq> e'"
    using that c inv claims_unique [of s e c e'] assms(3) by (auto simp: usernames_inv_def claimOf_def)
  moreover have "ne_userId v \<noteq> ne_userId v'" if "un_usernameEvents s e' = Some v'" "e \<noteq> e'"
    using that inv un.one_event_per_user [of s e v e' v'] assms(3) by (auto simp: usernames_inv_def)
  ultimately show ?thesis by (simp add: pass_def)
qed

theorem username_claims_unique_witness:
  "Usernames_addEncryptedData ''e2'' (sample_data ''h'') ''bob'' True None True True
     (out_state (usernamesStep sample_externs (UAdd ''e1'' (sample_data ''h'') ''alice'' True None) (Usernames_new ''s''))) =
   (out_state (usernamesStep sample_externs (UAdd ''e1'' (sample_data ''h'') ''alice'' True None) (Usernames_new ''s'')), [], None)"
proof -
  let ?op = "UAdd ''e1'' (sample_data ''h'') ''alice'' True None"
  let ?s = "run (usernamesStep sample_externs) [?op] (Usernames_new ''s'')"
  have l: "legal_run (usernamesStep sample_externs) usernamesLegal [?op] (Usernames_new ''s'')"
    by (simp add: usernamesLegal_def Usernames_new_def)
  have v: "un_usernameEvents ?s ''e1'' =
    Some \<lparr>ne_encryptedData = sample_data ''h'', ne_userId = ''alice'', ne_pending = True\<rparr>"
    by code_simp
  from username_claims_unique [OF l refl v, of _ _ "sample_data ''h''" "''e2''" "''bob''" True None True True]
  show ?thesis by simp
qed

text \<open>
  (C29) No two users are shown the same name, not even with different letter case, as long as
  cleartexts that arrive with an event hash to the checksum of that event and no local name is set:
  decryption rejects a name that does not hash to the claimed checksum.
\<close>
theorem shown_usernames_differ:
  assumes "legal_run (usernamesStep x) (shownLegal x) ops (Usernames_new sid)"
    and "s = run (usernamesStep x) ops (Usernames_new sid)"
    and "un_plaintextUsernames s u = Some name" "un_plaintextUsernames s u' = Some name'" "u \<noteq> u'"
  shows "toLowerCase name \<noteq> toLowerCase name'"
proof -
  have inv: "shown_inv x s" unfolding assms(2) by (rule shown.run_inv [OF Usernames_new_inv(2) assms(1)])
  then obtain e e' where e: "un_userIdToEventId s u = Some e" "claimOf s e = Some (usernameChecksum x name (un_streamId s))"
    "un_userIdToEventId s u' = Some e'" "claimOf s e' = Some (usernameChecksum x name' (un_streamId s))"
    using assms(3,4) unfolding shown_inv_def claimedName_def by metis
  have "un.reg_inv s" using inv by (simp add: shown_inv_def usernames_inv_def)
  then have "e \<noteq> e'" using e(1,3) assms(5) un.reg_inv_idx by (metis option.inject)
  then show ?thesis
    using e inv claims_unique [of s e _ e'] by (auto simp: shown_inv_def usernames_inv_def usernameChecksum_def)
qed

definition sample_names :: "UsernameOp list" where
  "sample_names =
     [UAdd ''e1'' (sample_data (usernameChecksum sample_externs ''Al'' ''s'')) ''u1'' True None,
      UAdd ''e2'' (sample_data (usernameChecksum sample_externs ''Bo'' ''s'')) ''u2'' True None,
      UDecrypted ''e1'' ''AL'', UDecrypted ''e2'' ''Bo'']"

theorem shown_usernames_differ_witness: "toLowerCase ''AL'' \<noteq> toLowerCase ''Bo''"
proof -
  let ?s = "run (usernamesStep sample_externs) sample_names (Usernames_new ''s'')"
  have "legal_run (usernamesStep sample_externs) (shownLegal sample_externs) sample_names (Usernames_new ''s'')"
    by code_simp
  moreover have "un_plaintextUsernames ?s ''u1'' = Some ''AL''" "un_plaintextUsernames ?s ''u2'' = Some ''Bo''"
    by code_simp+
  ultimately show ?thesis using shown_usernames_differ [OF _ refl] by blast
qed

text \<open>
  The cleartext that comes with an event is not compared with the checksum: an event that claims one
  checksum and arrives with the cleartext of a name another user owns makes both show that name.
\<close>

lemma cached_cleartext_unchecked:
  "let h = usernameChecksum sample_externs;
       s = run (usernamesStep sample_externs)
         [UAdd ''e1'' (sample_data (h ''al'' ''s'')) ''u1'' False (Some ''al''),
          UAdd ''e2'' (sample_data (h ''bo'' ''s'')) ''u2'' False (Some ''al'')] (Usernames_new ''s'')
   in un_plaintextUsernames s ''u1'' = Some ''al'' \<and> un_plaintextUsernames s ''u2'' = Some ''al''"
  by code_simp

text \<open>
  Whoever claimed a username first gets it: loading a snapshot keeps, of all the entries that
  claim one checksum, one with the least event number, and keeps one for every claimed checksum.
\<close>
theorem snapshot_first_claim_wins:
  assumes "entries_ok x names"
    and "s = md_usernames (out_state (UserMetadata_applySnapshot x names displays ens nfts ct em (UserMetadata_new sid)))"
    and "p \<in> set names"
  shows "(un_usernameEvents s (entryId x p) \<noteq> None \<longrightarrow>
      (\<forall>q \<in> set names. entryClaim q = entryClaim p \<longrightarrow> wed_eventNum (snd p) \<le> wed_eventNum (snd q))) \<and>
    (\<exists>q \<in> set names. entryClaim q = entryClaim p \<and> un_usernameEvents s (entryId x q) \<noteq> None)"
proof -
  let ?ps = "sortPayloads names"
  have set: "set ?ps = set names" by (simp add: sortPayloads_def)
  have "mset ?ps = mset names" by (simp add: sortPayloads_def)
  then have ok: "entries_ok x ?ps"
    using assms(1) unfolding entries_ok_def list_all_iff set
    by (metis mset_eq_imp_distinct_iff mset_map)
  have "s = out_state (snapshotNames x ct em ?ps (Usernames_new sid))"
    unfolding assms(2) UserMetadata_applySnapshot_def
    by (simp add: andThen_state UserMetadata_new_def for_each_no_error)
  then have inv: "entries_inv x ?ps s" using snapshotNames_entries [OF ok] by simp
  have srt: "sorted (map (\<lambda>p. wed_eventNum (snd p)) ?ps)" by (simp add: sortPayloads_def)
  obtain i where i: "i < length ?ps" "?ps ! i = p" using assms(3) set by (metis in_set_conv_nth)
  have live: "un_usernameEvents s (entryId x (?ps ! j)) \<noteq> None \<longleftrightarrow>
      entryClaim (?ps ! j) \<notin> entryClaim ` set (take j ?ps)" if "j < length ?ps" for j
    using inv that unfolding entries_inv_def by (metis domIff)
  have "wed_eventNum (snd p) \<le> wed_eventNum (snd q)"
    if l: "un_usernameEvents s (entryId x p) \<noteq> None" and q: "q \<in> set names" "entryClaim q = entryClaim p" for q
  proof -
    obtain j where j: "j < length ?ps" "?ps ! j = q" using q(1) set by (metis in_set_conv_nth)
    have "\<not> j < i"
    proof
      assume "j < i"
      then have "q \<in> set (take i ?ps)" using j i(1) by (auto simp: in_set_conv_nth intro!: exI [of _ j])
      then show False using live [OF i(1)] l i(2) q(2) by (metis image_eqI)
    qed
    then show ?thesis using sorted_nth_mono [OF srt, of i j] i j by simp
  qed
  moreover have "\<exists>q \<in> set names. entryClaim q = entryClaim p \<and> un_usernameEvents s (entryId x q) \<noteq> None"
  proof -
    obtain k where k: "findIndex (\<lambda>q. entryClaim q = entryClaim p) ?ps = Some k"
      using findIndex_None [of "\<lambda>q. entryClaim q = entryClaim p" ?ps] assms(3) set by (metis not_Some_eq)
    then have "k < length ?ps" "entryClaim (?ps ! k) = entryClaim p" "\<forall>j < k. entryClaim (?ps ! j) \<noteq> entryClaim p"
      by (auto simp: findIndex_Some)
    moreover from this have "entryClaim (?ps ! k) \<notin> entryClaim ` set (take k ?ps)"
      by (auto simp: in_set_conv_nth) metis
    ultimately show ?thesis using live set by (metis nth_mem)
  qed
  ultimately show ?thesis by blast
qed

definition sample_entry :: "string \<Rightarrow> 8 word \<Rightarrow> int \<Rightarrow> string \<times> WrappedEncryptedData" where
  "sample_entry u h n =
     (u, \<lparr>wed_data = Some (sample_data ''h''), wed_eventNum = n, wed_eventHash = [h]\<rparr>)"

theorem snapshot_first_claim_wins_witness:
  "\<exists>q \<in> {sample_entry ''u1'' 1 9, sample_entry ''u2'' 2 5}.
     un_usernameEvents (md_usernames (out_state (UserMetadata_applySnapshot sample_externs
       [sample_entry ''u1'' 1 9, sample_entry ''u2'' 2 5] [] [] [] None True (UserMetadata_new ''s''))))
       (entryId sample_externs q) \<noteq> None"
proof -
  have "entries_ok sample_externs [sample_entry ''u1'' 1 9, sample_entry ''u2'' 2 5]" by code_simp
  from snapshot_first_claim_wins [OF this refl, of "sample_entry ''u1'' 1 9" "[]" "[]" "[]" None True "''s''"]
  show ?thesis by auto
qed

text \<open>
  An NFT becomes visible with its confirmation and not before: a pending event announces
  nothing and leaves the confirmed NFTs alone; confirming it sets the user's NFT, or clears it when
  the event does not name a valid one, leaves the other users' alone and announces the change once.
\<close>
theorem nft_visible_when_confirmed:
  "out_events (addNftEvent e nft u True True s) = [] \<and>
   nf_confirmedNfts (out_state (addNftEvent e nft u True True s)) = nf_confirmedNfts s \<and>
   nf_confirmedNfts (out_state (Nfts_onConfirmEvent e True (out_state (addNftEvent e nft u True True s)))) =
     (nf_confirmedNfts s)(u := if isValidNft nft then Some nft else None) \<and>
   out_events (Nfts_onConfirmEvent e True (out_state (addNftEvent e nft u True True s))) =
     [streamNftUpdated (nf_streamId s) u]"
  by (auto simp: addNftEvent_def Nfts_onConfirmEvent_def emitNftUpdated_def setConfirmedNft_def
      Nfts_addEventForUserId_def Nfts_removeEventForUserId_def Let_def emit_def pass_def
      split: option.split)

text \<open>
  The same for ENS addresses, error path included: a pending event leaves the confirmed
  addresses alone; its confirmation sets the address, or clears it when the event carries none;
  when the bytes are not an address the confirmation throws, the confirmed addresses stay as they
  were and nothing is announced.
\<close>
theorem ens_visible_when_confirmed:
  "let s1 = out_state (addEnsAddressEvent x e a u True True s) in
    out_events (addEnsAddressEvent x e a u True True s) = [] \<and>
    en_confirmedEnsAddresses s1 = en_confirmedEnsAddresses s \<and>
    (case (if a = [] then Inr None else map_sum id Some (userIdFromAddress x a)) of
       Inr v \<Rightarrow>
         en_confirmedEnsAddresses (out_state (EnsAddresses_onConfirmEvent x e True s1)) =
           (en_confirmedEnsAddresses s)(u := v) \<and>
         out_error (EnsAddresses_onConfirmEvent x e True s1) = None \<and>
         out_events (EnsAddresses_onConfirmEvent x e True s1) = [streamEnsAddressUpdated (en_streamId s) u]
     | Inl err \<Rightarrow>
         en_confirmedEnsAddresses (out_state (EnsAddresses_onConfirmEvent x e True s1)) =
           en_confirmedEnsAddresses s \<and>
         out_error (EnsAddresses_onConfirmEvent x e True s1) = Some err \<and>
         out_events (EnsAddresses_onConfirmEvent x e True s1) = [])"
proof -
  define s1 where "s1 = out_state (addEnsAddressEvent x e a u True True s)"
  have s1: "en_ensAddressEvents s1 e = Some \<lparr>ee_ensAddress = a, ee_userId = u, ee_pending = True\<rparr>"
    "en_confirmedEnsAddresses s1 = en_confirmedEnsAddresses s" "en_streamId s1 = en_streamId s"
    "out_events (addEnsAddressEvent x e a u True True s) = []"
    unfolding s1_def
    by (simp_all add: addEnsAddressEvent_def effect_simps emitEnsAddressUpdated_def
        EnsAddresses_addEventForUserId_def EnsAddresses_removeEventForUserId_def split: option.split)
  show ?thesis
    unfolding Let_def s1_def [symmetric] using s1 by (cases "userIdFromAddress x a")
      (auto simp: EnsAddresses_onConfirmEvent_def setConfirmedEns_def effect_simps emitEnsAddressUpdated_def)
qed

end
