(* ===== verification/Members.thy ===== *)
theory Members
  imports Membership UserMetadata
begin

text \<open>
  The members of a stream: \<open>streamStateView_Members.ts\<close>, which keeps the map of joined members
  and drives the membership sets, the key solicitations and the user metadata.
\<close>

section \<open>State\<close>

text \<open>A JavaScript map keeps insertion order, and the order is observable here: an association list.\<close>

record Members =
  mb_streamId :: string
  mb_joined :: "(string \<times> StreamMember) list"
  mb_membership :: Membership
  mb_userMetadata :: UserMetadata

definition Members_new :: "string \<Rightarrow> Members" where
  "Members_new streamId =
     \<lparr>mb_streamId = streamId, mb_joined = [], mb_membership = Membership_new streamId,
      mb_userMetadata = UserMetadata_new streamId\<rparr>"

abbreviation on_membership ::
  "(Membership \<Rightarrow> (Membership, emission) outcome) \<Rightarrow> Members \<Rightarrow> (Members, emission) outcome" where
  "on_membership f \<equiv> on_field mb_membership (\<lambda>v. mb_membership_update (\<lambda>_. v)) f"

abbreviation on_userMetadata ::
  "(UserMetadata \<Rightarrow> (UserMetadata, emission) outcome) \<Rightarrow> Members \<Rightarrow> (Members, emission) outcome" where
  "on_userMetadata f \<equiv> on_field mb_userMetadata (\<lambda>v. mb_userMetadata_update (\<lambda>_. v)) f"

definition setJoined :: "string \<Rightarrow> StreamMember \<Rightarrow> Members \<Rightarrow> Members" where
  "setJoined userId member m = m\<lparr>mb_joined := AList.update userId member (mb_joined m)\<rparr>"

section \<open>Snapshot\<close>

definition snapshotMember :: "string \<Rightarrow> Snapshot_Member \<Rightarrow> StreamMember" where
  "snapshotMember userId member =
     \<lparr>smb_userId = userId, smb_userAddress = sm_userAddress member,
      smb_miniblockNum = Some (sm_miniblockNum member), smb_eventNum = Some (sm_eventNum member),
      smb_solicitations = sm_solicitations member, smb_encryptedUsername = sm_username member,
      smb_encryptedDisplayName = sm_displayName member, smb_ensAddress = Some (sm_ensAddress member),
      smb_nft = sm_nft member\<rparr>"

definition Members_applySnapshot ::
  "externs \<Rightarrow> Snapshot \<Rightarrow> cleartexts \<Rightarrow> bool \<Rightarrow> Members \<Rightarrow> (Members, emission) outcome" where
  "Members_applySnapshot x snapshot cleartexts encryptionEmitter m =
     (case sn_members snapshot of
        None \<Rightarrow> pass m
      | Some joined \<Rightarrow>
          andThen
            (for_each (\<lambda>member. with_value (userIdFromAddress x (sm_userAddress member))
               (\<lambda>userId m. on_membership (applyMembershipEvent userId SO_JOIN confirmedStatus False)
                  (setJoined userId (snapshotMember userId member) m))) joined m)
            (\<lambda>m. let members = map snd (mb_joined m);
                     usernames = List.map_filter
                       (\<lambda>y. map_option (\<lambda>w. (smb_userId y, w)) (smb_encryptedUsername y)) members;
                     displayNames = List.map_filter
                       (\<lambda>y. map_option (\<lambda>w. (smb_userId y, w)) (smb_encryptedDisplayName y)) members;
                     ensAddresses = List.map_filter
                       (\<lambda>y. map_option (\<lambda>a. (smb_userId y, a)) (smb_ensAddress y)) members;
                     nfts = List.map_filter
                       (\<lambda>y. map_option (\<lambda>n. (smb_userId y, n)) (smb_nft y)) members
                 in andThen
                      (on_userMetadata (UserMetadata_applySnapshot x usernames displayNames
                         ensAddresses nfts cleartexts encryptionEmitter) m)
                      (initSolicitations (mb_streamId m) members encryptionEmitter)))"

text \<open>\<open>prependEvent\<close> does nothing: everything relevant was in the snapshot.\<close>

definition Members_prependEvent :: "Members \<Rightarrow> (Members, emission) outcome" where
  "Members_prependEvent m = pass m"

section \<open>Appended events\<close>

definition appendMembership ::
  "externs \<Rightarrow> StreamTimelineEvent \<Rightarrow> MemberPayload_Membership \<Rightarrow> bool \<Rightarrow> Members \<Rightarrow> (Members, emission) outcome"
where
  "appendMembership x event membership stateEmitter m =
     (let m1 = m\<lparr>mb_membership := (mb_membership m)\<lparr>ms_pendingMembershipEvents :=
                  (ms_pendingMembershipEvents (mb_membership m))(te_hashStr event \<mapsto> membership)\<rparr>\<rparr>
      in with_value (userIdFromAddress x (mm_userAddress membership))
           (\<lambda>userId m.
              andThen
                (case mm_op membership of
                   SO_JOIN \<Rightarrow>
                     andThen
                       (check (userId \<notin> fst ` set (mb_joined m)) ''user already joined'' ERR_UNSPECIFIED m)
                       (\<lambda>m. pass (setJoined userId
                          \<lparr>smb_userId = userId, smb_userAddress = mm_userAddress membership,
                           smb_miniblockNum = te_miniblockNum event,
                           smb_eventNum = Some (te_eventNum event), smb_solicitations = [],
                           smb_encryptedUsername = None, smb_encryptedDisplayName = None,
                           smb_ensAddress = None, smb_nft = None\<rparr> m))
                 | SO_LEAVE \<Rightarrow> pass (m\<lparr>mb_joined := AList.delete userId (mb_joined m)\<rparr>)
                 | _ \<Rightarrow> pass m)
                (on_membership (applyMembershipEvent userId (mm_op membership) pendingStatus stateEmitter)))
           m1)"

text \<open>
  \<open>const stateMember = this.joined.get(userId); check(isDefined(stateMember), message)\<close>, then
  the rest of the branch.
\<close>

definition withMember ::
  "string \<Rightarrow> string \<Rightarrow> (StreamMember \<Rightarrow> Members \<Rightarrow> (Members, emission) outcome) \<Rightarrow>
   Members \<Rightarrow> (Members, emission) outcome" where
  "withMember userId message f m =
     (case map_of (mb_joined m) userId of
        None \<Rightarrow> throw (CodeException message ERR_UNSPECIFIED) m
      | Some stateMember \<Rightarrow> f stateMember m)"

text \<open>The state is the members and the payload, whose session ids two branches sort in place.\<close>

definition Members_appendEvent ::
  "externs \<Rightarrow> StreamTimelineEvent \<Rightarrow> string option \<Rightarrow> bool \<Rightarrow> bool \<Rightarrow>
   Members \<times> MemberPayload \<Rightarrow> (Members \<times> MemberPayload, emission) outcome" where
  "Members_appendEvent x event cleartext encryptionEmitter stateEmitter mp =
     (case mp of (m, payload) \<Rightarrow>
        (case payload of
           MP_membership membership \<Rightarrow>
             on_field fst (\<lambda>m (_, p). (m, p)) (appendMembership x event membership stateEmitter) (m, payload)
         | MP_keySolicitation s \<Rightarrow>
             (case map_of (mb_joined m) (te_creatorUserId event) of
                None \<Rightarrow> throw (CodeException ''key solicitation from non-member'' ERR_UNSPECIFIED) (m, payload)
              | Some stateMember \<Rightarrow>
                  (case applySolicitation (mb_streamId m) encryptionEmitter (stateMember, s) of
                     ((member', s'), r) \<Rightarrow>
                       ((setJoined (te_creatorUserId event) member' m, MP_keySolicitation s'), r)))
         | MP_keyFulfillment f \<Rightarrow>
             (case userIdFromAddress x (kf_userAddress f) of
                Inl e \<Rightarrow> throw e (m, payload)
              | Inr userId \<Rightarrow>
                  (case map_of (mb_joined m) userId of
                     None \<Rightarrow> throw (CodeException ''key fulfillment from non-member'' ERR_UNSPECIFIED) (m, payload)
                   | Some stateMember \<Rightarrow>
                       (case applyFulfillment (mb_streamId m) encryptionEmitter (stateMember, f) of
                          ((member', f'), r) \<Rightarrow> ((setJoined userId member' m, MP_keyFulfillment f'), r))))
         | MP_displayName data \<Rightarrow>
             on_field fst (\<lambda>m (_, p). (m, p))
               (withMember (te_creatorUserId event) ''displayName from non-member'' (\<lambda>stateMember m.
                  on_userMetadata (appendDisplayName (te_hashStr event) data (te_creatorUserId event)
                      cleartext encryptionEmitter stateEmitter)
                    (setJoined (te_creatorUserId event)
                       (stateMember\<lparr>smb_encryptedDisplayName :=
                          Some \<lparr>wed_data = Some data, wed_eventNum = 0, wed_eventHash = []\<rparr>\<rparr>) m)))
               (m, payload)
         | MP_username data \<Rightarrow>
             on_field fst (\<lambda>m (_, p). (m, p))
               (withMember (te_creatorUserId event) ''username from non-member'' (\<lambda>stateMember m.
                  on_userMetadata (appendUsername (te_hashStr event) data (te_creatorUserId event)
                      cleartext encryptionEmitter stateEmitter)
                    (setJoined (te_creatorUserId event)
                       (stateMember\<lparr>smb_encryptedUsername :=
                          Some \<lparr>wed_data = Some data, wed_eventNum = 0, wed_eventHash = []\<rparr>\<rparr>) m)))
               (m, payload)
         | MP_ensAddress address \<Rightarrow>
             on_field fst (\<lambda>m (_, p). (m, p))
               (withMember (te_creatorUserId event) ''username from non-member'' (\<lambda>_.
                  on_userMetadata (appendEnsAddress x (te_hashStr event) address
                    (te_creatorUserId event) stateEmitter)))
               (m, payload)
         | MP_nft nft \<Rightarrow>
             on_field fst (\<lambda>m (_, p). (m, p))
               (withMember (te_creatorUserId event) ''nft from non-member'' (\<lambda>_.
                  on_userMetadata (appendNft (te_hashStr event) nft (te_creatorUserId event) stateEmitter)))
               (m, payload)
         | MP_undefined \<Rightarrow> pass (m, payload)))"

section \<open>Confirmed and decrypted events\<close>

definition confirmMembership ::
  "externs \<Rightarrow> StreamTimelineEvent \<Rightarrow> bool \<Rightarrow> Members \<Rightarrow> (Members, emission) outcome" where
  "confirmMembership x event stateEmitter m =
     (case ms_pendingMembershipEvents (mb_membership m) (te_hashStr event) of
        None \<Rightarrow> pass m
      | Some membership \<Rightarrow>
          let m1 = m\<lparr>mb_membership := (mb_membership m)\<lparr>ms_pendingMembershipEvents :=
                       (ms_pendingMembershipEvents (mb_membership m))(te_hashStr event := None)\<rparr>\<rparr>
          in with_value (userIdFromAddress x (mm_userAddress membership))
               (\<lambda>userId m.
                  let m2 = (case map_of (mb_joined m) userId of
                              None \<Rightarrow> m
                            | Some streamMember \<Rightarrow>
                                setJoined userId
                                  (streamMember\<lparr>smb_miniblockNum := te_miniblockNum event,
                                     smb_eventNum := Some (te_eventNum event)\<rparr>) m)
                  in on_membership
                       (applyMembershipEvent userId (mm_op membership) confirmedStatus stateEmitter) m2)
               m1)"

definition Members_onConfirmedEvent ::
  "externs \<Rightarrow> StreamTimelineEvent \<Rightarrow> MemberPayload \<Rightarrow> bool \<Rightarrow> Members \<Rightarrow> (Members, emission) outcome" where
  "Members_onConfirmedEvent x event payload stateEmitter m =
     (case payload of
        MP_membership _ \<Rightarrow> confirmMembership x event stateEmitter m
      | MP_keyFulfillment _ \<Rightarrow> pass m
      | MP_keySolicitation _ \<Rightarrow> pass m
      | MP_undefined \<Rightarrow> pass m
      | _ \<Rightarrow> on_userMetadata (UserMetadata_onConfirmedEvent x (te_hashStr event) stateEmitter) m)"

definition Members_onDecryptedContent ::
  "externs \<Rightarrow> string \<Rightarrow> DecryptedContent \<Rightarrow> bool \<Rightarrow> Members \<Rightarrow> (Members, emission) outcome" where
  "Members_onDecryptedContent x eventId content stateEmitter m =
     (case content of
        DC_text t \<Rightarrow> on_userMetadata (UserMetadata_onDecryptedContent x eventId t stateEmitter) m
      | _ \<Rightarrow> pass m)"

section \<open>Queries\<close>

definition Members_isMemberJoined :: "string \<Rightarrow> Members \<Rightarrow> bool" where
  "Members_isMemberJoined userId m = (userId \<in> ms_joinedUsers (mb_membership m))"

definition Members_isMember :: "MembershipOp \<Rightarrow> string \<Rightarrow> Members \<Rightarrow> bool" where
  "Members_isMember op userId m = isMember op userId (mb_membership m)"

definition Members_participants :: "Members \<Rightarrow> string set" where
  "Members_participants m = participants (mb_membership m)"

definition Members_joinedParticipants :: "Members \<Rightarrow> string set" where
  "Members_joinedParticipants m = joinedParticipants (mb_membership m)"

definition Members_joinedOrInvitedParticipants :: "Members \<Rightarrow> string set" where
  "Members_joinedOrInvitedParticipants m = joinedOrInvitedParticipants (mb_membership m)"

section \<open>Members as a stepping component\<close>

datatype MembersOp =
    MAppend StreamTimelineEvent "string option" MemberPayload
  | MConfirm StreamTimelineEvent MemberPayload
  | MDecrypted string DecryptedContent

definition membersStep :: "externs \<Rightarrow> MembersOp \<Rightarrow> Members \<Rightarrow> (Members, emission) outcome" where
  "membersStep x op m =
     (case op of
        MAppend event cleartext payload \<Rightarrow>
          (case Members_appendEvent x event cleartext True True (m, payload) of ((m', _), r) \<Rightarrow> (m', r))
      | MConfirm event payload \<Rightarrow> Members_onConfirmedEvent x event payload True m
      | MDecrypted eventId content \<Rightarrow> Members_onDecryptedContent x eventId content True m)"

text \<open>Every joined member is stored once, under its own id, and the metadata is consistent.\<close>

definition joined_inv :: "(string \<times> StreamMember) list \<Rightarrow> bool" where
  "joined_inv joined = (distinct (map fst joined) \<and> list_all (\<lambda>(u, member). smb_userId member = u) joined)"

definition members_inv :: "Members \<Rightarrow> bool" where
  "members_inv m = (joined_inv (mb_joined m) \<and> metadata_inv (mb_userMetadata m))"

definition membersLegal :: "MembersOp \<Rightarrow> Members \<Rightarrow> bool" where
  "membersLegal op m =
     (case op of MAppend event _ _ \<Rightarrow> metadata_fresh (te_hashStr event) (mb_userMetadata m) | _ \<Rightarrow> True)"

lemma joined_inv_iff:
  "joined_inv joined \<longleftrightarrow>
     distinct (map fst joined) \<and> (\<forall>u member. map_of joined u = Some member \<longrightarrow> smb_userId member = u)"
  by (force simp: joined_inv_def list_all_iff dest: map_of_SomeD)

lemma joined_inv_update:
  "joined_inv joined \<Longrightarrow> smb_userId member = u \<Longrightarrow> joined_inv (AList.update u member joined)"
  by (auto simp: joined_inv_iff distinct_update update_conv)

lemma joined_inv_delete: "joined_inv joined \<Longrightarrow> joined_inv (AList.delete u joined)"
  by (auto simp: joined_inv_iff distinct_delete delete_conv)

lemma joined_inv_member:
  "joined_inv joined \<Longrightarrow> map_of joined u = Some member \<Longrightarrow> smb_userId member = u"
  by (simp add: joined_inv_iff)

lemma applySolicitation_userId: "smb_userId (fst (out_state (applySolicitation sid em (user, s)))) = smb_userId user"
  by (simp add: applySolicitation_def Let_def emit_def)

lemma applyFulfillment_userId: "smb_userId (fst (out_state (applyFulfillment sid em (user, f)))) = smb_userId user"
  by (simp add: applyFulfillment_def Let_def emit_def pass_def split: option.split)

lemma members_inv_setJoined:
  "members_inv m \<Longrightarrow> smb_userId member = u \<Longrightarrow> members_inv (setJoined u member m)"
  by (simp add: members_inv_def setJoined_def joined_inv_update)

lemma members_inv_membership [simp]: "members_inv (m\<lparr>mb_membership := ms\<rparr>) = members_inv m"
  by (simp add: members_inv_def)

lemma appendMembership_inv:
  "members_inv m \<Longrightarrow> members_inv (out_state (appendMembership x event membership em m))"
  by (auto simp: appendMembership_def Let_def andThen_state members_inv_setJoined
      split: sum.split MembershipOp.split)
    (simp_all add: members_inv_def joined_inv_delete setJoined_def joined_inv_update)

lemma withMember_inv:
  assumes "members_inv m" "\<And>member. map_of (mb_joined m) u = Some member \<Longrightarrow> members_inv (out_state (f member m))"
  shows "members_inv (out_state (withMember u msg f m))"
  using assms by (simp add: withMember_def split: option.split)

lemma members_inv_metadata:
  "members_inv m \<Longrightarrow> metadata_inv (out_state (f (mb_userMetadata m))) \<Longrightarrow>
   members_inv (out_state (on_userMetadata f m))"
  by (simp add: members_inv_def)

lemma setJoined_metadata [simp]: "mb_userMetadata (setJoined u member m) = mb_userMetadata m"
  by (simp add: setJoined_def)

lemma Members_append_inv:
  assumes "members_inv m" "metadata_fresh (te_hashStr event) (mb_userMetadata m)"
  shows "members_inv (fst (out_state (Members_appendEvent x event ct em em' (m, payload))))"
proof -
  have j: "joined_inv (mb_joined m)" and md: "metadata_inv (mb_userMetadata m)"
    using assms(1) by (simp_all add: members_inv_def)
  note app = metadata_append_inv [OF md assms(2)]
  show ?thesis
  proof (cases payload)
    case (MP_keySolicitation s)
    then show ?thesis
      using assms(1) joined_inv_member [OF j] applySolicitation_userId [of "mb_streamId m" em _ s]
      by (auto simp: Members_appendEvent_def intro!: members_inv_setJoined split: option.split prod.split)
        (metis fst_conv)
  next
    case (MP_keyFulfillment f)
    then show ?thesis
      using assms(1) joined_inv_member [OF j] applyFulfillment_userId [of "mb_streamId m" em _ f]
      by (auto simp: Members_appendEvent_def intro!: members_inv_setJoined
          split: option.split prod.split sum.split)
        (metis fst_conv)
  qed (use assms(1) app joined_inv_member [OF j] in
      \<open>auto simp: Members_appendEvent_def appendMembership_inv
        intro!: withMember_inv members_inv_metadata members_inv_setJoined\<close>)
qed

lemma confirmMembership_inv: "members_inv m \<Longrightarrow> members_inv (out_state (confirmMembership x event em m))"
  by (auto simp: confirmMembership_def Let_def members_inv_setJoined joined_inv_member members_inv_def
      setJoined_def joined_inv_update split: option.split sum.split)

lemma membersStep_inv:
  assumes "members_inv m" "membersLegal op m"
  shows "members_inv (out_state (membersStep x op m))"
proof (cases op)
  case (MAppend event ct payload)
  then show ?thesis
    using Members_append_inv [OF assms(1), of event x ct True True payload] assms(2)
    by (auto simp: membersStep_def membersLegal_def split: prod.splits)
next
  case (MConfirm event payload)
  then show ?thesis
    using assms(1) confirmMembership_inv [OF assms(1), of x event True]
    by (cases payload) (simp_all add: membersStep_def Members_onConfirmedEvent_def
        members_inv_def metadata_confirm_inv)
next
  case (MDecrypted e c)
  then show ?thesis
    using assms(1) by (cases c) (simp_all add: membersStep_def Members_onDecryptedContent_def
        members_inv_def metadata_decrypted_inv)
qed

interpretation members: stepping "membersStep x" members_inv membersLegal for x
  by unfold_locales (rule membersStep_inv)

lemma Members_new_inv: "members_inv (Members_new sid)"
  by (simp add: members_inv_def Members_new_def joined_inv_def UserMetadata_new_inv)

section \<open>Properties\<close>

text \<open>
  (C20) The member state stays consistent under any sequence of appended, confirmed and decrypted
  member events with fresh event ids: every joined member is stored once under its own id, every
  user has at most one live username, display name, ENS and NFT event, and the claimed username
  checksums are exactly those of the live username events.
\<close>
theorem members_consistent:
  assumes "legal_run (membersStep x) membersLegal ops (Members_new sid)"
  shows "members_inv (run (membersStep x) ops (Members_new sid))"
  by (rule members.run_inv [OF Members_new_inv assms])

definition sample_event :: "string \<Rightarrow> string \<Rightarrow> StreamTimelineEvent" where
  "sample_event h creator =
     \<lparr>te_hashStr = h, te_creatorUserId = creator, te_eventNum = 7, te_createdAtEpochMs = 0,
      te_localEvent = None, te_remoteEvent = None, te_decryptedContent = None,
      te_decryptedContentError = None, te_miniblockNum = None, te_confirmedEventNum = None\<rparr>"

definition sample_join :: MemberPayload_Membership where
  "sample_join = \<lparr>mm_op = SO_JOIN, mm_userAddress = replicate 20 1, mm_initiatorAddress = [], mm_streamParentId = None\<rparr>"

definition sample_user :: string where
  "sample_user = ''0x'' @ concat (replicate 20 ''01'')"

lemma sample_user_address: "userIdFromAddress sample_externs (replicate 20 1) = Inr sample_user"
  by code_simp

theorem members_consistent_witness:
  "members_inv (run (membersStep sample_externs)
     [MAppend (sample_event ''e1'' sample_user) None (MP_membership sample_join),
      MAppend (sample_event ''e2'' sample_user) None (MP_username (sample_data ''h'')),
      MConfirm (sample_event ''e2'' sample_user) (MP_username (sample_data ''h''))] (Members_new ''s''))"
  by (rule members_consistent) code_simp

text \<open>
  A join takes effect in two stages. Appending the event of a user who is not in the joined
  map marks the user as pending, stores the member and leaves the confirmed memberships alone;
  confirming it makes the user joined and no longer pending, stamps the member with the position
  of the confirmed event, and announces the new member and the membership change.
\<close>
theorem join_lifecycle:
  assumes "userIdFromAddress x (mm_userAddress ms) = Inr u" "mm_op ms = SO_JOIN"
    and "u \<notin> fst ` set (mb_joined m)" "te_hashStr ev' = te_hashStr ev"
    and "r1 = Members_appendEvent x ev ct True True (m, MP_membership ms)"
    and "m1 = fst (out_state r1)"
    and "r2 = Members_onConfirmedEvent x ev' (MP_membership ms) True m1"
  shows "out_error r1 = None
    \<and> out_events r1 = [streamPendingMembershipUpdated (ms_streamId (mb_membership m)) u]
    \<and> u \<in> ms_pendingJoinedUsers (mb_membership m1)
    \<and> (Members_isMemberJoined v m1 = Members_isMemberJoined v m)
    \<and> out_error r2 = None
    \<and> out_events r2 = [streamNewUserJoined (ms_streamId (mb_membership m)) u,
                       streamMembershipUpdated (ms_streamId (mb_membership m)) u]
    \<and> Members_isMemberJoined u (out_state r2)
    \<and> u \<notin> ms_pendingJoinedUsers (mb_membership (out_state r2))
    \<and> (\<exists>member. map_of (mb_joined (out_state r2)) u = Some member \<and> smb_userId member = u \<and>
         smb_miniblockNum member = te_miniblockNum ev' \<and> smb_eventNum member = Some (te_eventNum ev'))"
proof -
  let ?sid = "ms_streamId (mb_membership m)"
  have r1: "out_error r1 = None" "out_events r1 = [streamPendingMembershipUpdated ?sid u]"
    using assms(1-3) unfolding assms(5)
    by (simp_all add: Members_appendEvent_def appendMembership_def effect_simps
        applyMembershipEvent_def setJoined_def)
  have m1: "u \<in> ms_pendingJoinedUsers (mb_membership m1)"
    "ms_joinedUsers (mb_membership m1) = ms_joinedUsers (mb_membership m)"
    "ms_streamId (mb_membership m1) = ?sid"
    "ms_pendingMembershipEvents (mb_membership m1) (te_hashStr ev) = Some ms"
    "\<exists>member. map_of (mb_joined m1) u = Some member \<and> smb_userId member = u"
    using assms(1-3) unfolding assms(6) assms(5)
    by (simp_all add: Members_appendEvent_def appendMembership_def effect_simps
        applyMembershipEvent_def setJoined_def update_conv)
  then obtain member where member: "map_of (mb_joined m1) u = Some member" "smb_userId member = u" by blast
  have r2: "out_error r2 = None"
    "out_events r2 = [streamNewUserJoined ?sid u, streamMembershipUpdated ?sid u]"
    "u \<in> ms_joinedUsers (mb_membership (out_state r2))"
    "u \<notin> ms_pendingJoinedUsers (mb_membership (out_state r2))"
    "map_of (mb_joined (out_state r2)) u =
      Some (member\<lparr>smb_miniblockNum := te_miniblockNum ev', smb_eventNum := Some (te_eventNum ev')\<rparr>)"
    using m1 member assms(1,2,4) unfolding assms(7)
    by (simp_all add: Members_onConfirmedEvent_def confirmMembership_def effect_simps Let_def
        applyMembershipEvent_def emitMembershipChange_def setJoined_def update_conv)
  show ?thesis
    using r1 r2 m1 member by (simp add: Members_isMemberJoined_def)
qed

theorem join_lifecycle_witness:
  "Members_isMemberJoined sample_user
     (out_state (Members_onConfirmedEvent sample_externs (sample_event ''e1'' ''u'') (MP_membership sample_join) True
        (fst (out_state (Members_appendEvent sample_externs (sample_event ''e1'' ''u'') None True True
          (Members_new ''s'', MP_membership sample_join))))))"
  using join_lifecycle [of sample_externs sample_join sample_user "Members_new ''s''"
      "sample_event ''e1'' ''u''" "sample_event ''e1'' ''u''", OF _ _ _ _ refl refl refl]
    sample_user_address
  by (simp add: sample_join_def Members_new_def)

text \<open>
  Only members speak: a key solicitation, username, display name, ENS address or NFT from a
  user who is not in the joined map is rejected with an exception that leaves the member state
  and the payload as they were and announces nothing.
\<close>
theorem non_member_rejected:
  assumes "map_of (mb_joined m) (te_creatorUserId ev) = None"
    and "payload \<in> {MP_keySolicitation s, MP_username d, MP_displayName d, MP_ensAddress a, MP_nft n}"
  shows "\<exists>message. Members_appendEvent x ev ct em em' (m, payload) =
    ((m, payload), [], Some (CodeException message ERR_UNSPECIFIED))"
  using assms by (auto simp: Members_appendEvent_def withMember_def effect_simps)

theorem non_member_rejected_witness:
  "\<exists>message. Members_appendEvent sample_externs (sample_event ''e1'' ''u'') None True True
     (Members_new ''s'', MP_username (sample_data ''h'')) =
    ((Members_new ''s'', MP_username (sample_data ''h'')), [], Some (CodeException message ERR_UNSPECIFIED))"
  by (rule non_member_rejected [where d = "sample_data ''h''"]) (simp_all add: Members_new_def)

end
