(* ===== verification/ChannelContents.thy ===== *)
theory ChannelContents
  imports Protocol
begin

text \<open>
  The content of the streams that carry messages: channel (\<open>streamStateView_Channel.ts\<close>), DM
  channel (\<open>streamStateView_DMChannel.ts\<close>), GDM channel (\<open>streamStateView_GDMChannel.ts\<close>) and
  the channel metadata of the latter (\<open>streamStateView_ChannelMetadata.ts\<close>), with \<open>decryptEvent\<close> of
  \<open>streamStateView_AbstractContent.ts\<close>. An operation that may set the decrypted content of its
  event works on the pair of the view and the event.
\<close>

section \<open>Common parts\<close>

text \<open>The payload of an event that came from the network.\<close>

definition eventPayload :: "StreamTimelineEvent \<Rightarrow> StreamEvent_payload" where
  "eventPayload event =
     (case te_remoteEvent event of Some pe \<Rightarrow> se_payload (pe_event pe) | None \<Rightarrow> PL_undefined)"

definition remoteCreatedAt :: "StreamTimelineEvent \<Rightarrow> bigint" where
  "remoteCreatedAt event =
     (case te_remoteEvent event of Some pe \<Rightarrow> se_createdAtEpochMs (pe_event pe) | None \<Rightarrow> 0)"

text \<open>\<open>check(event.remoteEvent.event.payload.case === ...)\<close>, which has no message of its own.\<close>

definition wrongPayload :: "'s \<Rightarrow> ('s, emission) outcome" where
  "wrongPayload s = throw (CodeException ''Unknown'' ERR_UNSPECIFIED) s"

abbreviation on_view :: "('c \<Rightarrow> ('c, emission) outcome) \<Rightarrow> 'c \<times> 'v \<Rightarrow> ('c \<times> 'v, emission) outcome" where
  "on_view f \<equiv> on_field fst (\<lambda>c (_, v). (c, v)) f"

abbreviation on_event :: "('v \<Rightarrow> ('v, emission) outcome) \<Rightarrow> 'c \<times> 'v \<Rightarrow> ('c \<times> 'v, emission) outcome" where
  "on_event f \<equiv> on_field snd (\<lambda>v (c, _). (c, v)) f"

definition decryptEvent ::
  "externs \<Rightarrow> string \<Rightarrow> ContentKind \<Rightarrow> EncryptedData \<Rightarrow> string option \<Rightarrow> bool \<Rightarrow>
   StreamTimelineEvent \<Rightarrow> (StreamTimelineEvent, emission) outcome" where
  "decryptEvent x streamId kind content cleartext encryptionEmitter event =
     (if truthy cleartext
      then with_value (toDecryptedContent x kind (the cleartext))
             (\<lambda>d event. pass (event\<lparr>te_decryptedContent := Some d\<rparr>)) event
      else emit encryptionEmitter
             (newEncryptedContent streamId (te_hashStr event) \<lparr>ec_kind = kind, ec_content = content\<rparr>) event)"

section \<open>Channel\<close>

record ChannelView =
  chv_streamId :: string
  chv_spaceId :: string
  chv_reachedRenderableContent :: bool

definition ChannelView_new :: "string \<Rightarrow> ChannelView" where
  "ChannelView_new streamId =
     \<lparr>chv_streamId = streamId, chv_spaceId = [], chv_reachedRenderableContent = False\<rparr>"

definition Channel_applySnapshot ::
  "externs \<Rightarrow> ChannelPayload_Inception option \<Rightarrow> ChannelView \<Rightarrow> (ChannelView, emission) outcome" where
  "Channel_applySnapshot x inception v =
     pass (v\<lparr>chv_spaceId := streamIdFromBytes x (case inception of Some i \<Rightarrow> chi_spaceId i | None \<Rightarrow> [])\<rparr>)"

definition Channel_appendEvent ::
  "externs \<Rightarrow> string option \<Rightarrow> bool \<Rightarrow> ChannelView \<times> StreamTimelineEvent \<Rightarrow>
   (ChannelView \<times> StreamTimelineEvent, emission) outcome" where
  "Channel_appendEvent x cleartext encryptionEmitter ve =
     (case eventPayload (snd ve) of
        PL_channelPayload payload \<Rightarrow>
          (case payload of
             CP_message data \<Rightarrow>
               on_event (decryptEvent x (chv_streamId (fst ve)) channelMessageKind data cleartext encryptionEmitter)
                 ((fst ve)\<lparr>chv_reachedRenderableContent := True\<rparr>, snd ve)
           | _ \<Rightarrow> pass ve)
      | _ \<Rightarrow> wrongPayload ve)"

definition Channel_prependEvent ::
  "externs \<Rightarrow> string option \<Rightarrow> bool \<Rightarrow> ChannelView \<times> StreamTimelineEvent \<Rightarrow>
   (ChannelView \<times> StreamTimelineEvent, emission) outcome" where
  "Channel_prependEvent x cleartext encryptionEmitter ve =
     (case eventPayload (snd ve) of
        PL_channelPayload payload \<Rightarrow>
          (case payload of
             CP_message data \<Rightarrow>
               on_event (decryptEvent x (chv_streamId (fst ve)) channelMessageKind data cleartext encryptionEmitter)
                 ((fst ve)\<lparr>chv_reachedRenderableContent := True\<rparr>, snd ve)
           | _ \<Rightarrow> pass ve)
      | _ \<Rightarrow> wrongPayload ve)"

definition Channel_getStreamParentId :: "ChannelView \<Rightarrow> string option" where
  "Channel_getStreamParentId v = Some (chv_spaceId v)"

definition Channel_needsScrollback :: "ChannelView \<Rightarrow> bool" where
  "Channel_needsScrollback v = (\<not> chv_reachedRenderableContent v)"

section \<open>Channel metadata\<close>

record ChannelMetadata =
  cmd_streamId :: string
  cmd_channelProperties :: "ChannelProperties option"
  cmd_latestEncryptedChannelProperties :: "(string \<times> EncryptedData) option"

definition ChannelMetadata_new :: "string \<Rightarrow> ChannelMetadata" where
  "ChannelMetadata_new streamId =
     \<lparr>cmd_streamId = streamId, cmd_channelProperties = None,
      cmd_latestEncryptedChannelProperties = None\<rparr>"

definition handleDecryptedContent ::
  "DecryptedContent \<Rightarrow> bool \<Rightarrow> ChannelMetadata \<Rightarrow> (ChannelMetadata, emission) outcome" where
  "handleDecryptedContent content emitter v =
     (case content of
        DC_channelProperties p \<Rightarrow>
          emit emitter (streamChannelPropertiesUpdated (cmd_streamId v)) (v\<lparr>cmd_channelProperties := Some p\<rparr>)
      | _ \<Rightarrow> check False ''Unknown'' ERR_UNSPECIFIED v)"

definition decryptPayload ::
  "externs \<Rightarrow> EncryptedData \<Rightarrow> string \<Rightarrow> string option \<Rightarrow> bool \<Rightarrow> ChannelMetadata \<Rightarrow> (ChannelMetadata, emission) outcome"
where
  "decryptPayload x payload eventId cleartext encryptionEmitter v =
     (if truthy cleartext
      then with_value (toDecryptedContent x channelPropertiesKind (the cleartext))
             (\<lambda>d. handleDecryptedContent d encryptionEmitter) v
      else emit encryptionEmitter
             (newEncryptedContent (cmd_streamId v) eventId
                \<lparr>ec_kind = channelPropertiesKind, ec_content = payload\<rparr>) v)"

definition ChannelMetadata_applySnapshot ::
  "externs \<Rightarrow> WrappedEncryptedData \<Rightarrow> (string \<rightharpoonup> string) option \<Rightarrow> bool \<Rightarrow>
   ChannelMetadata \<Rightarrow> (ChannelMetadata, emission) outcome" where
  "ChannelMetadata_applySnapshot x encryptedChannelProperties cleartexts encryptionEmitter v =
     (case wed_data encryptedChannelProperties of
        None \<Rightarrow> pass v
      | Some data \<Rightarrow>
          let eventId = bin_toHexString x (wed_eventHash encryptedChannelProperties)
          in decryptPayload x data eventId
               (case cleartexts of None \<Rightarrow> None | Some m \<Rightarrow> m eventId) encryptionEmitter
               (v\<lparr>cmd_latestEncryptedChannelProperties := Some (eventId, data)\<rparr>))"

definition ChannelMetadata_appendEvent ::
  "externs \<Rightarrow> StreamTimelineEvent \<Rightarrow> string option \<Rightarrow> bool \<Rightarrow> ChannelMetadata \<Rightarrow> (ChannelMetadata, emission) outcome"
where
  "ChannelMetadata_appendEvent x event cleartext emitter v =
     (case eventPayload event of
        PL_gdmChannelPayload (GDMP_channelProperties payload) \<Rightarrow>
          decryptPayload x payload (te_hashStr event) cleartext emitter v
      | _ \<Rightarrow> wrongPayload v)"

definition ChannelMetadata_onDecryptedContent ::
  "DecryptedContent \<Rightarrow> bool \<Rightarrow> ChannelMetadata \<Rightarrow> (ChannelMetadata, emission) outcome" where
  "ChannelMetadata_onDecryptedContent content stateEmitter v = handleDecryptedContent content stateEmitter v"

section \<open>DM channel\<close>

record DMView =
  dmv_streamId :: string
  dmv_firstPartyId :: "string option"
  dmv_secondPartyId :: "string option"
  dmv_lastEventCreatedAtEpochMs :: bigint

definition DMView_new :: "string \<Rightarrow> DMView" where
  "DMView_new streamId =
     \<lparr>dmv_streamId = streamId, dmv_firstPartyId = None, dmv_secondPartyId = None,
      dmv_lastEventCreatedAtEpochMs = 0\<rparr>"

definition DM_applySnapshot ::
  "externs \<Rightarrow> DmChannelPayload_Inception option \<Rightarrow> DMView \<Rightarrow> (DMView, emission) outcome" where
  "DM_applySnapshot x inception v =
     (case inception of
        None \<Rightarrow> pass v
      | Some i \<Rightarrow>
          andThen
            (with_value (userIdFromAddress x (dmi_firstPartyAddress i))
               (\<lambda>a v. pass (v\<lparr>dmv_firstPartyId := Some a\<rparr>)) v)
            (with_value (userIdFromAddress x (dmi_secondPartyAddress i))
               (\<lambda>b v. pass (v\<lparr>dmv_secondPartyId := Some b\<rparr>))))"

definition DM_updateLastEvent :: "StreamTimelineEvent \<Rightarrow> bool \<Rightarrow> DMView \<Rightarrow> (DMView, emission) outcome" where
  "DM_updateLastEvent event stateEmitter v =
     (if remoteCreatedAt event > dmv_lastEventCreatedAtEpochMs v
      then emit stateEmitter (streamLatestTimestampUpdated (dmv_streamId v))
             (v\<lparr>dmv_lastEventCreatedAtEpochMs := remoteCreatedAt event\<rparr>)
      else pass v)"

definition DM_appendEvent ::
  "externs \<Rightarrow> string option \<Rightarrow> bool \<Rightarrow> bool \<Rightarrow> DMView \<times> StreamTimelineEvent \<Rightarrow>
   (DMView \<times> StreamTimelineEvent, emission) outcome" where
  "DM_appendEvent x cleartext encryptionEmitter stateEmitter ve =
     (case eventPayload (snd ve) of
        PL_dmChannelPayload payload \<Rightarrow>
          (case payload of
             DMP_inception _ \<Rightarrow> on_view (DM_updateLastEvent (snd ve) stateEmitter) ve
           | DMP_message data \<Rightarrow>
               andThen
                 (on_event (decryptEvent x (dmv_streamId (fst ve)) channelMessageKind data cleartext
                    encryptionEmitter) ve)
                 (\<lambda>ve. on_view (DM_updateLastEvent (snd ve) stateEmitter) ve)
           | DMP_undefined \<Rightarrow> pass ve)
      | _ \<Rightarrow> wrongPayload ve)"

definition DM_prependEvent ::
  "externs \<Rightarrow> string option \<Rightarrow> bool \<Rightarrow> DMView \<times> StreamTimelineEvent \<Rightarrow>
   (DMView \<times> StreamTimelineEvent, emission) outcome" where
  "DM_prependEvent x cleartext encryptionEmitter ve =
     (case eventPayload (snd ve) of
        PL_dmChannelPayload payload \<Rightarrow>
          (case payload of
             DMP_inception _ \<Rightarrow> on_view (DM_updateLastEvent (snd ve) False) ve
           | DMP_message data \<Rightarrow>
               andThen
                 (on_view (DM_updateLastEvent (snd ve) False) ve)
                 (\<lambda>ve. on_event (decryptEvent x (dmv_streamId (fst ve)) channelMessageKind data cleartext
                    encryptionEmitter) ve)
           | DMP_undefined \<Rightarrow> pass ve)
      | _ \<Rightarrow> wrongPayload ve)"

definition DM_onAppendLocalEvent :: "StreamTimelineEvent \<Rightarrow> bool \<Rightarrow> DMView \<Rightarrow> (DMView, emission) outcome" where
  "DM_onAppendLocalEvent event stateEmitter v =
     emit stateEmitter (streamLatestTimestampUpdated (dmv_streamId v))
       (v\<lparr>dmv_lastEventCreatedAtEpochMs := te_createdAtEpochMs event\<rparr>)"

definition DM_participants :: "DMView \<Rightarrow> string set" where
  "DM_participants v =
     (if \<not> truthy (dmv_firstPartyId v) \<or> \<not> truthy (dmv_secondPartyId v) then {}
      else {the (dmv_firstPartyId v), the (dmv_secondPartyId v)})"

section \<open>GDM channel\<close>

record GDMView =
  gdv_streamId :: string
  gdv_channelMetadata :: ChannelMetadata
  gdv_lastEventCreatedAtEpochMs :: bigint

definition GDMView_new :: "string \<Rightarrow> GDMView" where
  "GDMView_new streamId =
     \<lparr>gdv_streamId = streamId, gdv_channelMetadata = ChannelMetadata_new streamId,
      gdv_lastEventCreatedAtEpochMs = 0\<rparr>"

abbreviation on_channelMetadata ::
  "(ChannelMetadata \<Rightarrow> (ChannelMetadata, emission) outcome) \<Rightarrow> GDMView \<Rightarrow> (GDMView, emission) outcome" where
  "on_channelMetadata f \<equiv> on_field gdv_channelMetadata (\<lambda>w. gdv_channelMetadata_update (\<lambda>_. w)) f"

definition GDM_applySnapshot ::
  "externs \<Rightarrow> WrappedEncryptedData option \<Rightarrow> (string \<rightharpoonup> string) option \<Rightarrow> bool \<Rightarrow>
   GDMView \<Rightarrow> (GDMView, emission) outcome" where
  "GDM_applySnapshot x channelProperties cleartexts encryptionEmitter v =
     (case channelProperties of
        None \<Rightarrow> pass v
      | Some p \<Rightarrow> on_channelMetadata (ChannelMetadata_applySnapshot x p cleartexts encryptionEmitter) v)"

definition GDM_updateLastEvent :: "StreamTimelineEvent \<Rightarrow> bool \<Rightarrow> GDMView \<Rightarrow> (GDMView, emission) outcome" where
  "GDM_updateLastEvent event stateEmitter v =
     (if remoteCreatedAt event > gdv_lastEventCreatedAtEpochMs v
      then emit stateEmitter (streamLatestTimestampUpdated (gdv_streamId v))
             (v\<lparr>gdv_lastEventCreatedAtEpochMs := remoteCreatedAt event\<rparr>)
      else pass v)"

definition GDM_prependEvent ::
  "externs \<Rightarrow> string option \<Rightarrow> bool \<Rightarrow> GDMView \<times> StreamTimelineEvent \<Rightarrow>
   (GDMView \<times> StreamTimelineEvent, emission) outcome" where
  "GDM_prependEvent x cleartext encryptionEmitter ve =
     (case eventPayload (snd ve) of
        PL_gdmChannelPayload payload \<Rightarrow>
          (case payload of
             GDMP_inception _ \<Rightarrow> on_view (GDM_updateLastEvent (snd ve) False) ve
           | GDMP_message data \<Rightarrow>
               andThen
                 (on_view (GDM_updateLastEvent (snd ve) False) ve)
                 (\<lambda>ve. on_event (decryptEvent x (gdv_streamId (fst ve)) channelMessageKind data cleartext
                    encryptionEmitter) ve)
           | GDMP_channelProperties _ \<Rightarrow> pass ve
           | GDMP_undefined \<Rightarrow> pass ve)
      | _ \<Rightarrow> wrongPayload ve)"

definition GDM_appendEvent ::
  "externs \<Rightarrow> string option \<Rightarrow> bool \<Rightarrow> bool \<Rightarrow> GDMView \<times> StreamTimelineEvent \<Rightarrow>
   (GDMView \<times> StreamTimelineEvent, emission) outcome" where
  "GDM_appendEvent x cleartext encryptionEmitter stateEmitter ve =
     (case eventPayload (snd ve) of
        PL_gdmChannelPayload payload \<Rightarrow>
          (case payload of
             GDMP_inception _ \<Rightarrow> on_view (GDM_updateLastEvent (snd ve) stateEmitter) ve
           | GDMP_message data \<Rightarrow>
               andThen
                 (on_event (decryptEvent x (gdv_streamId (fst ve)) channelMessageKind data cleartext
                    encryptionEmitter) ve)
                 (\<lambda>ve. on_view (GDM_updateLastEvent (snd ve) stateEmitter) ve)
           | GDMP_channelProperties _ \<Rightarrow>
               on_view (on_channelMetadata
                 (ChannelMetadata_appendEvent x (snd ve) cleartext encryptionEmitter)) ve
           | GDMP_undefined \<Rightarrow> pass ve)
      | _ \<Rightarrow> wrongPayload ve)"

definition GDM_onDecryptedContent ::
  "DecryptedContent \<Rightarrow> bool \<Rightarrow> GDMView \<Rightarrow> (GDMView, emission) outcome" where
  "GDM_onDecryptedContent content emitter v =
     (case content of
        DC_channelProperties _ \<Rightarrow> on_channelMetadata (ChannelMetadata_onDecryptedContent content emitter) v
      | _ \<Rightarrow> pass v)"

definition GDM_onAppendLocalEvent :: "StreamTimelineEvent \<Rightarrow> bool \<Rightarrow> GDMView \<Rightarrow> (GDMView, emission) outcome" where
  "GDM_onAppendLocalEvent event stateEmitter v =
     emit stateEmitter (streamLatestTimestampUpdated (gdv_streamId v))
       (v\<lparr>gdv_lastEventCreatedAtEpochMs := te_createdAtEpochMs event\<rparr>)"

definition GDM_getChannelMetadata :: "GDMView \<Rightarrow> ChannelMetadata option" where
  "GDM_getChannelMetadata v = Some (gdv_channelMetadata v)"

section \<open>Lemmas\<close>

text \<open>Decrypting sets the decrypted content of the event and nothing else.\<close>

definition only_decrypted :: "StreamTimelineEvent \<Rightarrow> StreamTimelineEvent \<Rightarrow> bool" where
  "only_decrypted e e' = (e' = e\<lparr>te_decryptedContent := te_decryptedContent e'\<rparr>)"

lemma only_decrypted_refl [simp]: "only_decrypted e e"
  by (simp add: only_decrypted_def)

lemma only_decrypted_update [simp]: "only_decrypted e (e\<lparr>te_decryptedContent := d\<rparr>)"
  by (simp add: only_decrypted_def)

lemma only_decrypted_fields:
  assumes "only_decrypted e e'"
  shows "te_hashStr e' = te_hashStr e" "te_eventNum e' = te_eventNum e" "te_remoteEvent e' = te_remoteEvent e"
    "te_miniblockNum e' = te_miniblockNum e" "te_confirmedEventNum e' = te_confirmedEventNum e"
    "te_localEvent e' = te_localEvent e" "te_createdAtEpochMs e' = te_createdAtEpochMs e"
    "te_creatorUserId e' = te_creatorUserId e"
  using assms by (metis (no_types, lifting) only_decrypted_def StreamTimelineEvent.select_convs
      StreamTimelineEvent.surjective StreamTimelineEvent.update_convs(7))+

lemma decryptEvent_only: "only_decrypted e (out_state (decryptEvent x sid k d ct em e))"
  by (simp add: decryptEvent_def split: sum.split)

lemma decryptEvent_none:
  "decryptEvent x sid k d None em e =
     emit em (newEncryptedContent sid (te_hashStr e) \<lparr>ec_kind = k, ec_content = d\<rparr>) e"
  by (simp add: decryptEvent_def truthy_def)

lemma channel_only [simp]:
  "only_decrypted e (snd (out_state (Channel_appendEvent x ct em (v, e))))"
  "only_decrypted e (snd (out_state (Channel_prependEvent x ct em (v, e))))"
  by (simp_all add: Channel_appendEvent_def Channel_prependEvent_def wrongPayload_def decryptEvent_only
      split: StreamEvent_payload.split ChannelPayload.split)

lemma updateLastEvent_error [simp]:
  "out_error (DM_updateLastEvent e st v) = None" "out_error (GDM_updateLastEvent e st g) = None"
  by (simp_all add: DM_updateLastEvent_def GDM_updateLastEvent_def)

lemma dm_only [simp]:
  "only_decrypted e (snd (out_state (DM_appendEvent x ct em st (v, e))))"
  "only_decrypted e (snd (out_state (DM_prependEvent x ct em (v, e))))"
  by (simp_all add: DM_appendEvent_def DM_prependEvent_def wrongPayload_def decryptEvent_only andThen_state
      split: StreamEvent_payload.split DmChannelPayload.split)

lemma gdm_only [simp]:
  "only_decrypted e (snd (out_state (GDM_appendEvent x ct em st (g, e))))"
  "only_decrypted e (snd (out_state (GDM_prependEvent x ct em (g, e))))"
  by (simp_all add: GDM_appendEvent_def GDM_prependEvent_def wrongPayload_def decryptEvent_only andThen_state
      split: StreamEvent_payload.split GdmChannelPayload.split)

lemma DM_updateLastEvent_max:
  "dmv_lastEventCreatedAtEpochMs (out_state (DM_updateLastEvent e st v)) =
     max (dmv_lastEventCreatedAtEpochMs v) (remoteCreatedAt e)"
  by (simp add: DM_updateLastEvent_def max_def)

text \<open>An event that reaches a DM channel from either end, without a cached cleartext.\<close>

definition dmStep :: "externs \<Rightarrow> bool \<times> StreamTimelineEvent \<Rightarrow> DMView \<Rightarrow> (DMView, emission) outcome" where
  "dmStep x pe v =
     (case pe of (prepend, e) \<Rightarrow>
        let r = (if prepend then DM_prependEvent x None True (v, e) else DM_appendEvent x None True True (v, e))
        in (fst (out_state r), out_events r, out_error r))"

definition dmMessage :: "StreamTimelineEvent \<Rightarrow> bool" where
  "dmMessage e =
     (case eventPayload e of
        PL_dmChannelPayload (DMP_message _) \<Rightarrow> True | PL_dmChannelPayload (DMP_inception _) \<Rightarrow> True | _ \<Rightarrow> False)"

lemma dmStep_max:
  "dmMessage e \<Longrightarrow> dmv_lastEventCreatedAtEpochMs (out_state (dmStep x (p, e) v)) =
     max (dmv_lastEventCreatedAtEpochMs v) (remoteCreatedAt e)"
  by (auto simp: dmStep_def dmMessage_def DM_prependEvent_def DM_appendEvent_def andThen_state
      decryptEvent_none DM_updateLastEvent_max split: StreamEvent_payload.splits DmChannelPayload.splits)

section \<open>Properties\<close>

text \<open>
  The timestamp that orders a user's direct messages is that of the newest message, in whatever
  order and from whichever end of the timeline the messages arrive.
\<close>
theorem dm_latest_timestamp:
  assumes "list_all (\<lambda>(_, e). dmMessage e) events"
  shows "dmv_lastEventCreatedAtEpochMs (run (dmStep x) events v) =
    Max (insert (dmv_lastEventCreatedAtEpochMs v) ((\<lambda>(_, e). remoteCreatedAt e) ` set events))"
  using assms
proof (induction events arbitrary: v)
  case (Cons pe events)
  obtain p e where pe: "pe = (p, e)" by (cases pe)
  let ?t = "\<lambda>(_ :: bool, e). remoteCreatedAt e"
  have "run (dmStep x) (pe # events) v = run (dmStep x) events (out_state (dmStep x (p, e) v))" by (simp add: pe)
  then show ?case
    using Cons dmStep_max [of e x p v]
    by (cases "events = []") (simp_all add: pe max.assoc)
qed simp

definition sample_dm :: "int \<Rightarrow> StreamTimelineEvent" where
  "sample_dm t =
     makeRemoteTimelineEvent
       \<lparr>pe_event = \<lparr>se_creatorAddress = [], se_delegateSig = [], se_salt = [], se_prevMiniblockHash = None,
          se_createdAtEpochMs = t, se_delegateExpiryEpochMs = 0,
          se_payload = PL_dmChannelPayload (DMP_message
            \<lparr>ed_ciphertext = ''c'', ed_algorithm = ''a'', ed_senderKey = ''k'', ed_sessionId = ''i'',
             ed_checksum = None, ed_refEventId = None\<rparr>)\<rparr>,
        pe_hash = [1], pe_hashStr = ''01'', pe_prevMiniblockHashStr = None, pe_creatorUserId = ''u''\<rparr> 0 None None"

theorem dm_latest_timestamp_witness:
  "dmv_lastEventCreatedAtEpochMs (run (dmStep sample_externs)
     [(False, sample_dm 5), (True, sample_dm 9), (False, sample_dm 7)] (DMView_new ''s'')) = 9"
proof -
  have l: "list_all (\<lambda>(_, e). dmMessage e) [(False, sample_dm 5), (True, sample_dm 9), (False, sample_dm 7)]"
    by code_simp
  have "remoteCreatedAt (sample_dm t) = t" for t
    by (simp add: remoteCreatedAt_def sample_dm_def makeRemoteTimelineEvent_def)
  then show ?thesis unfolding dm_latest_timestamp [OF l] by (simp add: DMView_new_def)
qed

end
