(* ===== verification/OtherContents.thy ===== *)
theory OtherContents
  imports ChannelContents
begin

text \<open>
  The content of the streams without messages: space, user, user settings, user device keys, user
  inbox and media (\<open>streamStateView_Space.ts\<close>, \<open>_User.ts\<close>, \<open>_UserSettings.ts\<close>,
  \<open>_UserDeviceKey.ts\<close>, \<open>_UserInbox.ts\<close>, \<open>_Media.ts\<close>).
\<close>

section \<open>Space\<close>

record ParsedChannelProperties =
  pcp_isDefault :: bool
  pcp_updatedAtHash :: string

record SpaceView =
  spv_streamId :: string
  spv_spaceChannelsMetadata :: "string \<rightharpoonup> ParsedChannelProperties"

definition SpaceView_new :: "string \<Rightarrow> SpaceView" where
  "SpaceView_new streamId = \<lparr>spv_streamId = streamId, spv_spaceChannelsMetadata = Map.empty\<rparr>"

definition addSpacePayload_Channel ::
  "externs \<Rightarrow> string \<Rightarrow> SpacePayload_Channel \<Rightarrow> bool \<Rightarrow> SpaceView \<Rightarrow> (SpaceView, emission) outcome" where
  "addSpacePayload_Channel x eventHash payload stateEmitter v =
     (let channelId = streamIdAsString x (BytesId (spc_channelId payload));
          properties = \<lparr>pcp_isDefault = isDefaultChannelId channelId, pcp_updatedAtHash = eventHash\<rparr>
      in case spc_op payload of
           CO_CREATED \<Rightarrow>
             emit stateEmitter (spaceChannelCreated (spv_streamId v) channelId)
               (v\<lparr>spv_spaceChannelsMetadata := (spv_spaceChannelsMetadata v)(channelId \<mapsto> properties)\<rparr>)
         | CO_DELETED \<Rightarrow>
             if spv_spaceChannelsMetadata v channelId \<noteq> None
             then emit stateEmitter (spaceChannelDeleted (spv_streamId v) channelId)
                    (v\<lparr>spv_spaceChannelsMetadata := (spv_spaceChannelsMetadata v)(channelId := None)\<rparr>)
             else pass v
         | CO_UPDATED \<Rightarrow>
             emit stateEmitter (spaceChannelUpdated (spv_streamId v) channelId)
               (v\<lparr>spv_spaceChannelsMetadata := (spv_spaceChannelsMetadata v)(channelId \<mapsto> properties)\<rparr>)
         | _ \<Rightarrow> throw (CodeException ''Unknown channel'' STREAM_BAD_EVENT) v)"

definition Space_applySnapshot ::
  "externs \<Rightarrow> string \<Rightarrow> SpacePayload_Channel list \<Rightarrow> SpaceView \<Rightarrow> (SpaceView, emission) outcome" where
  "Space_applySnapshot x eventHash channels v =
     for_each (\<lambda>payload. addSpacePayload_Channel x eventHash payload False) channels v"

definition Space_prependEvent :: "StreamTimelineEvent \<Rightarrow> SpaceView \<Rightarrow> (SpaceView, emission) outcome" where
  "Space_prependEvent event v =
     (case eventPayload event of PL_spacePayload _ \<Rightarrow> pass v | _ \<Rightarrow> wrongPayload v)"

definition Space_appendEvent ::
  "externs \<Rightarrow> StreamTimelineEvent \<Rightarrow> bool \<Rightarrow> SpaceView \<Rightarrow> (SpaceView, emission) outcome" where
  "Space_appendEvent x event stateEmitter v =
     (case eventPayload event of
        PL_spacePayload payload \<Rightarrow>
          (case payload of
             SP_channel c \<Rightarrow> addSpacePayload_Channel x (te_hashStr event) c stateEmitter v
           | _ \<Rightarrow> pass v)
      | _ \<Rightarrow> wrongPayload v)"

section \<open>User\<close>

record UserView =
  uv_streamId :: string
  uv_streamMemberships :: "string \<rightharpoonup> UserMembership"

definition UserView_new :: "string \<Rightarrow> UserView" where
  "UserView_new streamId = \<lparr>uv_streamId = streamId, uv_streamMemberships = Map.empty\<rparr>"

definition addUserPayload_userMembership ::
  "externs \<Rightarrow> UserMembership \<Rightarrow> bool \<Rightarrow> UserView \<Rightarrow> (UserView, emission) outcome" where
  "addUserPayload_userMembership x payload emitter v =
     (let streamId = streamIdFromBytes x (um_streamId payload);
          wasInvited = (map_option um_op (uv_streamMemberships v streamId) = Some SO_INVITE);
          wasJoined = (map_option um_op (uv_streamMemberships v streamId) = Some SO_JOIN);
          v1 = v\<lparr>uv_streamMemberships := (uv_streamMemberships v)(streamId \<mapsto> payload)\<rparr>
      in case um_op payload of
           SO_INVITE \<Rightarrow>
             andThen (emit emitter (userInvitedToStream streamId) v1)
               (emit emitter (userStreamMembershipChanged streamId))
         | SO_JOIN \<Rightarrow>
             andThen (emit emitter (userJoinedStream streamId) v1)
               (emit emitter (userStreamMembershipChanged streamId))
         | SO_LEAVE \<Rightarrow>
             if wasInvited \<or> wasJoined
             then andThen (emit emitter (userLeftStream streamId) v1)
                    (emit emitter (userStreamMembershipChanged streamId))
             else pass v1
         | _ \<Rightarrow> pass v1)"

definition User_applySnapshot ::
  "externs \<Rightarrow> UserMembership list \<Rightarrow> bool \<Rightarrow> UserView \<Rightarrow> (UserView, emission) outcome" where
  "User_applySnapshot x memberships encryptionEmitter v =
     for_each (\<lambda>payload. addUserPayload_userMembership x payload encryptionEmitter) memberships v"

definition User_prependEvent :: "StreamTimelineEvent \<Rightarrow> UserView \<Rightarrow> (UserView, emission) outcome" where
  "User_prependEvent event v =
     (case eventPayload event of PL_userPayload _ \<Rightarrow> pass v | _ \<Rightarrow> wrongPayload v)"

definition User_appendEvent ::
  "externs \<Rightarrow> StreamTimelineEvent \<Rightarrow> bool \<Rightarrow> UserView \<Rightarrow> (UserView, emission) outcome" where
  "User_appendEvent x event stateEmitter v =
     (case eventPayload event of
        PL_userPayload payload \<Rightarrow>
          (case payload of
             UP_userMembership m \<Rightarrow> addUserPayload_userMembership x m stateEmitter v
           | _ \<Rightarrow> pass v)
      | _ \<Rightarrow> wrongPayload v)"

definition getMembership :: "string \<Rightarrow> UserView \<Rightarrow> UserMembership option" where
  "getMembership streamId v = uv_streamMemberships v streamId"

definition User_isMember :: "string \<Rightarrow> MembershipOp \<Rightarrow> UserView \<Rightarrow> bool" where
  "User_isMember streamId membership v = (map_option um_op (getMembership streamId v) = Some membership)"

definition User_isJoined :: "string \<Rightarrow> UserView \<Rightarrow> bool" where
  "User_isJoined streamId v = User_isMember streamId SO_JOIN v"

section \<open>User settings\<close>

record UserSettingsView =
  usv_streamId :: string
  usv_fullyReadMarkersSrc :: "string \<rightharpoonup> string"
  usv_fullyReadMarkers :: "string \<rightharpoonup> FullyReadMarkers"
  usv_userBlocks :: "string \<rightharpoonup> UserBlocks"

definition UserSettingsView_new :: "string \<Rightarrow> UserSettingsView" where
  "UserSettingsView_new streamId =
     \<lparr>usv_streamId = streamId, usv_fullyReadMarkersSrc = Map.empty, usv_fullyReadMarkers = Map.empty,
      usv_userBlocks = Map.empty\<rparr>"

definition fullyReadMarkerUpdate ::
  "externs \<Rightarrow> UserSettings_FullyReadMarkers \<Rightarrow> bool \<Rightarrow> UserSettingsView \<Rightarrow> (UserSettingsView, emission) outcome"
where
  "fullyReadMarkerUpdate x payload emitter v =
     (case ufr_content payload of
        None \<Rightarrow> pass v
      | Some content \<Rightarrow>
          let streamId = streamIdFromBytes x (ufr_streamId payload)
          in with_value (x_fullyReadMarkersFromJson x content)
               (\<lambda>markers v. emit emitter (fullyReadMarkersUpdated streamId markers)
                  (v\<lparr>usv_fullyReadMarkers := (usv_fullyReadMarkers v)(streamId \<mapsto> markers)\<rparr>))
               (v\<lparr>usv_fullyReadMarkersSrc := (usv_fullyReadMarkersSrc v)(streamId \<mapsto> content)\<rparr>))"

definition userBlockUpdate ::
  "externs \<Rightarrow> UserBlock \<Rightarrow> bool \<Rightarrow> UserSettingsView \<Rightarrow> (UserSettingsView, emission) outcome" where
  "userBlockUpdate x payload emitter v =
     with_value (userIdFromAddress x (ub_userId payload))
       (\<lambda>userId v.
          let blocks = (case usv_userBlocks v userId of
                          Some b \<Rightarrow> b | None \<Rightarrow> \<lparr>ubs_userId = [], ubs_blocks = []\<rparr>)
          in emit emitter (userBlockUpdated payload)
               (v\<lparr>usv_userBlocks := (usv_userBlocks v)(userId \<mapsto>
                   blocks\<lparr>ubs_blocks := ubs_blocks blocks @ [(ub_isBlocked payload, ub_eventNum payload)]\<rparr>)\<rparr>))
       v"

definition UserSettings_applySnapshot ::
  "externs \<Rightarrow> UserSettings_Snapshot \<Rightarrow> UserSettingsView \<Rightarrow> (UserSettingsView, emission) outcome" where
  "UserSettings_applySnapshot x content v =
     andThen
       (for_each (\<lambda>payload. fullyReadMarkerUpdate x payload False) (uss_fullyReadMarkers content) v)
       (for_each (\<lambda>userBlocks. with_value (userIdFromAddress x (ubs_userId userBlocks))
          (\<lambda>userId v. pass (v\<lparr>usv_userBlocks := (usv_userBlocks v)(userId \<mapsto> userBlocks)\<rparr>)))
          (uss_userBlocksList content))"

definition UserSettings_prependEvent ::
  "StreamTimelineEvent \<Rightarrow> UserSettingsView \<Rightarrow> (UserSettingsView, emission) outcome" where
  "UserSettings_prependEvent event v =
     (case eventPayload event of PL_userSettingsPayload _ \<Rightarrow> pass v | _ \<Rightarrow> wrongPayload v)"

definition UserSettings_appendEvent ::
  "externs \<Rightarrow> StreamTimelineEvent \<Rightarrow> bool \<Rightarrow> UserSettingsView \<Rightarrow> (UserSettingsView, emission) outcome" where
  "UserSettings_appendEvent x event stateEmitter v =
     (case eventPayload event of
        PL_userSettingsPayload payload \<Rightarrow>
          (case payload of
             USP_fullyReadMarkers m \<Rightarrow> fullyReadMarkerUpdate x m stateEmitter v
           | USP_userBlock b \<Rightarrow> userBlockUpdate x b stateEmitter v
           | _ \<Rightarrow> pass v)
      | _ \<Rightarrow> wrongPayload v)"

definition getLastBlock :: "string \<Rightarrow> UserSettingsView \<Rightarrow> (bool \<times> bigint) option" where
  "getLastBlock userId v =
     (case usv_userBlocks v userId of
        None \<Rightarrow> None
      | Some b \<Rightarrow> if ubs_blocks b = [] then None else Some (last (ubs_blocks b)))"

definition isUserBlocked :: "string \<Rightarrow> UserSettingsView \<Rightarrow> bool" where
  "isUserBlocked userId v =
     (case getLastBlock userId v of None \<Rightarrow> False | Some (isBlocked, _) \<Rightarrow> isBlocked)"

definition isUserBlockedAt :: "string \<Rightarrow> bigint \<Rightarrow> UserSettingsView \<Rightarrow> bool" where
  "isUserBlockedAt userId eventNum v =
     fold (\<lambda>(blocked, num) isBlocked. if eventNum \<ge> num then blocked else isBlocked)
       (case usv_userBlocks v userId of None \<Rightarrow> [] | Some b \<Rightarrow> ubs_blocks b) False"

section \<open>User device keys\<close>

record UserDeviceKeysView =
  udv_streamId :: string
  udv_streamCreatorId :: string
  udv_deviceKeys :: "UserDevice list"

definition UserDeviceKeysView_new :: "externs \<Rightarrow> string \<Rightarrow> js_error + UserDeviceKeysView" where
  "UserDeviceKeysView_new x streamId =
     bindE (getUserIdFromStreamId x streamId)
       (\<lambda>creator. Inr \<lparr>udv_streamId = streamId, udv_streamCreatorId = creator, udv_deviceKeys = []\<rparr>)"

definition addUserDeviceKey ::
  "UserDevice \<Rightarrow> bool \<Rightarrow> UserDeviceKeysView \<Rightarrow> (UserDeviceKeysView, emission) outcome" where
  "addUserDeviceKey device encryptionEmitter v =
     (let keys = (case findIndex (\<lambda>d. ud_deviceKey d = ud_deviceKey device) (udv_deviceKeys v) of
                    Some existing \<Rightarrow> removeAt existing (udv_deviceKeys v)
                  | None \<Rightarrow> udv_deviceKeys v)
      in emit encryptionEmitter (userDeviceKeyMessage (udv_streamId v) (udv_streamCreatorId v) device)
           (v\<lparr>udv_deviceKeys := keys @ [device]\<rparr>))"

definition UserDeviceKeys_applySnapshot ::
  "UserDevice list \<Rightarrow> bool \<Rightarrow> UserDeviceKeysView \<Rightarrow> (UserDeviceKeysView, emission) outcome" where
  "UserDeviceKeys_applySnapshot encryptionDevices encryptionEmitter v =
     for_each (\<lambda>d. addUserDeviceKey d encryptionEmitter) encryptionDevices v"

definition UserDeviceKeys_appendEvent ::
  "StreamTimelineEvent \<Rightarrow> bool \<Rightarrow> UserDeviceKeysView \<Rightarrow> (UserDeviceKeysView, emission) outcome" where
  "UserDeviceKeys_appendEvent event encryptionEmitter v =
     (case eventPayload event of
        PL_userDeviceKeyPayload payload \<Rightarrow>
          (case payload of
             UDKP_encryptionDevice d \<Rightarrow> addUserDeviceKey d encryptionEmitter v
           | _ \<Rightarrow> pass v)
      | _ \<Rightarrow> wrongPayload v)"

section \<open>User inbox\<close>

record UserInboxView =
  uiv_streamId :: string
  uiv_deviceSummary :: "string \<rightharpoonup> DeviceSummary"
  uiv_pendingGroupSessions :: "(string \<times> string \<times> GroupEncryptionSessions) list"

definition UserInboxView_new :: "string \<Rightarrow> UserInboxView" where
  "UserInboxView_new streamId =
     \<lparr>uiv_streamId = streamId, uiv_deviceSummary = Map.empty, uiv_pendingGroupSessions = []\<rparr>"

definition UserInbox_applySnapshot ::
  "(string \<times> DeviceSummary) list \<Rightarrow> UserInboxView \<Rightarrow> (UserInboxView, emission) outcome" where
  "UserInbox_applySnapshot deviceSummary v =
     pass (fold (\<lambda>(deviceId, summary) v.
       v\<lparr>uiv_deviceSummary := (uiv_deviceSummary v)(deviceId \<mapsto> summary)\<rparr>) deviceSummary v)"

definition addGroupSessions ::
  "string \<Rightarrow> GroupEncryptionSessions \<Rightarrow> bool \<Rightarrow> UserInboxView \<Rightarrow> (UserInboxView, emission) outcome" where
  "addGroupSessions creatorUserId content encryptionEmitter v =
     emit encryptionEmitter (newGroupSessions content creatorUserId) v"

definition UserInbox_onConfirmedEvent ::
  "StreamTimelineEvent \<Rightarrow> bool \<Rightarrow> UserInboxView \<Rightarrow> (UserInboxView, emission) outcome" where
  "UserInbox_onConfirmedEvent event emitter v =
     (case map_of (uiv_pendingGroupSessions v) (te_hashStr event) of
        None \<Rightarrow> pass v
      | Some (creatorUserId, content) \<Rightarrow>
          addGroupSessions creatorUserId content emitter
            (v\<lparr>uiv_pendingGroupSessions := AList.delete (te_hashStr event) (uiv_pendingGroupSessions v)\<rparr>))"

definition UserInbox_prependEvent ::
  "StreamTimelineEvent \<Rightarrow> bool \<Rightarrow> UserInboxView \<Rightarrow> (UserInboxView, emission) outcome" where
  "UserInbox_prependEvent event encryptionEmitter v =
     (case eventPayload event of
        PL_userInboxPayload payload \<Rightarrow>
          (case payload of
             UIP_groupEncryptionSessions s \<Rightarrow> addGroupSessions (te_creatorUserId event) s encryptionEmitter v
           | _ \<Rightarrow> pass v)
      | _ \<Rightarrow> wrongPayload v)"

definition updateDeviceSummary :: "UserInboxPayload_Ack \<Rightarrow> UserInboxView \<Rightarrow> UserInboxView" where
  "updateDeviceSummary content v =
     (case uiv_deviceSummary v (ack_deviceKey content) of
        None \<Rightarrow> v
      | Some summary \<Rightarrow>
          if ds_upperBound summary \<le> ack_miniblockNum content
          then v\<lparr>uiv_deviceSummary := (uiv_deviceSummary v)(ack_deviceKey content := None)\<rparr>
          else v\<lparr>uiv_deviceSummary := (uiv_deviceSummary v)(ack_deviceKey content \<mapsto>
                   summary\<lparr>ds_lowerBound := ack_miniblockNum content + 1\<rparr>)\<rparr>)"

definition UserInbox_appendEvent ::
  "StreamTimelineEvent \<Rightarrow> UserInboxView \<Rightarrow> (UserInboxView, emission) outcome" where
  "UserInbox_appendEvent event v =
     (case eventPayload event of
        PL_userInboxPayload payload \<Rightarrow>
          (case payload of
             UIP_groupEncryptionSessions s \<Rightarrow>
               pass (v\<lparr>uiv_pendingGroupSessions :=
                 AList.update (te_hashStr event) (te_creatorUserId event, s) (uiv_pendingGroupSessions v)\<rparr>)
           | UIP_ack a \<Rightarrow> pass (updateDeviceSummary a v)
           | _ \<Rightarrow> pass v)
      | _ \<Rightarrow> wrongPayload v)"

definition hasPendingSessionId :: "string \<Rightarrow> string \<Rightarrow> UserInboxView \<Rightarrow> bool" where
  "hasPendingSessionId deviceKey sessionId v =
     list_ex (\<lambda>(_, _, content). sessionId \<in> set (ges_sessionIds content) \<and>
        truthy (map_of (ges_ciphertexts content) deviceKey)) (uiv_pendingGroupSessions v)"

section \<open>Media\<close>

record MediaInfo =
  mif_channelId :: string
  mif_chunkCount :: int
  mif_chunks :: "bytes option list"

record MediaView =
  mev_streamId :: string
  mev_info :: "MediaInfo option"

definition MediaView_new :: "string \<Rightarrow> MediaView" where
  "MediaView_new streamId = \<lparr>mev_streamId = streamId, mev_info = None\<rparr>"

text \<open>\<open>Array(n)\<close> has \<open>n\<close> empty slots, and throws when \<open>n\<close> is negative.\<close>

definition Media_applySnapshot ::
  "externs \<Rightarrow> MediaPayload_Inception option \<Rightarrow> MediaView \<Rightarrow> (MediaView, emission) outcome" where
  "Media_applySnapshot x inception v =
     (case inception of
        None \<Rightarrow> throw (JsError ''invalid media snapshot'') v
      | Some i \<Rightarrow>
          if mi_chunkCount i = 0 then throw (JsError ''invalid media snapshot'') v
          else if mi_chunkCount i < 0 then throw (JsError ''Invalid array length'') v
          else pass (v\<lparr>mev_info := Some
                 \<lparr>mif_channelId = streamIdFromBytes x (mi_channelId i), mif_chunkCount = mi_chunkCount i,
                  mif_chunks = replicate (nat (mi_chunkCount i)) None\<rparr>\<rparr>))"

definition Media_appendEvent :: "StreamTimelineEvent \<Rightarrow> MediaView \<Rightarrow> (MediaView, emission) outcome" where
  "Media_appendEvent event v =
     (case eventPayload event of
        PL_mediaPayload payload \<Rightarrow>
          (case mev_info v of
             None \<Rightarrow> pass v
           | Some info \<Rightarrow>
               (case payload of
                  MEP_chunk chunk \<Rightarrow>
                    if mc_chunkIndex chunk < 0 \<or> mc_chunkIndex chunk \<ge> mif_chunkCount info
                    then throw (JsError ''chunkIndex out of bounds'') v
                    else pass (v\<lparr>mev_info := Some (info\<lparr>mif_chunks :=
                           (mif_chunks info)[nat (mc_chunkIndex chunk) := Some (mc_data chunk)]\<rparr>)\<rparr>)
                | _ \<Rightarrow> pass v))
      | _ \<Rightarrow> wrongPayload v)"

definition Media_prependEvent :: "StreamTimelineEvent \<Rightarrow> MediaView \<Rightarrow> (MediaView, emission) outcome" where
  "Media_prependEvent event v = Media_appendEvent event v"

section \<open>Lemmas\<close>

text \<open>The device keys: one entry per device, the most recent last.\<close>

lemma addUserDeviceKey_keys:
  assumes "distinct (map ud_deviceKey (udv_deviceKeys v))"
  shows "udv_deviceKeys (out_state (addUserDeviceKey d em v)) =
    filter (\<lambda>d'. ud_deviceKey d' \<noteq> ud_deviceKey d) (udv_deviceKeys v) @ [d]"
proof (cases "findIndex (\<lambda>d'. ud_deviceKey d' = ud_deviceKey d) (udv_deviceKeys v)")
  case None
  moreover from None have "filter (\<lambda>d'. ud_deviceKey d' \<noteq> ud_deviceKey d) (udv_deviceKeys v) = udv_deviceKeys v"
    by (simp add: findIndex_None filter_id_conv)
  ultimately show ?thesis by (simp add: addUserDeviceKey_def)
next
  case (Some i)
  then have i: "i < length (udv_deviceKeys v)" "ud_deviceKey (udv_deviceKeys v ! i) = ud_deviceKey d"
    by (auto simp: findIndex_Some)
  then obtain ys zs where yz: "udv_deviceKeys v = ys @ udv_deviceKeys v ! i # zs"
    "removeAt i (udv_deviceKeys v) = ys @ zs" by (elim removeAt_split) metis
  have "distinct (map ud_deviceKey (ys @ udv_deviceKeys v ! i # zs))" using assms yz(1) by metis
  then have "filter (\<lambda>d'. ud_deviceKey d' \<noteq> ud_deviceKey d) ys = ys" "filter (\<lambda>d'. ud_deviceKey d' \<noteq> ud_deviceKey d) zs = zs"
    using i(2) unfolding filter_id_conv by (auto simp: image_iff)
  then have "filter (\<lambda>d'. ud_deviceKey d' \<noteq> ud_deviceKey d) (ys @ udv_deviceKeys v ! i # zs) = ys @ zs"
    using i(2) by simp
  then show ?thesis using Some yz by (simp add: addUserDeviceKey_def)
qed

definition devices_inv :: "UserDeviceKeysView \<Rightarrow> bool" where
  "devices_inv v = distinct (map ud_deviceKey (udv_deviceKeys v))"

lemma addUserDeviceKey_inv: "devices_inv v \<Longrightarrow> devices_inv (out_state (addUserDeviceKey d em v))"
  by (auto simp: devices_inv_def addUserDeviceKey_keys distinct_map_filter)

interpretation devices: stepping "\<lambda>d. addUserDeviceKey d em" devices_inv "\<lambda>_ _. True" for em
  by unfold_locales (rule addUserDeviceKey_inv)

text \<open>The bounds of a device: what is still to be acknowledged is never an empty range.\<close>

lemma updateDeviceSummary_lookup:
  "uiv_deviceSummary (updateDeviceSummary a v) k =
     (if k = ack_deviceKey a then
        (case uiv_deviceSummary v k of
           None \<Rightarrow> None
         | Some s \<Rightarrow> if ds_upperBound s \<le> ack_miniblockNum a then None
                     else Some (s\<lparr>ds_lowerBound := ack_miniblockNum a + 1\<rparr>))
      else uiv_deviceSummary v k)"
  by (simp add: updateDeviceSummary_def split: option.split)

lemma ack_upper:
  "uiv_deviceSummary (updateDeviceSummary a v) k = Some s \<Longrightarrow>
   \<exists>s0. uiv_deviceSummary v k = Some s0 \<and> ds_upperBound s0 = ds_upperBound s"
  by (auto simp: updateDeviceSummary_lookup split: if_splits option.splits)

lemma acks_upper:
  "uiv_deviceSummary (fold updateDeviceSummary acks v) k = Some s \<Longrightarrow>
   \<exists>s0. uiv_deviceSummary v k = Some s0 \<and> ds_upperBound s0 = ds_upperBound s"
proof (induction acks arbitrary: v)
  case (Cons a acks)
  then obtain s1 where "uiv_deviceSummary (updateDeviceSummary a v) k = Some s1" "ds_upperBound s1 = ds_upperBound s"
    by auto
  then show ?case using ack_upper by metis
qed simp

text \<open>The last block entry that is not later than the event decides.\<close>

lemma blocked_fold_snoc:
  "fold (\<lambda>(blocked, num) b. if (n :: int) \<ge> num then blocked else b) (blocks @ [(c, k)]) b0 =
     (if n \<ge> k then c else fold (\<lambda>(blocked, num) b. if n \<ge> num then blocked else b) blocks b0)"
  by simp

text \<open>The last operation on a channel of a space.\<close>

definition lastChannelOp ::
  "externs \<Rightarrow> string \<Rightarrow> (string \<times> SpacePayload_Channel) list \<Rightarrow> (string \<times> SpacePayload_Channel) option" where
  "lastChannelOp x channelId ops =
     find (\<lambda>(_, p). streamIdFromBytes x (spc_channelId p) = channelId) (rev ops)"

definition knownOp :: "ChannelOp \<Rightarrow> bool" where
  "knownOp op = (op \<in> {CO_CREATED, CO_DELETED, CO_UPDATED})"

lemma addSpacePayload_lookup:
  assumes "knownOp (spc_op p)"
  shows "spv_spaceChannelsMetadata (out_state (addSpacePayload_Channel x h p em v)) c =
    (if c = streamIdFromBytes x (spc_channelId p) then
       (if spc_op p = CO_DELETED then None
        else Some \<lparr>pcp_isDefault = isDefaultChannelId c, pcp_updatedAtHash = h\<rparr>)
     else spv_spaceChannelsMetadata v c)"
  using assms by (auto simp: knownOp_def addSpacePayload_Channel_def streamIdAsString_def Let_def)

section \<open>Properties\<close>

text \<open>
  The chunks of a media stream end up in their slots whatever order they arrive in: after
  appending chunks with distinct indices below the chunk count, every one of them is in its slot
  and all other slots are as before.
\<close>
theorem media_chunks_assemble:
  assumes "mev_info v = Some info" "length (mif_chunks info) = nat (mif_chunkCount info)"
    and "list_all (\<lambda>(e, c). eventPayload e = PL_mediaPayload (MEP_chunk c) \<and>
           0 \<le> mc_chunkIndex c \<and> mc_chunkIndex c < mif_chunkCount info) ecs"
    and "distinct (map (\<lambda>(_, c). mc_chunkIndex c) ecs)"
  shows "\<exists>info'. mev_info (run Media_appendEvent (map fst ecs) v) = Some info' \<and>
    mif_chunkCount info' = mif_chunkCount info \<and> length (mif_chunks info') = length (mif_chunks info) \<and>
    (\<forall>(e, c) \<in> set ecs. mif_chunks info' ! nat (mc_chunkIndex c) = Some (mc_data c)) \<and>
    (\<forall>i < length (mif_chunks info). int i \<notin> (\<lambda>(_, c). mc_chunkIndex c) ` set ecs \<longrightarrow>
       mif_chunks info' ! i = mif_chunks info ! i)"
  using assms
proof (induction ecs arbitrary: v info)
  case Nil
  then show ?case by simp
next
  case (Cons ec ecs)
  obtain e c where ec: "ec = (e, c)" by (cases ec)
  let ?i = "nat (mc_chunkIndex c)"
  let ?info = "info\<lparr>mif_chunks := (mif_chunks info)[?i := Some (mc_data c)]\<rparr>"
  let ?v = "v\<lparr>mev_info := Some ?info\<rparr>"
  have c: "eventPayload e = PL_mediaPayload (MEP_chunk c)" "0 \<le> mc_chunkIndex c"
    "mc_chunkIndex c < mif_chunkCount info" using Cons.prems(3) by (simp_all add: ec)
  have step: "out_state (Media_appendEvent e v) = ?v" using c Cons.prems(1) by (simp add: Media_appendEvent_def)
  have "mev_info ?v = Some ?info" "length (mif_chunks ?info) = nat (mif_chunkCount ?info)"
    "list_all (\<lambda>(e, c). eventPayload e = PL_mediaPayload (MEP_chunk c) \<and>
      0 \<le> mc_chunkIndex c \<and> mc_chunkIndex c < mif_chunkCount ?info) ecs"
    "distinct (map (\<lambda>(_, c). mc_chunkIndex c) ecs)"
    using Cons.prems by (simp_all add: ec)
  from Cons.IH [OF this] obtain info' where
    i': "mev_info (run Media_appendEvent (map fst ecs) ?v) = Some info'"
      "mif_chunkCount info' = mif_chunkCount info" "length (mif_chunks info') = length (mif_chunks info)"
      "\<forall>(e, c) \<in> set ecs. mif_chunks info' ! nat (mc_chunkIndex c) = Some (mc_data c)"
      "\<forall>i < length (mif_chunks info). int i \<notin> (\<lambda>(_, c). mc_chunkIndex c) ` set ecs \<longrightarrow>
         mif_chunks info' ! i = mif_chunks ?info ! i"
    by auto
  have il: "?i < length (mif_chunks info)" using c Cons.prems(2) by simp
  have "int ?i \<notin> (\<lambda>(_, c). mc_chunkIndex c) ` set ecs" using Cons.prems(4) c(2) by (auto simp: ec)
  then have "mif_chunks info' ! ?i = Some (mc_data c)" using i'(5) il by simp
  moreover have "mif_chunks info' ! i = mif_chunks info ! i"
    if "i < length (mif_chunks info)" "int i \<notin> (\<lambda>(_, c). mc_chunkIndex c) ` set (ec # ecs)" for i
    using that i'(5) c(2) by (auto simp: ec nth_list_update)
  ultimately show ?case using i' step by (intro exI [of _ info']) (auto simp: ec)
qed

definition sample_chunk :: "int \<Rightarrow> 8 word \<Rightarrow> StreamTimelineEvent \<times> MediaPayload_Chunk" where
  "sample_chunk i b =
     (let c = \<lparr>mc_data = [b], mc_chunkIndex = i\<rparr>
      in (makeRemoteTimelineEvent
            \<lparr>pe_event = \<lparr>se_creatorAddress = [], se_delegateSig = [], se_salt = [], se_prevMiniblockHash = None,
               se_createdAtEpochMs = 0, se_delegateExpiryEpochMs = 0, se_payload = PL_mediaPayload (MEP_chunk c)\<rparr>,
             pe_hash = [b], pe_hashStr = ''h'', pe_prevMiniblockHashStr = None, pe_creatorUserId = ''u''\<rparr>
            0 None None, c))"

definition sample_media :: MediaView where
  "sample_media =
     \<lparr>mev_streamId = ''s'', mev_info = Some \<lparr>mif_channelId = ''c'', mif_chunkCount = 3, mif_chunks = [None, None, None]\<rparr>\<rparr>"

theorem media_chunks_assemble_witness:
  "\<exists>info. mev_info (run Media_appendEvent (map fst [sample_chunk 2 7, sample_chunk 0 9]) sample_media) = Some info \<and>
     mif_chunks info ! 2 = Some [7] \<and> mif_chunks info ! 0 = Some [9] \<and> mif_chunks info ! 1 = None"
proof -
  have "list_all (\<lambda>(e, c). eventPayload e = PL_mediaPayload (MEP_chunk c) \<and> 0 \<le> mc_chunkIndex c \<and> mc_chunkIndex c < 3)
    [sample_chunk 2 7, sample_chunk 0 9]"
    by (simp add: sample_chunk_def eventPayload_def makeRemoteTimelineEvent_def Let_def)
  then show ?thesis
    using media_chunks_assemble [of sample_media _ "[sample_chunk 2 7, sample_chunk 0 9]", OF _ _ _ _]
    by (auto simp: sample_media_def sample_chunk_def Let_def)
qed

text \<open>
  A block or unblock takes effect from its own position: after the event, the user is blocked
  now exactly as the event says, at every position from the event's on as the event says, at every
  earlier position as before, and nobody else's status changes.
\<close>
theorem block_takes_effect_from:
  assumes "userIdFromAddress x (ub_userId b) = Inr u"
    and "v' = out_state (userBlockUpdate x b True v)"
  shows "isUserBlocked u v' = ub_isBlocked b
    \<and> isUserBlockedAt u n v' = (if n \<ge> ub_eventNum b then ub_isBlocked b else isUserBlockedAt u n v)
    \<and> (w \<noteq> u \<longrightarrow> isUserBlocked w v' = isUserBlocked w v \<and> isUserBlockedAt w n v' = isUserBlockedAt w n v)"
  using assms by (auto simp: userBlockUpdate_def isUserBlocked_def getLastBlock_def isUserBlockedAt_def
      Let_def split: option.split)

definition sample_block :: UserBlock where
  "sample_block = \<lparr>ub_userId = replicate 20 1, ub_isBlocked = True, ub_eventNum = 4\<rparr>"

theorem block_takes_effect_from_witness:
  "\<exists>u. isUserBlocked u (out_state (userBlockUpdate sample_externs sample_block True (UserSettingsView_new ''s'')))"
proof -
  have u: "userIdFromAddress sample_externs (ub_userId sample_block) = Inr (''0x'' @ concat (replicate 20 ''01''))"
    by code_simp
  from block_takes_effect_from [OF u refl, of "UserSettingsView_new ''s''"]
  show ?thesis by (auto simp: sample_block_def)
qed

text \<open>
  The device keys of a user hold one entry per device, the one announced last, and the most
  recent announcement is at the end.
\<close>
theorem device_keys_latest:
  "let keys = udv_deviceKeys (run (\<lambda>d. addUserDeviceKey d em) ds v) in
   udv_deviceKeys v = [] \<longrightarrow>
     distinct (map ud_deviceKey keys) \<and>
     (d \<in> set keys) = (find (\<lambda>d'. ud_deviceKey d' = ud_deviceKey d) (rev ds) = Some d) \<and>
     (ds \<noteq> [] \<longrightarrow> last keys = last ds)"
proof (induction ds rule: rev_induct)
  case Nil
  then show ?case by simp
next
  case (snoc d' ds)
  have "devices_inv (run (\<lambda>d. addUserDeviceKey d em) ds v)" if "udv_deviceKeys v = []"
    by (rule devices.run_inv) (simp_all add: devices_inv_def that)
  then show ?case
    using snoc addUserDeviceKey_keys [of "run (\<lambda>d. addUserDeviceKey d em) ds v" d' em]
    by (auto simp: Let_def devices_inv_def distinct_map_filter)
qed

theorem device_keys_latest_witness:
  "last (udv_deviceKeys (run (\<lambda>d. addUserDeviceKey d True)
     [\<lparr>ud_deviceKey = ''a'', ud_fallbackKey = ''1''\<rparr>, \<lparr>ud_deviceKey = ''b'', ud_fallbackKey = ''2''\<rparr>]
     \<lparr>udv_streamId = ''s'', udv_streamCreatorId = ''u'', udv_deviceKeys = []\<rparr>)) =
   \<lparr>ud_deviceKey = ''b'', ud_fallbackKey = ''2''\<rparr>"
  using device_keys_latest [of True
      "[\<lparr>ud_deviceKey = ''a'', ud_fallbackKey = ''1''\<rparr>, \<lparr>ud_deviceKey = ''b'', ud_fallbackKey = ''2''\<rparr>]"
      "\<lparr>udv_streamId = ''s'', udv_streamCreatorId = ''u'', udv_deviceKeys = []\<rparr>"]
  by (simp add: Let_def)

text \<open>
  Session keys sent to the inbox are announced when their event is confirmed, and once: appending
  the event announces nothing and keeps the sessions as pending; the confirmation announces them
  with their sender; a second confirmation of the same event announces nothing.
\<close>
theorem inbox_sessions_announced_once:
  assumes "eventPayload e = PL_userInboxPayload (UIP_groupEncryptionSessions s)"
    and "v1 = out_state (UserInbox_appendEvent e v)"
    and "v2 = out_state (UserInbox_onConfirmedEvent e True v1)"
  shows "UserInbox_appendEvent e v = (v1, [], None)
    \<and> (sid \<in> set (ges_sessionIds s) \<and> truthy (map_of (ges_ciphertexts s) k) \<longrightarrow> hasPendingSessionId k sid v1)
    \<and> UserInbox_onConfirmedEvent e True v1 = (v2, [newGroupSessions s (te_creatorUserId e)], None)
    \<and> UserInbox_onConfirmedEvent e True v2 = (v2, [], None)"
proof -
  have v1: "v1 = v\<lparr>uiv_pendingGroupSessions :=
      AList.update (te_hashStr e) (te_creatorUserId e, s) (uiv_pendingGroupSessions v)\<rparr>"
    and a: "UserInbox_appendEvent e v = (v1, [], None)"
    using assms(1,2) by (simp_all add: UserInbox_appendEvent_def pass_def)
  have "(te_hashStr e, te_creatorUserId e, s) \<in> set (uiv_pendingGroupSessions v1)"
    by (rule map_of_SomeD) (simp add: v1 update_conv)
  then have "hasPendingSessionId k sid v1" if "sid \<in> set (ges_sessionIds s)" "truthy (map_of (ges_ciphertexts s) k)"
    using that by (auto simp: hasPendingSessionId_def list_ex_iff)
  moreover have "UserInbox_onConfirmedEvent e True v1 = (v2, [newGroupSessions s (te_creatorUserId e)], None)"
    unfolding assms(3) by (simp add: UserInbox_onConfirmedEvent_def v1 update_conv addGroupSessions_def emit_def)
  moreover have "UserInbox_onConfirmedEvent e True v2 = (v2, [], None)"
    unfolding assms(3) by (simp add: UserInbox_onConfirmedEvent_def v1 update_conv addGroupSessions_def
        emit_def pass_def delete_conv)
  ultimately show ?thesis using a by blast
qed

definition sample_sessions :: GroupEncryptionSessions where
  "sample_sessions =
     \<lparr>ges_streamId = [], ges_senderKey = ''k'', ges_sessionIds = [''i''], ges_ciphertexts = [(''d'', ''c'')]\<rparr>"

definition sample_inbox_event :: StreamTimelineEvent where
  "sample_inbox_event =
     makeRemoteTimelineEvent
       \<lparr>pe_event = \<lparr>se_creatorAddress = [], se_delegateSig = [], se_salt = [], se_prevMiniblockHash = None,
          se_createdAtEpochMs = 0, se_delegateExpiryEpochMs = 0,
          se_payload = PL_userInboxPayload (UIP_groupEncryptionSessions sample_sessions)\<rparr>,
        pe_hash = [1], pe_hashStr = ''01'', pe_prevMiniblockHashStr = None, pe_creatorUserId = ''u''\<rparr> 0 None None"

theorem inbox_sessions_announced_once_witness:
  "out_events (UserInbox_onConfirmedEvent sample_inbox_event True
     (out_state (UserInbox_appendEvent sample_inbox_event (UserInboxView_new ''s'')))) =
   [newGroupSessions sample_sessions (te_creatorUserId sample_inbox_event)]"
proof -
  have "eventPayload sample_inbox_event = PL_userInboxPayload (UIP_groupEncryptionSessions sample_sessions)"
    by (simp add: sample_inbox_event_def eventPayload_def makeRemoteTimelineEvent_def)
  from inbox_sessions_announced_once [OF this refl refl, of "UserInboxView_new ''s''" "''i''" "''d''"]
  show ?thesis by (metis fst_conv snd_conv)
qed

text \<open>
  Acknowledgements keep every device's open range non-empty: if all ranges of the inbox have a
  lower bound not above their upper bound, they do after any sequence of acknowledgements, and a
  device whose last message is acknowledged is no longer listed.
\<close>
theorem inbox_ack_ranges:
  assumes "\<forall>k s. uiv_deviceSummary v k = Some s \<longrightarrow> ds_lowerBound s \<le> ds_upperBound s"
    and "v' = fold updateDeviceSummary acks v"
  shows "(uiv_deviceSummary v' k = Some s \<longrightarrow> ds_lowerBound s \<le> ds_upperBound s) \<and>
    (a \<in> set acks \<longrightarrow> uiv_deviceSummary v' (ack_deviceKey a) = Some s \<longrightarrow>
       ack_miniblockNum a < ds_upperBound s)"
  using assms
proof (induction acks arbitrary: v)
  case Nil
  then show ?case by simp
next
  case (Cons b acks)
  let ?v = "updateDeviceSummary b v"
  have "\<forall>k s. uiv_deviceSummary ?v k = Some s \<longrightarrow> ds_lowerBound s \<le> ds_upperBound s"
    using Cons.prems(1) by (auto simp: updateDeviceSummary_lookup split: if_splits option.splits)
  then have IH: "(uiv_deviceSummary v' k = Some s \<longrightarrow> ds_lowerBound s \<le> ds_upperBound s) \<and>
    (a \<in> set acks \<longrightarrow> uiv_deviceSummary v' (ack_deviceKey a) = Some s \<longrightarrow> ack_miniblockNum a < ds_upperBound s)"
    using Cons.IH Cons.prems(2) by simp
  have "ack_miniblockNum b < ds_upperBound s" if live: "uiv_deviceSummary v' (ack_deviceKey b) = Some s"
  proof -
    obtain s0 where "uiv_deviceSummary ?v (ack_deviceKey b) = Some s0" "ds_upperBound s0 = ds_upperBound s"
      using acks_upper [of acks ?v "ack_deviceKey b" s] live Cons.prems(2) by auto
    then show ?thesis by (auto simp: updateDeviceSummary_lookup split: if_splits option.splits)
  qed
  then show ?case using IH by auto
qed

theorem inbox_ack_ranges_witness:
  "ack_miniblockNum \<lparr>ack_deviceKey = ''d'', ack_miniblockNum = 4\<rparr> < ds_upperBound \<lparr>ds_lowerBound = 5, ds_upperBound = 9\<rparr>"
proof -
  let ?v = "(UserInboxView_new ''s'')\<lparr>uiv_deviceSummary := [''d'' \<mapsto> \<lparr>ds_lowerBound = 1, ds_upperBound = 9\<rparr>]\<rparr>"
  have "\<forall>k s. uiv_deviceSummary ?v k = Some s \<longrightarrow> ds_lowerBound s \<le> ds_upperBound s" by simp
  from inbox_ack_ranges [OF this refl, where acks = "[\<lparr>ack_deviceKey = ''d'', ack_miniblockNum = 4\<rparr>]"
      and s = "\<lparr>ds_lowerBound = 5, ds_upperBound = 9\<rparr>" and a = "\<lparr>ack_deviceKey = ''d'', ack_miniblockNum = 4\<rparr>"]
  show ?thesis by (simp add: updateDeviceSummary_lookup)
qed

text \<open>
  The channels of a space are those whose last operation created or updated them: after any
  sequence of channel operations of the known kinds, a channel is listed exactly when the last
  operation on it is not a deletion, with the hash of the event that carried that operation.
\<close>
theorem space_channels_history:
  assumes "list_all (\<lambda>(_, p). knownOp (spc_op p)) ops"
  shows "spv_spaceChannelsMetadata
      (run (\<lambda>(h, p). addSpacePayload_Channel x h p em) ops (SpaceView_new sid)) c =
    (case lastChannelOp x c ops of
       None \<Rightarrow> None
     | Some (h, p) \<Rightarrow> if spc_op p = CO_DELETED then None
                     else Some \<lparr>pcp_isDefault = isDefaultChannelId c, pcp_updatedAtHash = h\<rparr>)"
  using assms
proof (induction ops rule: rev_induct)
  case Nil
  then show ?case by (simp add: SpaceView_new_def lastChannelOp_def)
next
  case (snoc hp ops)
  obtain h p where "hp = (h, p)" by (cases hp)
  then show ?case using snoc by (auto simp: addSpacePayload_lookup lastChannelOp_def)
qed

theorem space_channels_history_witness:
  "spv_spaceChannelsMetadata
     (run (\<lambda>(h, p). addSpacePayload_Channel sample_externs h p True)
       [(''h1'', \<lparr>spc_op = CO_CREATED, spc_channelId = [32], spc_originEvent = None\<rparr>),
        (''h2'', \<lparr>spc_op = CO_DELETED, spc_channelId = [32], spc_originEvent = None\<rparr>)] (SpaceView_new ''s'')) ''20'' = None"
proof -
  have l: "list_all (\<lambda>(_, p). knownOp (spc_op p))
       [(''h1'', \<lparr>spc_op = CO_CREATED, spc_channelId = [32], spc_originEvent = None\<rparr>),
        (''h2'', \<lparr>spc_op = CO_DELETED, spc_channelId = [32], spc_originEvent = None\<rparr>)]"
    by (simp add: knownOp_def)
  show ?thesis unfolding space_channels_history [OF l] by code_simp
qed

end
