(* ===== verification/Contents.thy ===== *)
theory Contents
  imports OtherContents
begin

text \<open>
  The content of a stream of any kind: the virtual methods of
  \<open>streamStateView_AbstractContent.ts\<close>, dispatched on the class of the content as
  \<open>StreamStateView.getContent\<close> does. Classes that do not override a method get the empty body of
  the abstract class.
\<close>

datatype Content =
    SpaceC SpaceView | ChannelC ChannelView | DMC DMView | GDMC GDMView | MediaC MediaView
  | UserC UserView | UserSettingsC UserSettingsView | UserDeviceC UserDeviceKeysView
  | UserInboxC UserInboxView

fun contentKind :: "Content \<Rightarrow> SnapshotCaseType" where
  "contentKind (SpaceC _) = spaceContent"
| "contentKind (ChannelC _) = channelContent"
| "contentKind (DMC _) = dmChannelContent"
| "contentKind (GDMC _) = gdmChannelContent"
| "contentKind (MediaC _) = mediaContent"
| "contentKind (UserC _) = userContent"
| "contentKind (UserSettingsC _) = userSettingsContent"
| "contentKind (UserDeviceC _) = userDeviceKeyContent"
| "contentKind (UserInboxC _) = userInboxContent"

text \<open>A method of one class, run on the content that holds an object of that class.\<close>

definition lift_view :: "('v \<Rightarrow> Content) \<Rightarrow> ('v, emission) outcome \<Rightarrow> (Content, emission) outcome" where
  "lift_view c r = (case r of (v, rest) \<Rightarrow> (c v, rest))"

definition lift_pair ::
  "('v \<Rightarrow> Content) \<Rightarrow> ('v \<times> StreamTimelineEvent, emission) outcome \<Rightarrow>
   (Content \<times> StreamTimelineEvent, emission) outcome" where
  "lift_pair c r = (case r of ((v, e), rest) \<Rightarrow> ((c v, e), rest))"

definition lift_only ::
  "('v \<Rightarrow> Content) \<Rightarrow> StreamTimelineEvent \<Rightarrow> ('v, emission) outcome \<Rightarrow>
   (Content \<times> StreamTimelineEvent, emission) outcome" where
  "lift_only c e r = (case r of (v, rest) \<Rightarrow> ((c v, e), rest))"

fun Content_appendEvent ::
  "externs \<Rightarrow> string option \<Rightarrow> bool \<Rightarrow> bool \<Rightarrow> Content \<times> StreamTimelineEvent \<Rightarrow>
   (Content \<times> StreamTimelineEvent, emission) outcome" where
  "Content_appendEvent x ct em st (SpaceC v, e) = lift_only SpaceC e (Space_appendEvent x e st v)"
| "Content_appendEvent x ct em st (ChannelC v, e) = lift_pair ChannelC (Channel_appendEvent x ct em (v, e))"
| "Content_appendEvent x ct em st (DMC v, e) = lift_pair DMC (DM_appendEvent x ct em st (v, e))"
| "Content_appendEvent x ct em st (GDMC v, e) = lift_pair GDMC (GDM_appendEvent x ct em st (v, e))"
| "Content_appendEvent x ct em st (MediaC v, e) = lift_only MediaC e (Media_appendEvent e v)"
| "Content_appendEvent x ct em st (UserC v, e) = lift_only UserC e (User_appendEvent x e st v)"
| "Content_appendEvent x ct em st (UserSettingsC v, e) =
     lift_only UserSettingsC e (UserSettings_appendEvent x e st v)"
| "Content_appendEvent x ct em st (UserDeviceC v, e) =
     lift_only UserDeviceC e (UserDeviceKeys_appendEvent e em v)"
| "Content_appendEvent x ct em st (UserInboxC v, e) = lift_only UserInboxC e (UserInbox_appendEvent e v)"

fun Content_prependEvent ::
  "externs \<Rightarrow> string option \<Rightarrow> bool \<Rightarrow> Content \<times> StreamTimelineEvent \<Rightarrow>
   (Content \<times> StreamTimelineEvent, emission) outcome" where
  "Content_prependEvent x ct em (SpaceC v, e) = lift_only SpaceC e (Space_prependEvent e v)"
| "Content_prependEvent x ct em (ChannelC v, e) = lift_pair ChannelC (Channel_prependEvent x ct em (v, e))"
| "Content_prependEvent x ct em (DMC v, e) = lift_pair DMC (DM_prependEvent x ct em (v, e))"
| "Content_prependEvent x ct em (GDMC v, e) = lift_pair GDMC (GDM_prependEvent x ct em (v, e))"
| "Content_prependEvent x ct em (MediaC v, e) = lift_only MediaC e (Media_prependEvent e v)"
| "Content_prependEvent x ct em (UserC v, e) = lift_only UserC e (User_prependEvent e v)"
| "Content_prependEvent x ct em (UserSettingsC v, e) =
     lift_only UserSettingsC e (UserSettings_prependEvent e v)"
| "Content_prependEvent x ct em (UserDeviceC v, e) = pass (UserDeviceC v, e)"
| "Content_prependEvent x ct em (UserInboxC v, e) = lift_only UserInboxC e (UserInbox_prependEvent e em v)"

fun Content_onConfirmedEvent ::
  "StreamTimelineEvent \<Rightarrow> bool \<Rightarrow> Content \<Rightarrow> (Content, emission) outcome" where
  "Content_onConfirmedEvent e st (UserInboxC v) = lift_view UserInboxC (UserInbox_onConfirmedEvent e st v)"
| "Content_onConfirmedEvent e st c = pass c"

fun Content_onDecryptedContent ::
  "DecryptedContent \<Rightarrow> bool \<Rightarrow> Content \<Rightarrow> (Content, emission) outcome" where
  "Content_onDecryptedContent d em (GDMC v) = lift_view GDMC (GDM_onDecryptedContent d em v)"
| "Content_onDecryptedContent d em c = pass c"

fun Content_onAppendLocalEvent ::
  "StreamTimelineEvent \<Rightarrow> bool \<Rightarrow> Content \<Rightarrow> (Content, emission) outcome" where
  "Content_onAppendLocalEvent e st (DMC v) = lift_view DMC (DM_onAppendLocalEvent e st v)"
| "Content_onAppendLocalEvent e st (GDMC v) = lift_view GDMC (GDM_onAppendLocalEvent e st v)"
| "Content_onAppendLocalEvent e st c = pass c"

fun Content_getChannelMetadata :: "Content \<Rightarrow> ChannelMetadata option" where
  "Content_getChannelMetadata (GDMC v) = GDM_getChannelMetadata v"
| "Content_getChannelMetadata c = None"

fun Content_getStreamParentId :: "Content \<Rightarrow> string option" where
  "Content_getStreamParentId (ChannelC v) = Channel_getStreamParentId v"
| "Content_getStreamParentId c = None"

definition Content_getStreamParentIdAsBytes :: "externs \<Rightarrow> Content \<Rightarrow> js_error + bytes option" where
  "Content_getStreamParentIdAsBytes x c =
     (case Content_getStreamParentId c of
        None \<Rightarrow> Inr None
      | Some streamParentId \<Rightarrow> bindE (streamIdToBytes x streamParentId) (\<lambda>b. Inr (Some b)))"

fun Content_needsScrollback :: "Content \<Rightarrow> bool" where
  "Content_needsScrollback (ChannelC v) = Channel_needsScrollback v"
| "Content_needsScrollback c = False"

text \<open>
  \<open>StreamStateView.applySnapshot\<close>, the part that dispatches on the case of the snapshot: the
  getter of the content checks that the stream has content of that case.
\<close>

definition contentNotDefined :: "Content \<Rightarrow> (Content, emission) outcome" where
  "contentNotDefined c = throw (CodeException ''content not defined for this kind of stream'' ERR_UNSPECIFIED) c"

definition Content_applySnapshot ::
  "externs \<Rightarrow> string \<Rightarrow> Snapshot_content \<Rightarrow> (string \<rightharpoonup> string) option \<Rightarrow> bool \<Rightarrow>
   Content \<Rightarrow> (Content, emission) outcome" where
  "Content_applySnapshot x h snapshotContent ct em c =
     (case snapshotContent of
         SC_space cs \<Rightarrow>
          (case c of SpaceC v \<Rightarrow> lift_view SpaceC (Space_applySnapshot x h cs v) | _ \<Rightarrow> contentNotDefined c)
      | SC_channel i \<Rightarrow>
          (case c of ChannelC v \<Rightarrow> lift_view ChannelC (Channel_applySnapshot x i v) | _ \<Rightarrow> contentNotDefined c)
      | SC_dmChannel i \<Rightarrow>
          (case c of DMC v \<Rightarrow> lift_view DMC (DM_applySnapshot x i v) | _ \<Rightarrow> contentNotDefined c)
      | SC_gdmChannel p \<Rightarrow>
          (case c of GDMC v \<Rightarrow> lift_view GDMC (GDM_applySnapshot x p ct em v) | _ \<Rightarrow> contentNotDefined c)
      | SC_media i \<Rightarrow>
          (case c of MediaC v \<Rightarrow> lift_view MediaC (Media_applySnapshot x i v) | _ \<Rightarrow> contentNotDefined c)
      | SC_user ms \<Rightarrow>
          (case c of UserC v \<Rightarrow> lift_view UserC (User_applySnapshot x ms em v) | _ \<Rightarrow> contentNotDefined c)
      | SC_userDeviceKey ds \<Rightarrow>
          (case c of UserDeviceC v \<Rightarrow> lift_view UserDeviceC (UserDeviceKeys_applySnapshot ds em v) | _ \<Rightarrow> contentNotDefined c)
      | SC_userSettings s \<Rightarrow>
          (case c of UserSettingsC v \<Rightarrow> lift_view UserSettingsC (UserSettings_applySnapshot x s v) | _ \<Rightarrow> contentNotDefined c)
      | SC_userInbox s \<Rightarrow>
          (case c of UserInboxC v \<Rightarrow> lift_view UserInboxC (UserInbox_applySnapshot s v) | _ \<Rightarrow> contentNotDefined c)
      | SC_undefined \<Rightarrow> throw (CodeException ''Snapshot has no content'' STREAM_BAD_EVENT) c)"

section \<open>Lemmas\<close>

lemma lift_simps [simp]:
  "out_state (lift_view c r) = c (out_state r)" "out_error (lift_view c r) = out_error r"
  "out_events (lift_view c r) = out_events r"
  "out_state (lift_pair c r') = (c (fst (out_state r')), snd (out_state r'))"
  "out_error (lift_pair c r') = out_error r'"
  "out_state (lift_only c e r) = (c (out_state r), e)" "out_error (lift_only c e r) = out_error r"
  by (simp_all add: lift_view_def lift_pair_def lift_only_def split: prod.splits)

text \<open>A stream never changes the kind of its content.\<close>

lemma contentKind_stable [simp]:
  "contentKind (fst (out_state (Content_appendEvent x ct em st (c, e)))) = contentKind c"
  "contentKind (fst (out_state (Content_prependEvent x ct em (c, e)))) = contentKind c"
  "contentKind (out_state (Content_onConfirmedEvent e st c)) = contentKind c"
  "contentKind (out_state (Content_onDecryptedContent d em c)) = contentKind c"
  "contentKind (out_state (Content_onAppendLocalEvent e st c)) = contentKind c"
  "contentKind (out_state (Content_applySnapshot x h s cts em c)) = contentKind c"
  by (cases c; simp add: Content_applySnapshot_def contentNotDefined_def split: Snapshot_content.split)+

text \<open>Appending or prepending an event changes nothing of the event but its decrypted content.\<close>

lemma content_only [simp]:
  "only_decrypted e (snd (out_state (Content_appendEvent x ct em st (c, e))))"
  "only_decrypted e (snd (out_state (Content_prependEvent x ct em (c, e))))"
  by (cases c; simp)+

end
