(* ===== verification/StreamView.thy ===== *)
theory StreamView
  imports Migrations Members Contents
begin

text \<open>
  The view of a stream, \<open>core/sdk/src/streamStateView.ts\<close>: the timeline, the index of events by
  id, the bookkeeping of miniblocks, and the dispatch of every event to the members and the
  content of the stream.

  The objects of the timeline are shared: the timeline array and the \<open>events\<close> map refer to the
  same event object, which later events update in place. The model keeps the objects in
  \<open>v_store\<close>, and the timeline and the map hold their positions there.
\<close>

section \<open>State\<close>

record MiniblockInfo =
  mbi_max :: bigint
  mbi_min :: bigint
  mbi_terminusReached :: bool

record StreamView =
  v_streamId :: string
  v_userId :: string
  v_store :: "StreamTimelineEvent list"
  v_timeline :: "nat list"
  v_events :: "string \<rightharpoonup> nat"
  v_isInitialized :: bool
  v_snapshot :: "Snapshot option"
  v_prevMiniblockHash :: "bytes option"
  v_lastEventNum :: bigint
  v_prevSnapshotMiniblockNum :: bigint
  v_miniblockInfo :: "MiniblockInfo option"
  v_syncCookie :: "SyncCookie option"
  v_membershipContent :: Members
  v_content :: Content

definition v_contentKind :: "StreamView \<Rightarrow> SnapshotCaseType" where
  "v_contentKind v = contentKind (v_content v)"

definition newContent :: "externs \<Rightarrow> string \<Rightarrow> js_error + Content" where
  "newContent x streamId =
     (if isSpaceStreamId x (StringId streamId) then Inr (SpaceC (SpaceView_new streamId))
      else if isChannelStreamId x (StringId streamId) then Inr (ChannelC (ChannelView_new streamId))
      else if isDMChannelStreamId x (StringId streamId) then Inr (DMC (DMView_new streamId))
      else if isGDMChannelStreamId x (StringId streamId) then Inr (GDMC (GDMView_new streamId))
      else if isMediaStreamId x (StringId streamId) then Inr (MediaC (MediaView_new streamId))
      else if isUserStreamId x (StringId streamId) then Inr (UserC (UserView_new streamId))
      else if isUserSettingsStreamId x (StringId streamId)
      then Inr (UserSettingsC (UserSettingsView_new streamId))
      else if isUserDeviceStreamId x (StringId streamId)
      then bindE (UserDeviceKeysView_new x streamId) (\<lambda>d. Inr (UserDeviceC d))
      else if isUserInboxStreamId x (StringId streamId) then Inr (UserInboxC (UserInboxView_new streamId))
      else Inl (JsError ''Stream doesn't have a content kind''))"

definition StreamView_new :: "externs \<Rightarrow> string \<Rightarrow> string \<Rightarrow> js_error + StreamView" where
  "StreamView_new x userId streamId =
     bindE (newContent x streamId)
       (\<lambda>content. Inr
          \<lparr>v_streamId = streamId, v_userId = userId, v_store = [], v_timeline = [],
           v_events = Map.empty, v_isInitialized = False, v_snapshot = None,
           v_prevMiniblockHash = None, v_lastEventNum = 0, v_prevSnapshotMiniblockNum = 0,
           v_miniblockInfo = None, v_syncCookie = None,
           v_membershipContent = Members_new streamId, v_content = content\<rparr>)"

abbreviation on_members ::
  "(Members \<Rightarrow> (Members, emission) outcome) \<Rightarrow> StreamView \<Rightarrow> (StreamView, emission) outcome" where
  "on_members f \<equiv> on_field v_membershipContent (\<lambda>m. v_membershipContent_update (\<lambda>_. m)) f"

abbreviation on_content ::
  "(Content \<Rightarrow> (Content, emission) outcome) \<Rightarrow> StreamView \<Rightarrow> (StreamView, emission) outcome" where
  "on_content f \<equiv> on_field v_content (\<lambda>c. v_content_update (\<lambda>_. c)) f"

abbreviation setEvent :: "nat \<Rightarrow> StreamTimelineEvent \<Rightarrow> StreamView \<Rightarrow> StreamView" where
  "setEvent a e v \<equiv> v\<lparr>v_store := (v_store v)[a := e]\<rparr>"

text \<open>The operations of the content and of the members that also update the event at \<open>a\<close>.\<close>

definition on_content_event ::
  "nat \<Rightarrow> (Content \<times> StreamTimelineEvent \<Rightarrow> (Content \<times> StreamTimelineEvent, emission) outcome) \<Rightarrow>
   StreamView \<Rightarrow> (StreamView, emission) outcome" where
  "on_content_event a f v =
     (case f (v_content v, v_store v ! a) of
        ((c, e), rest) \<Rightarrow> ((setEvent a e v)\<lparr>v_content := c\<rparr>, rest))"

definition setPayload :: "StreamEvent_payload \<Rightarrow> StreamTimelineEvent \<Rightarrow> StreamTimelineEvent" where
  "setPayload p e =
     e\<lparr>te_remoteEvent := map_option (\<lambda>pe. pe\<lparr>pe_event := (pe_event pe)\<lparr>se_payload := p\<rparr>\<rparr>) (te_remoteEvent e)\<rparr>"

definition on_members_event ::
  "nat \<Rightarrow> MemberPayload \<Rightarrow> (Members \<times> MemberPayload \<Rightarrow> (Members \<times> MemberPayload, emission) outcome) \<Rightarrow>
   StreamView \<Rightarrow> (StreamView, emission) outcome" where
  "on_members_event a payload f v =
     (case f (v_membershipContent v, payload) of
        ((m, p), rest) \<Rightarrow>
          ((setEvent a (setPayload (PL_memberPayload p) (v_store v ! a)) v)\<lparr>v_membershipContent := m\<rparr>, rest))"

section \<open>Snapshot and miniblock bookkeeping\<close>

definition applySnapshot ::
  "externs \<Rightarrow> string \<Rightarrow> Snapshot \<Rightarrow> cleartexts \<Rightarrow> bool \<Rightarrow> StreamView \<Rightarrow> (StreamView, emission) outcome" where
  "applySnapshot x eventHash inSnapshot cleartexts encryptionEmitter =
     with_value (migrateSnapshot x inSnapshot)
       (\<lambda>snapshot v.
          andThen
            (on_content (Content_applySnapshot x eventHash (sn_content snapshot) cleartexts encryptionEmitter)
               (v\<lparr>v_snapshot := Some snapshot\<rparr>))
            (on_members (Members_applySnapshot x snapshot cleartexts encryptionEmitter)))"

text \<open>\<open>update.max && ...\<close>: \<open>undefined\<close> and \<open>0n\<close> are falsy.\<close>

definition truthyNum :: "bigint option \<Rightarrow> bool" where
  "truthyNum n = (n \<noteq> None \<and> n \<noteq> Some 0)"

definition updateMiniblockInfo ::
  "MiniblockHeader \<Rightarrow> bigint option \<Rightarrow> bigint option \<Rightarrow> StreamView \<Rightarrow> StreamView" where
  "updateMiniblockInfo value updateMax updateMin v =
     (case v_miniblockInfo v of
        None \<Rightarrow>
          v\<lparr>v_miniblockInfo := Some
              \<lparr>mbi_max = mh_miniblockNum value, mbi_min = mh_miniblockNum value,
               mbi_terminusReached = (mh_miniblockNum value = 0)\<rparr>\<rparr>
      | Some info \<Rightarrow>
          let i1 = (if truthyNum updateMax \<and> the updateMax > mbi_max info
                    then info\<lparr>mbi_max := the updateMax\<rparr> else info);
              i2 = (if truthyNum updateMin \<and> the updateMin < mbi_min i1
                    then i1\<lparr>mbi_min := the updateMin\<rparr> else i1);
              i3 = (if mbi_min i2 = 0 \<or> mbi_max i2 = 0 then i2\<lparr>mbi_terminusReached := True\<rparr> else i2)
          in v\<lparr>v_miniblockInfo := Some i3\<rparr>)"

section \<open>Confirmation by a miniblock header\<close>

text \<open>One listed hash: the state also carries the events confirmed so far.\<close>

definition confirmListed ::
  "externs \<Rightarrow> MiniblockHeader \<Rightarrow> bool \<Rightarrow> nat \<times> bytes \<Rightarrow>
   StreamView \<times> nat list \<Rightarrow> (StreamView \<times> nat list, emission) outcome" where
  "confirmListed x header stateEmitter ih vc =
     (case (ih, vc) of ((i, h), (v, confirmed)) \<Rightarrow>
        (case v_events v (bin_toHexString x h) of
           None \<Rightarrow> pass (v, confirmed)
         | Some a \<Rightarrow>
             let event = (v_store v ! a)\<lparr>te_miniblockNum := Some (mh_miniblockNum header),
                           te_confirmedEventNum := Some (mh_eventNumOffset header + int i)\<rparr>;
                 v1 = setEvent a event v
             in andThen
                  (check (isConfirmedEvent event) ''Event is not confirmed'' ERR_UNSPECIFIED (v1, confirmed))
                  (\<lambda>vc. andThen
                     (on_view
                        (case eventPayload event of
                           PL_memberPayload payload \<Rightarrow>
                             on_members (Members_onConfirmedEvent x event payload stateEmitter)
                         | PL_undefined \<Rightarrow> pass
                         | _ \<Rightarrow> on_content (Content_onConfirmedEvent event stateEmitter)) vc)
                     (\<lambda>(v, confirmed). pass (v, confirmed @ [a])))))"

definition processMiniblockHeader ::
  "externs \<Rightarrow> MiniblockHeader \<Rightarrow> bytes list \<Rightarrow> bool \<Rightarrow> StreamView \<Rightarrow> (StreamView \<times> nat list, emission) outcome"
where
  "processMiniblockHeader x header eventHashes stateEmitter v =
     for_each (confirmListed x header stateEmitter) (enumerate 0 eventHashes) (v, [])"

section \<open>Appended and prepended events\<close>

text \<open>The \<open>switch\<close> inside the \<open>try\<close> of \<open>processAppendedEvent\<close>, for the event at \<open>a\<close>.\<close>

definition appendedMiniblockHeader ::
  "externs \<Rightarrow> nat \<Rightarrow> bytes \<Rightarrow> MiniblockHeader \<Rightarrow> bool \<Rightarrow> StreamView \<Rightarrow> (StreamView \<times> nat list, emission) outcome"
where
  "appendedMiniblockHeader x a hash header stateEmitter v =
     (case andThen
             (andThen
                (check ((case v_miniblockInfo v of Some i \<Rightarrow> mbi_max i | None \<Rightarrow> - 1) < mh_miniblockNum header)
                   ''Miniblock number out of order'' STREAM_BAD_EVENT v)
                (\<lambda>v. case mh_snapshot header of
                        None \<Rightarrow> pass v
                      | Some s \<Rightarrow> with_value (migrateSnapshot x s) (\<lambda>s v. pass (v\<lparr>v_snapshot := Some s\<rparr>)) v))
             (\<lambda>v. let v1 = updateMiniblockInfo header (Some (mh_miniblockNum header)) None
                             (v\<lparr>v_prevMiniblockHash := Some hash\<rparr>);
                      e = (v_store v1 ! a)\<lparr>te_confirmedEventNum :=
                              Some (mh_eventNumOffset header + int (length (mh_eventHashes header))),
                            te_miniblockNum := Some (mh_miniblockNum header)\<rparr>
                  in pass (setEvent a e v1)) of
        (v1, es, Some err) \<Rightarrow> ((v1, []), es, Some err)
      | (v1, es, None) \<Rightarrow>
          (case processMiniblockHeader x header (mh_eventHashes header) stateEmitter v1 of
             ((v2, confirmed), es', None) \<Rightarrow> ((v2, confirmed), es @ es', None)
           | ((v2, _), es', Some err) \<Rightarrow> ((v2, []), es @ es', Some err)))"

definition appendedPayload ::
  "externs \<Rightarrow> nat \<Rightarrow> string option \<Rightarrow> bool \<Rightarrow> bool \<Rightarrow> StreamView \<Rightarrow> (StreamView \<times> nat list, emission) outcome"
where
  "appendedPayload x a cleartext encryptionEmitter stateEmitter v =
     (case eventPayload (v_store v ! a) of
        PL_miniblockHeader header \<Rightarrow>
          appendedMiniblockHeader x a
            (case te_remoteEvent (v_store v ! a) of Some pe \<Rightarrow> pe_hash pe | None \<Rightarrow> []) header stateEmitter v
      | PL_memberPayload payload \<Rightarrow>
          on_view (on_members_event a payload
            (Members_appendEvent x (v_store v ! a) cleartext encryptionEmitter stateEmitter)) (v, [])
      | PL_undefined \<Rightarrow> pass (v, [])
      | _ \<Rightarrow>
          on_view (on_content_event a (Content_appendEvent x cleartext encryptionEmitter stateEmitter)) (v, []))"

definition processAppendedEvent ::
  "externs \<Rightarrow> nat \<Rightarrow> string option \<Rightarrow> bool \<Rightarrow> bool \<Rightarrow> StreamView \<Rightarrow> (StreamView \<times> nat list, emission) outcome"
where
  "processAppendedEvent x a cleartext encryptionEmitter stateEmitter v =
     andThen
       (check (v_events v (te_hashStr (v_store v ! a)) = None) ''Unknown'' ERR_UNSPECIFIED (v, []))
       (\<lambda>(v, _). try_catch (appendedPayload x a cleartext encryptionEmitter stateEmitter
          (v\<lparr>v_events := (v_events v)(te_hashStr (v_store v ! a) \<mapsto> a)\<rparr>)))"

definition prependedPayload ::
  "externs \<Rightarrow> nat \<Rightarrow> string option \<Rightarrow> bool \<Rightarrow> StreamView \<Rightarrow> (StreamView, emission) outcome" where
  "prependedPayload x a cleartext encryptionEmitter v =
     (case eventPayload (v_store v ! a) of
        PL_miniblockHeader header \<Rightarrow>
          pass ((updateMiniblockInfo header None (Some (mh_miniblockNum header)) v)
                  \<lparr>v_prevSnapshotMiniblockNum := mh_prevSnapshotMiniblockNum header\<rparr>)
      | PL_memberPayload payload \<Rightarrow> on_members Members_prependEvent v
      | PL_undefined \<Rightarrow> pass v
      | _ \<Rightarrow> on_content_event a (Content_prependEvent x cleartext encryptionEmitter) v)"

definition processPrependedEvent ::
  "externs \<Rightarrow> nat \<Rightarrow> string option \<Rightarrow> bool \<Rightarrow> StreamView \<Rightarrow> (StreamView, emission) outcome" where
  "processPrependedEvent x a cleartext encryptionEmitter v =
     andThen
       (check (v_events v (te_hashStr (v_store v ! a)) = None) ''Unknown'' ERR_UNSPECIFIED v)
       (\<lambda>v. try_catch (prependedPayload x a cleartext encryptionEmitter
          (v\<lparr>v_events := (v_events v)(te_hashStr (v_store v ! a) \<mapsto> a)\<rparr>)))"

section \<open>Appending what the network delivers\<close>

text \<open>The three result arrays of \<open>appendStreamAndCookie\<close>, as positions in the store.\<close>

record Appends =
  ap_appended :: "nat list"
  ap_updated :: "nat list"
  ap_confirmed :: "nat list"

definition appendOne ::
  "externs \<Rightarrow> cleartexts \<Rightarrow> bool \<Rightarrow> bool \<Rightarrow> ParsedEvent \<Rightarrow>
   StreamView \<times> Appends \<Rightarrow> (StreamView \<times> Appends, emission) outcome" where
  "appendOne x cleartexts encryptionEmitter stateEmitter parsedEvent vr =
     (case vr of (v, r) \<Rightarrow>
        (case v_events v (pe_hashStr parsedEvent) of
           Some a \<Rightarrow>
             pass (setEvent a ((v_store v ! a)\<lparr>te_remoteEvent := Some parsedEvent\<rparr>) v,
                   r\<lparr>ap_updated := ap_updated r @ [a]\<rparr>)
         | None \<Rightarrow>
             let a = length (v_store v);
                 event = makeRemoteTimelineEvent parsedEvent (v_lastEventNum v) None None;
                 v1 = v\<lparr>v_lastEventNum := v_lastEventNum v + 1, v_store := v_store v @ [event],
                        v_timeline := v_timeline v @ [a]\<rparr>
             in (case processAppendedEvent x a (cleartextOf cleartexts (te_hashStr event))
                        encryptionEmitter stateEmitter v1 of
                   ((v2, newlyConfirmed), es, Some err) \<Rightarrow> ((v2, r), es, Some err)
                 | ((v2, newlyConfirmed), es, None) \<Rightarrow>
                     ((v2, r\<lparr>ap_appended := ap_appended r @ [a],
                              ap_confirmed := ap_confirmed r @ newlyConfirmed\<rparr>), es, None))))"

definition appendStreamAndCookie ::
  "externs \<Rightarrow> SyncCookie \<Rightarrow> ParsedEvent list \<Rightarrow> cleartexts \<Rightarrow> bool \<Rightarrow> bool \<Rightarrow>
   StreamView \<Rightarrow> (StreamView \<times> Appends, emission) outcome" where
  "appendStreamAndCookie x nextSyncCookie minipoolEvents cleartexts encryptionEmitter stateEmitter v =
     andThen
       (for_each (appendOne x cleartexts encryptionEmitter stateEmitter) minipoolEvents
          (v, \<lparr>ap_appended = [], ap_updated = [], ap_confirmed = []\<rparr>))
       (\<lambda>(v, r). pass (v\<lparr>v_syncCookie := Some nextSyncCookie\<rparr>, r))"

text \<open>The events of a list of positions; an empty list is reported as \<open>undefined\<close>.\<close>

abbreviation eventsAt :: "StreamView \<Rightarrow> nat list \<Rightarrow> StreamTimelineEvent list" where
  "eventsAt v as \<equiv> map (\<lambda>a. v_store v ! a) as"

definition someEvents :: "StreamView \<Rightarrow> nat list \<Rightarrow> StreamTimelineEvent list option" where
  "someEvents v as = (if as = [] then None else Some (eventsAt v as))"

definition appendEvents ::
  "externs \<Rightarrow> ParsedEvent list \<Rightarrow> SyncCookie \<Rightarrow> cleartexts \<Rightarrow> StreamView \<Rightarrow> (StreamView, emission) outcome" where
  "appendEvents x events nextSyncCookie cleartexts v =
     then_do (appendStreamAndCookie x nextSyncCookie events cleartexts True True v)
       (\<lambda>(v, r). emit True
          (streamUpdated (v_streamId v) (v_contentKind v)
             \<lparr>ch_prepended = None, ch_appended = someEvents v (ap_appended r),
              ch_updated = someEvents v (ap_updated r), ch_confirmed = someEvents v (ap_confirmed r)\<rparr>) v)
       fst"

section \<open>Scrollback\<close>

text \<open>The remote events of a miniblock, numbered from the offset in its header.\<close>

definition miniblockEvents :: "ParsedMiniblock \<Rightarrow> StreamTimelineEvent list" where
  "miniblockEvents mb =
     map (\<lambda>(i, parsedEvent).
            makeRemoteTimelineEvent parsedEvent (mh_eventNumOffset (pm_header mb) + int i)
              (Some (mh_miniblockNum (pm_header mb)))
              (Some (mh_eventNumOffset (pm_header mb) + int i)))
       (enumerate 0 (pm_events mb))"

text \<open>New objects for a list of events: their positions, and the store with them.\<close>

definition newPositions :: "StreamView \<Rightarrow> 'a list \<Rightarrow> nat list" where
  "newPositions v es = [length (v_store v)..<length (v_store v) + length es]"

definition prependEvents ::
  "externs \<Rightarrow> ParsedMiniblock list \<Rightarrow> cleartexts \<Rightarrow> bool \<Rightarrow> bool \<Rightarrow> bool \<Rightarrow>
   StreamView \<Rightarrow> (StreamView, emission) outcome" where
  "prependEvents x miniblocks cleartexts terminus encryptionEmitter stateEmitter v =
     (let prependedFull = concat (map miniblockEvents miniblocks);
          prepended = filter (\<lambda>e. v_events v (te_hashStr e) = None) prependedFull;
          as = newPositions v prepended;
          v1 = v\<lparr>v_store := v_store v @ prepended, v_timeline := as @ v_timeline v\<rparr>
      in andThen
           (for_each (\<lambda>a v. processPrependedEvent x a (cleartextOf cleartexts (te_hashStr (v_store v ! a)))
              encryptionEmitter v) (rev as) v1)
           (\<lambda>v. let v2 = (case v_miniblockInfo v of
                              Some info \<Rightarrow> if terminus
                                then v\<lparr>v_miniblockInfo := Some (info\<lparr>mbi_terminusReached := True\<rparr>)\<rparr> else v
                            | None \<Rightarrow> v)
                in emit stateEmitter
                     (streamUpdated (v_streamId v2) (v_contentKind v2)
                        (noChange\<lparr>ch_prepended := Some (eventsAt v2 as)\<rparr>)) v2))"

section \<open>Initialization\<close>

definition addLocalEvent :: "bool \<Rightarrow> StreamTimelineEvent \<Rightarrow> StreamView \<Rightarrow> (StreamView, emission) outcome" where
  "addLocalEvent emitter event v =
     (let a = length (v_store v);
          e = event\<lparr>te_eventNum := v_lastEventNum v\<rparr>
      in on_content (Content_onAppendLocalEvent e emitter)
           (v\<lparr>v_lastEventNum := v_lastEventNum v + 1, v_store := v_store v @ [e],
              v_events := (v_events v)(te_hashStr e \<mapsto> a), v_timeline := v_timeline v @ [a]\<rparr>))"

text \<open>The events of the first miniblock, which the snapshot already accounts for.\<close>

definition initFirstBlock ::
  "externs \<Rightarrow> ParsedMiniblock \<Rightarrow> cleartexts \<Rightarrow> bool \<Rightarrow> StreamView \<Rightarrow> (StreamView, emission) outcome" where
  "initFirstBlock x mb cleartexts emitter v =
     (let block0Events = miniblockEvents mb;
          as = newPositions v block0Events
      in andThen
           (check (length block0Events > 0) ''Unknown'' ERR_UNSPECIFIED v)
           (\<lambda>v. for_each (\<lambda>a v. processPrependedEvent x a
                    (cleartextOf cleartexts (te_hashStr (v_store v ! a))) emitter v) (rev as)
                  (v\<lparr>v_store := v_store v @ block0Events, v_timeline := v_timeline v @ as\<rparr>)))"

definition initRest ::
  "externs \<Rightarrow> ParsedMiniblock list \<Rightarrow> cleartexts \<Rightarrow> bool \<Rightarrow> StreamView \<Rightarrow> (StreamView, emission) outcome" where
  "initRest x mbs cleartexts emitter v =
     (let rest = concat (map miniblockEvents mbs);
          as = newPositions v rest
      in for_each (\<lambda>a v. then_do
             (processAppendedEvent x a (cleartextOf cleartexts (te_hashStr (v_store v ! a))) emitter False v)
             (\<lambda>(v, _). pass v) fst) as
           (v\<lparr>v_store := v_store v @ rest, v_timeline := v_timeline v @ as\<rparr>))"

definition initialize ::
  "externs \<Rightarrow> SyncCookie \<Rightarrow> ParsedEvent list \<Rightarrow> Snapshot \<Rightarrow> ParsedMiniblock list \<Rightarrow> ParsedMiniblock list \<Rightarrow>
   bigint \<Rightarrow> cleartexts \<Rightarrow> StreamTimelineEvent list \<Rightarrow> bool \<Rightarrow> StreamView \<Rightarrow> (StreamView, emission) outcome" where
  "initialize x nextSyncCookie minipoolEvents snapshot miniblocks prependedMiniblocks
       prevSnapshotMiniblockNum cleartexts localEvents emitter v =
     (case miniblocks of
        [] \<Rightarrow> throw (CodeException ''Stream has no miniblocks'' STREAM_EMPTY) v
      | mb0 # mbs \<Rightarrow>
          let lastBlock = last miniblocks in
          andThen (andThen (andThen (andThen (andThen (andThen
            (applySnapshot x (bin_toHexString x (pm_hash mb0)) snapshot cleartexts emitter v)
            (initFirstBlock x mb0 cleartexts emitter))
            (initRest x mbs cleartexts emitter))
            (\<lambda>v. then_do
               (appendStreamAndCookie x nextSyncCookie minipoolEvents cleartexts emitter False
                  (v\<lparr>v_lastEventNum := mh_eventNumOffset (pm_header lastBlock) + int (length (pm_events lastBlock)),
                     v_prevMiniblockHash := Some (pm_hash lastBlock)\<rparr>))
               (\<lambda>(v, _). pass (v\<lparr>v_prevSnapshotMiniblockNum := prevSnapshotMiniblockNum\<rparr>)) fst))
            (\<lambda>v. case prependedMiniblocks of
                    [] \<Rightarrow> pass v
                  | pmb # _ \<Rightarrow> prependEvents x prependedMiniblocks cleartexts
                      (mh_miniblockNum (pm_header pmb) = 0) emitter False v))
            (for_each (addLocalEvent emitter) localEvents))
            (\<lambda>v. let v1 = v\<lparr>v_isInitialized := True\<rparr>
                 in emit emitter (streamInitialized (v_streamId v1) (v_contentKind v1)) v1))"

section \<open>Decrypted content\<close>

definition updateDecryptedContent ::
  "externs \<Rightarrow> string \<Rightarrow> DecryptedContent \<Rightarrow> StreamView \<Rightarrow> (StreamView, emission) outcome" where
  "updateDecryptedContent x eventId content v =
     andThen (andThen
       (on_members (Members_onDecryptedContent x eventId content True) v)
       (on_content (Content_onDecryptedContent content True)))
       (\<lambda>v. case v_events v eventId of
               None \<Rightarrow> pass v
             | Some a \<Rightarrow>
                 let e = (v_store v ! a)\<lparr>te_decryptedContent := Some content\<rparr>
                 in andThen (andThen
                      (check (isDecryptedEvent e) ''Event is not decrypted, programmer error'' ERR_UNSPECIFIED
                         (setEvent a e v))
                      (emit True (streamUpdated (v_streamId v) (v_contentKind v) (noChange\<lparr>ch_updated := Some [e]\<rparr>))))
                      (emit True (eventDecrypted (v_streamId v) (v_contentKind v) e)))"

definition updateDecryptedContentError ::
  "string \<Rightarrow> DecryptionSessionError \<Rightarrow> StreamView \<Rightarrow> (StreamView, emission) outcome" where
  "updateDecryptedContentError eventId content v =
     (case v_events v eventId of
        None \<Rightarrow> pass v
      | Some a \<Rightarrow>
          if te_decryptedContentError (v_store v ! a) = Some content then pass v
          else andThen
                 (check (te_decryptedContent (v_store v ! a) = None) ''Event is already decrypted'' ERR_UNSPECIFIED v)
                 (\<lambda>v. let e = (v_store v ! a)\<lparr>te_decryptedContentError := Some content\<rparr>
                      in emit True (streamUpdated (v_streamId v) (v_contentKind v) (noChange\<lparr>ch_updated := Some [e]\<rparr>))
                           (setEvent a e v)))"

section \<open>Local events\<close>

text \<open>The random local id and the clock are arguments.\<close>

definition appendLocalEvent ::
  "string \<Rightarrow> bigint \<Rightarrow> ChannelMessage \<Rightarrow> LocalEventStatus \<Rightarrow> bool \<Rightarrow> StreamView \<Rightarrow> (StreamView, emission) outcome"
where
  "appendLocalEvent localId now channelMessage status emitter v =
     (let a = length (v_store v);
          e = \<lparr>te_hashStr = localId, te_creatorUserId = v_userId v, te_eventNum = v_lastEventNum v,
               te_createdAtEpochMs = now,
               te_localEvent = Some \<lparr>le_localId = localId, le_channelMessage = channelMessage, le_status = status\<rparr>,
               te_remoteEvent = None, te_decryptedContent = None, te_decryptedContentError = None,
               te_miniblockNum = None, te_confirmedEventNum = None\<rparr>
      in andThen
           (on_content (Content_onAppendLocalEvent e emitter)
              (v\<lparr>v_lastEventNum := v_lastEventNum v + 1, v_store := v_store v @ [e],
                 v_events := (v_events v)(localId \<mapsto> a), v_timeline := v_timeline v @ [a]\<rparr>))
           (\<lambda>v. emit emitter (streamUpdated (v_streamId v) (v_contentKind v)
                    (noChange\<lparr>ch_appended := Some [e]\<rparr>)) v))"

definition updateLocalEvent ::
  "string \<Rightarrow> string \<Rightarrow> LocalEventStatus \<Rightarrow> StreamView \<Rightarrow> (StreamView, emission) outcome" where
  "updateLocalEvent localId parsedEventHash status v =
     (case v_events v localId of
        None \<Rightarrow> throw (CodeException ''Local event not found'' ERR_UNSPECIFIED) v
      | Some a \<Rightarrow>
          (case te_localEvent (v_store v ! a) of
             None \<Rightarrow> throw (CodeException ''Event is not local'' ERR_UNSPECIFIED) v
           | Some l \<Rightarrow>
               let previousId = te_hashStr (v_store v ! a);
                   e = (v_store v ! a)\<lparr>te_hashStr := parsedEventHash,
                         te_localEvent := Some (l\<lparr>le_status := status\<rparr>)\<rparr>
               in emit True (streamLocalEventUpdated (v_streamId v) (v_contentKind v) previousId e)
                    ((setEvent a e v)\<lparr>v_events := (v_events v)(parsedEventHash \<mapsto> a)\<rparr>)))"

section \<open>Queries\<close>

definition getMembers :: "StreamView \<Rightarrow> Members" where
  "getMembers v = v_membershipContent v"

definition getUserMetadata :: "StreamView \<Rightarrow> UserMetadata" where
  "getUserMetadata v = mb_userMetadata (v_membershipContent v)"

definition getChannelMetadata :: "StreamView \<Rightarrow> ChannelMetadata option" where
  "getChannelMetadata v = Content_getChannelMetadata (v_content v)"

definition getUsersEntitledToKeyExchange :: "StreamView \<Rightarrow> string set" where
  "getUsersEntitledToKeyExchange v =
     (case v_contentKind v of
        channelContent \<Rightarrow> Members_joinedParticipants (getMembers v)
      | spaceContent \<Rightarrow> Members_joinedParticipants (getMembers v)
      | gdmChannelContent \<Rightarrow> Members_joinedParticipants (getMembers v)
      | dmChannelContent \<Rightarrow> Members_participants (getMembers v)
      | _ \<Rightarrow> {})"

definition userIsEntitledToKeyExchange :: "string \<Rightarrow> StreamView \<Rightarrow> bool" where
  "userIsEntitledToKeyExchange userId v = (userId \<in> getUsersEntitledToKeyExchange v)"

end
