(* ===== verification/Timeline.thy ===== *)
theory Timeline
  imports StreamView
begin

text \<open>
  What the operations of a stream view do to its timeline: the consistency of the timeline, the
  store and the index of events, which every operation keeps, and for each operation the events it
  adds, where it adds them and how it numbers them. The frame relation says what handling one event
  leaves alone; every handler is shown to respect it once.
\<close>

lemma ok_outcome:
  assumes "out_error r = None"
  obtains s es where "r = (s, es, None)"
  using assms by (cases r) auto

section \<open>Consistency\<close>

definition timelineEvents :: "StreamView \<Rightarrow> StreamTimelineEvent list" where
  "timelineEvents v = map (\<lambda>a. v_store v ! a) (v_timeline v)"

definition timelineHashes :: "StreamView \<Rightarrow> string list" where
  "timelineHashes v = map te_hashStr (timelineEvents v)"

text \<open>The oldest known miniblock is not newer than the newest.\<close>

definition info_ok :: "MiniblockInfo option \<Rightarrow> bool" where
  "info_ok i = (case i of None \<Rightarrow> True | Some info \<Rightarrow> mbi_min info \<le> mbi_max info)"

text \<open>
  The index while the events at the positions \<open>U\<close> are in the timeline but not yet handled: they
  have distinct ids that the index does not have, and every other event is found under its id.
\<close>

definition indexed :: "nat set \<Rightarrow> StreamView \<Rightarrow> bool" where
  "indexed U v =
     (distinct (v_timeline v) \<and> set (v_timeline v) = {..<length (v_store v)} \<and>
      U \<subseteq> {..<length (v_store v)} \<and>
      (\<forall>h a. v_events v h = Some a \<longrightarrow> a < length (v_store v)) \<and>
      (\<forall>a < length (v_store v). a \<notin> U \<longrightarrow> v_events v (te_hashStr (v_store v ! a)) = Some a) \<and>
      (\<forall>a \<in> U. v_events v (te_hashStr (v_store v ! a)) = None) \<and>
      inj_on (\<lambda>a. te_hashStr (v_store v ! a)) U)"

definition view_inv :: "StreamView \<Rightarrow> bool" where
  "view_inv v = (indexed {} v \<and> info_ok (v_miniblockInfo v))"

section \<open>The frame of an event handler\<close>

text \<open>What identifies an event: everything but its payload, decryption and confirmation.\<close>

definition ident ::
  "StreamTimelineEvent \<Rightarrow> string \<times> string \<times> bigint \<times> bigint \<times> LocalEvent option \<times> string option" where
  "ident e = (te_hashStr e, te_creatorUserId e, te_eventNum e, te_createdAtEpochMs e, te_localEvent e,
              map_option pe_hashStr (te_remoteEvent e))"

definition frame :: "StreamView \<Rightarrow> StreamView \<Rightarrow> bool" where
  "frame v v' =
     (v_timeline v' = v_timeline v \<and> v_events v' = v_events v \<and>
      map ident (v_store v') = map ident (v_store v) \<and> v_lastEventNum v' = v_lastEventNum v \<and>
      v_streamId v' = v_streamId v \<and> v_userId v' = v_userId v \<and>
      v_contentKind v' = v_contentKind v \<and>
      (info_ok (v_miniblockInfo v) \<longrightarrow> info_ok (v_miniblockInfo v')))"

lemma frame_refl [simp]: "frame v v"
  by (simp add: frame_def)

lemma frame_trans: "frame v v' \<Longrightarrow> frame v' v'' \<Longrightarrow> frame v v''"
  by (simp add: frame_def)

lemma map_ident_update:
  "ident e = ident (es ! a) \<Longrightarrow> map ident (es[a := e]) = map ident es"
  by (metis list_update_beyond list_update_id map_update not_le)

lemma frame_setEvent [simp]: "ident e = ident (v_store v ! a) \<Longrightarrow> frame v (setEvent a e v)"
  by (simp add: frame_def map_ident_update v_contentKind_def)

lemma frame_fields [simp]:
  "frame v (v\<lparr>v_snapshot := s\<rparr>)" "frame v (v\<lparr>v_prevMiniblockHash := h\<rparr>)"
  "frame v (v\<lparr>v_membershipContent := m\<rparr>)" "frame v (v\<lparr>v_syncCookie := c\<rparr>)"
  "frame v (v\<lparr>v_prevSnapshotMiniblockNum := n\<rparr>)" "frame v (v\<lparr>v_isInitialized := b\<rparr>)"
  "contentKind c' = v_contentKind v \<Longrightarrow> frame v (v\<lparr>v_content := c'\<rparr>)"
  by (simp_all add: frame_def v_contentKind_def)

lemma ident_simps [simp]:
  "ident (e\<lparr>te_decryptedContent := d\<rparr>) = ident e"
  "ident (e\<lparr>te_decryptedContentError := er\<rparr>) = ident e"
  "ident (e\<lparr>te_miniblockNum := n\<rparr>) = ident e" "ident (e\<lparr>te_confirmedEventNum := n\<rparr>) = ident e"
  "ident (e\<lparr>te_miniblockNum := n, te_confirmedEventNum := k\<rparr>) = ident e"
  "ident (e\<lparr>te_confirmedEventNum := k, te_miniblockNum := n\<rparr>) = ident e"
  by (simp_all add: ident_def)

lemma ident_setPayload [simp]: "ident (setPayload p e) = ident e"
  by (simp add: ident_def setPayload_def option.map_comp o_def)

lemma ident_only_decrypted: "only_decrypted e e' \<Longrightarrow> ident e' = ident e"
  by (metis ident_simps(1) only_decrypted_def)

lemma updateMiniblockInfo_frame [simp]: "frame v (updateMiniblockInfo h m n v)"
  by (auto simp: frame_def updateMiniblockInfo_def info_ok_def truthyNum_def v_contentKind_def Let_def
      split: option.split)

lemma on_content_frame [simp]:
  "(\<And>c. contentKind (out_state (f c)) = contentKind c) \<Longrightarrow> frame v (out_state (on_content f v))"
  by (simp add: v_contentKind_def)

lemma on_members_frame [simp]: "frame v (out_state (on_members f v))"
  by simp

lemma on_members_event_frame [simp]: "frame v (out_state (on_members_event a p f v))"
  by (auto simp: on_members_event_def frame_def map_ident_update v_contentKind_def split: prod.splits)

lemma on_content_event_frame:
  assumes "\<And>c e. contentKind (fst (out_state (f (c, e)))) = contentKind c"
    and "\<And>c e. only_decrypted e (snd (out_state (f (c, e))))"
  shows "frame v (out_state (on_content_event a f v))"
proof (cases "f (v_content v, v_store v ! a)")
  case (fields r es err)
  obtain c e where r: "r = (c, e)" by (cases r)
  have "contentKind c = contentKind (v_content v)" "only_decrypted (v_store v ! a) e"
    using assms(1) [of "v_content v" "v_store v ! a"] assms(2) [of "v_store v ! a" "v_content v"]
    by (simp_all add: fields r)
  then show ?thesis
    by (simp add: on_content_event_def fields r frame_def map_ident_update v_contentKind_def ident_only_decrypted)
qed

section \<open>Every handler respects the frame\<close>

lemma on_view_out: "out_state (on_view f (v, r)) = (out_state (f v), r)"
  by simp

lemma confirmListed_frame: "frame v (fst (out_state (confirmListed x header em ih (v, c))))"
proof (cases "v_events v (bin_toHexString x (snd ih))")
  case None
  then show ?thesis by (cases ih) (simp add: confirmListed_def)
next
  case (Some a)
  obtain i h where ih: "ih = (i, h)" by (cases ih)
  let ?e = "(v_store v ! a)\<lparr>te_miniblockNum := Some (mh_miniblockNum header),
    te_confirmedEventNum := Some (mh_eventNumOffset header + int i)\<rparr>"
  have 1: "frame v (setEvent a ?e v)" by simp
  have 2: "frame w (out_state ((case eventPayload ?e of
      PL_memberPayload payload \<Rightarrow> on_members (Members_onConfirmedEvent x ?e payload em)
    | PL_undefined \<Rightarrow> pass | _ \<Rightarrow> on_content (Content_onConfirmedEvent ?e em)) w))" for w
    by (simp split: StreamEvent_payload.split) (simp add: v_contentKind_def)
  show ?thesis
    using Some frame_trans [OF 1 2] 1
    by (simp add: confirmListed_def ih Let_def andThen_state andThen_error)
qed

lemma processMiniblockHeader_frame:
  "frame v (fst (out_state (processMiniblockHeader x header hs em v)))"
  unfolding processMiniblockHeader_def
proof (rule for_each_inv [where P = "\<lambda>vc. frame v (fst vc)"])
  show "frame v (fst (v, []))" by simp
  show "frame v (fst (out_state (confirmListed x header em ih vc)))" if "frame v (fst vc)" for ih vc
    using that confirmListed_frame [of "fst vc" x header em ih "snd vc"] by (auto intro: frame_trans)
qed

text \<open>The bookkeeping that precedes the confirmation of the listed events.\<close>

abbreviation headerBookkeeping where
  "headerBookkeeping x a hash header v \<equiv>
     andThen
       (andThen
          (check ((case v_miniblockInfo v of Some i \<Rightarrow> mbi_max i | None \<Rightarrow> - 1) < mh_miniblockNum header)
             ''Miniblock number out of order'' STREAM_BAD_EVENT v)
          (\<lambda>v. case mh_snapshot header of
                  None \<Rightarrow> pass v
                | Some s \<Rightarrow> with_value (migrateSnapshot x s) (\<lambda>s v. pass (v\<lparr>v_snapshot := Some s\<rparr>)) v))
       (\<lambda>v. let v1 = updateMiniblockInfo header (Some (mh_miniblockNum header)) None
                       (v\<lparr>v_prevMiniblockHash := Some hash\<rparr>);
                e = (v_store v1 ! a)\<lparr>te_confirmedEventNum :=
                        Some (mh_eventNumOffset header + int (length (mh_eventHashes header))),
                      te_miniblockNum := Some (mh_miniblockNum header)\<rparr>
            in pass (setEvent a e v1))"

lemma headerBookkeeping_frame:
  "frame v (out_state (headerBookkeeping x a hash header v :: (StreamView, emission) outcome))"
proof (rule andThen_inv [where P = "frame v"])
  show "frame v (out_state (andThen
      (check ((case v_miniblockInfo v of Some i \<Rightarrow> mbi_max i | None \<Rightarrow> - 1) < mh_miniblockNum header)
         ''Miniblock number out of order'' STREAM_BAD_EVENT v)
      (\<lambda>v. case mh_snapshot header of
              None \<Rightarrow> pass v
            | Some s \<Rightarrow> with_value (migrateSnapshot x s) (\<lambda>s v. pass (v\<lparr>v_snapshot := Some s\<rparr>)) v)))"
    by (simp add: andThen_state split: option.split sum.split)
next
  fix w
  assume w: "frame v w"
  let ?w = "updateMiniblockInfo header (Some (mh_miniblockNum header)) None (w\<lparr>v_prevMiniblockHash := Some hash\<rparr>)"
  have "frame w (w\<lparr>v_prevMiniblockHash := Some hash\<rparr>)" "frame (w\<lparr>v_prevMiniblockHash := Some hash\<rparr>) ?w"
    by simp_all
  then have "frame w ?w" by (rule frame_trans)
  moreover have "frame ?w (setEvent a ((v_store ?w ! a)\<lparr>te_confirmedEventNum :=
      Some (mh_eventNumOffset header + int (length (mh_eventHashes header))),
      te_miniblockNum := Some (mh_miniblockNum header)\<rparr>) ?w)"
    by simp
  ultimately show "frame v (out_state (let v1 = ?w;
      e = (v_store v1 ! a)\<lparr>te_confirmedEventNum :=
              Some (mh_eventNumOffset header + int (length (mh_eventHashes header))),
            te_miniblockNum := Some (mh_miniblockNum header)\<rparr>
      in pass (setEvent a e v1)))"
    using w frame_trans by (simp add: Let_def)
qed

lemma appendedMiniblockHeader_frame:
  "frame v (fst (out_state (appendedMiniblockHeader x a hash header em v)))"
proof -
  obtain v1 err and es :: "emission list" where r: "headerBookkeeping x a hash header v = (v1, es, err)"
    by (cases "headerBookkeeping x a hash header v :: (StreamView, emission) outcome")
  have 1: "frame v v1" using headerBookkeeping_frame [where v = v and x = x and a = a and hash = hash and header = header]
    unfolding r by simp
  show ?thesis
  proof (cases err)
    case None
    obtain v2 c es' err' where r2: "processMiniblockHeader x header (mh_eventHashes header) em v1 = ((v2, c), es', err')"
      by (metis prod.exhaust_sel)
    then have "frame v1 v2" using processMiniblockHeader_frame [of v1 x header "mh_eventHashes header" em] by simp
    then show ?thesis
      unfolding appendedMiniblockHeader_def r None using 1 r2 by (auto simp: frame_trans split: option.split)
  next
    case (Some e)
    then show ?thesis unfolding appendedMiniblockHeader_def r using 1 by simp
  qed
qed

lemma appendedPayload_frame: "frame v (fst (out_state (appendedPayload x a ct em st v)))"
  by (simp add: appendedPayload_def appendedMiniblockHeader_frame on_content_event_frame
      split: StreamEvent_payload.split)

lemma prependedPayload_frame: "frame v (out_state (prependedPayload x a ct em v))"
proof (cases "eventPayload (v_store v ! a)")
  case (PL_miniblockHeader header)
  then show ?thesis
    using frame_trans [OF updateMiniblockInfo_frame frame_fields(5)] by (simp add: prependedPayload_def)
qed (simp_all add: prependedPayload_def on_content_event_frame)

section \<open>Handling one event\<close>

lemma frame_length: "frame v v' \<Longrightarrow> length (v_store v') = length (v_store v)"
  unfolding frame_def by (metis length_map)

lemma frame_ident: "frame v v' \<Longrightarrow> a < length (v_store v) \<Longrightarrow> ident (v_store v' ! a) = ident (v_store v ! a)"
  using frame_length [of v v'] unfolding frame_def by (metis nth_map)

lemma frame_hash: "frame v v' \<Longrightarrow> a < length (v_store v) \<Longrightarrow> te_hashStr (v_store v' ! a) = te_hashStr (v_store v ! a)"
  using frame_ident [of v v' a] by (simp add: ident_def)

lemma frame_indexed:
  assumes "frame v v'" "indexed U v"
  shows "indexed U v'"
proof -
  have "te_hashStr (v_store v' ! a) = te_hashStr (v_store v ! a)" if "a < length (v_store v)" for a
    using frame_hash [OF assms(1) that] .
  then show ?thesis
    using assms frame_length [OF assms(1)] unfolding indexed_def inj_on_def frame_def
    by (auto simp: subset_iff)
qed

text \<open>Registering a waiting event under its id.\<close>

lemma indexed_register:
  assumes "indexed U v" "a \<in> U"
  shows "indexed (U - {a}) (v\<lparr>v_events := (v_events v)(te_hashStr (v_store v ! a) \<mapsto> a)\<rparr>)"
  using assms unfolding indexed_def inj_on_def by auto

lemma processAppendedEvent_ok:
  assumes "indexed U v" "a \<in> U"
  shows "out_error (processAppendedEvent x a ct em st v) = None"
    and "frame (v\<lparr>v_events := (v_events v)(te_hashStr (v_store v ! a) \<mapsto> a)\<rparr>)
      (fst (out_state (processAppendedEvent x a ct em st v)))"
    and "indexed (U - {a}) (fst (out_state (processAppendedEvent x a ct em st v)))"
proof -
  have n: "v_events v (te_hashStr (v_store v ! a)) = None" using assms by (simp add: indexed_def)
  show "out_error (processAppendedEvent x a ct em st v) = None"
    using n by (simp add: processAppendedEvent_def andThen_error)
  show f: "frame (v\<lparr>v_events := (v_events v)(te_hashStr (v_store v ! a) \<mapsto> a)\<rparr>)
      (fst (out_state (processAppendedEvent x a ct em st v)))"
    using n appendedPayload_frame by (simp add: processAppendedEvent_def andThen_state)
  show "indexed (U - {a}) (fst (out_state (processAppendedEvent x a ct em st v)))"
    by (rule frame_indexed [OF f indexed_register [OF assms]])
qed

lemma processPrependedEvent_ok:
  assumes "indexed U v" "a \<in> U"
  shows "out_error (processPrependedEvent x a ct em v) = None"
    and "frame (v\<lparr>v_events := (v_events v)(te_hashStr (v_store v ! a) \<mapsto> a)\<rparr>)
      (out_state (processPrependedEvent x a ct em v))"
    and "indexed (U - {a}) (out_state (processPrependedEvent x a ct em v))"
proof -
  have n: "v_events v (te_hashStr (v_store v ! a)) = None" using assms by (simp add: indexed_def)
  show "out_error (processPrependedEvent x a ct em v) = None"
    using n by (simp add: processPrependedEvent_def andThen_error)
  show f: "frame (v\<lparr>v_events := (v_events v)(te_hashStr (v_store v ! a) \<mapsto> a)\<rparr>)
      (out_state (processPrependedEvent x a ct em v))"
    using n prependedPayload_frame by (simp add: processPrependedEvent_def andThen_state)
  show "indexed (U - {a}) (out_state (processPrependedEvent x a ct em v))"
    by (rule frame_indexed [OF f indexed_register [OF assms]])
qed

section \<open>Handling many events\<close>

text \<open>
  The contract of a handler of waiting events, and what it gives for a loop over their positions.
\<close>

locale event_handler =
  fixes handle :: "nat \<Rightarrow> StreamView \<Rightarrow> (StreamView, emission) outcome"
  assumes handle_error: "indexed U v \<Longrightarrow> a \<in> U \<Longrightarrow> out_error (handle a v) = None"
    and handle_frame: "indexed U v \<Longrightarrow> a \<in> U \<Longrightarrow>
      frame (v\<lparr>v_events := (v_events v)(te_hashStr (v_store v ! a) \<mapsto> a)\<rparr>) (out_state (handle a v))"
    and handle_indexed: "indexed U v \<Longrightarrow> a \<in> U \<Longrightarrow> indexed (U - {a}) (out_state (handle a v))"
begin

lemma handle_step:
  assumes "indexed (set (a # as)) v" "distinct (a # as)"
  shows "indexed (set as) (out_state (handle a v))"
    and "b \<in> set as \<Longrightarrow> te_hashStr (v_store (out_state (handle a v)) ! b) = te_hashStr (v_store v ! b)"
proof -
  have "set (a # as) - {a} = set as" using assms(2) by auto
  then show "indexed (set as) (out_state (handle a v))" using handle_indexed [OF assms(1), of a] by simp
  show "te_hashStr (v_store (out_state (handle a v)) ! b) = te_hashStr (v_store v ! b)" if "b \<in> set as"
    using frame_hash [OF handle_frame [OF assms(1)], of a b] assms(1) that by (auto simp: indexed_def)
qed

lemma handle_all:
  assumes "indexed (set as) v" "distinct as"
  shows "out_error (for_each handle as v) = None \<and> indexed {} (out_state (for_each handle as v)) \<and>
    (\<exists>E. frame (v\<lparr>v_events := E\<rparr>) (out_state (for_each handle as v)) \<and>
      dom E = dom (v_events v) \<union> (\<lambda>a. te_hashStr (v_store v ! a)) ` set as)"
  using assms
proof (induction as arbitrary: v)
  case Nil
  then show ?case using exI [of "\<lambda>E. frame (v\<lparr>v_events := E\<rparr>) v \<and> dom E = dom (v_events v)" "v_events v"] by simp
next
  case (Cons a as)
  let ?v = "out_state (handle a v)"
  note step = handle_step [OF Cons.prems]
  have e: "out_error (handle a v) = None"
    and f: "frame (v\<lparr>v_events := (v_events v)(te_hashStr (v_store v ! a) \<mapsto> a)\<rparr>) ?v"
    using handle_error [OF Cons.prems(1)] handle_frame [OF Cons.prems(1)] by simp_all
  obtain E where E: "frame (?v\<lparr>v_events := E\<rparr>) (out_state (for_each handle as ?v))"
    "dom E = dom (v_events ?v) \<union> (\<lambda>a. te_hashStr (v_store ?v ! a)) ` set as"
    and ih: "out_error (for_each handle as ?v) = None" "indexed {} (out_state (for_each handle as ?v))"
    using Cons.IH [OF step(1)] Cons.prems(2) by auto
  have "frame (v\<lparr>v_events := E\<rparr>) (?v\<lparr>v_events := E\<rparr>)" using f by (auto simp: frame_def v_contentKind_def)
  then have "frame (v\<lparr>v_events := E\<rparr>) (out_state (for_each handle as ?v))" using E(1) frame_trans by blast
  moreover have "dom E = dom (v_events v) \<union> (\<lambda>a. te_hashStr (v_store v ! a)) ` set (a # as)"
    using E(2) f step(2) by (auto simp: frame_def)
  ultimately show ?case using e ih by (auto simp: andThen_state andThen_error)
qed

end

interpretation appended: event_handler
  "\<lambda>a v. then_do (processAppendedEvent x a (ct a v) em st v) (\<lambda>(v, _). pass v) fst" for x ct em st
proof unfold_locales
  fix U v a
  assume "indexed U v" "a \<in> U"
  note ok = processAppendedEvent_ok [OF this, of x "ct a v" em st]
  obtain v' c es where r: "processAppendedEvent x a (ct a v) em st v = ((v', c), es, None)"
    using ok(1) by (metis prod.exhaust_sel)
  show "out_error (then_do (processAppendedEvent x a (ct a v) em st v) (\<lambda>(v, _). pass v) fst) = None"
    "frame (v\<lparr>v_events := (v_events v)(te_hashStr (v_store v ! a) \<mapsto> a)\<rparr>)
      (out_state (then_do (processAppendedEvent x a (ct a v) em st v) (\<lambda>(v, _). pass v) fst))"
    "indexed (U - {a}) (out_state (then_do (processAppendedEvent x a (ct a v) em st v) (\<lambda>(v, _). pass v) fst))"
    using ok by (simp_all add: r then_do_def pass_def)
qed

interpretation prepended: event_handler "\<lambda>a v. processPrependedEvent x a (ct a v) em v" for x ct em
  by unfold_locales (rule processPrependedEvent_ok; assumption)+

lemma set_newPositions [simp]: "set (newPositions v es) = {length (v_store v)..<length (v_store v) + length es}"
  by (simp add: newPositions_def)

lemma distinct_newPositions [simp]: "distinct (newPositions v es)"
  by (simp add: newPositions_def)

text \<open>New events with distinct unknown ids, put in the timeline before or after what is there.\<close>

lemma indexed_new:
  assumes "indexed {} v" "distinct (map te_hashStr es)" "\<And>e. e \<in> set es \<Longrightarrow> v_events v (te_hashStr e) = None"
    and "t = newPositions v es @ v_timeline v \<or> t = v_timeline v @ newPositions v es"
  shows "indexed (set (newPositions v es)) (v\<lparr>v_store := v_store v @ es, v_timeline := t\<rparr>)"
proof -
  let ?n = "length (v_store v)"
  have t: "distinct t" "set t = {..<?n + length es}"
    using assms(1,4) by (auto simp: indexed_def)
  have "te_hashStr ((v_store v @ es) ! a) = te_hashStr (es ! (a - ?n))" "es ! (a - ?n) \<in> set es"
    if "?n \<le> a" "a < ?n + length es" for a
    using that by (auto simp: nth_append)
  moreover have "inj_on (\<lambda>a. te_hashStr (es ! (a - ?n))) {?n..<?n + length es}"
    using assms(2) unfolding inj_on_def by (auto simp: distinct_conv_nth) (metis add_diff_inverse_nat
        diff_less_mono linorder_not_less nat_add_left_cancel_less)
  ultimately have "\<forall>a \<in> {?n..<?n + length es}. v_events v (te_hashStr ((v_store v @ es) ! a)) = None"
    "inj_on (\<lambda>a. te_hashStr ((v_store v @ es) ! a)) {?n..<?n + length es}"
    using assms(3) by (auto simp: inj_on_def)
  then show ?thesis
    using assms(1) t unfolding indexed_def by (auto simp: nth_append trans_less_add1)
qed

section \<open>Appending\<close>

text \<open>The id and the number of every event of the timeline, in order.\<close>

definition timelineKeys :: "StreamView \<Rightarrow> (string \<times> bigint) list" where
  "timelineKeys v = map (\<lambda>e. (te_hashStr e, te_eventNum e)) (timelineEvents v)"

lemma frame_keys:
  assumes "frame v v'" "indexed U v"
  shows "timelineKeys v' = timelineKeys v"
proof -
  have "v_timeline v' = v_timeline v" using assms(1) by (simp add: frame_def)
  moreover have "ident (v_store v' ! a) = ident (v_store v ! a)" if "a \<in> set (v_timeline v)" for a
    using frame_ident [OF assms(1)] assms(2) that by (auto simp: indexed_def)
  ultimately show ?thesis by (auto simp: timelineKeys_def timelineEvents_def ident_def)
qed

lemma indexed_setEvent:
  assumes "indexed U v" "te_hashStr e = te_hashStr (v_store v ! a)"
  shows "indexed U (setEvent a e v)"
proof -
  have "te_hashStr ((v_store v)[a := e] ! b) = te_hashStr (v_store v ! b)" for b
    using assms(2) by (cases "a < length (v_store v)"; cases "a = b") (simp_all add: list_update_beyond)
  then show ?thesis using assms(1) by (simp add: indexed_def)
qed

lemma keys_setEvent:
  "te_hashStr e = te_hashStr (v_store v ! a) \<Longrightarrow> te_eventNum e = te_eventNum (v_store v ! a) \<Longrightarrow>
   timelineKeys (setEvent a e v) = timelineKeys v"
proof -
  assume e: "te_hashStr e = te_hashStr (v_store v ! a)" "te_eventNum e = te_eventNum (v_store v ! a)"
  have "(te_hashStr ((v_store v)[a := e] ! b), te_eventNum ((v_store v)[a := e] ! b)) =
      (te_hashStr (v_store v ! b), te_eventNum (v_store v ! b))" for b
    using e by (cases "a < length (v_store v)"; cases "a = b") (simp_all add: list_update_beyond)
  then show ?thesis by (simp add: timelineKeys_def timelineEvents_def)
qed

lemma appendOne_known:
  assumes "view_inv v" "v_events v (pe_hashStr pe) = Some a"
  shows "appendOne x ct em st pe (v, r) =
      pass (setEvent a ((v_store v ! a)\<lparr>te_remoteEvent := Some pe\<rparr>) v, r\<lparr>ap_updated := ap_updated r @ [a]\<rparr>)"
    and "view_inv (setEvent a ((v_store v ! a)\<lparr>te_remoteEvent := Some pe\<rparr>) v)"
    and "timelineKeys (setEvent a ((v_store v ! a)\<lparr>te_remoteEvent := Some pe\<rparr>) v) = timelineKeys v"
  using assms by (simp_all add: appendOne_def view_inv_def indexed_setEvent keys_setEvent)

lemma appendOne_new:
  assumes "view_inv v" "v_events v (pe_hashStr pe) = None"
  obtains v' c es where
    "appendOne x ct em st pe (v, r) =
      ((v', r\<lparr>ap_appended := ap_appended r @ [length (v_store v)], ap_confirmed := ap_confirmed r @ c\<rparr>), es, None)"
    "view_inv v'" "timelineKeys v' = timelineKeys v @ [(pe_hashStr pe, v_lastEventNum v)]"
    "v_lastEventNum v' = v_lastEventNum v + 1"
    "v_events v' = (v_events v)(pe_hashStr pe \<mapsto> length (v_store v))"
    "length (v_store v') = Suc (length (v_store v))" "v_streamId v' = v_streamId v"
    "v_contentKind v' = v_contentKind v"
proof -
  let ?a = "length (v_store v)"
  define e where "e = makeRemoteTimelineEvent pe (v_lastEventNum v) None None"
  define w where "w = v\<lparr>v_lastEventNum := v_lastEventNum v + 1, v_store := v_store v @ [e],
    v_timeline := v_timeline v @ [?a]\<rparr>"
  define w' where "w' = w\<lparr>v_events := (v_events v)(pe_hashStr pe \<mapsto> ?a)\<rparr>"
  have e: "te_hashStr e = pe_hashStr pe" "te_eventNum e = v_lastEventNum v"
    by (simp_all add: e_def makeRemoteTimelineEvent_def)
  have wa: "v_store w ! ?a = e" "v_events w = v_events v" by (simp_all add: w_def)
  have "indexed {} v" using assms(1) by (simp add: view_inv_def)
  from indexed_new [OF this, of "[e]" "v_timeline v @ [?a]"]
  have "indexed {?a} (v\<lparr>v_store := v_store v @ [e], v_timeline := v_timeline v @ [?a]\<rparr>)"
    using assms(2) e by (simp add: newPositions_def)
  then have ix: "indexed {?a} w" by (simp add: indexed_def w_def)
  note ok = processAppendedEvent_ok [OF ix singletonI, of x "cleartextOf ct (pe_hashStr pe)" em st]
  obtain v' c es where r: "processAppendedEvent x ?a (cleartextOf ct (pe_hashStr pe)) em st w = ((v', c), es, None)"
    using ok(1) by (metis prod.exhaust_sel)
  have f: "frame w' v'" and ix': "indexed {} v'"
    using ok(2,3) by (simp_all add: r wa e w'_def)
  have ixw: "indexed {} w'" using indexed_register [OF ix singletonI] by (simp add: wa e w'_def)
  have tl: "set (v_timeline v) = {..<?a}" using assms(1) by (simp add: view_inv_def indexed_def)
  have "timelineKeys w' = timelineKeys v @ [(pe_hashStr pe, v_lastEventNum v)]"
    using e tl by (auto simp: timelineKeys_def timelineEvents_def nth_append w'_def w_def)
  then have k: "timelineKeys v' = timelineKeys v @ [(pe_hashStr pe, v_lastEventNum v)]"
    using frame_keys [OF f ixw] by simp
  have i: "view_inv v'" using ix' f assms(1) by (simp add: view_inv_def frame_def w'_def w_def)
  have ap: "appendOne x ct em st pe (v, r) =
      ((v', r\<lparr>ap_appended := ap_appended r @ [?a], ap_confirmed := ap_confirmed r @ c\<rparr>), es, None)" for r
    using assms(2) r unfolding w_def e_def by (simp add: appendOne_def Let_def makeRemoteTimelineEvent_def)
  have "v_lastEventNum v' = v_lastEventNum v + 1" "length (v_store v') = Suc (length (v_store v))"
    "v_events v' = (v_events v)(pe_hashStr pe \<mapsto> length (v_store v))" "v_streamId v' = v_streamId v"
    "v_contentKind v' = v_contentKind v"
    using f frame_length [OF f] by (simp_all add: frame_def w'_def w_def v_contentKind_def)
  then show ?thesis using that ap i k by blast
qed

text \<open>The ids that are not known yet, each once, in the order they come.\<close>

fun newIds :: "string set \<Rightarrow> string list \<Rightarrow> string list" where
  "newIds known [] = []"
| "newIds known (h # hs) = (if h \<in> known then newIds known hs else h # newIds (insert h known) hs)"

text \<open>Consecutive numbers from \<open>n\<close> on.\<close>

fun numbered :: "bigint \<Rightarrow> 'a list \<Rightarrow> ('a \<times> bigint) list" where
  "numbered n [] = []"
| "numbered n (y # ys) = (y, n) # numbered (n + 1) ys"

text \<open>
  What a sequence of appended events does: the state after \<open>hs\<close> (the ids that came) from \<open>v\<close>.
\<close>

definition extended :: "StreamView \<Rightarrow> string list \<Rightarrow> StreamView \<Rightarrow> bool" where
  "extended v hs v' =
     (timelineKeys v' = timelineKeys v @ numbered (v_lastEventNum v) (newIds (dom (v_events v)) hs) \<and>
      v_lastEventNum v' = v_lastEventNum v + int (length (newIds (dom (v_events v)) hs)) \<and>
      dom (v_events v') = dom (v_events v) \<union> set hs \<and> v_events v \<subseteq>\<^sub>m v_events v' \<and>
      length (v_store v) \<le> length (v_store v') \<and>
      v_streamId v' = v_streamId v \<and> v_contentKind v' = v_contentKind v)"

lemma extended_known:
  assumes "extended (setEvent a e v) hs v'" "v_events v h = Some b"
    and "te_hashStr e = te_hashStr (v_store v ! a)" "te_eventNum e = te_eventNum (v_store v ! a)"
  shows "extended v (h # hs) v'"
  using assms keys_setEvent [OF assms(3,4)] by (auto simp: extended_def v_contentKind_def)

lemma extended_new:
  assumes "extended w hs v'" "v_events v h = None" "timelineKeys w = timelineKeys v @ [(h, v_lastEventNum v)]"
    and "v_lastEventNum w = v_lastEventNum v + 1" "v_events w = (v_events v)(h \<mapsto> a)"
    and "length (v_store w) = Suc (length (v_store v))" "v_streamId w = v_streamId v"
    and "v_contentKind w = v_contentKind v"
  shows "extended v (h # hs) v'"
proof -
  have "v_events v \<subseteq>\<^sub>m v_events w" using assms(2,5) by (auto simp: map_le_def)
  then show ?thesis using assms by (auto simp: extended_def intro: map_le_trans)
qed

lemma appendAll:
  assumes "view_inv v"
  obtains v' r' es where "for_each (appendOne x ct em st) pes (v, r) = ((v', r'), es, None)"
    "view_inv v'" "extended v (map pe_hashStr pes) v'"
    "ap_appended r' = ap_appended r @ [length (v_store v)..<length (v_store v')]"
  using assms
proof (induction pes arbitrary: v r thesis)
  case Nil
  show ?case using Nil.prems(1) [of v r "[]"] Nil.prems(2) by (simp add: extended_def pass_def)
next
  case (Cons pe pes)
  show ?case
  proof (cases "v_events v (pe_hashStr pe)")
    case (Some a)
    let ?e = "(v_store v ! a)\<lparr>te_remoteEvent := Some pe\<rparr>"
    note k = appendOne_known [OF Cons.prems(2) Some]
    obtain v' r' es where
      *: "for_each (appendOne x ct em st) pes (setEvent a ?e v, r\<lparr>ap_updated := ap_updated r @ [a]\<rparr>) =
        ((v', r'), es, None)" "view_inv v'" "extended (setEvent a ?e v) (map pe_hashStr pes) v'"
      "ap_appended r' = ap_appended r @ [length (v_store v)..<length (v_store v')]"
      using Cons.IH [OF _ k(2), of "r\<lparr>ap_updated := ap_updated r @ [a]\<rparr>"] by auto
    have "extended v (map pe_hashStr (pe # pes)) v'" using extended_known [OF *(3) Some] by simp
    moreover have "for_each (appendOne x ct em st) (pe # pes) (v, r) = ((v', r'), es, None)"
      using *(1) k(1) by (simp add: effect_simps)
    ultimately show ?thesis using Cons.prems(1) *(2,4) by blast
  next
    case None
    obtain w c es1 where
      w: "appendOne x ct em st pe (v, r) =
        ((w, r\<lparr>ap_appended := ap_appended r @ [length (v_store v)], ap_confirmed := ap_confirmed r @ c\<rparr>), es1, None)"
      "view_inv w" "timelineKeys w = timelineKeys v @ [(pe_hashStr pe, v_lastEventNum v)]"
      "v_lastEventNum w = v_lastEventNum v + 1"
      "v_events w = (v_events v)(pe_hashStr pe \<mapsto> length (v_store v))"
      "length (v_store w) = Suc (length (v_store v))" "v_streamId w = v_streamId v"
      "v_contentKind w = v_contentKind v"
      by (rule appendOne_new [OF Cons.prems(2) None])
    obtain v' r' es where
      *: "for_each (appendOne x ct em st) pes
          (w, r\<lparr>ap_appended := ap_appended r @ [length (v_store v)], ap_confirmed := ap_confirmed r @ c\<rparr>) =
        ((v', r'), es, None)" "view_inv v'" "extended w (map pe_hashStr pes) v'"
      "ap_appended r' = (ap_appended r @ [length (v_store v)]) @ [length (v_store w)..<length (v_store v')]"
      using Cons.IH [OF _ w(2),
          of "r\<lparr>ap_appended := ap_appended r @ [length (v_store v)], ap_confirmed := ap_confirmed r @ c\<rparr>"]
      by auto
    have "extended v (map pe_hashStr (pe # pes)) v'"
      using extended_new [OF *(3) None w(3-8)] by simp
    moreover have "for_each (appendOne x ct em st) (pe # pes) (v, r) = ((v', r'), es1 @ es, None)"
      using *(1) w(1) by (simp add: effect_simps)
    moreover have "ap_appended r' = ap_appended r @ [length (v_store v)..<length (v_store v')]"
      using *(3,4) w(6) by (simp add: extended_def upt_conv_Cons)
    ultimately show ?thesis using Cons.prems(1) *(2) by blast
  qed
qed

lemma keys_fields [simp]:
  "timelineKeys (v\<lparr>v_syncCookie := c\<rparr>) = timelineKeys v"
  "view_inv (v\<lparr>v_syncCookie := c\<rparr>) = view_inv v"
  by (simp_all add: timelineKeys_def timelineEvents_def view_inv_def indexed_def)

lemma length_timeline: "view_inv v \<Longrightarrow> length (v_timeline v) = length (v_store v)"
  by (metis card_lessThan distinct_card indexed_def view_inv_def)

lemma appendStreamAndCookie_ok:
  assumes "view_inv v"
  obtains v' r' es where
    "appendStreamAndCookie x cookie pes ct em st v = ((v'\<lparr>v_syncCookie := Some cookie\<rparr>, r'), es, None)"
    "view_inv v'" "extended v (map pe_hashStr pes) v'"
    "ap_appended r' = [length (v_store v)..<length (v_store v')]"
proof -
  obtain v' r' es where
    "for_each (appendOne x ct em st) pes (v, \<lparr>ap_appended = [], ap_updated = [], ap_confirmed = []\<rparr>) =
      ((v', r'), es, None)" "view_inv v'" "extended v (map pe_hashStr pes) v'"
    "ap_appended r' = [length (v_store v)..<length (v_store v')]"
    by (rule appendAll [OF assms, where r = "\<lparr>ap_appended = [], ap_updated = [], ap_confirmed = []\<rparr>"]) simp
  then show ?thesis using that [of v' r' es] by (simp add: appendStreamAndCookie_def effect_simps)
qed

lemma appendEvents_ok:
  assumes "view_inv v"
  obtains v' es and r' :: Appends where
    "appendEvents x pes cookie ct v =
      (v', es @ [streamUpdated (v_streamId v) (v_contentKind v)
         \<lparr>ch_prepended = None, ch_appended = someEvents v' [length (v_store v)..<length (v_store v')],
          ch_updated = someEvents v' (ap_updated r'), ch_confirmed = someEvents v' (ap_confirmed r')\<rparr>], None)"
    "view_inv v'" "extended v (map pe_hashStr pes) v'" "v_syncCookie v' = Some cookie"
proof -
  obtain v' r' es where
    *: "appendStreamAndCookie x cookie pes ct True True v = ((v'\<lparr>v_syncCookie := Some cookie\<rparr>, r'), es, None)"
    "view_inv v'" "extended v (map pe_hashStr pes) v'"
    "ap_appended r' = [length (v_store v)..<length (v_store v')]"
    by (rule appendStreamAndCookie_ok [OF assms])
  have "extended v (map pe_hashStr pes) (v'\<lparr>v_syncCookie := Some cookie\<rparr>)"
    using *(3) by (simp add: extended_def v_contentKind_def)
  then show ?thesis
    using that [of "v'\<lparr>v_syncCookie := Some cookie\<rparr>" es r'] *
    by (simp add: appendEvents_def then_do_def emit_def extended_def v_contentKind_def)
qed

section \<open>Prepending\<close>

text \<open>The events of older miniblocks that the view does not have.\<close>

definition unknownEvents :: "ParsedMiniblock list \<Rightarrow> StreamView \<Rightarrow> StreamTimelineEvent list" where
  "unknownEvents mbs v =
     filter (\<lambda>e. v_events v (te_hashStr e) = None) (concat (map miniblockEvents mbs))"

lemma frame_terminus:
  "frame v (case v_miniblockInfo v of
      Some info \<Rightarrow> if t then v\<lparr>v_miniblockInfo := Some (info\<lparr>mbi_terminusReached := True\<rparr>)\<rparr> else v
    | None \<Rightarrow> v)"
  by (auto simp: frame_def info_ok_def v_contentKind_def split: option.split)

lemma keys_new:
  assumes "indexed {} v"
  shows "map (\<lambda>a. (v_store v @ es) ! a) (newPositions v es) = es"
    and "map (\<lambda>a. (v_store v @ es) ! a) (v_timeline v) = timelineEvents v"
proof -
  show "map (\<lambda>a. (v_store v @ es) ! a) (newPositions v es) = es"
    by (rule nth_equalityI) (simp_all add: newPositions_def nth_append)
  have "set (v_timeline v) = {..<length (v_store v)}" using assms by (simp add: indexed_def)
  then show "map (\<lambda>a. (v_store v @ es) ! a) (v_timeline v) = timelineEvents v"
    by (auto simp: timelineEvents_def nth_append)
qed

lemma prependEvents_ok:
  assumes "view_inv v" "distinct (map te_hashStr (unknownEvents mbs v))"
  obtains v' es where
    "prependEvents x mbs ct t em st v =
      (v', es @ (if st then [streamUpdated (v_streamId v) (v_contentKind v)
         (noChange\<lparr>ch_prepended := Some (eventsAt v' (newPositions v (unknownEvents mbs v)))\<rparr>)] else []), None)"
    "view_inv v'"
    "v_timeline v' = newPositions v (unknownEvents mbs v) @ v_timeline v"
    "map ident (v_store v') = map ident (v_store v @ unknownEvents mbs v)"
    "v_lastEventNum v' = v_lastEventNum v"
    "dom (v_events v') = dom (v_events v) \<union> te_hashStr ` set (unknownEvents mbs v)"
proof -
  let ?es = "unknownEvents mbs v" and ?as = "newPositions v (unknownEvents mbs v)"
  let ?h = "\<lambda>a v. processPrependedEvent x a (cleartextOf ct (te_hashStr (v_store v ! a))) em v"
  define w where "w = v\<lparr>v_store := v_store v @ ?es, v_timeline := ?as @ v_timeline v\<rparr>"
  have i: "indexed {} v" using assms(1) by (simp add: view_inv_def)
  have "indexed (set ?as) w"
    unfolding w_def by (rule indexed_new [OF i assms(2)]) (auto simp: unknownEvents_def)
  then have ix: "indexed (set (rev ?as)) w" by simp
  have d: "distinct (rev ?as)" by simp
  note H = prepended.handle_all [OF ix d, of x "\<lambda>a v. cleartextOf ct (te_hashStr (v_store v ! a))" em]
  note r = conjunct1 [OF H] conjunct1 [OF conjunct2 [OF H]]
  obtain E where E: "frame (w\<lparr>v_events := E\<rparr>) (out_state (for_each ?h (rev ?as) w))"
    "dom E = dom (v_events w) \<union> (\<lambda>a. te_hashStr (v_store w ! a)) ` set (rev ?as)"
    using conjunct2 [OF conjunct2 [OF H]] by blast
  obtain u es where u: "for_each ?h (rev ?as) w = (u, es, None)" by (rule ok_outcome [OF r(1)])
  define v' where "v' = (case v_miniblockInfo u of
      Some info \<Rightarrow> if t then u\<lparr>v_miniblockInfo := Some (info\<lparr>mbi_terminusReached := True\<rparr>)\<rparr> else u
    | None \<Rightarrow> u)"
  have "frame u v'" unfolding v'_def by (rule frame_terminus)
  moreover have "frame (w\<lparr>v_events := E\<rparr>) u" using E(1) unfolding u by simp
  ultimately have f: "frame (w\<lparr>v_events := E\<rparr>) v'" and f': "frame u v'" by (blast intro: frame_trans)+
  have "indexed {} v'" using frame_indexed [OF f'] r(2) unfolding u by simp
  then have inv: "view_inv v'" using f assms(1) by (simp add: view_inv_def frame_def w_def)
  have "(\<lambda>a. te_hashStr (v_store w ! a)) ` set (rev ?as) = te_hashStr ` (\<lambda>a. (v_store v @ ?es) ! a) ` set ?as"
    unfolding w_def image_image set_rev by simp
  also have "(\<lambda>a. (v_store v @ ?es) ! a) ` set ?as = set ?es"
    by (metis keys_new(1) [OF i] list.set_map)
  finally have dom: "dom (v_events v') = dom (v_events v) \<union> te_hashStr ` set ?es"
    using E(2) f by (simp add: frame_def w_def)
  have eq: "prependEvents x mbs ct t em st v =
      (v', es @ (if st then [streamUpdated (v_streamId v) (v_contentKind v)
         (noChange\<lparr>ch_prepended := Some (eventsAt v' ?as)\<rparr>)] else []), None)"
  proof -
    have k: "v_streamId v' = v_streamId v" "v_contentKind v' = v_contentKind v"
      using f by (simp_all add: frame_def w_def v_contentKind_def)
    have "prependEvents x mbs ct t em st v =
        andThen (for_each ?h (rev ?as) w) (\<lambda>v.
          let v2 = (case v_miniblockInfo v of
                Some info \<Rightarrow> if t then v\<lparr>v_miniblockInfo := Some (info\<lparr>mbi_terminusReached := True\<rparr>)\<rparr> else v
              | None \<Rightarrow> v)
          in emit st (streamUpdated (v_streamId v2) (v_contentKind v2)
               (noChange\<lparr>ch_prepended := Some (eventsAt v2 ?as)\<rparr>)) v2)"
      by (simp only: prependEvents_def Let_def unknownEvents_def w_def)
    also have "\<dots> = andThen (u, es, None) (\<lambda>_. emit st (streamUpdated (v_streamId v') (v_contentKind v')
               (noChange\<lparr>ch_prepended := Some (eventsAt v' ?as)\<rparr>)) v')"
      by (simp add: u v'_def Let_def effect_simps)
    finally show ?thesis by (simp add: k effect_simps)
  qed
  show ?thesis
    using that [OF eq inv _ _ _ dom] f by (simp add: frame_def w_def)
qed

section \<open>Local events\<close>

lemma indexed_added:
  assumes "indexed {} v" "v_events v (te_hashStr e) = None"
  shows "indexed {} (v\<lparr>v_lastEventNum := n, v_store := v_store v @ [e],
    v_events := (v_events v)(te_hashStr e \<mapsto> length (v_store v)), v_timeline := v_timeline v @ [length (v_store v)]\<rparr>)"
proof -
  let ?w = "v\<lparr>v_store := v_store v @ [e], v_timeline := v_timeline v @ [length (v_store v)]\<rparr>"
  have "indexed (set (newPositions v [e])) ?w"
    by (rule indexed_new [OF assms(1)]) (simp_all add: assms(2) newPositions_def)
  from indexed_register [OF this, of "length (v_store v)"] show ?thesis
    by (simp add: indexed_def newPositions_def)
qed

lemma frame_view_inv: "frame v v' \<Longrightarrow> view_inv v \<Longrightarrow> view_inv v'"
  using frame_indexed by (auto simp: view_inv_def frame_def)

lemma view_inv_added:
  assumes "view_inv v" "v_events v (te_hashStr e) = None"
  shows "view_inv (out_state (on_content (Content_onAppendLocalEvent e' em)
    (v\<lparr>v_lastEventNum := n, v_store := v_store v @ [e],
       v_events := (v_events v)(te_hashStr e \<mapsto> length (v_store v)), v_timeline := v_timeline v @ [length (v_store v)]\<rparr>)))"
  by (rule frame_view_inv [OF on_content_frame])
    (use assms indexed_added in \<open>simp_all add: view_inv_def\<close>)

lemma addLocalEvent_inv:
  "view_inv v \<Longrightarrow> v_events v (te_hashStr e) = None \<Longrightarrow> view_inv (out_state (addLocalEvent em e v))"
  using view_inv_added [of v "e\<lparr>te_eventNum := v_lastEventNum v\<rparr>"] by (simp add: addLocalEvent_def Let_def)

lemma appendLocalEvent_inv:
  assumes "view_inv v" "v_events v localId = None"
  shows "view_inv (out_state (appendLocalEvent localId now msg st em v))"
  using view_inv_added [OF assms(1), of
      "\<lparr>te_hashStr = localId, te_creatorUserId = v_userId v, te_eventNum = v_lastEventNum v,
        te_createdAtEpochMs = now,
        te_localEvent = Some \<lparr>le_localId = localId, le_channelMessage = msg, le_status = st\<rparr>,
        te_remoteEvent = None, te_decryptedContent = None, te_decryptedContentError = None,
        te_miniblockNum = None, te_confirmedEventNum = None\<rparr>"] assms(2)
  by (simp add: appendLocalEvent_def Let_def andThen_state)

lemma updateLocalEvent_inv:
  assumes "view_inv v" "v_events v hash = None \<or> v_events v hash = v_events v localId"
  shows "view_inv (out_state (updateLocalEvent localId hash st v))"
proof (cases "v_events v localId")
  case (Some a)
  have "indexed {} ((setEvent a e v)\<lparr>v_events := (v_events v)(hash \<mapsto> a)\<rparr>)" if "te_hashStr e = hash" for e
  proof -
    have "a < length (v_store v)" using assms(1) Some by (simp add: view_inv_def indexed_def)
    moreover have "te_hashStr (v_store v ! b) \<noteq> hash" if "b < length (v_store v)" "b \<noteq> a" for b
      using assms Some that by (auto simp: view_inv_def indexed_def)
    ultimately show ?thesis
      using assms(1) that by (auto simp: view_inv_def indexed_def nth_list_update)
  qed
  then show ?thesis
    using assms(1) Some by (auto simp: updateLocalEvent_def Let_def view_inv_def split: option.split)
qed (simp add: updateLocalEvent_def assms(1))

section \<open>Decrypted content\<close>

lemma updateDecryptedContent_frame: "frame v (out_state (updateDecryptedContent x i c v))"
  unfolding updateDecryptedContent_def
proof (intro andThen_inv [where P = "frame v"])
  show "frame v (out_state (on_members (Members_onDecryptedContent x i c True) v))" by simp
  show "frame v (out_state (on_content (Content_onDecryptedContent c True) w))" if "frame v w" for w
    by (rule frame_trans [OF that on_content_frame]) simp
qed (auto simp: Let_def andThen_state intro: frame_trans split: option.split)

lemma updateDecryptedContentError_frame: "frame v (out_state (updateDecryptedContentError i c v))"
  by (auto simp: updateDecryptedContentError_def Let_def andThen_state split: option.split)

section \<open>Initialization\<close>

text \<open>
  A block of events put at the end of the timeline and then handled one by one, in any order. The
  first block and the rest of the blocks of \<open>initialize\<close> are both of this form.
\<close>

context event_handler
begin

lemma handle_block:
  assumes "view_inv v" "distinct (map te_hashStr es)" "\<And>e. e \<in> set es \<Longrightarrow> v_events v (te_hashStr e) = None"
    and "distinct as" "set as = set (newPositions v es)"
    and "w = v\<lparr>v_store := v_store v @ es, v_timeline := v_timeline v @ newPositions v es\<rparr>"
  shows "view_inv (out_state (for_each handle as w))"
    and "dom (v_events (out_state (for_each handle as w))) = dom (v_events v) \<union> te_hashStr ` set es"
    and "out_error (for_each handle as w) = None"
proof -
  have i: "indexed {} v" using assms(1) by (simp add: view_inv_def)
  have "indexed (set as) w"
    unfolding assms(5,6) by (rule indexed_new [OF i assms(2,3)]) simp_all
  note H = handle_all [OF this assms(4)]
  note r = conjunct1 [OF H] conjunct1 [OF conjunct2 [OF H]]
  obtain E where E: "frame (w\<lparr>v_events := E\<rparr>) (out_state (for_each handle as w))"
    "dom E = dom (v_events w) \<union> (\<lambda>a. te_hashStr (v_store w ! a)) ` set as"
    using conjunct2 [OF conjunct2 [OF H]] by blast
  show "out_error (for_each handle as w) = None" by (rule r(1))
  show "view_inv (out_state (for_each handle as w))"
    using r(2) E(1) assms(1,6) by (simp add: view_inv_def frame_def)
  have "(\<lambda>a. te_hashStr (v_store w ! a)) ` set as = te_hashStr ` (\<lambda>a. (v_store v @ es) ! a) ` set (newPositions v es)"
    unfolding assms(5,6) image_image by simp
  also have "(\<lambda>a. (v_store v @ es) ! a) ` set (newPositions v es) = set es"
    by (metis keys_new(1) [OF i] list.set_map)
  finally show "dom (v_events (out_state (for_each handle as w))) = dom (v_events v) \<union> te_hashStr ` set es"
    using E assms(6) by (simp add: frame_def)
qed

end

abbreviation blockIds :: "ParsedMiniblock list \<Rightarrow> string list" where
  "blockIds mbs \<equiv> map te_hashStr (concat (map miniblockEvents mbs))"

lemma initFirstBlock_ok:
  assumes "view_inv v" "distinct (blockIds [mb])" "dom (v_events v) \<inter> set (blockIds [mb]) = {}"
  shows "view_inv (out_state (initFirstBlock x mb ct em v))"
    and "out_error (initFirstBlock x mb ct em v) = None \<Longrightarrow>
      dom (v_events (out_state (initFirstBlock x mb ct em v))) = dom (v_events v) \<union> set (blockIds [mb])"
proof -
  have new: "v_events v (te_hashStr e) = None" if "e \<in> set (miniblockEvents mb)" for e
    using assms(3) that by (auto simp: disjoint_iff)
  note b = prepended.handle_block [OF assms(1) _ new, of "miniblockEvents mb" "rev (newPositions v (miniblockEvents mb))" _
      x "\<lambda>a v. cleartextOf ct (te_hashStr (v_store v ! a))" em, OF _ _ _ _ refl]
  show "view_inv (out_state (initFirstBlock x mb ct em v))"
    using b(1) assms(1,2) by (simp add: initFirstBlock_def Let_def andThen_state)
  show "dom (v_events (out_state (initFirstBlock x mb ct em v))) = dom (v_events v) \<union> set (blockIds [mb])"
    if "out_error (initFirstBlock x mb ct em v) = None"
    using b(2) assms(2) that by (simp add: initFirstBlock_def Let_def andThen_state andThen_error split: if_splits)
qed

lemma initRest_ok:
  assumes "view_inv v" "distinct (blockIds mbs)" "dom (v_events v) \<inter> set (blockIds mbs) = {}"
  shows "view_inv (out_state (initRest x mbs ct em v))"
    and "dom (v_events (out_state (initRest x mbs ct em v))) = dom (v_events v) \<union> set (blockIds mbs)"
proof -
  have new: "v_events v (te_hashStr e) = None" if "e \<in> set (concat (map miniblockEvents mbs))" for e
    using assms(3) that by (auto simp: disjoint_iff)
  note b = appended.handle_block [OF assms(1,2) new distinct_newPositions refl refl, where em = em and st = False
      and x = x and ct = "\<lambda>a v. cleartextOf ct (te_hashStr (v_store v ! a))"]
  show "view_inv (out_state (initRest x mbs ct em v))"
    "dom (v_events (out_state (initRest x mbs ct em v))) = dom (v_events v) \<union> set (blockIds mbs)"
    using b(1,2) by (simp_all add: initRest_def Let_def)
qed

text \<open>
  The ids that \<open>initialize\<close> may be given: those of the stored blocks are new and distinct, those of
  the older blocks are distinct, and those of the unsent local events are distinct from each other
  and from every other id.
\<close>

definition initLegal ::
  "ParsedEvent list \<Rightarrow> ParsedMiniblock list \<Rightarrow> ParsedMiniblock list \<Rightarrow> StreamTimelineEvent list \<Rightarrow> StreamView \<Rightarrow> bool"
where
  "initLegal minipool miniblocks prependedMiniblocks localEvents v =
     (distinct (blockIds miniblocks) \<and> distinct (blockIds prependedMiniblocks) \<and>
      (\<forall>h \<in> set (blockIds miniblocks). v_events v h = None) \<and>
      distinct (map te_hashStr localEvents) \<and>
      (\<forall>e \<in> set localEvents. v_events v (te_hashStr e) = None \<and>
         te_hashStr e \<notin> set (blockIds miniblocks) \<union> pe_hashStr ` set minipool \<union> set (blockIds prependedMiniblocks)))"

lemma addLocalEvent_dom: "dom (v_events (out_state (addLocalEvent em e v))) = insert (te_hashStr e) (dom (v_events v))"
  by (simp add: addLocalEvent_def Let_def)

lemma addLocalEvents_inv:
  "view_inv v \<Longrightarrow> distinct (map te_hashStr es) \<Longrightarrow> dom (v_events v) \<inter> te_hashStr ` set es = {} \<Longrightarrow>
   view_inv (out_state (for_each (addLocalEvent em) es v))"
proof (induction es arbitrary: v)
  case (Cons e es)
  have "v_events v (te_hashStr e) = None" using Cons.prems(3) by auto
  then have "view_inv (out_state (addLocalEvent em e v))" using addLocalEvent_inv Cons.prems(1) by blast
  moreover have "dom (v_events (out_state (addLocalEvent em e v))) \<inter> te_hashStr ` set es = {}"
    using Cons.prems(2,3) by (auto simp: addLocalEvent_dom)
  ultimately show ?case using Cons by (simp add: andThen_state)
qed simp

lemma applySnapshot_frame: "frame v (out_state (applySnapshot x h s ct em v))"
proof -
  have "frame v (out_state (andThen
      (on_content (Content_applySnapshot x h (sn_content s') ct em) (v\<lparr>v_snapshot := Some s'\<rparr>))
      (on_members (Members_applySnapshot x s' ct em))))" for s'
  proof (rule andThen_inv [where P = "frame v"])
    show "frame v (out_state (on_content (Content_applySnapshot x h (sn_content s') ct em) (v\<lparr>v_snapshot := Some s'\<rparr>)))"
      by (rule frame_trans [OF frame_fields(1) on_content_frame]) simp
    show "frame v (out_state (on_members (Members_applySnapshot x s' ct em) w))" if "frame v w" for w
      by (rule frame_trans [OF that on_members_frame])
  qed
  then show ?thesis by (simp add: applySnapshot_def split: sum.split)
qed

text \<open>A stage of a longer operation: it keeps \<open>view_inv\<close>, and when it succeeds it knows only the ids \<open>D\<close>.\<close>

definition stage :: "string set \<Rightarrow> (StreamView, emission) outcome \<Rightarrow> bool" where
  "stage D r = (view_inv (out_state r) \<and> (out_error r = None \<longrightarrow> dom (v_events (out_state r)) \<subseteq> D))"

lemma stage_andThen:
  "stage D r \<Longrightarrow> (\<And>s. view_inv s \<Longrightarrow> dom (v_events s) \<subseteq> D \<Longrightarrow> stage D' (f s)) \<Longrightarrow> stage D' (andThen r f)"
  by (auto simp: stage_def andThen_state andThen_error)

lemma stage_last:
  "stage D r \<Longrightarrow> (\<And>s. view_inv s \<Longrightarrow> dom (v_events s) \<subseteq> D \<Longrightarrow> view_inv (out_state (f s))) \<Longrightarrow>
   view_inv (out_state (andThen r f))"
  by (simp add: stage_def andThen_state)

lemma stage_append:
  assumes "view_inv v" "dom (v_events v) \<subseteq> D"
  shows "stage (D \<union> pe_hashStr ` set pes) (then_do
    (appendStreamAndCookie x cookie pes ct em st (v\<lparr>v_lastEventNum := n, v_prevMiniblockHash := h\<rparr>))
    (\<lambda>(v, _). pass (v\<lparr>v_prevSnapshotMiniblockNum := k\<rparr>)) fst)"
proof -
  let ?w = "v\<lparr>v_lastEventNum := n, v_prevMiniblockHash := h\<rparr>"
  have "view_inv ?w" using assms(1) by (simp add: view_inv_def indexed_def)
  then obtain v' r' es where
    r: "appendStreamAndCookie x cookie pes ct em st ?w = ((v'\<lparr>v_syncCookie := Some cookie\<rparr>, r'), es, None)"
    and v': "view_inv v'" "extended ?w (map pe_hashStr pes) v'"
    by (rule appendStreamAndCookie_ok)
  have "view_inv (v'\<lparr>v_syncCookie := Some cookie, v_prevSnapshotMiniblockNum := k\<rparr>)"
    using v'(1) by (simp add: view_inv_def indexed_def)
  moreover have "dom (v_events v') \<subseteq> D \<union> pe_hashStr ` set pes"
    using v'(2) assms(2) by (auto simp: extended_def)
  ultimately show ?thesis by (simp add: r stage_def effect_simps)
qed

lemma stage_prepend:
  assumes "view_inv v" "dom (v_events v) \<subseteq> D" "distinct (blockIds mbs)"
  shows "stage (D \<union> set (blockIds mbs)) (prependEvents x mbs ct t em st v)"
proof -
  have "distinct (map te_hashStr (unknownEvents mbs v))"
    using assms(3) unfolding unknownEvents_def by (rule distinct_map_filter)
  from prependEvents_ok [OF assms(1) this, of x ct t em st] obtain v' es where
    r: "prependEvents x mbs ct t em st v = (v', es, None)" and v': "view_inv v'"
    "dom (v_events v') = dom (v_events v) \<union> te_hashStr ` set (unknownEvents mbs v)" by metis
  then show ?thesis using assms(2) by (auto simp: stage_def unknownEvents_def)
qed

lemma initialize_inv:
  assumes "view_inv v" "initLegal minipool miniblocks older locals v"
  shows "view_inv (out_state (initialize x cookie minipool s miniblocks older n ct locals em v))"
proof (cases miniblocks)
  case (Cons mb0 mbs)
  let ?D = "dom (v_events v)"
  have b: "set (blockIds miniblocks) = set (blockIds [mb0]) \<union> set (blockIds mbs)" by (simp add: Cons image_Un)
  have n: "h \<notin> ?D" if "h \<in> set (blockIds miniblocks)" for h
    using assms(2) that by (simp add: initLegal_def domIff del: set_map set_concat)
  have "distinct (blockIds [mb0])" "distinct (blockIds mbs)" "set (blockIds [mb0]) \<inter> set (blockIds mbs) = {}"
    using assms(2) unfolding initLegal_def Cons by auto
  moreover have "?D \<inter> set (blockIds [mb0]) = {}" "?D \<inter> set (blockIds mbs) = {}"
    using n unfolding b by blast+
  ultimately have ids: "distinct (blockIds [mb0])" "distinct (blockIds mbs)" "set (blockIds [mb0]) \<inter> set (blockIds mbs) = {}"
    "?D \<inter> set (blockIds [mb0]) = {}" "?D \<inter> set (blockIds mbs) = {}" .
  have s0: "stage ?D (applySnapshot x h s ct em v)" for h
    using frame_view_inv [OF applySnapshot_frame assms(1)] applySnapshot_frame [of v x h s ct em]
    by (simp add: stage_def frame_def)
  have s1: "stage (?D \<union> set (blockIds [mb0])) (initFirstBlock x mb0 ct em w)"
    if "view_inv w" "dom (v_events w) \<subseteq> ?D" for w
  proof -
    have "dom (v_events w) \<inter> set (blockIds [mb0]) = {}" using ids(4) that(2) by blast
    from initFirstBlock_ok [OF that(1) ids(1) this, of x ct em] that(2) show ?thesis by (auto simp: stage_def)
  qed
  have s2: "stage (?D \<union> set (blockIds [mb0]) \<union> set (blockIds mbs)) (initRest x mbs ct em w)"
    if "view_inv w" "dom (v_events w) \<subseteq> ?D \<union> set (blockIds [mb0])" for w
  proof -
    have "dom (v_events w) \<inter> set (blockIds mbs) = {}" using ids(3,5) that(2) by blast
    from initRest_ok [OF that(1) ids(2) this, of x ct em] that(2) show ?thesis by (auto simp: stage_def)
  qed
  have s4: "stage (D \<union> set (blockIds older)) (case older of [] \<Rightarrow> pass w
      | pmb # _ \<Rightarrow> prependEvents x older ct (mh_miniblockNum (pm_header pmb) = 0) em False w)"
    if "view_inv w" "dom (v_events w) \<subseteq> D" for w D
  proof (cases older)
    case (Cons pmb pmbs)
    have "distinct (blockIds older)" using assms(2) by (simp add: initLegal_def)
    from stage_prepend [OF that this] show ?thesis by (simp add: Cons)
  qed (use that in \<open>simp add: stage_def\<close>)
  have s5: "view_inv (out_state (for_each (addLocalEvent em) locals w))"
    if "view_inv w" "dom (v_events w) \<subseteq> ?D \<union> set (blockIds [mb0]) \<union> set (blockIds mbs) \<union>
      pe_hashStr ` set minipool \<union> set (blockIds older)" for w
  proof (rule addLocalEvents_inv [OF that(1)])
    show "distinct (map te_hashStr locals)" using assms(2) by (simp add: initLegal_def)
    have "te_hashStr e \<notin> ?D \<union> set (blockIds miniblocks) \<union> pe_hashStr ` set minipool \<union> set (blockIds older)"
      if "e \<in> set locals" for e
      using assms(2) that by (simp add: initLegal_def domIff del: set_map set_concat)
    then show "dom (v_events w) \<inter> te_hashStr ` set locals = {}" using that(2) unfolding b by blast
  qed
  have s6: "view_inv (out_state (emit em ev (w\<lparr>v_isInitialized := True\<rparr>)))" if "view_inv w" for ev w
    using frame_view_inv [OF frame_fields(6) that] by simp
  show ?thesis
    unfolding initialize_def Cons list.case Let_def
    by (rule andThen_inv [where P = view_inv], rule stage_last, rule stage_andThen, rule stage_andThen,
        rule stage_andThen, rule stage_andThen, rule s0, (rule s1 s2 stage_append s4 s5 s6, assumption+)+)
qed (simp add: initialize_def assms(1))

end
