(* ===== verification/Views.thy ===== *)
theory Views
  imports Timeline
begin

text \<open>
  The view of a stream under any sequence of its operations, and the properties of appending,
  scrolling back, local events and confirmation by miniblock headers.
\<close>

section \<open>Every sequence of operations\<close>

datatype ViewOp =
    VInitialize SyncCookie "ParsedEvent list" Snapshot "ParsedMiniblock list" "ParsedMiniblock list" bigint
      cleartexts "StreamTimelineEvent list"
  | VAppend "ParsedEvent list" SyncCookie cleartexts
  | VPrepend "ParsedMiniblock list" cleartexts bool
  | VLocal string bigint ChannelMessage LocalEventStatus
  | VUpdateLocal string string LocalEventStatus
  | VDecrypted string DecryptedContent
  | VDecryptedError string DecryptionSessionError

definition viewStep :: "externs \<Rightarrow> ViewOp \<Rightarrow> StreamView \<Rightarrow> (StreamView, emission) outcome" where
  "viewStep x op =
     (case op of
        VInitialize cookie minipool s blocks older n ct locals \<Rightarrow>
          initialize x cookie minipool s blocks older n ct locals True
      | VAppend events cookie ct \<Rightarrow> appendEvents x events cookie ct
      | VPrepend blocks ct terminus \<Rightarrow> prependEvents x blocks ct terminus True True
      | VLocal localId now msg status \<Rightarrow> appendLocalEvent localId now msg status True
      | VUpdateLocal localId hash status \<Rightarrow> updateLocalEvent localId hash status
      | VDecrypted eventId content \<Rightarrow> updateDecryptedContent x eventId content
      | VDecryptedError eventId err \<Rightarrow> updateDecryptedContentError eventId err)"

text \<open>
  What the callers guarantee of ids: the events of a page of history are distinct, a local id is
  new, and the hash given to a local event is not that of another event. Nothing is required of
  appended events, which may repeat known ones.
\<close>

definition viewLegal :: "ViewOp \<Rightarrow> StreamView \<Rightarrow> bool" where
  "viewLegal op v =
     (case op of
        VInitialize cookie minipool s blocks older n ct locals \<Rightarrow> initLegal minipool blocks older locals v
      | VPrepend blocks ct terminus \<Rightarrow> distinct (blockIds blocks)
      | VLocal localId now msg status \<Rightarrow> v_events v localId = None
      | VUpdateLocal localId hash status \<Rightarrow> v_events v hash = None \<or> v_events v hash = v_events v localId
      | _ \<Rightarrow> True)"

lemma viewStep_inv:
  assumes "view_inv v" "viewLegal op v"
  shows "view_inv (out_state (viewStep x op v))"
proof (cases op)
  case (VInitialize cookie minipool s blocks older n ct locals)
  then show ?thesis using assms initialize_inv by (simp add: viewStep_def viewLegal_def)
next
  case (VAppend events cookie ct)
  obtain v' es and r' :: Appends where "appendEvents x events cookie ct v = (v', es, None)" "view_inv v'"
    by (rule appendEvents_ok [OF assms(1), of x events cookie ct]) blast
  then show ?thesis by (simp add: VAppend viewStep_def)
next
  case (VPrepend blocks ct terminus)
  then have "distinct (blockIds blocks)" using assms(2) by (simp add: viewLegal_def)
  from stage_prepend [OF assms(1) subset_refl this, of x ct terminus True True] show ?thesis
    by (simp add: VPrepend viewStep_def stage_def)
next
  case (VLocal localId now msg status)
  then show ?thesis using assms by (simp add: viewStep_def viewLegal_def appendLocalEvent_inv)
next
  case (VUpdateLocal localId hash status)
  then show ?thesis using assms updateLocalEvent_inv by (simp add: viewStep_def viewLegal_def)
next
  case (VDecrypted eventId content)
  then show ?thesis using frame_view_inv [OF updateDecryptedContent_frame assms(1)] by (simp add: viewStep_def)
next
  case (VDecryptedError eventId err)
  then show ?thesis using frame_view_inv [OF updateDecryptedContentError_frame assms(1)] by (simp add: viewStep_def)
qed

interpretation view: stepping "viewStep x" view_inv viewLegal for x
  by unfold_locales (rule viewStep_inv)

lemma StreamView_new_inv: "StreamView_new x u sid = Inr v \<Longrightarrow> view_inv v"
  by (cases "newContent x sid")
    (auto simp: StreamView_new_def view_inv_def indexed_def info_ok_def)

lemma view_inv_lookup:
  assumes "view_inv v"
  shows "distinct (timelineHashes v)"
    and "e \<in> set (timelineEvents v) \<Longrightarrow> \<exists>a. v_events v (te_hashStr e) = Some a \<and> v_store v ! a = e"
proof -
  have ev: "v_events v (te_hashStr (v_store v ! a)) = Some a" if "a \<in> set (v_timeline v)" for a
    using assms that by (auto simp: view_inv_def indexed_def)
  then have "inj_on (\<lambda>a. te_hashStr (v_store v ! a)) (set (v_timeline v))"
    by (metis (mono_tags, lifting) inj_onI option.inject)
  then show "distinct (timelineHashes v)"
    using assms by (simp add: timelineHashes_def timelineEvents_def view_inv_def indexed_def distinct_map o_def)
  show "\<exists>a. v_events v (te_hashStr e) = Some a \<and> v_store v ! a = e" if "e \<in> set (timelineEvents v)"
    using that ev by (auto simp: timelineEvents_def)
qed

lemma onAppendLocalEvent_error [simp]: "out_error (Content_onAppendLocalEvent e em c) = None"
  by (cases c) (simp_all add: lift_view_def DM_onAppendLocalEvent_def GDM_onAppendLocalEvent_def effect_simps)

section \<open>A concrete view\<close>

definition sample_channel :: string where
  "sample_channel = ''20'' @ replicate 62 CHR ''0''"

definition sample_view :: StreamView where
  "sample_view = \<lparr>v_streamId = sample_channel, v_userId = ''me'', v_store = [], v_timeline = [],
     v_events = Map.empty, v_isInitialized = False, v_snapshot = None,
     v_prevMiniblockHash = None, v_lastEventNum = 0, v_prevSnapshotMiniblockNum = 0,
     v_miniblockInfo = None, v_syncCookie = None,
     v_membershipContent = Members_new sample_channel, v_content = ChannelC (ChannelView_new sample_channel)\<rparr>"

lemma sample_view_new: "StreamView_new sample_externs ''me'' sample_channel = Inr sample_view"
proof -
  have "\<not> isSpaceStreamId sample_externs (StringId sample_channel)"
    "isChannelStreamId sample_externs (StringId sample_channel)" by code_simp+
  then show ?thesis by (simp add: StreamView_new_def newContent_def sample_view_def)
qed

definition sample_parsed :: "8 word \<Rightarrow> StreamEvent_payload \<Rightarrow> ParsedEvent" where
  "sample_parsed b p =
     \<lparr>pe_event = \<lparr>se_creatorAddress = [], se_delegateSig = [], se_salt = [], se_prevMiniblockHash = None,
        se_createdAtEpochMs = 5, se_delegateExpiryEpochMs = 0, se_payload = p\<rparr>,
      pe_hash = [b], pe_hashStr = to_hex [b], pe_prevMiniblockHashStr = None, pe_creatorUserId = ''u''\<rparr>"

definition sample_header :: "int \<Rightarrow> bytes list \<Rightarrow> MiniblockHeader" where
  "sample_header n hs =
     \<lparr>mh_miniblockNum = n, mh_prevMiniblockHash = [], mh_eventHashes = hs, mh_snapshot = None,
      mh_eventNumOffset = 10, mh_prevSnapshotMiniblockNum = 0, mh_contentSet = True\<rparr>"

definition sample_cookie :: SyncCookie where
  "sample_cookie = \<lparr>sc_nodeAddress = [], sc_streamId = [], sc_minipoolGen = 1, sc_minipoolSlot = 0, sc_prevMiniblockHash = []\<rparr>"

definition sample_message :: StreamEvent_payload where
  "sample_message = PL_channelPayload (CP_message (sample_data ''c''))"

definition sample_miniblock :: "int \<Rightarrow> 8 word list \<Rightarrow> ParsedMiniblock" where
  "sample_miniblock n bs =
     \<lparr>pm_hash = [0], pm_header = sample_header n (map (\<lambda>b. [b]) bs),
      pm_events = map (\<lambda>b. sample_parsed b sample_message) bs @
        [sample_parsed 255 (PL_miniblockHeader (sample_header n (map (\<lambda>b. [b]) bs)))]\<rparr>"

definition sample_ops :: "ViewOp list" where
  "sample_ops =
     [VInitialize sample_cookie [sample_parsed 7 sample_message]
        \<lparr>sn_members = None, sn_snapshotVersion = 0, sn_content = SC_channel None\<rparr>
        [sample_miniblock 4 [1, 2]] [] 0 None [],
      VAppend [sample_parsed 7 sample_message, sample_parsed 8 sample_message] sample_cookie None,
      VLocal ''local'' 6 (CM_post ''hi'') sending, VUpdateLocal ''local'' (to_hex [9]) sent,
      VAppend [sample_parsed 9 sample_message, sample_parsed 8 sample_message] sample_cookie None,
      VPrepend [sample_miniblock 3 [3]] None False]"

section \<open>Properties\<close>



text \<open>
  (C17) Appending events never fails and adds exactly the events whose ids the view does not know,
  each once, at the end of the timeline in the order they came, numbered consecutively; a known
  event is only updated. The new part of the timeline is what is announced as appended, and the
  cookie of the next sync is stored.
\<close>
theorem append_exactly_new:
  assumes "view_inv v"
  shows "\<exists>v' es updated confirmed. appendEvents x events cookie ct v =
      (v', es @ [streamUpdated (v_streamId v) (v_contentKind v)
         \<lparr>ch_prepended = None, ch_appended = someEvents v' [length (v_store v)..<length (v_store v')],
          ch_updated = updated, ch_confirmed = confirmed\<rparr>], None)
    \<and> timelineKeys v' = timelineKeys v @
        numbered (v_lastEventNum v) (newIds (dom (v_events v)) (map pe_hashStr events))
    \<and> dom (v_events v') = dom (v_events v) \<union> pe_hashStr ` set events
    \<and> v_syncCookie v' = Some cookie"
proof -
  obtain v' es and r' :: Appends where
    *: "appendEvents x events cookie ct v =
      (v', es @ [streamUpdated (v_streamId v) (v_contentKind v)
         \<lparr>ch_prepended = None, ch_appended = someEvents v' [length (v_store v)..<length (v_store v')],
          ch_updated = someEvents v' (ap_updated r'), ch_confirmed = someEvents v' (ap_confirmed r')\<rparr>], None)"
    "extended v (map pe_hashStr events) v'" "v_syncCookie v' = Some cookie"
    by (rule appendEvents_ok [OF assms])
  then show ?thesis by (auto simp: extended_def)
qed

theorem append_exactly_new_witness:
  "timelineKeys (out_state (appendEvents sample_externs
      [sample_parsed 7 sample_message, sample_parsed 8 sample_message, sample_parsed 7 sample_message]
      sample_cookie None sample_view)) = [(''07'', 0), (''08'', 1)]"
proof -
  have "newIds {} (map pe_hashStr [sample_parsed 7 sample_message, sample_parsed 8 sample_message, sample_parsed 7 sample_message])
      = [''07'', ''08'']" by code_simp
  moreover have "timelineKeys sample_view = []" "v_lastEventNum sample_view = 0" "dom (v_events sample_view) = {}"
    by (simp_all add: sample_view_def timelineKeys_def timelineEvents_def)
  ultimately show ?thesis
    using append_exactly_new [OF StreamView_new_inv [OF sample_view_new], of sample_externs
        "[sample_parsed 7 sample_message, sample_parsed 8 sample_message, sample_parsed 7 sample_message]" sample_cookie None]
    by auto
qed

text \<open>
  (C18) A page of older miniblocks with distinct events is put before the timeline, in order, with
  the numbers of its miniblocks; only events the view does not have are added, the rest of the
  timeline keeps its order and the next event number does not change.
\<close>
theorem prepend_exactly_unknown:
  assumes "view_inv v" and "distinct (map te_hashStr (unknownEvents mbs v))"
  shows "\<exists>v' es. prependEvents x mbs ct terminus em st v = (v', es, None)
    \<and> timelineKeys v' = map (\<lambda>e. (te_hashStr e, te_eventNum e)) (unknownEvents mbs v) @ timelineKeys v
    \<and> v_lastEventNum v' = v_lastEventNum v \<and> view_inv v'"
proof -
  obtain v' es where
    r: "prependEvents x mbs ct terminus em st v = (v', es, None)" "view_inv v'"
    "v_timeline v' = newPositions v (unknownEvents mbs v) @ v_timeline v"
    "map ident (v_store v') = map ident (v_store v @ unknownEvents mbs v)" "v_lastEventNum v' = v_lastEventNum v"
    by (rule prependEvents_ok [OF assms]) blast
  let ?w = "v\<lparr>v_store := v_store v @ unknownEvents mbs v, v_timeline := v_timeline v'\<rparr>"
  have i: "indexed {} v" using assms(1) by (simp add: view_inv_def)
  have len: "length (v_store v') = length (v_store v) + length (unknownEvents mbs v)"
    using arg_cong [OF r(4), of length] by simp
  have "ident (v_store v' ! a) = ident (v_store ?w ! a)" if "a \<in> set (v_timeline v')" for a
    using that r(2,4) len nth_map [of a "v_store v'" ident] nth_map [of a "v_store v @ unknownEvents mbs v" ident]
    by (simp add: view_inv_def indexed_def)
  then have "timelineKeys v' = timelineKeys ?w"
    by (auto simp: timelineKeys_def timelineEvents_def ident_def)
  also have "\<dots> = map (\<lambda>e. (te_hashStr e, te_eventNum e)) (unknownEvents mbs v) @ timelineKeys v"
  proof -
    have "timelineEvents ?w = unknownEvents mbs v @ timelineEvents v"
      using keys_new [OF i, of "unknownEvents mbs v"] by (simp add: timelineEvents_def r(3))
    then show ?thesis by (simp add: timelineKeys_def)
  qed
  finally show ?thesis using r by blast
qed

theorem prepend_exactly_unknown_witness:
  "timelineKeys (out_state (prependEvents sample_externs [sample_miniblock 4 [1, 2]] None False True True sample_view)) =
     [(''01'', 10), (''02'', 11), (''ff'', 12)]"
proof -
  have "distinct (map te_hashStr (unknownEvents [sample_miniblock 4 [1, 2]] sample_view))"
    "map (\<lambda>e. (te_hashStr e, te_eventNum e)) (unknownEvents [sample_miniblock 4 [1, 2]] sample_view) =
      [(''01'', 10), (''02'', 11), (''ff'', 12)]" by code_simp+
  moreover have "timelineKeys sample_view = []" by (simp add: sample_view_def timelineKeys_def timelineEvents_def)
  ultimately show ?thesis
    using prepend_exactly_unknown [OF StreamView_new_inv [OF sample_view_new], of "[sample_miniblock 4 [1, 2]]"
        sample_externs None False True True] by auto
qed

text \<open>
  (C30) The life of a message this client sends: the local event is appended under its local id, it
  takes the hash of the signed event when that is known, and the copy that comes back from the
  network is recognised by that hash. The timeline ends with one event for the message, which
  carries both the local and the remote event and still has its first number; the events before it
  are those from before, and no step fails.
\<close>
theorem local_event_lifecycle:
  assumes "view_inv v" "v_events v localId = None" "v_events v (pe_hashStr pe) = None" "pe_hashStr pe \<noteq> localId"
    and "r1 = appendLocalEvent localId now msg st1 em v"
    and "r2 = updateLocalEvent localId (pe_hashStr pe) st2 (out_state r1)"
    and "r3 = appendEvents x [pe] cookie ct (out_state r2)"
  shows "out_error r1 = None \<and> out_error r2 = None \<and> out_error r3 = None
    \<and> timelineHashes (out_state r1) = timelineHashes v @ [localId]
    \<and> timelineHashes (out_state r2) = timelineHashes v @ [pe_hashStr pe]
    \<and> (\<exists>e. timelineEvents (out_state r3) = timelineEvents v @ [e] \<and> te_hashStr e = pe_hashStr pe \<and>
         te_localEvent e = Some \<lparr>le_localId = localId, le_channelMessage = msg, le_status = st2\<rparr> \<and>
         te_remoteEvent e = Some pe \<and> te_eventNum e = v_lastEventNum v)"
proof -
  let ?n = "length (v_store v)"
  define e where "e = \<lparr>te_hashStr = localId, te_creatorUserId = v_userId v, te_eventNum = v_lastEventNum v,
    te_createdAtEpochMs = now,
    te_localEvent = Some \<lparr>le_localId = localId, le_channelMessage = msg, le_status = st1\<rparr>,
    te_remoteEvent = None, te_decryptedContent = None, te_decryptedContentError = None,
    te_miniblockNum = None, te_confirmedEventNum = None\<rparr>"
  define w where "w = out_state r1"
  have w: "v_store w = v_store v @ [e]" "v_timeline w = v_timeline v @ [?n]" "v_events w = (v_events v)(localId \<mapsto> ?n)"
    and r1: "out_error r1 = None"
    unfolding w_def assms(5) by (simp_all add: appendLocalEvent_def Let_def andThen_state andThen_error e_def)
  define e2 where "e2 = e\<lparr>te_hashStr := pe_hashStr pe,
    te_localEvent := Some \<lparr>le_localId = localId, le_channelMessage = msg, le_status = st2\<rparr>\<rparr>"
  have r2: "out_state r2 = w\<lparr>v_store := v_store v @ [e2], v_events := (v_events v)(localId \<mapsto> ?n, pe_hashStr pe \<mapsto> ?n)\<rparr>"
    "out_error r2 = None"
    unfolding assms(6) w_def [symmetric] by (simp_all add: updateLocalEvent_def w e_def e2_def Let_def)
  have r3: "v_store (out_state r3) = v_store v @ [e2\<lparr>te_remoteEvent := Some pe\<rparr>]" "v_timeline (out_state r3) = v_timeline v @ [?n]"
    "out_error r3 = None"
    unfolding assms(7) r2(1)
    by (simp_all add: appendEvents_def appendStreamAndCookie_def appendOne_def effect_simps w)
  have "indexed {} v" using assms(1) by (simp add: view_inv_def)
  note tl = keys_new(2) [OF this]
  show ?thesis
    using r1 r2(2) r3 tl unfolding w_def [symmetric] r2(1)
    by (simp add: timelineHashes_def timelineEvents_def w) (simp add: e_def e2_def)
qed

theorem local_event_lifecycle_witness:
  "let r1 = appendLocalEvent ''local'' 6 (CM_post ''hi'') sending True sample_view;
       r2 = updateLocalEvent ''local'' (to_hex [9]) sent (out_state r1);
       r3 = appendEvents sample_externs [sample_parsed 9 sample_message] sample_cookie None (out_state r2)
   in length (timelineEvents (out_state r3)) = 1"
proof -
  have "v_events sample_view = Map.empty" by (simp add: sample_view_def)
  moreover have "pe_hashStr (sample_parsed 9 sample_message) = to_hex [9]" "to_hex [9] \<noteq> ''local''"
    by (simp_all add: sample_parsed_def)
  moreover have "timelineEvents sample_view = []" by (simp add: sample_view_def timelineEvents_def)
  ultimately show ?thesis
    using local_event_lifecycle [OF StreamView_new_inv [OF sample_view_new] _ _ _ refl refl refl, of "''local''"
        "sample_parsed 9 sample_message" 6 "CM_post ''hi''" sending True sent sample_externs sample_cookie None]
    by (auto simp: Let_def)
qed

end
