(* ===== verification/Confirmation.thy ===== *)
theory Confirmation
  imports Views
begin

text \<open>
  What a miniblock header does when it is appended: which of the events it lists are confirmed, with
  which numbers, and that a header older than the newest known miniblock is refused without
  touching any other event.
\<close>

section \<open>Confirming one event\<close>

text \<open>
  The addresses in the membership and ENS events that wait for confirmation can be read, so that
  confirming them raises nothing. An event with an unreadable address aborts the confirmation of
  the events listed after it.
\<close>

definition ensReadable :: "externs \<Rightarrow> EnsAddresses \<Rightarrow> bool" where
  "ensReadable x s =
     (\<forall>h e. en_ensAddressEvents s h = Some e \<longrightarrow>
        ee_ensAddress e = [] \<or> (\<exists>u. userIdFromAddress x (ee_ensAddress e) = Inr u))"

definition pendingReadable :: "externs \<Rightarrow> Members \<Rightarrow> bool" where
  "pendingReadable x m =
     ((\<forall>h e. ms_pendingMembershipEvents (mb_membership m) h = Some e \<longrightarrow>
         (\<exists>u. userIdFromAddress x (mm_userAddress e) = Inr u)) \<and>
      ensReadable x (md_ensAddresses (mb_userMetadata m)))"

lemma applyMembershipEvent_pending [simp]:
  "ms_pendingMembershipEvents (out_state (applyMembershipEvent u op t st m)) = ms_pendingMembershipEvents m"
  "out_error (applyMembershipEvent u op t st m) = None"
  by (simp_all add: applyMembershipEvent_def Let_def emitMembershipChange_def andThen_state andThen_error
      split: MembershipOp.split)

lemma setConfirmedEns_ok:
  "ee = [] \<or> (\<exists>a. userIdFromAddress x ee = Inr a) \<Longrightarrow> out_error (setConfirmedEns x u ee s) = None"
  "en_ensAddressEvents (out_state (setConfirmedEns x u ee s)) = en_ensAddressEvents s"
  by (auto simp: setConfirmedEns_def with_value_def split: sum.split)

lemma emitEns_out [simp]:
  "out_state (emitEnsAddressUpdated i st s) = s" "out_error (emitEnsAddressUpdated i st s) = None"
  by (simp_all add: emitEnsAddressUpdated_def split: option.split)

lemma ens_confirm_ok:
  assumes "ensReadable x s"
  shows "out_error (EnsAddresses_onConfirmEvent x i st s) = None"
    "ensReadable x (out_state (EnsAddresses_onConfirmEvent x i st s))"
proof -
  have "out_error (EnsAddresses_onConfirmEvent x i st s) = None \<and> ensReadable x (out_state (EnsAddresses_onConfirmEvent x i st s))"
  proof (cases "en_ensAddressEvents s i")
    case (Some e)
    then have r: "ee_ensAddress e = [] \<or> (\<exists>u. userIdFromAddress x (ee_ensAddress e) = Inr u)"
      using assms unfolding ensReadable_def by blast
    then show ?thesis
      using assms Some
      by (simp add: EnsAddresses_onConfirmEvent_def ensReadable_def andThen_state andThen_error setConfirmedEns_ok)
  qed (simp add: EnsAddresses_onConfirmEvent_def assms)
  then show "out_error (EnsAddresses_onConfirmEvent x i st s) = None"
    "ensReadable x (out_state (EnsAddresses_onConfirmEvent x i st s))" by simp_all
qed

lemma metadata_confirm_ok:
  assumes "ensReadable x (md_ensAddresses s)"
  shows "out_error (UserMetadata_onConfirmedEvent x i st s) = None"
    "ensReadable x (md_ensAddresses (out_state (UserMetadata_onConfirmedEvent x i st s)))"
proof -
  have "out_error (Usernames_onConfirmEvent i st u) = None" "out_error (DisplayNames_onConfirmEvent i st d) = None"
    "out_error (Nfts_onConfirmEvent i st n) = None" for u d n
    by (simp_all add: Usernames_onConfirmEvent_def DisplayNames_onConfirmEvent_def
        Nfts_onConfirmEvent_def emitUsernameUpdated_def emitDisplayNameUpdated_def
        emitNftUpdated_def Let_def split: option.split)
  then show "out_error (UserMetadata_onConfirmedEvent x i st s) = None"
    "ensReadable x (md_ensAddresses (out_state (UserMetadata_onConfirmedEvent x i st s)))"
    using ens_confirm_ok [OF assms] by (simp_all add: UserMetadata_onConfirmedEvent_def andThen_error andThen_state)
qed

lemma confirmMembership_ok:
  assumes "pendingReadable x m"
  shows "out_error (confirmMembership x e st m) = None" "pendingReadable x (out_state (confirmMembership x e st m))"
proof -
  have "out_error (confirmMembership x e st m) = None \<and> pendingReadable x (out_state (confirmMembership x e st m))"
  proof (cases "ms_pendingMembershipEvents (mb_membership m) (te_hashStr e)")
    case (Some ms)
    then obtain u where "userIdFromAddress x (mm_userAddress ms) = Inr u"
      using assms unfolding pendingReadable_def by blast
    then show ?thesis
      using assms Some by (auto simp: confirmMembership_def Let_def pendingReadable_def with_value_def setJoined_def
          split: option.split)
  qed (simp add: confirmMembership_def assms)
  then show "out_error (confirmMembership x e st m) = None" "pendingReadable x (out_state (confirmMembership x e st m))"
    by simp_all
qed

lemma members_confirm_ok:
  assumes "pendingReadable x m"
  shows "out_error (Members_onConfirmedEvent x e p st m) = None"
    "pendingReadable x (out_state (Members_onConfirmedEvent x e p st m))"
  using assms confirmMembership_ok [OF assms] metadata_confirm_ok [of x "mb_userMetadata m"]
  by (cases p; simp add: Members_onConfirmedEvent_def pendingReadable_def)+

lemma content_confirm_error [simp]: "out_error (Content_onConfirmedEvent e st c) = None"
  by (cases c) (auto simp: lift_view_def UserInbox_onConfirmedEvent_def addGroupSessions_def effect_simps
      split: option.split prod.split)

text \<open>The parts of a view that confirming an event does not touch.\<close>

definition same_book :: "StreamView \<Rightarrow> StreamView \<Rightarrow> bool" where
  "same_book v v' =
     (v_events v' = v_events v \<and> v_timeline v' = v_timeline v \<and> v_miniblockInfo v' = v_miniblockInfo v \<and>
      v_prevMiniblockHash v' = v_prevMiniblockHash v \<and> v_streamId v' = v_streamId v \<and>
      v_contentKind v' = v_contentKind v \<and> v_lastEventNum v' = v_lastEventNum v)"

definition stamped :: "MiniblockHeader \<Rightarrow> nat \<Rightarrow> StreamTimelineEvent \<Rightarrow> StreamTimelineEvent" where
  "stamped header i e =
     e\<lparr>te_miniblockNum := Some (mh_miniblockNum header),
       te_confirmedEventNum := Some (mh_eventNumOffset header + int i)\<rparr>"

lemma stamped_alt:
  "e\<lparr>te_confirmedEventNum := Some (mh_eventNumOffset header + int i),
     te_miniblockNum := Some (mh_miniblockNum header)\<rparr> = stamped header i e"
  by (cases e) (simp add: stamped_def)

lemma confirmListed_unknown:
  "v_events v (bin_toHexString x h) = None \<Longrightarrow> confirmListed x header em (i, h) (v, c) = pass (v, c)"
  by (simp add: confirmListed_def)

lemma confirmListed_known:
  assumes "v_events v (bin_toHexString x h) = Some a" "isRemoteEvent (v_store v ! a)"
    and "pendingReadable x (v_membershipContent v)"
  obtains v' es where "confirmListed x header em (i, h) (v, c) = ((v', c @ [a]), es, None)"
    "v_store v' = (v_store v)[a := stamped header i (v_store v ! a)]" "same_book v v'"
    "pendingReadable x (v_membershipContent v')"
proof -
  let ?e = "stamped header i (v_store v ! a)"
  let ?v = "setEvent a ?e v"
  define g where "g = (case eventPayload ?e of
      PL_memberPayload payload \<Rightarrow> on_members (Members_onConfirmedEvent x ?e payload em)
    | PL_undefined \<Rightarrow> pass | _ \<Rightarrow> on_content (Content_onConfirmedEvent ?e em))"
  have conf: "isConfirmedEvent ?e" using assms(2) by (simp add: stamped_def isConfirmedEvent_def isRemoteEvent_def)
  have m: "pendingReadable x (v_membershipContent ?v)" using assms(3) by simp
  have err: "out_error (g ?v) = None"
    using members_confirm_ok(1) [OF m] by (simp add: g_def split: StreamEvent_payload.split)
  have st: "v_store (out_state (g ?v)) = v_store ?v" "same_book ?v (out_state (g ?v))"
    "pendingReadable x (v_membershipContent (out_state (g ?v)))"
    using m members_confirm_ok(2) [OF m]
    by (simp_all add: g_def same_book_def v_contentKind_def split: StreamEvent_payload.split)
  obtain w es where w: "g ?v = (w, es, None)" by (rule ok_outcome [OF err])
  have eq: "confirmListed x header em (i, h) (v, c) = ((w, c @ [a]), es, None)"
    using assms(1) conf w
    by (simp add: confirmListed_def Let_def stamped_def [symmetric] g_def [symmetric] effect_simps)
  have "same_book v w" using st(2) w by (simp add: same_book_def v_contentKind_def)
  then show ?thesis using that [OF eq] st w by simp
qed

section \<open>Confirming the listed events\<close>

text \<open>The positions of the listed events that the view knows.\<close>

definition listedPositions :: "externs \<Rightarrow> StreamView \<Rightarrow> bytes list \<Rightarrow> nat list" where
  "listedPositions x v hs = List.map_filter (\<lambda>h. v_events v (bin_toHexString x h)) hs"

lemma listedPositions_simps [simp]:
  "listedPositions x v [] = []"
  "listedPositions x v (h # hs) =
     (case v_events v (bin_toHexString x h) of None \<Rightarrow> [] | Some a \<Rightarrow> [a]) @ listedPositions x v hs"
  by (simp_all add: listedPositions_def map_filter_simps split: option.split)

lemma listedPositions_mem:
  "i < length hs \<Longrightarrow> v_events v (bin_toHexString x (hs ! i)) = Some a \<Longrightarrow> a \<in> set (listedPositions x v hs)"
  by (auto simp: listedPositions_def map_filter_def intro!: rev_image_eqI)

text \<open>The store after the events at the listed positions got their numbers, counted from \<open>k\<close>.\<close>

definition confirmedStore :: "externs \<Rightarrow> MiniblockHeader \<Rightarrow> nat \<Rightarrow> bytes list \<Rightarrow> StreamView \<Rightarrow> StreamView \<Rightarrow> bool" where
  "confirmedStore x header k hs v v' =
     (length (v_store v') = length (v_store v) \<and>
      (\<forall>a. a \<notin> set (listedPositions x v hs) \<longrightarrow> v_store v' ! a = v_store v ! a) \<and>
      (\<forall>i < length hs. \<forall>a. v_events v (bin_toHexString x (hs ! i)) = Some a \<longrightarrow>
         v_store v' ! a = stamped header (k + i) (v_store v ! a)))"

lemma confirmedStore_unknown:
  assumes "confirmedStore x header (Suc k) hs v v'" "v_events v (bin_toHexString x h) = None"
  shows "confirmedStore x header k (h # hs) v v'"
proof -
  have "v_store v' ! a = stamped header (k + i) (v_store v ! a)"
    if "i < length (h # hs)" "v_events v (bin_toHexString x ((h # hs) ! i)) = Some a" for i a
    using that assms by (cases i) (simp_all add: confirmedStore_def)
  then show ?thesis using assms by (simp add: confirmedStore_def)
qed

lemma confirmedStore_known:
  assumes "confirmedStore x header (Suc k) hs w v'" "v_events v (bin_toHexString x h) = Some a"
    and "v_store w = (v_store v)[a := stamped header k (v_store v ! a)]" "same_book v w"
    and "a < length (v_store v)" "a \<notin> set (listedPositions x v hs)"
  shows "confirmedStore x header k (h # hs) v v'"
proof -
  have ev: "v_events w = v_events v" and p: "listedPositions x w hs = listedPositions x v hs"
    using assms(4) by (simp_all add: same_book_def listedPositions_def)
  have "v_store v' ! b = stamped header (k + i) (v_store v ! b)"
    if "i < length (h # hs)" "v_events v (bin_toHexString x ((h # hs) ! i)) = Some b" for i b
  proof (cases i)
    case 0
    then show ?thesis using that(2) assms p by (simp add: confirmedStore_def)
  next
    case (Suc j)
    then have "b \<in> set (listedPositions x v hs)" using that by (simp add: listedPositions_mem)
    then have "b \<noteq> a" using assms(6) by blast
    then show ?thesis using that Suc assms(1,3) ev by (simp add: confirmedStore_def)
  qed
  moreover have "v_store v' ! b = v_store v ! b" if "b \<notin> set (listedPositions x v (h # hs))" for b
    using that assms(1-3) p by (simp add: confirmedStore_def)
  moreover have "length (v_store v') = length (v_store v)" using assms(1,3) by (simp add: confirmedStore_def)
  ultimately show ?thesis by (simp add: confirmedStore_def)
qed

lemma confirmAll:
  assumes "pendingReadable x (v_membershipContent v)" "distinct (listedPositions x v hs)"
    and "\<forall>a \<in> set (listedPositions x v hs). a < length (v_store v) \<and> isRemoteEvent (v_store v ! a)"
  obtains v' es where
    "for_each (confirmListed x header em) (enumerate k hs) (v, c) = ((v', c @ listedPositions x v hs), es, None)"
    "same_book v v'" "confirmedStore x header k hs v v'"
  using assms
proof (induction hs arbitrary: v c k thesis)
  case Nil
  then show ?case by (simp add: pass_def same_book_def confirmedStore_def)
next
  case (Cons h hs)
  show ?case
  proof (cases "v_events v (bin_toHexString x h)")
    case None
    obtain v' es where
      *: "for_each (confirmListed x header em) (enumerate (Suc k) hs) (v, c) = ((v', c @ listedPositions x v hs), es, None)"
      "same_book v v'" "confirmedStore x header (Suc k) hs v v'"
      by (rule Cons.IH [where v = v and k = "Suc k" and c = c]) (use Cons.prems None in simp_all)
    have "for_each (confirmListed x header em) (enumerate k (h # hs)) (v, c) =
        ((v', c @ listedPositions x v (h # hs)), es, None)"
      using *(1) None by (simp add: effect_simps confirmListed_unknown)
    then show ?thesis using Cons.prems(1) *(2) confirmedStore_unknown [OF *(3) None] by blast
  next
    case (Some a)
    have a: "a < length (v_store v)" "isRemoteEvent (v_store v ! a)" "a \<notin> set (listedPositions x v hs)"
      using Cons.prems(3,4) Some by simp_all
    obtain w es1 where w: "confirmListed x header em (k, h) (v, c) = ((w, c @ [a]), es1, None)"
      "v_store w = (v_store v)[a := stamped header k (v_store v ! a)]" "same_book v w"
      "pendingReadable x (v_membershipContent w)"
      by (rule confirmListed_known [OF Some a(2) Cons.prems(2)])
    have p: "listedPositions x w hs = listedPositions x v hs"
      using w(3) by (simp add: same_book_def listedPositions_def)
    obtain v' es where
      *: "for_each (confirmListed x header em) (enumerate (Suc k) hs) (w, c @ [a]) =
          ((v', (c @ [a]) @ listedPositions x w hs), es, None)"
      "same_book w v'" "confirmedStore x header (Suc k) hs w v'"
      by (rule Cons.IH [where v = w and k = "Suc k" and c = "c @ [a]"])
        (use Cons.prems(3,4) Some a w(2,4) p in \<open>auto simp: nth_list_update\<close>)
    have "for_each (confirmListed x header em) (enumerate k (h # hs)) (v, c) =
        ((v', c @ listedPositions x v (h # hs)), es1 @ es, None)"
      using *(1) w(1) Some p by (simp add: effect_simps)
    moreover have "same_book v v'" using w(3) *(2) by (simp add: same_book_def)
    ultimately show ?thesis
      using Cons.prems(1) confirmedStore_known [OF *(3) Some w(2,3) a(1,3)] by blast
  qed
qed

section \<open>Appending a header\<close>

definition newerHeader :: "StreamView \<Rightarrow> MiniblockHeader \<Rightarrow> bool" where
  "newerHeader v header =
     (case v_miniblockInfo v of
        None \<Rightarrow> 0 \<le> mh_miniblockNum header
      | Some i \<Rightarrow> 0 \<le> mbi_max i \<and> mbi_max i < mh_miniblockNum header)"

definition headerReadable :: "externs \<Rightarrow> MiniblockHeader \<Rightarrow> bool" where
  "headerReadable x header =
     (case mh_snapshot header of None \<Rightarrow> True | Some s \<Rightarrow> \<not> isl (migrateSnapshot x s))"

lemma updateMiniblockInfo_fields [simp]:
  "v_store (updateMiniblockInfo h a b v) = v_store v" "v_events (updateMiniblockInfo h a b v) = v_events v"
  "v_timeline (updateMiniblockInfo h a b v) = v_timeline v"
  "v_membershipContent (updateMiniblockInfo h a b v) = v_membershipContent v"
  "v_prevMiniblockHash (updateMiniblockInfo h a b v) = v_prevMiniblockHash v"
  "v_streamId (updateMiniblockInfo h a b v) = v_streamId v" "v_content (updateMiniblockInfo h a b v) = v_content v"
  "v_lastEventNum (updateMiniblockInfo h a b v) = v_lastEventNum v"
  by (simp_all add: updateMiniblockInfo_def Let_def split: option.split)

lemma updateMiniblockInfo_newest:
  "newerHeader v header \<Longrightarrow>
   (\<exists>i. v_miniblockInfo (updateMiniblockInfo header (Some (mh_miniblockNum header)) None v) = Some i \<and>
      mbi_max i = mh_miniblockNum header)"
  by (auto simp: updateMiniblockInfo_def newerHeader_def truthyNum_def Let_def split: option.splits)

text \<open>The bookkeeping of a newer header succeeds.\<close>

lemma headerBookkeeping_ok:
  assumes "newerHeader v header" "headerReadable x header"
  obtains u where "(headerBookkeeping x a hash header v :: (StreamView, emission) outcome) = (u, [], None)"
    "v_store u = (v_store v)[a := stamped header (length (mh_eventHashes header)) (v_store v ! a)]"
    "v_events u = v_events v" "v_timeline u = v_timeline v" "v_membershipContent u = v_membershipContent v"
    "\<exists>i. v_miniblockInfo u = Some i \<and> mbi_max i = mh_miniblockNum header" "v_prevMiniblockHash u = Some hash"
    "v_streamId u = v_streamId v" "v_contentKind u = v_contentKind v"
proof -
  obtain s' where s': "(case mh_snapshot header of None \<Rightarrow> pass v
      | Some s \<Rightarrow> with_value (migrateSnapshot x s) (\<lambda>s v. pass (v\<lparr>v_snapshot := Some s\<rparr>)) v) =
      (pass (v\<lparr>v_snapshot := s'\<rparr>) :: (StreamView, emission) outcome)"
  proof (cases "mh_snapshot header")
    case None
    then show ?thesis using that [of "v_snapshot v"] by simp
  next
    case (Some s)
    then obtain t where "migrateSnapshot x s = Inr t"
      using assms(2) by (auto simp: headerReadable_def isl_def split: sum.splits) (metis sum.exhaust_sel)
    then show ?thesis using that [of "Some t"] Some by (simp add: with_value_def)
  qed
  let ?w = "updateMiniblockInfo header (Some (mh_miniblockNum header)) None
    (v\<lparr>v_snapshot := s', v_prevMiniblockHash := Some hash\<rparr>)"
  have n: "(case v_miniblockInfo v of Some i \<Rightarrow> mbi_max i | None \<Rightarrow> - 1) < mh_miniblockNum header"
    using assms(1) by (simp add: newerHeader_def split: option.splits)
  have "(headerBookkeeping x a hash header v :: (StreamView, emission) outcome) =
      (setEvent a (stamped header (length (mh_eventHashes header)) (v_store ?w ! a)) ?w, [], None)"
    using n s' by (simp add: effect_simps Let_def stamped_alt)
  moreover have "newerHeader (v\<lparr>v_snapshot := s', v_prevMiniblockHash := Some hash\<rparr>) header"
    using assms(1) by (simp add: newerHeader_def)
  ultimately show ?thesis
    using that updateMiniblockInfo_newest by (simp add: v_contentKind_def)
qed

lemma appendHeader_ok:
  assumes "newerHeader v header" "headerReadable x header" "a < length (v_store v)" "hs = mh_eventHashes header"
    and "pendingReadable x (v_membershipContent v)" "distinct (listedPositions x v hs)"
    and "a \<notin> set (listedPositions x v hs)"
    and "\<forall>b \<in> set (listedPositions x v hs). b < length (v_store v) \<and> isRemoteEvent (v_store v ! b)"
  obtains v' es where
    "appendedMiniblockHeader x a hash header em v = ((v', listedPositions x v hs), es, None)"
    "v_events v' = v_events v" "v_streamId v' = v_streamId v" "v_contentKind v' = v_contentKind v"
    "confirmedStore x header 0 hs (setEvent a (stamped header (length hs) (v_store v ! a)) v) v'"
    "\<exists>i. v_miniblockInfo v' = Some i \<and> mbi_max i = mh_miniblockNum header" "v_prevMiniblockHash v' = Some hash"
proof -
  obtain u where u: "(headerBookkeeping x a hash header v :: (StreamView, emission) outcome) = (u, [], None)"
    "v_store u = (v_store v)[a := stamped header (length hs) (v_store v ! a)]"
    "v_events u = v_events v" "v_timeline u = v_timeline v" "v_membershipContent u = v_membershipContent v"
    "\<exists>i. v_miniblockInfo u = Some i \<and> mbi_max i = mh_miniblockNum header" "v_prevMiniblockHash u = Some hash"
    "v_streamId u = v_streamId v" "v_contentKind u = v_contentKind v"
    unfolding assms(4) by (rule headerBookkeeping_ok [OF assms(1,2)])
  have p: "listedPositions x u hs = listedPositions x v hs" by (simp add: listedPositions_def u(3))
  have "b < length (v_store u) \<and> isRemoteEvent (v_store u ! b)" if "b \<in> set (listedPositions x u hs)" for b
  proof -
    have "b \<noteq> a" using assms(7) that by (auto simp: p)
    then show ?thesis using assms(8) that u(2) by (simp add: p)
  qed
  then obtain v' es where
    *: "for_each (confirmListed x header em) (enumerate 0 hs) (u, []) = ((v', [] @ listedPositions x u hs), es, None)"
    "same_book u v'" "confirmedStore x header 0 hs u v'"
    using confirmAll [of x u hs header em 0 "[]"] assms(5,6) u(5) p by metis
  have "appendedMiniblockHeader x a hash header em v = ((v', listedPositions x v hs), es, None)"
    unfolding appendedMiniblockHeader_def u(1) using *(1) p by (simp add: processMiniblockHeader_def assms(4) [symmetric])
  moreover have "confirmedStore x header 0 hs (setEvent a (stamped header (length hs) (v_store v ! a)) v) v'"
    using *(3) u(2,3) by (simp add: confirmedStore_def listedPositions_def)
  ultimately show ?thesis
    using that *(2) u by (simp add: same_book_def)
qed

section \<open>Properties\<close>

text \<open>
  (C7) Appending the header of a newer miniblock confirms exactly the events it lists. It is appended
  to a consistent view that does not have it yet; the header and the pending memberships of the view
  can be read, the header does not list itself, and the listed events the view knows are different
  ones and all remote. Then the listed event at index \<open>i\<close> that the view knows gets the number of the
  miniblock and the event number of the header's offset plus \<open>i\<close>, the header itself gets the
  number after the last of them, every other event is left alone, the confirmed events are announced
  in the order of the list, and the miniblock becomes the newest known one. Where one of the listed
  events cannot be confirmed the loop stops instead and leaves the rest unconfirmed.
\<close>
theorem header_confirms_listed:
  assumes "view_inv v" "v_events v (pe_hashStr pe) = None"
    and "se_payload (pe_event pe) = PL_miniblockHeader header" "hs = mh_eventHashes header"
    and "newerHeader v header" "headerReadable x header" "pendingReadable x (v_membershipContent v)"
    and "distinct (listedPositions x v hs)" "pe_hashStr pe \<notin> bin_toHexString x ` set hs"
    and "\<forall>a \<in> set (listedPositions x v hs). isRemoteEvent (v_store v ! a)"
  shows "\<exists>v' es u. appendEvents x [pe] cookie ct v =
      (v', es @ [streamUpdated (v_streamId v) (v_contentKind v)
         \<lparr>ch_prepended = None, ch_appended = someEvents v' [length (v_store v)], ch_updated = u,
          ch_confirmed = someEvents v' (listedPositions x v hs)\<rparr>], None)
    \<and> (\<forall>i < length hs. \<forall>a. v_events v (bin_toHexString x (hs ! i)) = Some a \<longrightarrow>
         v_store v' ! a = stamped header i (v_store v ! a))
    \<and> (\<forall>a < length (v_store v). a \<notin> set (listedPositions x v hs) \<longrightarrow> v_store v' ! a = v_store v ! a)
    \<and> v_store v' ! length (v_store v) =
        stamped header (length hs) (makeRemoteTimelineEvent pe (v_lastEventNum v) None None)
    \<and> (\<exists>i. v_miniblockInfo v' = Some i \<and> mbi_max i = mh_miniblockNum header)
    \<and> v_prevMiniblockHash v' = Some (pe_hash pe)"
proof -
  let ?n = "length (v_store v)" and ?e = "makeRemoteTimelineEvent pe (v_lastEventNum v) None None"
  define w where "w = v\<lparr>v_lastEventNum := v_lastEventNum v + 1, v_store := v_store v @ [?e],
    v_timeline := v_timeline v @ [?n], v_events := (v_events v)(pe_hashStr pe \<mapsto> ?n)\<rparr>"
  have p: "listedPositions x w hs = listedPositions x v hs"
    using assms(9) unfolding listedPositions_def w_def
    by (induction hs) (auto simp: map_filter_simps split: option.split)
  have lt: "a < ?n" if "a \<in> set (listedPositions x v hs)" for a
    using that assms(1) by (auto simp: listedPositions_def map_filter_def view_inv_def indexed_def)
  have ev: "v_events w (bin_toHexString x (hs ! i)) = v_events v (bin_toHexString x (hs ! i))" if "i < length hs" for i
  proof -
    have "bin_toHexString x (hs ! i) \<noteq> pe_hashStr pe" using assms(9) nth_mem [OF that] by (metis image_eqI)
    then show ?thesis by (simp add: w_def)
  qed
  have w: "newerHeader w header" "?n < length (v_store w)" "pendingReadable x (v_membershipContent w)"
    "distinct (listedPositions x w hs)" "?n \<notin> set (listedPositions x w hs)"
    using assms(5,7,8) p lt by (auto simp: newerHeader_def w_def)
  have rem: "\<forall>b \<in> set (listedPositions x w hs). b < length (v_store w) \<and> isRemoteEvent (v_store w ! b)"
    using assms(10) p less_SucI [OF lt] lt by (simp add: w_def nth_append)
  obtain v' es where
    *: "appendedMiniblockHeader x ?n (pe_hash pe) header True w = ((v', listedPositions x w hs), es, None)"
    "v_streamId v' = v_streamId w" "v_contentKind v' = v_contentKind w"
    "confirmedStore x header 0 hs (setEvent ?n (stamped header (length hs) (v_store w ! ?n)) w) v'"
    "\<exists>i. v_miniblockInfo v' = Some i \<and> mbi_max i = mh_miniblockNum header" "v_prevMiniblockHash v' = Some (pe_hash pe)"
    by (rule appendHeader_ok [OF w(1) assms(6) w(2) assms(4) w(3-5) rem])
  have "te_hashStr ?e = pe_hashStr pe" "te_remoteEvent ?e = Some pe" by (simp_all add: makeRemoteTimelineEvent_def)
  then have eq: "appendEvents x [pe] cookie ct v =
      (v'\<lparr>v_syncCookie := Some cookie\<rparr>, es @ [streamUpdated (v_streamId v) (v_contentKind v)
         \<lparr>ch_prepended = None, ch_appended = someEvents v' [?n], ch_updated = None,
          ch_confirmed = someEvents v' (listedPositions x v hs)\<rparr>], None)"
    using assms(2,3) *(1-3) p
    by (simp add: appendEvents_def appendStreamAndCookie_def appendOne_def processAppendedEvent_def appendedPayload_def
        eventPayload_def effect_simps Let_def w_def [symmetric] someEvents_def v_contentKind_def)
      (simp add: w_def v_contentKind_def)
  have st: "confirmedStore x header 0 hs (w\<lparr>v_store := v_store v @ [stamped header (length hs) ?e]\<rparr>) v'"
    using *(4) by (simp add: w_def)
  have p': "listedPositions x (w\<lparr>v_store := s\<rparr>) hs = listedPositions x v hs" for s
    using p by (simp add: listedPositions_def)
  have "v_store v' ! a = v_store v ! a" if "a < ?n" "a \<notin> set (listedPositions x v hs)" for a
    using st that by (simp add: confirmedStore_def p' nth_append)
  moreover have "v_store v' ! a = stamped header i (v_store v ! a)"
    if "i < length hs" "v_events v (bin_toHexString x (hs ! i)) = Some a" for i a
    using st that ev [OF that(1)] lt [OF listedPositions_mem [OF that]] by (simp add: confirmedStore_def nth_append)
  moreover have "v_store v' ! ?n = stamped header (length hs) ?e"
  proof -
    have "?n \<notin> set (listedPositions x v hs)" using lt by blast
    then show ?thesis using st by (simp add: confirmedStore_def p')
  qed
  ultimately show ?thesis
    unfolding eq using *(5,6) by (simp add: someEvents_def)
qed

definition sample_confirmable :: StreamView where
  "sample_confirmable = sample_view\<lparr>
     v_store := [makeRemoteTimelineEvent (sample_parsed 7 sample_message) 0 None None,
                 makeRemoteTimelineEvent (sample_parsed 8 sample_message) 1 None None],
     v_timeline := [0, 1], v_events := [''07'' \<mapsto> 0, ''08'' \<mapsto> 1], v_lastEventNum := 2\<rparr>"

lemma sample_confirmable_inv: "view_inv sample_confirmable"
proof -
  have "te_hashStr (v_store sample_confirmable ! 0) = ''07''" "te_hashStr (v_store sample_confirmable ! 1) = ''08''"
    by code_simp+
  then show ?thesis
    by (auto simp: view_inv_def indexed_def info_ok_def sample_confirmable_def sample_view_def less_Suc_eq)
qed

theorem header_confirms_listed_witness:
  "let v' = out_state (appendEvents sample_externs
       [sample_parsed 255 (PL_miniblockHeader (sample_header 1 [[8], [7]]))] sample_cookie None sample_confirmable)
   in v_store v' ! 1 = stamped (sample_header 1 [[8], [7]]) 0 (v_store sample_confirmable ! 1) \<and>
      v_prevMiniblockHash v' = Some [255]"
proof -
  let ?h = "sample_header 1 [[8], [7]]"
  have ev: "v_events sample_confirmable ''ff'' = None" "v_events sample_confirmable ''08'' = Some 1"
    "v_events sample_confirmable ''07'' = Some 0" "v_miniblockInfo sample_confirmable = None"
    "isRemoteEvent (v_store sample_confirmable ! 0)" "isRemoteEvent (v_store sample_confirmable ! 1)" by code_simp+
  have hex: "bin_toHexString sample_externs [8] = ''08''" "bin_toHexString sample_externs [7] = ''07''"
    "pe_hashStr (sample_parsed 255 p) = ''ff''" for p by code_simp+
  have l: "mh_eventHashes ?h = [[8], [7]]" "mh_snapshot ?h = None" "mh_miniblockNum ?h = 1"
    by (simp_all add: sample_header_def)
  have "ms_pendingMembershipEvents (mb_membership (v_membershipContent sample_confirmable)) = Map.empty"
    "en_ensAddressEvents (md_ensAddresses (mb_userMetadata (v_membershipContent sample_confirmable))) = Map.empty"
    by (simp_all add: sample_confirmable_def sample_view_def Members_new_def Membership_new_def UserMetadata_new_def
        EnsAddresses_new_def)
  then have pr: "pendingReadable sample_externs (v_membershipContent sample_confirmable)"
    by (simp add: pendingReadable_def ensReadable_def)
  show ?thesis
    using header_confirms_listed [OF sample_confirmable_inv _ _ refl, of
        "sample_parsed 255 (PL_miniblockHeader ?h)" ?h sample_externs sample_cookie None] ev hex l pr
    by (auto simp: Let_def newerHeader_def headerReadable_def sample_parsed_def)
qed



end
