(* ===== verification/Queues.thy ===== *)
theory Queues
  imports Prelude "HOL-Library.Multiset" "HOL-Library.List_Lexorder" "HOL-Library.Char_ord"
begin

text \<open>
  The array helpers at the end of \<open>core/encryption/src/decryptionExtensions.ts\<close>, on which the queues
  of the decryption extension are built, and the contract its dequeue functions share. A \<open>Date\<close> is
  its time in milliseconds, and a function that takes an item out of an array returns the item and
  the array without it.
\<close>

section \<open>Operations\<close>

text \<open>The loop that looks, from the end, for the last item that is not later than the new one.\<close>

fun insertPosition :: "('a \<Rightarrow> int) \<Rightarrow> 'a list \<Rightarrow> 'a \<Rightarrow> nat \<Rightarrow> nat option" where
  "insertPosition dateFn items newItem 0 = None"
| "insertPosition dateFn items newItem (Suc i) =
     (if dateFn (items ! i) \<le> dateFn newItem then Some (Suc i)
      else insertPosition dateFn items newItem i)"

definition insertSorted :: "('a \<Rightarrow> int) \<Rightarrow> 'a \<Rightarrow> 'a list \<Rightarrow> 'a list" where
  "insertSorted dateFn newItem items =
     insertAt (case insertPosition dateFn items newItem (length items) of
                 Some position \<Rightarrow> position | None \<Rightarrow> length items) newItem items"

text \<open>\<open>items.shift()\<close>\<close>

fun shift :: "'a list \<Rightarrow> 'a option \<times> 'a list" where
  "shift [] = (None, [])"
| "shift (x # xs) = (Some x, xs)"

definition dequeueUpToDate ::
  "int \<Rightarrow> ('a \<Rightarrow> int) \<Rightarrow> ('a \<Rightarrow> string) \<Rightarrow> string set \<Rightarrow> 'a list \<Rightarrow> 'a option \<times> 'a list" where
  "dequeueUpToDate now dateFn streamId upToDateStreams items =
     (case items of
        [] \<Rightarrow> (None, items)
      | first # _ \<Rightarrow>
          if dateFn first > now then (None, items)
          else (case findIndex (\<lambda>x. dateFn x \<le> now \<and> streamId x \<in> upToDateStreams) items of
                  None \<Rightarrow> (None, items)
                | Some index \<Rightarrow> (Some (items ! index), removeAt index items)))"

definition dequeueHighPriority :: "('a \<Rightarrow> string) \<Rightarrow> string set \<Rightarrow> 'a list \<Rightarrow> 'a option \<times> 'a list" where
  "dequeueHighPriority streamId highPriorityIds items =
     (case findIndex (\<lambda>x. streamId x \<in> highPriorityIds) items of
        None \<Rightarrow> shift items
      | Some index \<Rightarrow> (Some (items ! index), removeAt index items))"

definition removeItem :: "('a \<Rightarrow> bool) \<Rightarrow> 'a list \<Rightarrow> 'a list" where
  "removeItem predicate items =
     (case findIndex predicate items of Some index \<Rightarrow> removeAt index items | None \<Rightarrow> items)"

text \<open>The element-wise comparison loop.\<close>

fun sortedArraysEqual :: "string list \<Rightarrow> string list \<Rightarrow> bool" where
  "sortedArraysEqual [] [] = True"
| "sortedArraysEqual (x # xs) (y # ys) = (x = y \<and> sortedArraysEqual xs ys)"
| "sortedArraysEqual _ _ = False"

fun takeFirst :: "nat \<Rightarrow> 'a list \<Rightarrow> 'a list" where
  "takeFirst (Suc n) (x # xs) = x # takeFirst n xs"
| "takeFirst _ _ = []"

text \<open>\<open>s.includes(t)\<close>\<close>

fun str_includes :: "string \<Rightarrow> string \<Rightarrow> bool" where
  "str_includes t [] = (t = [])"
| "str_includes t (c # s) = (take (length t) (c # s) = t \<or> str_includes t s)"

fun errorMessage :: "js_error \<Rightarrow> string" where
  "errorMessage (CodeException message _) = message"
| "errorMessage (JsError message) = message"
| "errorMessage (LibError message) = message"

definition isSessionNotFoundError :: "js_error \<Rightarrow> bool" where
  "isSessionNotFoundError err = str_includes ''Session not found'' (errorMessage err)"

section \<open>Lemmas\<close>

lemma sortedArraysEqual_eq [simp]: "sortedArraysEqual xs ys \<longleftrightarrow> xs = ys"
  by (induction xs ys rule: sortedArraysEqual.induct) auto

lemma takeFirst_take [simp]: "takeFirst n xs = take n xs"
  by (induction n xs rule: takeFirst.induct) auto

declare mset_insertAt [simp]

lemma mset_split_at: "i < length xs \<Longrightarrow> mset xs = add_mset (xs ! i) (mset (removeAt i xs))"
  using arg_cong [OF id_take_nth_drop, of i xs mset] by (simp add: removeAt_def)

lemma map_insertAt: "map f (insertAt i x xs) = insertAt i (f x) (map f xs)"
  by (simp add: insertAt_def take_map drop_map)

lemma map_removeAt: "map f (removeAt i xs) = removeAt i (map f xs)"
  by (simp add: removeAt_def take_map drop_map)

lemma distinct_mset_eq: "mset xs = mset ys \<Longrightarrow> distinct xs \<longleftrightarrow> distinct ys"
  by (metis distinct_count_atmost_1 mset_eq_setD)

lemma distinct_insertAt [simp]: "distinct (insertAt i x xs) \<longleftrightarrow> x \<notin> set xs \<and> distinct xs"
  using distinct_mset_eq [of "insertAt i x xs" "x # xs"] by simp

lemma distinct_removeAt: "distinct xs \<Longrightarrow> distinct (removeAt i xs)"
  using set_take_disj_set_drop_if_distinct [of xs i "Suc i"] by (simp add: removeAt_def)

lemma distinct_map_removeAt: "distinct (map f xs) \<Longrightarrow> distinct (map f (removeAt i xs))"
  by (simp add: map_removeAt distinct_removeAt)

lemma insertSorted_mset [simp]: "mset (insertSorted dateFn x xs) = add_mset x (mset xs)"
  by (simp add: insertSorted_def)

lemma insertSorted_set [simp]: "set (insertSorted dateFn x xs) = insert x (set xs)"
  by (simp add: insertSorted_def)

lemma distinct_map_insertSorted [simp]:
  "distinct (map f (insertSorted dateFn x xs)) \<longleftrightarrow> f x \<notin> f ` set xs \<and> distinct (map f xs)"
  by (simp add: insertSorted_def map_insertAt)

text \<open>After removing the one item with a key, no item has the key.\<close>

lemma removeItem_key:
  assumes "distinct (map f xs)"
  shows "k \<notin> f ` set (removeItem (\<lambda>x. f x = k) xs)"
proof (cases "findIndex (\<lambda>x. f x = k) xs")
  case None
  then have "k \<notin> f ` set xs" by (auto simp: findIndex_None)
  then show ?thesis using None by (simp add: removeItem_def)
next
  case (Some i)
  then have i: "i < length xs" "f (xs ! i) = k" by (simp_all add: findIndex_Some)
  have "mset (map f xs) = add_mset k (mset (map f (removeAt i xs)))"
    using mset_split_at [OF i(1)] i(2) by simp
  then have "distinct (k # map f (removeAt i xs))" using assms distinct_mset_eq by (metis mset.simps(2))
  then show ?thesis using Some by (simp add: removeItem_def)
qed

lemma removeItem_distinct: "distinct (map f xs) \<Longrightarrow> distinct (map f (removeItem P xs))"
  by (auto simp: removeItem_def distinct_map_removeAt split: option.split)

lemma removeItem_subset: "set (removeItem P xs) \<subseteq> set xs"
  by (simp add: removeItem_def set_removeAt split: option.split)

section \<open>The contract of a dequeue function\<close>

text \<open>
  Taking an item out of a queue neither loses nor duplicates items, and when nothing is taken the
  queue is as before.
\<close>

locale dequeue =
  fixes take_out :: "'a list \<Rightarrow> 'a option \<times> 'a list"
  assumes taken: "take_out q = (Some x, q') \<Longrightarrow> mset q = add_mset x (mset q')"
    and not_taken: "take_out q = (None, q') \<Longrightarrow> q' = q"
begin

lemma conserved: "mset (snd (take_out q)) + (case fst (take_out q) of None \<Rightarrow> {#} | Some x \<Rightarrow> {#x#}) = mset q"
proof (cases "take_out q")
  case (Pair a q')
  show ?thesis
  proof (cases a)
    case None
    then show ?thesis using not_taken [of q q'] Pair by simp
  next
    case (Some y)
    then show ?thesis using taken [of q y q'] Pair by simp
  qed
qed

lemma taken_mem: "take_out q = (Some x, q') \<Longrightarrow> x \<in> set q"
  using taken [of q x q'] by (metis set_mset_mset union_single_eq_member)

lemma rest_subset: "take_out q = (a, q') \<Longrightarrow> set q' \<subseteq> set q"
  using conserved [of q] by (metis mset_subset_eq_add_left set_mset_mono set_mset_mset snd_conv)

lemma rest_distinct:
  assumes "take_out q = (a, q')" "distinct (map f q)"
  shows "distinct (map f q')"
proof (cases a)
  case None
  then show ?thesis using assms not_taken [of q q'] by simp
next
  case (Some x)
  then have "mset (map f q) = mset (f x # map f q')" using taken [of q x q'] assms(1) by simp
  then have "distinct (f x # map f q')" using distinct_mset_eq assms(2) by blast
  then show ?thesis by simp
qed

end

lemma removeAt_taken: "findIndex P q = Some i \<Longrightarrow> mset q = add_mset (q ! i) (mset (removeAt i q))"
  by (simp add: findIndex_Some mset_split_at)

interpretation first: dequeue shift
proof
  show "mset q = add_mset x (mset q')" if "shift q = (Some x, q')" for q q' :: "'a list" and x
    using that by (cases q) simp_all
  show "q' = q" if "shift q = (None, q')" for q q' :: "'a list"
    using that by (cases q) simp_all
qed

interpretation high_priority: dequeue "dequeueHighPriority streamId ids" for streamId ids
proof
  fix q q' :: "'a list" and x
  show "mset q = add_mset x (mset q')" if "dequeueHighPriority streamId ids q = (Some x, q')"
    using that first.taken by (auto simp: dequeueHighPriority_def removeAt_taken split: option.splits)
  show "q' = q" if "dequeueHighPriority streamId ids q = (None, q')"
    using that first.not_taken by (auto simp: dequeueHighPriority_def split: option.splits)
qed

interpretation up_to_date: dequeue "dequeueUpToDate now dateFn streamId streams" for now dateFn streamId streams
proof
  fix q q' :: "'a list" and x
  show "mset q = add_mset x (mset q')" if "dequeueUpToDate now dateFn streamId streams q = (Some x, q')"
    using that removeAt_taken [of "\<lambda>x. dateFn x \<le> now \<and> streamId x \<in> streams" q]
    by (auto simp: dequeueUpToDate_def split: option.splits list.splits if_splits)
  show "q' = q" if "dequeueUpToDate now dateFn streamId streams q = (None, q')"
    using that by (auto simp: dequeueUpToDate_def split: option.splits list.splits if_splits)
qed

section \<open>Order\<close>

lemma insertPosition_Some:
  "insertPosition dateFn xs x n = Some p \<Longrightarrow>
   0 < p \<and> p \<le> n \<and> dateFn (xs ! (p - 1)) \<le> dateFn x \<and> (\<forall>j. p \<le> j \<longrightarrow> j < n \<longrightarrow> dateFn x < dateFn (xs ! j))"
  by (induction dateFn xs x n rule: insertPosition.induct) (auto split: if_splits simp: less_Suc_eq)

lemma insertPosition_None:
  "insertPosition dateFn xs x n = None \<longleftrightarrow> (\<forall>j < n. dateFn x < dateFn (xs ! j))"
  by (induction dateFn xs x n rule: insertPosition.induct) (auto simp: less_Suc_eq)

lemma sorted_insertAt:
  assumes "sorted (map d xs)" "\<forall>y \<in> set (take i xs). d y \<le> d x" "\<forall>y \<in> set (drop i xs). d x \<le> d y"
  shows "sorted (map d (insertAt i x xs))"
proof -
  have "sorted (map d (take i xs) @ map d (drop i xs))"
    using assms(1) by (metis append_take_drop_id map_append)
  then show ?thesis using assms(2,3) unfolding sorted_append by (auto simp: insertAt_def sorted_append)
qed

lemma sorted_insertSorted:
  assumes "sorted (map d xs)" "xs = [] \<or> (\<exists>y \<in> set xs. d y \<le> d x)"
  shows "sorted (map d (insertSorted d x xs))"
proof (cases "insertPosition d xs x (length xs)")
  case None
  then have "xs = []" using assms(2) by (metis in_set_conv_nth insertPosition_None not_le)
  then show ?thesis by (simp add: insertSorted_def insertAt_def)
next
  case (Some p)
  note p = insertPosition_Some [OF Some]
  have le: "d (xs ! j) \<le> d x" if "j < p" for j
  proof -
    have "d (xs ! j) \<le> d (xs ! (p - 1))"
      using p that sorted_nth_mono [OF assms(1), of j "p - 1"] by auto
    then show ?thesis using p by simp
  qed
  have "\<forall>y \<in> set (take p xs). d y \<le> d x" using le p by (auto simp: in_set_conv_nth)
  moreover have "\<forall>y \<in> set (drop p xs). d x \<le> d y"
    using p by (auto simp: in_set_conv_nth less_imp_le)
  ultimately have "sorted (map d (insertAt p x xs))" by (rule sorted_insertAt [OF assms(1)])
  then show ?thesis using Some by (simp add: insertSorted_def)
qed

text \<open>An item earlier than every other goes to the end, and waits there for all of them.\<close>

lemma insertSorted_smallest:
  assumes "\<forall>y \<in> set xs. d x < d y"
  shows "insertSorted d x xs = xs @ [x]"
proof -
  have "insertPosition d xs x (length xs) = None" using assms by (simp add: insertPosition_None)
  then show ?thesis by (simp add: insertSorted_def insertAt_def)
qed

lemma earliest_item_blocked:
  assumes "xs \<noteq> []" "\<forall>y \<in> set xs. now < d y" "d x \<le> now" "streamId x \<in> streams"
  shows "dequeueUpToDate now d streamId streams (insertSorted d x xs) = (None, xs @ [x])"
proof -
  have "insertSorted d x xs = xs @ [x]" using assms(2,3) by (intro insertSorted_smallest) force
  then show ?thesis using assms(1,2) by (cases xs) (simp_all add: dequeueUpToDate_def)
qed

section \<open>Properties\<close>

text \<open>
  (C32) In a queue ordered by date, an item that is due and belongs to an up-to-date stream is never
  held back: the dequeue returns such an item, the earliest of them, and leaves all others in the
  queue, which stays ordered.
\<close>
theorem ready_item_dequeued:
  assumes "sorted (map dateFn items)" and "x \<in> set items" "dateFn x \<le> now" "streamId x \<in> streams"
  shows "\<exists>y rest. dequeueUpToDate now dateFn streamId streams items = (Some y, rest)
    \<and> dateFn y \<le> now \<and> streamId y \<in> streams \<and> dateFn y \<le> dateFn x
    \<and> mset items = add_mset y (mset rest) \<and> sorted (map dateFn rest)"
proof -
  let ?P = "\<lambda>x. dateFn x \<le> now \<and> streamId x \<in> streams"
  obtain i where i: "findIndex ?P items = Some i"
    using assms(2-4) findIndex_None [of ?P items] by (cases "findIndex ?P items") auto
  then have n: "i < length items" "?P (items ! i)" "\<forall>j < i. \<not> ?P (items ! j)" by (simp_all add: findIndex_Some)
  obtain j where j: "j < length items" "items ! j = x" using assms(2) by (auto simp: in_set_conv_nth)
  then have "i \<le> j" using n(3) assms(3,4) by (metis linorder_not_le)
  then have le: "dateFn (items ! i) \<le> dateFn x"
    using sorted_nth_mono [OF assms(1), of i j] j by simp
  obtain first more where items: "items = first # more" using j by (cases items) auto
  have "map dateFn items ! 0 \<le> map dateFn items ! j" using sorted_nth_mono [OF assms(1), of 0 j] j(1) by simp
  moreover have "map dateFn items ! 0 = dateFn first" "map dateFn items ! j = dateFn x"
    using j by (simp_all add: items del: nth_Cons_0 flip: items) (simp add: items)
  ultimately have "dateFn first \<le> dateFn x" by simp
  then have "dequeueUpToDate now dateFn streamId streams items = (Some (items ! i), removeAt i items)"
    using assms(3) i by (simp add: dequeueUpToDate_def items)
  moreover have "sorted (map dateFn (removeAt i items))"
  proof -
    have "sorted (map dateFn (take i items @ items ! i # drop (Suc i) items))"
      using assms(1) id_take_nth_drop [OF n(1)] by simp
    then show ?thesis by (simp add: removeAt_def sorted_append)
  qed
  ultimately show ?thesis using n le mset_split_at [OF n(1)] by auto
qed

theorem ready_item_dequeued_witness:
  "\<exists>y rest. dequeueUpToDate 5 snd fst {''a''} [(''b'', 1), (''a'', 3), (''a'', 9)] = (Some y, rest) \<and> snd y \<le> 3"
  using ready_item_dequeued [of snd "[(''b'', 1), (''a'', 3), (''a'', 9)]" "(''a'', 3)" 5 fst "{''a''}"] by auto

end
