(* ===== verification/Decryption.thy ===== *)
theory Decryption
  imports Complex_Main Queues StreamView
begin

text \<open>
  The decryption extension, \<open>core/encryption/src/decryptionExtensions.ts\<close>, with the overrides of
  \<open>core/sdk/src/clientDecryptionExtensions.ts\<close>: the six queues, the tick that takes one piece of work
  out of them, and what finishing each kind of work does.

  A tick runs asynchronously: it takes an item out of a queue at once, then waits for the crypto
  module or the node, and only then changes the queues again. The model has both moments as separate
  steps, with the work that is under way in \<open>dx_inProgress\<close>, so that any of the enqueue operations can
  come between them. What the crypto module, the node and the contracts answer is a record of the
  answers, an argument of the second step; what is asked of them is emitted.

  The nested object \<open>decryptionFailures\<close> is one association list with the pair of stream and session
  as key; an absent and an empty inner object are not distinguished by the code. An item of encrypted
  content is an object that is compared by identity, so it carries a number of its own.
\<close>

section \<open>State\<close>

datatype DecryptionStatus = ds_initializing | ds_updating | ds_processingNewGroupSessions | ds_decryptingEvents
  | ds_retryingDecryption | ds_requestingKeys | ds_respondingToKeyRequests | ds_idle

record EncryptedContentItem =
  eci_ref :: nat
  eci_streamId :: string
  eci_eventId :: string
  eci_kind :: string
  eci_encryptedData :: EncryptedData

record DecryptionRetryItem =
  dri_streamId :: string
  dri_event :: EncryptedContentItem
  dri_retryAt :: int

record KeySolicitationItem =
  ksi_streamId :: string
  ksi_fromUserId :: string
  ksi_fromUserAddress :: bytes
  ksi_solicitation :: KeySolicitation
  ksi_respondAfter :: int

record MissingKeysItem =
  mki_streamId :: string
  mki_waitUntil :: int

record GroupEncryptionSession =
  gs_streamId :: string
  gs_sessionId :: string
  gs_sessionKey :: string
  gs_algorithm :: string

definition GROUP_ENCRYPTION_ALGORITHM :: string where
  "GROUP_ENCRYPTION_ALGORITHM = ''r.group-encryption.v1.aes-sha2''"

text \<open>The two tasks that \<open>start\<close> enqueues.\<close>

datatype PriorityTask = uploadDeviceKeys | downloadNewMessages

datatype Work =
    W_task PriorityTask
  | W_session GroupEncryptionSessions
  | W_content EncryptedContentItem
  | W_retry DecryptionRetryItem
  | W_missing MissingKeysItem
  | W_solicitation KeySolicitationItem
  | W_idle

record Decryption =
  dx_status :: DecryptionStatus
  dx_priorityTasks :: "PriorityTask list"
  dx_newGroupSession :: "GroupEncryptionSessions list"
  dx_encryptedContent :: "EncryptedContentItem list"
  dx_decryptionRetries :: "DecryptionRetryItem list"
  dx_missingKeys :: "MissingKeysItem list"
  dx_keySolicitations :: "KeySolicitationItem list"
  dx_upToDateStreams :: "string set"
  dx_highPriorityStreams :: "string set"
  dx_decryptionFailures :: "((string \<times> string) \<times> EncryptedContentItem list) list"
  dx_timeoutId :: bool
  dx_started :: bool
  dx_onStopFn :: bool
  dx_inProgress :: "Work option"
  dx_nextRef :: nat
  dx_userDevice :: UserDevice
  dx_userId :: string
  dx_userInboxStreamId :: "string option"
  dx_isMobileSafariBackgrounded :: bool

definition Decryption_new :: "UserDevice \<Rightarrow> string \<Rightarrow> string option \<Rightarrow> string set \<Rightarrow> Decryption" where
  "Decryption_new userDevice userId userInboxStreamId upToDateStreams =
     \<lparr>dx_status = ds_initializing, dx_priorityTasks = [], dx_newGroupSession = [], dx_encryptedContent = [],
      dx_decryptionRetries = [], dx_missingKeys = [], dx_keySolicitations = [],
      dx_upToDateStreams = upToDateStreams, dx_highPriorityStreams = {}, dx_decryptionFailures = [],
      dx_timeoutId = False, dx_started = False, dx_onStopFn = True, dx_inProgress = None, dx_nextRef = 0,
      dx_userDevice = userDevice, dx_userId = userId, dx_userInboxStreamId = userInboxStreamId,
      dx_isMobileSafariBackgrounded = False\<rparr>"

datatype DecryptionCall =
    decryptionExtStatusChanged DecryptionStatus
  | onDecryptionError EncryptedContentItem DecryptionSessionError
  | importSessionKeys string "GroupEncryptionSession list"
  | ackNewGroupSession GroupEncryptionSessions
  | sendKeySolicitation string KeySolicitation
  | sendKeyFulfillment string KeyFulfillment
  | encryptAndShareGroupSessions string KeySolicitationItem "GroupEncryptionSession list"

text \<open>
  The answers of the client, the crypto module and the contracts: the stream views the client has,
  the sessions the device has and exports, whether a message can be decrypted, the errors of the
  calls that may fail, and the clock.
\<close>

record DecryptionEnv =
  en_now :: int
  en_stream :: "string \<Rightarrow> StreamView option"
  en_isEntitled :: "string \<Rightarrow> string \<Rightarrow> string \<Rightarrow> bool"
  en_hasInboundSessionKeys :: "string \<Rightarrow> string \<Rightarrow> bool"
  en_getInboundGroupSessionIds :: "string \<Rightarrow> string list option"
  en_exportInboundGroupSession :: "string \<Rightarrow> string \<Rightarrow> GroupEncryptionSession option"
  en_decryptWithDeviceKey :: "string \<Rightarrow> string \<Rightarrow> js_error + string"
  en_importError :: "js_error option"
  en_decryptGroupEvent :: "EncryptedContentItem \<Rightarrow> js_error option"
  en_sendError :: "js_error option"

section \<open>The overrides of the client\<close>

definition isUserInboxStreamUpToDate :: "Decryption \<Rightarrow> bool" where
  "isUserInboxStreamUpToDate d =
     (case dx_userInboxStreamId d of None \<Rightarrow> False | Some i \<Rightarrow> i \<in> dx_upToDateStreams d)"

definition shouldPauseTicking :: "Decryption \<Rightarrow> bool" where
  "shouldPauseTicking d = dx_isMobileSafariBackgrounded d"

definition hasStream :: "DecryptionEnv \<Rightarrow> string \<Rightarrow> bool" where
  "hasStream env streamId = (en_stream env streamId \<noteq> None)"

definition getKeySolicitations :: "DecryptionEnv \<Rightarrow> string \<Rightarrow> Decryption \<Rightarrow> KeySolicitation list" where
  "getKeySolicitations env streamId d =
     (case en_stream env streamId of
        None \<Rightarrow> []
      | Some view \<Rightarrow>
          (case map_of (mb_joined (getMembers view)) (dx_userId d) of
             None \<Rightarrow> [] | Some member \<Rightarrow> smb_solicitations member))"

text \<open>The value of \<open>Math.random()\<close> is an argument.\<close>

definition getRespondDelayMSForKeySolicitation :: "StreamView option \<Rightarrow> string \<Rightarrow> string \<Rightarrow> rat \<Rightarrow> js_error + rat" where
  "getRespondDelayMSForKeySolicitation stream ownUserId userId random =
     (case stream of
        None \<Rightarrow> Inl (CodeException ''stream not found'' ERR_UNSPECIFIED)
      | Some view \<Rightarrow>
          let numMembers = card (Members_participants (getMembers view));
              maxWaitTimeSeconds = max 5 (min 30 numMembers);
              waitTime = of_nat maxWaitTimeSeconds * 1000 * random
          in Inr (waitTime * (if userId = ownUserId then 1 / 2 else 1)))"

definition isUserEntitledToKeyExchange :: "DecryptionEnv \<Rightarrow> string \<Rightarrow> string \<Rightarrow> bool \<Rightarrow> js_error + bool" where
  "isUserEntitledToKeyExchange env streamId userId skipOnChainValidation =
     (case en_stream env streamId of
        None \<Rightarrow> Inl (CodeException ''stream not found'' ERR_UNSPECIFIED)
      | Some view \<Rightarrow>
          if \<not> userIsEntitledToKeyExchange userId view then Inr False
          else (case v_content view of
                  ChannelC channel \<Rightarrow>
                    if skipOnChainValidation then Inr True
                    else Inr (en_isEntitled env (chv_spaceId channel) streamId userId)
                | _ \<Rightarrow> Inr True))"

section \<open>Ticking\<close>

definition setStatus :: "DecryptionStatus \<Rightarrow> Decryption \<Rightarrow> (Decryption, DecryptionCall) outcome" where
  "setStatus status d =
     (if dx_status d \<noteq> status then emit True (decryptionExtStatusChanged status) (d\<lparr>dx_status := status\<rparr>)
      else pass d)"

definition queuesEmpty :: "Decryption \<Rightarrow> bool" where
  "queuesEmpty d =
     (dx_priorityTasks d = [] \<and> dx_newGroupSession d = [] \<and> dx_encryptedContent d = [] \<and>
      dx_decryptionRetries d = [] \<and> dx_missingKeys d = [] \<and> dx_keySolicitations d = [])"

definition checkStartTicking :: "Decryption \<Rightarrow> (Decryption, DecryptionCall) outcome" where
  "checkStartTicking d =
     (if \<not> dx_started d \<or> dx_timeoutId d \<or> \<not> dx_onStopFn d \<or> \<not> isUserInboxStreamUpToDate d \<or>
         shouldPauseTicking d
      then pass d
      else if queuesEmpty d then setStatus ds_idle d
      else pass (d\<lparr>dx_timeoutId := True\<rparr>))"

definition getDelayMs :: "Decryption \<Rightarrow> int" where
  "getDelayMs d = (if dx_newGroupSession d \<noteq> [] then 0 else 15)"

text \<open>\<open>tick\<close>: one thing is taken out of the first queue that has something ready.\<close>

definition tick :: "int \<Rightarrow> Decryption \<Rightarrow> (Decryption, DecryptionCall) outcome" where
  "tick now d =
     (let work = (\<lambda>status w d. setStatus status (d\<lparr>dx_inProgress := Some w\<rparr>)) in
      case shift (dx_priorityTasks d) of
        (Some task, tasks) \<Rightarrow> work ds_updating (W_task task) (d\<lparr>dx_priorityTasks := tasks\<rparr>)
      | (None, _) \<Rightarrow>
     (case shift (dx_newGroupSession d) of
        (Some session, q) \<Rightarrow>
          work ds_processingNewGroupSessions (W_session session) (d\<lparr>dx_newGroupSession := q\<rparr>)
      | (None, _) \<Rightarrow>
     (case dequeueHighPriority eci_streamId (dx_highPriorityStreams d) (dx_encryptedContent d) of
        (Some item, q) \<Rightarrow> work ds_decryptingEvents (W_content item) (d\<lparr>dx_encryptedContent := q\<rparr>)
      | (None, _) \<Rightarrow>
     (case dequeueUpToDate now dri_retryAt dri_streamId (dx_upToDateStreams d) (dx_decryptionRetries d) of
        (Some item, q) \<Rightarrow> work ds_retryingDecryption (W_retry item) (d\<lparr>dx_decryptionRetries := q\<rparr>)
      | (None, _) \<Rightarrow>
     (case dequeueUpToDate now mki_waitUntil mki_streamId (dx_upToDateStreams d) (dx_missingKeys d) of
        (Some item, q) \<Rightarrow> work ds_requestingKeys (W_missing item) (d\<lparr>dx_missingKeys := q\<rparr>)
      | (None, _) \<Rightarrow>
     (case dequeueUpToDate now ksi_respondAfter ksi_streamId (dx_upToDateStreams d) (dx_keySolicitations d) of
        (Some item, q) \<Rightarrow>
          work ds_respondingToKeyRequests (W_solicitation item) (d\<lparr>dx_keySolicitations := q\<rparr>)
      | (None, _) \<Rightarrow> work ds_idle W_idle d))))))"

text \<open>The timer fires only while it is set and no tick is under way.\<close>

definition onTimeout :: "int \<Rightarrow> Decryption \<Rightarrow> (Decryption, DecryptionCall) outcome" where
  "onTimeout now d = (if dx_timeoutId d \<and> dx_inProgress d = None then tick now d else pass d)"

section \<open>Enqueueing\<close>

definition enqueueNewGroupSessions :: "GroupEncryptionSessions \<Rightarrow> Decryption \<Rightarrow> (Decryption, DecryptionCall) outcome" where
  "enqueueNewGroupSessions sessions d =
     checkStartTicking (d\<lparr>dx_newGroupSession := dx_newGroupSession d @ [sessions]\<rparr>)"

definition enqueueNewEncryptedContent ::
  "string \<Rightarrow> string \<Rightarrow> string \<Rightarrow> EncryptedData \<Rightarrow> Decryption \<Rightarrow> (Decryption, DecryptionCall) outcome" where
  "enqueueNewEncryptedContent streamId eventId kind encryptedData d =
     checkStartTicking
       (d\<lparr>dx_encryptedContent := dx_encryptedContent d @
            [\<lparr>eci_ref = dx_nextRef d, eci_streamId = streamId, eci_eventId = eventId, eci_kind = kind,
              eci_encryptedData = encryptedData\<rparr>],
          dx_nextRef := Suc (dx_nextRef d)\<rparr>)"

text \<open>The clock, the client's stream and the random number are arguments.\<close>

definition enqueueKeySolicitation ::
  "int \<Rightarrow> StreamView option \<Rightarrow> rat \<Rightarrow> string \<Rightarrow> string \<Rightarrow> bytes \<Rightarrow> KeySolicitation \<Rightarrow>
   Decryption \<Rightarrow> (Decryption, DecryptionCall) outcome" where
  "enqueueKeySolicitation now stream random streamId fromUserId fromUserAddress keySolicitation d =
     (if ks_deviceKey keySolicitation = ud_deviceKey (dx_userDevice d) then pass d
      else
        let d1 = (case findIndex (\<lambda>x. ksi_streamId x = streamId \<and>
                           ks_deviceKey (ksi_solicitation x) = ks_deviceKey keySolicitation)
                         (dx_keySolicitations d) of
                    Some index \<Rightarrow> d\<lparr>dx_keySolicitations := removeAt index (dx_keySolicitations d)\<rparr>
                  | None \<Rightarrow> d)
        in if ks_sessionIds keySolicitation \<noteq> [] \<or> ks_isNewDevice keySolicitation then
             with_value (getRespondDelayMSForKeySolicitation stream (dx_userId d) fromUserId random)
               (\<lambda>delay d. checkStartTicking
                  (d\<lparr>dx_keySolicitations := insertSorted ksi_respondAfter
                       \<lparr>ksi_streamId = streamId, ksi_fromUserId = fromUserId,
                        ksi_fromUserAddress = fromUserAddress, ksi_solicitation = keySolicitation,
                        ksi_respondAfter = floor (of_int now + delay)\<rparr>
                       (dx_keySolicitations d)\<rparr>)) d1
           else pass d1)"

definition setStreamUpToDate :: "string \<Rightarrow> Decryption \<Rightarrow> (Decryption, DecryptionCall) outcome" where
  "setStreamUpToDate streamId d =
     checkStartTicking (d\<lparr>dx_upToDateStreams := insert streamId (dx_upToDateStreams d)\<rparr>)"

text \<open>The session ids of a stream that failed: \<open>Object.keys(this.decryptionFailures[streamId])\<close>.\<close>

definition failedSessions :: "string \<Rightarrow> Decryption \<Rightarrow> string list" where
  "failedSessions streamId d = map snd (filter (\<lambda>(s, _). s = streamId) (map fst (dx_decryptionFailures d)))"

definition addMissingKeys :: "string \<Rightarrow> int \<Rightarrow> Decryption \<Rightarrow> Decryption" where
  "addMissingKeys streamId waitUntil d =
     d\<lparr>dx_missingKeys := insertSorted mki_waitUntil \<lparr>mki_streamId = streamId, mki_waitUntil = waitUntil\<rparr>
          (dx_missingKeys d)\<rparr>"

definition removeMissingKeys :: "string \<Rightarrow> Decryption \<Rightarrow> Decryption" where
  "removeMissingKeys streamId d =
     d\<lparr>dx_missingKeys := removeItem (\<lambda>x. mki_streamId x = streamId) (dx_missingKeys d)\<rparr>"

definition retryDecryptionFailures :: "int \<Rightarrow> string \<Rightarrow> Decryption \<Rightarrow> (Decryption, DecryptionCall) outcome" where
  "retryDecryptionFailures now streamId d =
     (let d1 = removeMissingKeys streamId d
      in if failedSessions streamId d1 \<noteq> []
         then checkStartTicking (addMissingKeys streamId (now + 100) d1)
         else pass d1)"

definition start :: "Decryption \<Rightarrow> (Decryption, DecryptionCall) outcome" where
  "start d =
     andThen (check (\<not> dx_started d) ''start() called twice, please re-instantiate instead'' ERR_UNSPECIFIED d)
       (\<lambda>d. checkStartTicking
          (d\<lparr>dx_started := True, dx_priorityTasks := dx_priorityTasks d @ [uploadDeviceKeys, downloadNewMessages]\<rparr>))"

text \<open>\<open>stop\<close>: the listeners are removed and a pending timer is cleared; a tick under way is awaited.\<close>

definition stop :: "Decryption \<Rightarrow> (Decryption, DecryptionCall) outcome" where
  "stop d = pass (d\<lparr>dx_onStopFn := False, dx_timeoutId := False\<rparr>)"

definition setHighPriorityStreams :: "string list \<Rightarrow> Decryption \<Rightarrow> (Decryption, DecryptionCall) outcome" where
  "setHighPriorityStreams streamIds d = pass (d\<lparr>dx_highPriorityStreams := set streamIds\<rparr>)"

definition mobileSafariPageVisibilityChanged :: "bool \<Rightarrow> Decryption \<Rightarrow> (Decryption, DecryptionCall) outcome" where
  "mobileSafariPageVisibilityChanged hidden d =
     (let d1 = d\<lparr>dx_isMobileSafariBackgrounded := hidden\<rparr>
      in if \<not> hidden then checkStartTicking d1 else pass d1)"

section \<open>Processing\<close>

definition neededKeyIndexs :: "DecryptionEnv \<Rightarrow> string \<Rightarrow> string list \<Rightarrow> nat list" where
  "neededKeyIndexs env streamId sessionIds =
     filter (\<lambda>i. \<not> en_hasInboundSessionKeys env streamId (sessionIds ! i)) [0..<length sessionIds]"

text \<open>The failures of one imported session go back to the queue of encrypted content.\<close>

definition requeueFailures :: "string \<Rightarrow> string \<Rightarrow> Decryption \<Rightarrow> Decryption" where
  "requeueFailures streamId sessionId d =
     (case map_of (dx_decryptionFailures d) (streamId, sessionId) of
        None \<Rightarrow> d
      | Some items \<Rightarrow>
          d\<lparr>dx_encryptedContent := dx_encryptedContent d @ items,
            dx_decryptionFailures := AList.delete (streamId, sessionId) (dx_decryptionFailures d)\<rparr>)"

definition processNewGroupSession ::
  "externs \<Rightarrow> DecryptionEnv \<Rightarrow> GroupEncryptionSessions \<Rightarrow> Decryption \<Rightarrow> (Decryption, DecryptionCall) outcome" where
  "processNewGroupSession x env session d =
     (case map_of (ges_ciphertexts session) (ud_deviceKey (dx_userDevice d)) of
        None \<Rightarrow> pass d
      | Some ciphertext \<Rightarrow>
          if ciphertext = [] then pass d
          else
            let streamId = bin_toHexString x (ges_streamId session);
                needed = neededKeyIndexs env streamId (ges_sessionIds session)
            in if needed = [] then pass d
               else
                 with_value
                   (bindE (en_decryptWithDeviceKey env ciphertext (ges_senderKey session)) (x_sessionKeysFromJson x))
                   (\<lambda>keys d.
                      let sessions = map (\<lambda>i. \<lparr>gs_streamId = streamId, gs_sessionId = ges_sessionIds session ! i,
                                        gs_sessionKey = keys ! i, gs_algorithm = GROUP_ENCRYPTION_ALGORITHM\<rparr>) needed
                      in andThen (andThen (andThen
                           (check (length keys = length (ges_sessionIds session)) ''bad sessionKeys'' ERR_UNSPECIFIED d)
                           (emit True (importSessionKeys streamId sessions)))
                           (\<lambda>d. case en_importError env of Some err \<Rightarrow> throw err d | None \<Rightarrow> pass d))
                           (\<lambda>d. let d1 = fold (\<lambda>s. requeueFailures streamId (gs_sessionId s)) sessions d
                                in emit (dx_newGroupSession d1 = []) (ackNewGroupSession session) d1)) d)"

definition sessionError :: "EncryptedContentItem \<Rightarrow> js_error \<Rightarrow> DecryptionSessionError" where
  "sessionError item err =
     \<lparr>dse_missingSession = isSessionNotFoundError err, dse_kind = eci_kind item,
      dse_encryptedData = eci_encryptedData item, dse_error = Some (errorMessage err)\<rparr>"

text \<open>
  Reporting the failure puts it on the event in the view of the stream, which refuses an event that
  has been decrypted in the meantime. The exception leaves the handler of the item, so that the item is
  neither tried again nor added to the failures.
\<close>

definition reportRefused :: "DecryptionEnv \<Rightarrow> EncryptedContentItem \<Rightarrow> DecryptionSessionError \<Rightarrow> js_error option" where
  "reportRefused env item err =
     (case en_stream env (eci_streamId item) of
        None \<Rightarrow> None
      | Some view \<Rightarrow> out_error (updateDecryptedContentError (eci_eventId item) err view))"

definition reportDecryptionError ::
  "DecryptionEnv \<Rightarrow> EncryptedContentItem \<Rightarrow> DecryptionSessionError \<Rightarrow> Decryption \<Rightarrow> (Decryption, DecryptionCall) outcome"
where
  "reportDecryptionError env item err d =
     andThen (emit True (onDecryptionError item err) d)
       (\<lambda>d. case reportRefused env item err of Some e \<Rightarrow> throw e d | None \<Rightarrow> pass d)"

definition processEncryptedContentItem ::
  "DecryptionEnv \<Rightarrow> EncryptedContentItem \<Rightarrow> Decryption \<Rightarrow> (Decryption, DecryptionCall) outcome" where
  "processEncryptedContentItem env item d =
     (case en_decryptGroupEvent env item of
        None \<Rightarrow> pass d
      | Some err \<Rightarrow>
          andThen (reportDecryptionError env item (sessionError item err) d)
            (\<lambda>d. pass (d\<lparr>dx_decryptionRetries := insertSorted dri_retryAt
                    \<lparr>dri_streamId = eci_streamId item, dri_event = item, dri_retryAt = en_now env + 3000\<rparr>
                    (dx_decryptionRetries d)\<rparr>)))"

definition addFailure :: "EncryptedContentItem \<Rightarrow> Decryption \<Rightarrow> Decryption" where
  "addFailure item d =
     (let key = (eci_streamId item, ed_sessionId (eci_encryptedData item))
      in case map_of (dx_decryptionFailures d) key of
           None \<Rightarrow> d\<lparr>dx_decryptionFailures := AList.update key [item] (dx_decryptionFailures d)\<rparr>
         | Some items \<Rightarrow>
             if eci_ref item \<in> eci_ref ` set items then d
             else d\<lparr>dx_decryptionFailures := AList.update key (items @ [item]) (dx_decryptionFailures d)\<rparr>)"

definition processDecryptionRetry ::
  "DecryptionEnv \<Rightarrow> DecryptionRetryItem \<Rightarrow> Decryption \<Rightarrow> (Decryption, DecryptionCall) outcome" where
  "processDecryptionRetry env retryItem d =
     (let item = dri_event retryItem
      in case en_decryptGroupEvent env item of
           None \<Rightarrow> pass d
         | Some err \<Rightarrow>
             andThen (reportDecryptionError env item (sessionError item err) d)
               (\<lambda>d. if isSessionNotFoundError err
                    then pass (addMissingKeys (eci_streamId item) (en_now env + 1000)
                                 (removeMissingKeys (eci_streamId item) (addFailure item d)))
                    else pass d))"

text \<open>The request is sent as a key solicitation of this device.\<close>

definition makeSolicitation :: "bool \<Rightarrow> string list \<Rightarrow> Decryption \<Rightarrow> KeySolicitation" where
  "makeSolicitation isNewDevice missingSessionIds d =
     \<lparr>ks_deviceKey = ud_deviceKey (dx_userDevice d), ks_fallbackKey = ud_fallbackKey (dx_userDevice d),
      ks_isNewDevice = isNewDevice, ks_sessionIds = (if isNewDevice then [] else missingSessionIds)\<rparr>"

definition processMissingKeys ::
  "DecryptionEnv \<Rightarrow> MissingKeysItem \<Rightarrow> Decryption \<Rightarrow> (Decryption, DecryptionCall) outcome" where
  "processMissingKeys env item d =
     (let streamId = mki_streamId item;
          missingSessionIds = takeFirst 100 (sort (failedSessions streamId d))
      in if missingSessionIds = [] then pass d
         else if \<not> hasStream env streamId then pass d
         else with_value (isUserEntitledToKeyExchange env streamId (dx_userId d) True)
           (\<lambda>isEntitled d.
              if \<not> isEntitled then pass d
              else
                let existingKeyRequest = find (\<lambda>k. ks_deviceKey k = ud_deviceKey (dx_userDevice d))
                      (getKeySolicitations env streamId d)
                in if (case existingKeyRequest of Some k \<Rightarrow> ks_isNewDevice k | None \<Rightarrow> False) \<or>
                      sortedArraysEqual (case existingKeyRequest of Some k \<Rightarrow> ks_sessionIds k | None \<Rightarrow> [])
                        missingSessionIds
                   then pass d
                   else
                     let known = (case en_getInboundGroupSessionIds env streamId of Some ids \<Rightarrow> ids | None \<Rightarrow> [])
                     in emit True (sendKeySolicitation streamId
                          (makeSolicitation (known = []) missingSessionIds d)) d) d)"

definition processKeySolicitation ::
  "DecryptionEnv \<Rightarrow> KeySolicitationItem \<Rightarrow> Decryption \<Rightarrow> (Decryption, DecryptionCall) outcome" where
  "processKeySolicitation env item d =
     (let streamId = ksi_streamId item;
          solicitation = ksi_solicitation item;
          known = sort (case en_getInboundGroupSessionIds env streamId of Some ids \<Rightarrow> ids | None \<Rightarrow> []);
          reply = (if ks_isNewDevice solicitation then known
                   else filter (\<lambda>i. i \<in> set (ks_sessionIds solicitation)) known)
      in andThen (check (hasStream env streamId) ''stream not found'' ERR_UNSPECIFIED d)
           (\<lambda>d. if reply = [] then pass d
                else with_value (isUserEntitledToKeyExchange env streamId (ksi_fromUserId item) False)
                  (\<lambda>isEntitled d.
                     if \<not> isEntitled then pass d
                     else
                       let sessions = List.map_filter (en_exportInboundGroupSession env streamId) reply
                       in if sessions = [] then pass d
                          else andThen (andThen
                            (emit True (sendKeyFulfillment streamId
                               \<lparr>kf_userAddress = ksi_fromUserAddress item, kf_deviceKey = ks_deviceKey solicitation,
                                kf_sessionIds = (if ks_isNewDevice solicitation then [] else map gs_sessionId sessions)\<rparr>) d)
                            (\<lambda>d. case en_sendError env of Some err \<Rightarrow> throw err d | None \<Rightarrow> pass d))
                            (emit True (encryptAndShareGroupSessions streamId item sessions))) d))"

text \<open>
  The end of the tick: the work is finished, an error of it is logged, the timer is free and the next
  tick is scheduled if there is something to do.
\<close>

definition processWork :: "externs \<Rightarrow> DecryptionEnv \<Rightarrow> Work \<Rightarrow> Decryption \<Rightarrow> (Decryption, DecryptionCall) outcome" where
  "processWork x env work =
     (case work of
        W_task _ \<Rightarrow> pass
      | W_session session \<Rightarrow> processNewGroupSession x env session
      | W_content item \<Rightarrow> processEncryptedContentItem env item
      | W_retry item \<Rightarrow> processDecryptionRetry env item
      | W_missing item \<Rightarrow> processMissingKeys env item
      | W_solicitation item \<Rightarrow> processKeySolicitation env item
      | W_idle \<Rightarrow> pass)"

definition finishTick :: "externs \<Rightarrow> DecryptionEnv \<Rightarrow> Decryption \<Rightarrow> (Decryption, DecryptionCall) outcome" where
  "finishTick x env d =
     (case dx_inProgress d of
        None \<Rightarrow> pass d
      | Some work \<Rightarrow>
          andThen (try_catch (processWork x env work d))
            (\<lambda>d. checkStartTicking (d\<lparr>dx_timeoutId := False, dx_inProgress := None\<rparr>)))"

definition makeSessionKeys :: "GroupEncryptionSession list \<Rightarrow> string list" where
  "makeSessionKeys sessions = map gs_sessionKey sessions"

end
