(* ===== verification/DecryptionRuns.thy ===== *)
theory DecryptionRuns
  imports Decryption Views
begin

text \<open>
  The decryption extension under any interleaving of its operations: what becomes of every piece of
  encrypted content, what the queues hold, and what is sent to other users.
\<close>

section \<open>Where an item is\<close>

definition workItems :: "Work option \<Rightarrow> EncryptedContentItem list" where
  "workItems w =
     (case w of Some (W_content item) \<Rightarrow> [item] | Some (W_retry r) \<Rightarrow> [dri_event r] | _ \<Rightarrow> [])"

lemma workItems_simps [simp]:
  "workItems None = []" "workItems (Some (W_content i)) = [i]" "workItems (Some (W_retry r)) = [dri_event r]"
  "workItems (Some (W_task t)) = []" "workItems (Some (W_session s)) = []" "workItems (Some (W_missing m)) = []"
  "workItems (Some (W_solicitation k)) = []" "workItems (Some W_idle) = []"
  by (simp_all add: workItems_def)

text \<open>The numbers of the items in the queues, under way, and among the failures.\<close>

definition tracked :: "Decryption \<Rightarrow> nat multiset" where
  "tracked d =
     image_mset eci_ref (mset (dx_encryptedContent d) + image_mset dri_event (mset (dx_decryptionRetries d)) +
       mset (workItems (dx_inProgress d)) + mset (concat (map snd (dx_decryptionFailures d))))"

lemma setStatus_out [simp]:
  "out_state (setStatus st d) = d\<lparr>dx_status := st\<rparr>" "out_error (setStatus st d) = None"
  by (cases d; simp add: setStatus_def)+

lemma checkStartTicking_out:
  "\<exists>st t. out_state (checkStartTicking d) = d\<lparr>dx_status := st, dx_timeoutId := t\<rparr> \<and> out_error (checkStartTicking d) = None"
  by (cases d) (auto simp: checkStartTicking_def split: if_splits)

lemma tracked_fields [simp]:
  "tracked (d\<lparr>dx_status := st\<rparr>) = tracked d" "tracked (d\<lparr>dx_timeoutId := t\<rparr>) = tracked d"
  "tracked (d\<lparr>dx_missingKeys := m\<rparr>) = tracked d" "tracked (d\<lparr>dx_keySolicitations := k\<rparr>) = tracked d"
  "tracked (d\<lparr>dx_newGroupSession := n\<rparr>) = tracked d" "tracked (d\<lparr>dx_priorityTasks := p\<rparr>) = tracked d"
  "tracked (d\<lparr>dx_upToDateStreams := u\<rparr>) = tracked d" "tracked (d\<lparr>dx_highPriorityStreams := h\<rparr>) = tracked d"
  "tracked (d\<lparr>dx_started := b\<rparr>) = tracked d" "tracked (d\<lparr>dx_onStopFn := b\<rparr>) = tracked d"
  "tracked (d\<lparr>dx_isMobileSafariBackgrounded := b\<rparr>) = tracked d" "tracked (d\<lparr>dx_nextRef := r\<rparr>) = tracked d"
  by (simp_all add: tracked_def)

lemma tracked_content [simp]:
  "tracked (d\<lparr>dx_encryptedContent := dx_encryptedContent d @ items\<rparr>) = tracked d + mset (map eci_ref items)"
  "tracked (d\<lparr>dx_encryptedContent := dx_encryptedContent d @ items, dx_nextRef := n\<rparr>) = tracked d + mset (map eci_ref items)"
  by (simp_all add: tracked_def)

lemma checkStartTicking_fields [simp]:
  "tracked (out_state (checkStartTicking d)) = tracked d"
  "dx_nextRef (out_state (checkStartTicking d)) = dx_nextRef d"
  "dx_decryptionFailures (out_state (checkStartTicking d)) = dx_decryptionFailures d"
  "dx_keySolicitations (out_state (checkStartTicking d)) = dx_keySolicitations d"
  "dx_missingKeys (out_state (checkStartTicking d)) = dx_missingKeys d"
  "dx_userDevice (out_state (checkStartTicking d)) = dx_userDevice d"
  "dx_inProgress (out_state (checkStartTicking d)) = dx_inProgress d"
  "out_error (checkStartTicking d) = None"
  using checkStartTicking_out [of d] by auto

section \<open>Taking work\<close>

text \<open>What taking work leaves alone; the queues of solicitations and missing keys can only lose items.\<close>

definition took :: "Decryption \<Rightarrow> Decryption \<Rightarrow> bool" where
  "took d d' =
     (tracked d' = tracked d \<and> dx_nextRef d' = dx_nextRef d \<and>
      dx_decryptionFailures d' = dx_decryptionFailures d \<and> dx_userDevice d' = dx_userDevice d \<and>
      (\<exists>m. mset (dx_missingKeys d) = mset (dx_missingKeys d') + m) \<and>
      (\<exists>k. mset (dx_keySolicitations d) = mset (dx_keySolicitations d') + k))"

lemma took_work:
  assumes "tracked (d'\<lparr>dx_inProgress := Some w\<rparr>) = tracked d" "dx_nextRef d' = dx_nextRef d"
    and "dx_decryptionFailures d' = dx_decryptionFailures d" "dx_userDevice d' = dx_userDevice d"
    and "\<exists>m. mset (dx_missingKeys d) = mset (dx_missingKeys d') + m"
    and "\<exists>k. mset (dx_keySolicitations d) = mset (dx_keySolicitations d') + k"
  shows "took d (d'\<lparr>dx_inProgress := Some w, dx_status := st\<rparr>)"
  using assms by (simp add: took_def)

lemma tick_took:
  assumes "dx_inProgress d = None"
  shows "took d (out_state (tick now d))"
proof -
  note [simp] = assms
  have idle: "took d (d\<lparr>dx_inProgress := Some W_idle, dx_status := st\<rparr>)" for st
    by (rule took_work) (simp_all add: tracked_def)
  have sol: "took d (d\<lparr>dx_keySolicitations := q, dx_inProgress := Some (W_solicitation item), dx_status := st\<rparr>)"
    if "dequeueUpToDate now ksi_respondAfter ksi_streamId u (dx_keySolicitations d) = (Some item, q)" for item q st u
    using up_to_date.taken [OF that] by (intro took_work) (auto simp: tracked_def)
  have mis: "took d (d\<lparr>dx_missingKeys := q, dx_inProgress := Some (W_missing item), dx_status := st\<rparr>)"
    if "dequeueUpToDate now mki_waitUntil mki_streamId u (dx_missingKeys d) = (Some item, q)" for item q st u
    using up_to_date.taken [OF that] by (intro took_work) (auto simp: tracked_def)
  have ret: "took d (d\<lparr>dx_decryptionRetries := q, dx_inProgress := Some (W_retry item), dx_status := st\<rparr>)"
    if "dequeueUpToDate now dri_retryAt dri_streamId u (dx_decryptionRetries d) = (Some item, q)" for item q st u
    using up_to_date.taken [OF that] by (intro took_work) (auto simp: tracked_def)
  have con: "took d (d\<lparr>dx_encryptedContent := q, dx_inProgress := Some (W_content item), dx_status := st\<rparr>)"
    if "dequeueHighPriority eci_streamId hp (dx_encryptedContent d) = (Some item, q)" for item q st hp
    using high_priority.taken [OF that] by (intro took_work) (auto simp: tracked_def)
  have ses: "took d (d\<lparr>dx_newGroupSession := q, dx_inProgress := Some (W_session s), dx_status := st\<rparr>)" for s q st
    by (intro took_work) (simp_all add: tracked_def)
  have tas: "took d (d\<lparr>dx_priorityTasks := q, dx_inProgress := Some (W_task s), dx_status := st\<rparr>)" for s q st
    by (intro took_work) (simp_all add: tracked_def)
  show ?thesis
    unfolding tick_def Let_def
    by (auto intro: idle sol mis ret con ses tas split: prod.split option.split)
qed

section \<open>The failures\<close>

lemma concat_delete:
  "distinct (map fst al) \<Longrightarrow> map_of al k = Some v \<Longrightarrow>
   mset (concat (map snd al)) = mset v + mset (concat (map snd (AList.delete k al)))"
proof (induction al)
  case (Cons p al)
  show ?case
  proof (cases "fst p = k")
    case True
    then have "k \<notin> fst ` set al" using Cons.prems(1) by auto
    then have "AList.delete k al = al" by (metis delete_id)
    then show ?thesis using Cons.prems True by (cases p) simp
  next
    case False
    then show ?thesis using Cons by (cases p) simp
  qed
qed simp

lemma concat_update:
  "distinct (map fst al) \<Longrightarrow>
   mset (concat (map snd (AList.update k w al))) + (case map_of al k of None \<Rightarrow> {#} | Some v \<Rightarrow> mset v) =
     mset (concat (map snd al)) + mset w"
proof (induction al)
  case (Cons p al)
  show ?case
  proof (cases "fst p = k")
    case True
    then show ?thesis by (cases p) simp
  next
    case False
    then show ?thesis using Cons by (cases p) (simp add: union_assoc)
  qed
qed simp

definition failures_ok :: "Decryption \<Rightarrow> bool" where
  "failures_ok d = distinct (map fst (dx_decryptionFailures d))"

lemma requeueFailures_ok:
  assumes "failures_ok d"
  shows "tracked (requeueFailures s k d) = tracked d \<and> failures_ok (requeueFailures s k d) \<and>
    dx_nextRef (requeueFailures s k d) = dx_nextRef d \<and>
    dx_missingKeys (requeueFailures s k d) = dx_missingKeys d \<and>
    dx_keySolicitations (requeueFailures s k d) = dx_keySolicitations d \<and>
    dx_userDevice (requeueFailures s k d) = dx_userDevice d \<and>
    dx_inProgress (requeueFailures s k d) = dx_inProgress d"
proof (cases "map_of (dx_decryptionFailures d) (s, k)")
  case (Some items)
  note c = concat_delete [OF assms [unfolded failures_ok_def] Some]
  show ?thesis using assms Some c
    by (simp add: requeueFailures_def tracked_def failures_ok_def distinct_delete)
qed (simp add: requeueFailures_def assms)

lemma requeueAll_ok:
  assumes "failures_ok d"
  shows "tracked (fold (\<lambda>g. requeueFailures s (f g)) gs d) = tracked d \<and> failures_ok (fold (\<lambda>g. requeueFailures s (f g)) gs d) \<and>
    dx_nextRef (fold (\<lambda>g. requeueFailures s (f g)) gs d) = dx_nextRef d \<and>
    dx_missingKeys (fold (\<lambda>g. requeueFailures s (f g)) gs d) = dx_missingKeys d \<and>
    dx_keySolicitations (fold (\<lambda>g. requeueFailures s (f g)) gs d) = dx_keySolicitations d \<and>
    dx_userDevice (fold (\<lambda>g. requeueFailures s (f g)) gs d) = dx_userDevice d \<and>
    dx_inProgress (fold (\<lambda>g. requeueFailures s (f g)) gs d) = dx_inProgress d"
  using assms
proof (induction gs arbitrary: d)
  case (Cons g gs)
  then show ?case using requeueFailures_ok [OF Cons.prems, of s "f g"] by simp
qed simp

text \<open>A failed item is stored when no other item with its number is.\<close>

lemma addFailure_ok:
  assumes "failures_ok d" "\<forall>i \<in> set (concat (map snd (dx_decryptionFailures d))). eci_ref i \<noteq> eci_ref item"
  shows "tracked (addFailure item d) = add_mset (eci_ref item) (tracked d) \<and> failures_ok (addFailure item d) \<and>
    dx_nextRef (addFailure item d) = dx_nextRef d \<and>
    dx_missingKeys (addFailure item d) = dx_missingKeys d \<and>
    dx_keySolicitations (addFailure item d) = dx_keySolicitations d \<and>
    dx_userDevice (addFailure item d) = dx_userDevice d \<and> dx_inProgress (addFailure item d) = dx_inProgress d"
proof -
  let ?k = "(eci_streamId item, ed_sessionId (eci_encryptedData item))"
  have d: "distinct (map fst (dx_decryptionFailures d))" using assms(1) by (simp add: failures_ok_def)
  show ?thesis
  proof (cases "map_of (dx_decryptionFailures d) ?k")
    case None
    then show ?thesis
      using concat_update [OF d, of ?k "[item]"] d
      by (simp add: addFailure_def Let_def tracked_def failures_ok_def distinct_update)
  next
    case (Some items)
    then have "(?k, items) \<in> set (dx_decryptionFailures d)" by (rule map_of_SomeD)
    then have n: "eci_ref item \<notin> eci_ref ` set items" using assms(2) by force
    show ?thesis
      using concat_update [OF d, of ?k "items @ [item]"] d Some n
      by (simp add: addFailure_def Let_def tracked_def failures_ok_def distinct_update)
  qed
qed

section \<open>Operations\<close>

datatype DecryptionOp =
    D_newGroupSessions GroupEncryptionSessions
  | D_newEncryptedContent string string string EncryptedData
  | D_keySolicitation int "StreamView option" rat string string bytes KeySolicitation
  | D_streamUpToDate string
  | D_retryFailures int string
  | D_start
  | D_stop
  | D_highPriority "string list"
  | D_visibility bool
  | D_timeout int
  | D_finish DecryptionEnv

definition decryptionStep :: "externs \<Rightarrow> DecryptionOp \<Rightarrow> Decryption \<Rightarrow> (Decryption, DecryptionCall) outcome" where
  "decryptionStep x op =
     (case op of
        D_newGroupSessions s \<Rightarrow> enqueueNewGroupSessions s
      | D_newEncryptedContent streamId eventId kind data \<Rightarrow> enqueueNewEncryptedContent streamId eventId kind data
      | D_keySolicitation now stream random streamId fromUserId fromUserAddress k \<Rightarrow>
          enqueueKeySolicitation now stream random streamId fromUserId fromUserAddress k
      | D_streamUpToDate streamId \<Rightarrow> setStreamUpToDate streamId
      | D_retryFailures now streamId \<Rightarrow> retryDecryptionFailures now streamId
      | D_start \<Rightarrow> start
      | D_stop \<Rightarrow> stop
      | D_highPriority streamIds \<Rightarrow> setHighPriorityStreams streamIds
      | D_visibility hidden \<Rightarrow> mobileSafariPageVisibilityChanged hidden
      | D_timeout now \<Rightarrow> onTimeout now
      | D_finish env \<Rightarrow> finishTick x env)"

text \<open>
  The items an operation is done with: those it decrypts, those whose failure is refused by the view
  since the event has been decrypted in the meantime, and those whose second attempt fails for another
  reason than a missing session.
\<close>

definition refused :: "DecryptionEnv \<Rightarrow> EncryptedContentItem \<Rightarrow> js_error \<Rightarrow> bool" where
  "refused env item err = (reportRefused env item (sessionError item err) \<noteq> None)"

definition resolvedBy :: "DecryptionOp \<Rightarrow> Decryption \<Rightarrow> nat list" where
  "resolvedBy op d =
     (case op of
        D_finish env \<Rightarrow>
          (case dx_inProgress d of
             Some (W_content item) \<Rightarrow>
               (case en_decryptGroupEvent env item of
                  None \<Rightarrow> [eci_ref item]
                | Some err \<Rightarrow> if refused env item err then [eci_ref item] else [])
           | Some (W_retry r) \<Rightarrow>
               (case en_decryptGroupEvent env (dri_event r) of
                  None \<Rightarrow> [eci_ref (dri_event r)]
                | Some err \<Rightarrow>
                    if isSessionNotFoundError err \<and> \<not> refused env (dri_event r) err then []
                    else [eci_ref (dri_event r)])
           | _ \<Rightarrow> [])
      | _ \<Rightarrow> [])"

text \<open>
  Every item has its own number below the next one, is in one place, and the failures have one entry
  per stream and session.
\<close>

definition items_inv :: "Decryption \<Rightarrow> bool" where
  "items_inv d = (failures_ok d \<and> tracked d \<subseteq># mset [0..<dx_nextRef d])"

definition queues_inv :: "Decryption \<Rightarrow> bool" where
  "queues_inv d =
     (distinct (map (\<lambda>k. (ksi_streamId k, ks_deviceKey (ksi_solicitation k))) (dx_keySolicitations d)) \<and>
      (\<forall>k \<in> set (dx_keySolicitations d).
         ks_deviceKey (ksi_solicitation k) \<noteq> ud_deviceKey (dx_userDevice d) \<and>
         (ks_sessionIds (ksi_solicitation k) \<noteq> [] \<or> ks_isNewDevice (ksi_solicitation k))) \<and>
      distinct (map mki_streamId (dx_missingKeys d)))"

text \<open>One step: what is tracked and what is resolved is what was tracked and what is new.\<close>

definition conserves :: "DecryptionOp \<Rightarrow> Decryption \<Rightarrow> Decryption \<Rightarrow> bool" where
  "conserves op d d' =
     (tracked d' + mset (resolvedBy op d) = tracked d + mset [dx_nextRef d..<dx_nextRef d'] \<and>
      dx_nextRef d \<le> dx_nextRef d' \<and> failures_ok d')"

lemma missingKeys_fields [simp]:
  "tracked (addMissingKeys s t d) = tracked d" "tracked (removeMissingKeys s d) = tracked d"
  "failures_ok (addMissingKeys s t d) = failures_ok d" "failures_ok (removeMissingKeys s d) = failures_ok d"
  "dx_nextRef (addMissingKeys s t d) = dx_nextRef d" "dx_nextRef (removeMissingKeys s d) = dx_nextRef d"
  "dx_inProgress (addMissingKeys s t d) = dx_inProgress d" "dx_inProgress (removeMissingKeys s d) = dx_inProgress d"
  by (simp_all add: addMissingKeys_def removeMissingKeys_def tracked_def failures_ok_def)

lemma conserves_enqueue:
  assumes "failures_ok d" "\<forall>env. op \<noteq> D_finish env"
  shows "conserves op d (out_state (decryptionStep x op d))"
proof (cases op)
  case (D_newEncryptedContent a b c e)
  then show ?thesis
    using assms(1) by (simp add: conserves_def decryptionStep_def resolvedBy_def
        enqueueNewEncryptedContent_def failures_ok_def)
next
  case (D_timeout now)
  then show ?thesis
    using assms(1) tick_took [of d now]
    by (simp add: conserves_def decryptionStep_def resolvedBy_def onTimeout_def took_def failures_ok_def)
next
  case (D_finish env)
  then show ?thesis using assms(2) by blast
qed (use assms(1) in \<open>auto simp: conserves_def decryptionStep_def resolvedBy_def failures_ok_def
    enqueueNewGroupSessions_def enqueueKeySolicitation_def setStreamUpToDate_def retryDecryptionFailures_def
    start_def stop_def setHighPriorityStreams_def mobileSafariPageVisibilityChanged_def Let_def andThen_state
    addMissingKeys_def removeMissingKeys_def split: option.split sum.split\<close>)

section \<open>Finishing work\<close>

lemma upt_join: "a \<le> b \<Longrightarrow> b \<le> c \<Longrightarrow> mset [a..<b] + mset [b..<c] = mset [a..<c]"
  by (metis le_Suc_ex mset_append upt_add_eq_append)

lemma tracked_done: "tracked d = tracked (d\<lparr>dx_inProgress := None\<rparr>) + mset (map eci_ref (workItems (dx_inProgress d)))"
  by (simp add: tracked_def)

text \<open>What processing a piece of work keeps.\<close>

definition processed :: "Decryption \<Rightarrow> Decryption \<Rightarrow> bool" where
  "processed d d' =
     (failures_ok d' \<and> dx_nextRef d' = dx_nextRef d \<and> dx_inProgress d' = dx_inProgress d \<and>
      dx_userDevice d' = dx_userDevice d \<and> dx_keySolicitations d' = dx_keySolicitations d \<and>
      (distinct (map mki_streamId (dx_missingKeys d)) \<longrightarrow> distinct (map mki_streamId (dx_missingKeys d'))))"

lemma processNewGroupSession_ok:
  assumes "failures_ok d"
  shows "processed d (out_state (processNewGroupSession x env s d))"
    and "tracked (out_state (processNewGroupSession x env s d)) = tracked d"
proof -
  have "processed d (out_state (processNewGroupSession x env s d)) \<and>
      tracked (out_state (processNewGroupSession x env s d)) = tracked d"
    using assms requeueAll_ok [OF assms]
    by (auto simp: processNewGroupSession_def Let_def andThen_state processed_def split: option.split sum.split)
  then show "processed d (out_state (processNewGroupSession x env s d))"
    "tracked (out_state (processNewGroupSession x env s d)) = tracked d" by simp_all
qed

lemma andThen_events: "out_events (andThen r f) = out_events r @ (if out_error r = None then out_events (f (out_state r)) else [])"
  by (auto simp: then_do_def split: prod.splits option.splits)

lemma reportDecryptionError_out [simp]:
  "out_state (reportDecryptionError env item err d) = d"
  "out_events (reportDecryptionError env item err d) = [onDecryptionError item err]"
  "out_error (reportDecryptionError env item err d) = reportRefused env item err"
  by (simp_all add: reportDecryptionError_def andThen_state andThen_events andThen_error emit_def split: option.split)

text \<open>A report is refused only when the event has been decrypted.\<close>

lemma refused_decrypted:
  assumes "refused env item err"
  shows "\<exists>view a. en_stream env (eci_streamId item) = Some view \<and> v_events view (eci_eventId item) = Some a \<and>
    te_decryptedContent (v_store view ! a) \<noteq> None"
  using assms by (auto simp: refused_def reportRefused_def updateDecryptedContentError_def andThen_error Let_def check_def
      split: option.splits if_splits)

lemma processEncryptedContentItem_ok:
  assumes "failures_ok d"
  shows "processed d (out_state (processEncryptedContentItem env item d))"
    and "tracked (out_state (processEncryptedContentItem env item d)) =
      tracked d + (case en_decryptGroupEvent env item of
        None \<Rightarrow> {#} | Some err \<Rightarrow> if refused env item err then {#} else {#eci_ref item#})"
  using assms by (auto simp: processEncryptedContentItem_def andThen_state processed_def failures_ok_def tracked_def
      refused_def split: option.split)

lemma processDecryptionRetry_ok:
  assumes "failures_ok d" "\<forall>i \<in> set (concat (map snd (dx_decryptionFailures d))). eci_ref i \<noteq> eci_ref (dri_event r)"
  shows "processed d (out_state (processDecryptionRetry env r d))"
    and "tracked (out_state (processDecryptionRetry env r d)) = tracked d +
      (case en_decryptGroupEvent env (dri_event r) of
         None \<Rightarrow> {#}
       | Some err \<Rightarrow>
           if isSessionNotFoundError err \<and> \<not> refused env (dri_event r) err then {#eci_ref (dri_event r)#} else {#})"
proof -
  note a = addFailure_ok [OF assms]
  have "dx_userDevice (addMissingKeys s t e) = dx_userDevice e" "dx_userDevice (removeMissingKeys s e) = dx_userDevice e"
    "dx_keySolicitations (addMissingKeys s t e) = dx_keySolicitations e"
    "dx_keySolicitations (removeMissingKeys s e) = dx_keySolicitations e"
    "distinct (map mki_streamId (dx_missingKeys e)) \<Longrightarrow>
      distinct (map mki_streamId (dx_missingKeys (addMissingKeys s t (removeMissingKeys s e))))" for s t e
    using removeItem_key [of mki_streamId "dx_missingKeys e" s] removeItem_distinct [of mki_streamId "dx_missingKeys e"]
    by (simp_all add: addMissingKeys_def removeMissingKeys_def)
  then show "processed d (out_state (processDecryptionRetry env r d))"
    "tracked (out_state (processDecryptionRetry env r d)) = tracked d +
      (case en_decryptGroupEvent env (dri_event r) of
         None \<Rightarrow> {#}
       | Some err \<Rightarrow>
           if isSessionNotFoundError err \<and> \<not> refused env (dri_event r) err then {#eci_ref (dri_event r)#} else {#})"
    using a assms(1)
    by (auto simp: processDecryptionRetry_def Let_def andThen_state processed_def refused_def split: option.split)
qed

lemma processMissingKeys_state [simp]: "out_state (processMissingKeys env m d) = d"
  by (cases "isUserEntitledToKeyExchange env (mki_streamId m) (dx_userId d) True")
    (simp_all add: processMissingKeys_def Let_def)

lemma processKeySolicitation_state [simp]: "out_state (processKeySolicitation env k d) = d"
  by (cases "isUserEntitledToKeyExchange env (ksi_streamId k) (ksi_fromUserId k) False"; cases "en_sendError env")
    (simp_all add: processKeySolicitation_def Let_def andThen_state)

text \<open>The item under way is not among the failures.\<close>

lemma retry_not_failed:
  assumes "items_inv d" "dx_inProgress d = Some (W_retry r)"
  shows "\<forall>i \<in> set (concat (map snd (dx_decryptionFailures d))). eci_ref i \<noteq> eci_ref (dri_event r)"
proof
  fix i
  assume i: "i \<in> set (concat (map snd (dx_decryptionFailures d)))"
  let ?F = "image_mset eci_ref (mset (concat (map snd (dx_decryptionFailures d))))"
  show "eci_ref i \<noteq> eci_ref (dri_event r)"
  proof
    assume eq: "eci_ref i = eci_ref (dri_event r)"
    have "eci_ref (dri_event r) \<in># ?F" using i eq by (metis image_eqI set_image_mset set_mset_mset)
    then have "1 \<le> count ?F (eci_ref (dri_event r))" by simp
    moreover have "count (tracked d) (eci_ref (dri_event r)) \<ge> count ?F (eci_ref (dri_event r)) + 1"
      using assms(2) by (simp add: tracked_def)
    ultimately have "2 \<le> count (tracked d) (eci_ref (dri_event r))" by linarith
    moreover have "count (tracked d) n \<le> count (mset [0..<dx_nextRef d]) n" for n
      using assms(1) by (simp add: items_inv_def mset_subset_eq_count)
    moreover have "count (mset [0..<dx_nextRef d]) n \<le> 1" for n
      using distinct_count_atmost_1 [of "[0..<dx_nextRef d]"] by simp
    ultimately show False by (metis numeral_le_one_iff order_trans semiring_norm(69))
  qed
qed

lemma processWork_ok:
  assumes "items_inv d" "dx_inProgress d = Some w"
  shows "processed d (out_state (processWork x env w d)) \<and>
    tracked (out_state (processWork x env w d)) + mset (resolvedBy (D_finish env) d) =
      tracked d + mset (map eci_ref (workItems (dx_inProgress d)))"
proof -
  have f: "failures_ok d" using assms(1) by (simp add: items_inv_def)
  have p: "processed d d" using f by (simp add: processed_def)
  show ?thesis
  proof (cases w)
    case (W_session s)
    then show ?thesis using processNewGroupSession_ok [OF f, of x env s] assms(2) by (simp add: processWork_def resolvedBy_def)
  next
    case (W_content item)
    then show ?thesis
      using processEncryptedContentItem_ok [OF f, of env item] assms(2)
      by (simp add: processWork_def resolvedBy_def split: option.splits)
  next
    case (W_retry r)
    then show ?thesis
      using processDecryptionRetry_ok [OF f retry_not_failed [OF assms(1)], of r env] assms(2)
      by (simp add: processWork_def resolvedBy_def split: option.splits)
  qed (use p assms(2) in \<open>simp_all add: processWork_def resolvedBy_def\<close>)
qed

lemma finishTick_ok:
  assumes "items_inv d"
  shows "conserves (D_finish env) d (out_state (finishTick x env d))"
    and "queues_inv d \<Longrightarrow> queues_inv (out_state (finishTick x env d))"
proof -
  have "conserves (D_finish env) d (out_state (finishTick x env d)) \<and>
      (queues_inv d \<longrightarrow> queues_inv (out_state (finishTick x env d)))"
  proof (cases "dx_inProgress d")
    case None
    then show ?thesis
      using assms by (simp add: finishTick_def conserves_def resolvedBy_def items_inv_def)
  next
    case (Some w)
    define d1 where "d1 = out_state (processWork x env w d)"
    have p: "processed d d1" and t: "tracked d1 + mset (resolvedBy (D_finish env) d) =
        tracked d + mset (map eci_ref (workItems (dx_inProgress d)))"
      using processWork_ok [OF assms Some, of x env] by (simp_all add: d1_def)
    have s: "out_state (finishTick x env d) = out_state (checkStartTicking (d1\<lparr>dx_timeoutId := False, dx_inProgress := None\<rparr>))"
      by (simp add: finishTick_def Some andThen_state d1_def)
    have "tracked (d1\<lparr>dx_timeoutId := False, dx_inProgress := None\<rparr>) + mset (map eci_ref (workItems (dx_inProgress d))) = tracked d1"
      using tracked_done [of d1] p by (simp add: processed_def tracked_def)
    then have "tracked (d1\<lparr>dx_timeoutId := False, dx_inProgress := None\<rparr>) + mset (resolvedBy (D_finish env) d) +
        mset (map eci_ref (workItems (dx_inProgress d))) = tracked d + mset (map eci_ref (workItems (dx_inProgress d)))"
      using t unfolding union_assoc by (simp only: union_ac)
    then have "tracked (d1\<lparr>dx_timeoutId := False, dx_inProgress := None\<rparr>) + mset (resolvedBy (D_finish env) d) = tracked d"
      by (rule add_right_imp_eq)
    then have "conserves (D_finish env) d (out_state (finishTick x env d))"
      using p by (simp add: s conserves_def processed_def failures_ok_def)
    moreover have "queues_inv (out_state (finishTick x env d))" if "queues_inv d"
      using that p by (simp add: s queues_inv_def processed_def)
    ultimately show ?thesis by blast
  qed
  then show "conserves (D_finish env) d (out_state (finishTick x env d))"
    "queues_inv d \<Longrightarrow> queues_inv (out_state (finishTick x env d))" by simp_all
qed

lemma step_conserves:
  assumes "items_inv d"
  shows "conserves op d (out_state (decryptionStep x op d))"
proof (cases "\<exists>env. op = D_finish env")
  case True
  then show ?thesis using finishTick_ok(1) [OF assms] by (auto simp: decryptionStep_def)
next
  case False
  then show ?thesis using assms conserves_enqueue by (simp add: items_inv_def)
qed

lemma conserves_inv:
  assumes "conserves op d d'" "items_inv d"
  shows "items_inv d'"
proof -
  have "tracked d' \<subseteq># tracked d + mset [dx_nextRef d..<dx_nextRef d']"
    using assms(1) unfolding conserves_def by (metis mset_subset_eq_add_left)
  moreover have "tracked d + mset [dx_nextRef d..<dx_nextRef d'] \<subseteq># mset [0..<dx_nextRef d] + mset [dx_nextRef d..<dx_nextRef d']"
    using assms(2) by (simp add: items_inv_def)
  moreover have "mset [0..<dx_nextRef d] + mset [dx_nextRef d..<dx_nextRef d'] = mset [0..<dx_nextRef d']"
    using assms(1) by (intro upt_join) (simp_all add: conserves_def)
  ultimately have "tracked d' \<subseteq># mset [0..<dx_nextRef d']" by (metis subset_mset.order_trans)
  then show ?thesis using assms(1) by (simp add: items_inv_def conserves_def)
qed

interpretation decryption: stepping "decryptionStep x" items_inv "\<lambda>_ _. True" for x
  by unfold_locales (rule conserves_inv [OF step_conserves])

text \<open>The items a sequence of operations is done with.\<close>

fun resolvedRun :: "externs \<Rightarrow> DecryptionOp list \<Rightarrow> Decryption \<Rightarrow> nat list" where
  "resolvedRun x [] d = []"
| "resolvedRun x (op # ops) d = resolvedBy op d @ resolvedRun x ops (out_state (decryptionStep x op d))"

lemma run_conserves:
  assumes "items_inv d"
  shows "tracked (run (decryptionStep x) ops d) + mset (resolvedRun x ops d) =
      tracked d + mset [dx_nextRef d..<dx_nextRef (run (decryptionStep x) ops d)]
    \<and> dx_nextRef d \<le> dx_nextRef (run (decryptionStep x) ops d)"
  using assms
proof (induction ops arbitrary: d)
  case (Cons op ops)
  let ?d = "out_state (decryptionStep x op d)"
  let ?e = "run (decryptionStep x) ops ?d"
  note c = step_conserves [OF Cons.prems, of op x]
  note ih = Cons.IH [OF conserves_inv [OF c Cons.prems]]
  have le: "dx_nextRef d \<le> dx_nextRef ?d" "dx_nextRef ?d \<le> dx_nextRef ?e"
    using c ih by (simp_all add: conserves_def)
  have u: "mset [dx_nextRef d..<dx_nextRef ?e] = mset [dx_nextRef d..<dx_nextRef ?d] + mset [dx_nextRef ?d..<dx_nextRef ?e]"
    using upt_join [OF le] by simp
  have "tracked ?e + mset (resolvedRun x (op # ops) d) =
      (tracked ?e + mset (resolvedRun x ops ?d)) + mset (resolvedBy op d)" by simp
  also have "\<dots> = (tracked ?d + mset (resolvedBy op d)) + mset [dx_nextRef ?d..<dx_nextRef ?e]"
    using ih by simp
  also have "\<dots> = tracked d + mset [dx_nextRef d..<dx_nextRef ?e]"
    using c unfolding u conserves_def by simp
  finally show ?case using le by simp
qed simp

section \<open>The queues\<close>

lemma solicitations_taken:
  assumes "queues_inv d" "took d d'"
  shows "queues_inv d'"
proof -
  let ?key = "\<lambda>k. (ksi_streamId k, ks_deviceKey (ksi_solicitation k))"
  obtain m k where m: "mset (dx_missingKeys d) = mset (dx_missingKeys d') + m"
    and k: "mset (dx_keySolicitations d) = mset (dx_keySolicitations d') + k"
    using assms(2) by (auto simp: took_def)
  have sub: "distinct (map f ys)" if "distinct (map f xs)" "mset xs = mset ys + z" for f :: "'x \<Rightarrow> 'y" and xs ys z
  proof -
    obtain zs where "z = mset zs" by (metis ex_mset)
    then have "mset (map f xs) = mset (map f (ys @ zs))" using that(2) by simp
    then have "distinct (map f (ys @ zs))" using that(1) distinct_mset_eq by blast
    then show ?thesis by simp
  qed
  have "set (dx_keySolicitations d') \<subseteq> set (dx_keySolicitations d)"
    using k by (metis mset_subset_eq_add_left set_mset_mono set_mset_mset)
  moreover have "distinct (map ?key (dx_keySolicitations d'))"
    using sub [OF _ k, of ?key] assms(1) by (simp add: queues_inv_def)
  moreover have "distinct (map mki_streamId (dx_missingKeys d'))"
    using sub [OF _ m, of mki_streamId] assms(1) by (simp add: queues_inv_def)
  ultimately show ?thesis using assms by (auto simp: queues_inv_def took_def)
qed

lemma enqueueKeySolicitation_inv:
  assumes "queues_inv d"
  shows "queues_inv (out_state (enqueueKeySolicitation now stream random s u a k d))"
proof (cases "ks_deviceKey k = ud_deviceKey (dx_userDevice d)")
  case False
  let ?key = "\<lambda>k. (ksi_streamId k, ks_deviceKey (ksi_solicitation k))"
  define q where "q = removeItem (\<lambda>x. ?key x = (s, ks_deviceKey k)) (dx_keySolicitations d)"
  have q: "distinct (map ?key q)" "(s, ks_deviceKey k) \<notin> ?key ` set q" "set q \<subseteq> set (dx_keySolicitations d)"
  proof -
    have dk: "distinct (map ?key (dx_keySolicitations d))" using assms by (simp add: queues_inv_def)
    show "distinct (map ?key q)" unfolding q_def by (rule removeItem_distinct [OF dk])
    show "(s, ks_deviceKey k) \<notin> ?key ` set q" unfolding q_def by (rule removeItem_key [OF dk])
    show "set q \<subseteq> set (dx_keySolicitations d)" unfolding q_def by (rule removeItem_subset)
  qed
  have eq: "(case findIndex (\<lambda>x. ksi_streamId x = s \<and> ks_deviceKey (ksi_solicitation x) = ks_deviceKey k)
      (dx_keySolicitations d) of
      Some index \<Rightarrow> d\<lparr>dx_keySolicitations := removeAt index (dx_keySolicitations d)\<rparr> | None \<Rightarrow> d) =
      d\<lparr>dx_keySolicitations := q\<rparr>"
    by (auto simp: q_def removeItem_def split: option.split)
  have i: "queues_inv (d\<lparr>dx_keySolicitations := q\<rparr>)" using q assms by (auto simp: queues_inv_def)
  have "queues_inv (out_state (checkStartTicking (d\<lparr>dx_keySolicitations := insertSorted ksi_respondAfter
      \<lparr>ksi_streamId = s, ksi_fromUserId = u, ksi_fromUserAddress = a, ksi_solicitation = k, ksi_respondAfter = t\<rparr> q\<rparr>)))"
    if "ks_sessionIds k \<noteq> [] \<or> ks_isNewDevice k" for t
    using q i False that by (auto simp: queues_inv_def)
  then show ?thesis
    using False i by (auto simp: enqueueKeySolicitation_def Let_def eq split: sum.split)
qed (simp add: enqueueKeySolicitation_def assms)

lemma missingKeys_inv:
  "queues_inv d \<Longrightarrow> queues_inv (removeMissingKeys s d)"
  "queues_inv d \<Longrightarrow> queues_inv (addMissingKeys s t (removeMissingKeys s d))"
  using removeItem_key [of mki_streamId "dx_missingKeys d" s] removeItem_distinct [of mki_streamId "dx_missingKeys d"]
  by (simp_all add: queues_inv_def addMissingKeys_def removeMissingKeys_def)

lemma queues_check: "queues_inv (out_state (checkStartTicking d)) = queues_inv d"
  by (simp add: queues_inv_def)

lemma queues_step:
  assumes "queues_inv d" "items_inv d"
  shows "queues_inv (out_state (decryptionStep x op d))"
proof (cases op)
  case (D_timeout now)
  then show ?thesis
    using assms(1) solicitations_taken [OF assms(1) tick_took, of now]
    by (simp add: decryptionStep_def onTimeout_def)
next
  case (D_finish env)
  then show ?thesis using finishTick_ok(2) [OF assms(2)] assms(1) by (simp add: decryptionStep_def)
next
  case (D_keySolicitation now stream random s u a k)
  then show ?thesis using enqueueKeySolicitation_inv [OF assms(1)] by (simp add: decryptionStep_def)
next
  case (D_retryFailures now s)
  then show ?thesis
    using missingKeys_inv [OF assms(1)]
    by (simp add: decryptionStep_def retryDecryptionFailures_def Let_def queues_check)
qed (use assms(1) in \<open>simp_all add: decryptionStep_def enqueueNewGroupSessions_def enqueueNewEncryptedContent_def
    setStreamUpToDate_def start_def stop_def setHighPriorityStreams_def mobileSafariPageVisibilityChanged_def
    Let_def andThen_state queues_check, simp_all add: queues_inv_def\<close>)

interpretation queues: stepping "decryptionStep x" "\<lambda>d. queues_inv d \<and> items_inv d" "\<lambda>_ _. True" for x
  using queues_step decryption.step_inv by unfold_locales blast

lemma Decryption_new_inv: "items_inv (Decryption_new dev u i s)" "queues_inv (Decryption_new dev u i s)"
  by (simp_all add: items_inv_def queues_inv_def Decryption_new_def failures_ok_def tracked_def)

section \<open>What is sent\<close>

lemma with_value_events: "out_events (with_value v f s) = (case v of Inl e \<Rightarrow> [] | Inr a \<Rightarrow> out_events (f a s))"
  by (auto simp: effect_simps split: sum.splits)

lemma emit_events [simp]: "out_events (emit b e s) = (if b then [e] else [])"
  by (simp add: emit_def)

lemma check_events [simp]: "out_events (check c m k s) = []"
  by (simp add: check_def throw_def pass_def)

lemma try_catch_events [simp]: "out_events (try_catch r) = out_events r"
  by (auto simp: try_catch_def split: prod.splits)

lemmas events_simps = andThen_events with_value_events andThen_error andThen_state

lemma checkStartTicking_events: "set (out_events (checkStartTicking d)) \<subseteq> range decryptionExtStatusChanged"
  by (auto simp: checkStartTicking_def setStatus_def)

definition isShare :: "DecryptionCall \<Rightarrow> bool" where
  "isShare c = (case c of encryptAndShareGroupSessions _ _ _ \<Rightarrow> True | _ \<Rightarrow> False)"

lemma share_only_solicitation:
  assumes "c \<in> set (out_events (processWork x env w d))" "isShare c"
  shows "\<exists>item. w = W_solicitation item \<and> c \<in> set (out_events (processKeySolicitation env item d))"
proof (cases w)
  case (W_session s)
  then show ?thesis
    using assms by (auto simp: processWork_def processNewGroupSession_def Let_def events_simps isShare_def
        split: option.splits sum.splits if_splits)
next
  case (W_content item)
  then show ?thesis
    using assms by (auto simp: processWork_def processEncryptedContentItem_def events_simps isShare_def split: option.splits)
next
  case (W_retry r)
  then show ?thesis
    using assms by (auto simp: processWork_def processDecryptionRetry_def Let_def events_simps isShare_def
        split: option.splits if_splits)
next
  case (W_missing m)
  then show ?thesis
    using assms by (auto simp: processWork_def processMissingKeys_def Let_def events_simps isShare_def
        split: sum.splits if_splits)
qed (use assms in \<open>simp_all add: processWork_def\<close>)

text \<open>Both calls that answer a solicitation are made under the same conditions.\<close>

lemma solicitation_events:
  assumes "c \<in> set (out_events (processKeySolicitation env item d))" "isShare c"
  obtains known sessions where
    "c = encryptAndShareGroupSessions (ksi_streamId item) item sessions"
    "isUserEntitledToKeyExchange env (ksi_streamId item) (ksi_fromUserId item) False = Inr True"
    "set known \<subseteq> set (case en_getInboundGroupSessionIds env (ksi_streamId item) of Some ids \<Rightarrow> ids | None \<Rightarrow> [])"
    "ks_isNewDevice (ksi_solicitation item) \<or> set known \<subseteq> set (ks_sessionIds (ksi_solicitation item))"
    "sessions = List.map_filter (en_exportInboundGroupSession env (ksi_streamId item)) known"
proof -
  let ?known = "sort (case en_getInboundGroupSessionIds env (ksi_streamId item) of Some ids \<Rightarrow> ids | None \<Rightarrow> [])"
  let ?reply = "if ks_isNewDevice (ksi_solicitation item) then ?known
    else filter (\<lambda>i. i \<in> set (ks_sessionIds (ksi_solicitation item))) ?known"
  have "c = encryptAndShareGroupSessions (ksi_streamId item) item
      (List.map_filter (en_exportInboundGroupSession env (ksi_streamId item)) ?reply) \<and>
    isUserEntitledToKeyExchange env (ksi_streamId item) (ksi_fromUserId item) False = Inr True"
    using assms by (cases "isUserEntitledToKeyExchange env (ksi_streamId item) (ksi_fromUserId item) False"; cases "en_sendError env")
      (auto simp: processKeySolicitation_def Let_def events_simps isShare_def split: if_splits)
  then show ?thesis by (intro that [where known = ?reply]) auto
qed

definition isRequest :: "DecryptionCall \<Rightarrow> bool" where
  "isRequest c = (case c of sendKeySolicitation _ _ \<Rightarrow> True | _ \<Rightarrow> False)"

lemma request_only_missing:
  assumes "c \<in> set (out_events (processWork x env w d))" "isRequest c"
  shows "\<exists>m. w = W_missing m \<and> c \<in> set (out_events (processMissingKeys env m d))"
proof (cases w)
  case (W_session s)
  then show ?thesis
    using assms by (auto simp: processWork_def processNewGroupSession_def Let_def events_simps isRequest_def
        split: option.splits sum.splits if_splits)
next
  case (W_content item)
  then show ?thesis
    using assms by (auto simp: processWork_def processEncryptedContentItem_def events_simps isRequest_def split: option.splits)
next
  case (W_retry r)
  then show ?thesis
    using assms by (auto simp: processWork_def processDecryptionRetry_def Let_def events_simps isRequest_def
        split: option.splits if_splits)
next
  case (W_solicitation k)
  then show ?thesis
    using assms by (cases "isUserEntitledToKeyExchange env (ksi_streamId k) (ksi_fromUserId k) False"; cases "en_sendError env")
      (auto simp: processWork_def processKeySolicitation_def Let_def events_simps isRequest_def split: if_splits)
qed (use assms in \<open>simp_all add: processWork_def\<close>)

text \<open>The request that a device has open, if any.\<close>

definition openRequest :: "DecryptionEnv \<Rightarrow> string \<Rightarrow> Decryption \<Rightarrow> KeySolicitation option" where
  "openRequest env s d = find (\<lambda>k. ks_deviceKey k = ud_deviceKey (dx_userDevice d)) (getKeySolicitations env s d)"

lemma missing_events:
  assumes "c \<in> set (out_events (processMissingKeys env m d))"
  shows "\<exists>new. c = sendKeySolicitation (mki_streamId m)
        (makeSolicitation new (take 100 (sort (failedSessions (mki_streamId m) d))) d)
    \<and> failedSessions (mki_streamId m) d \<noteq> []
    \<and> isUserEntitledToKeyExchange env (mki_streamId m) (dx_userId d) True = Inr True
    \<and> (case openRequest env (mki_streamId m) d of
         None \<Rightarrow> True
       | Some k \<Rightarrow> \<not> ks_isNewDevice k \<and> ks_sessionIds k \<noteq> take 100 (sort (failedSessions (mki_streamId m) d)))"
  using assms
  by (cases "isUserEntitledToKeyExchange env (mki_streamId m) (dx_userId d) True")
    (auto simp: processMissingKeys_def Let_def events_simps openRequest_def split: if_splits option.splits)

lemma failedSessions_distinct: "failures_ok d \<Longrightarrow> distinct (failedSessions s d)"
proof -
  assume "failures_ok d"
  then have "distinct (filter (\<lambda>(a, _). a = s) (map fst (dx_decryptionFailures d)))"
    by (simp add: failures_ok_def distinct_filter)
  moreover have "inj_on snd (set (filter (\<lambda>(a, _). a = s) (map fst (dx_decryptionFailures d))))"
    by (auto simp: inj_on_def)
  ultimately show ?thesis unfolding failedSessions_def distinct_map by blast
qed

lemma entitled_view:
  assumes "isUserEntitledToKeyExchange env s u skip = Inr True"
  shows "\<exists>view. en_stream env s = Some view \<and> userIsEntitledToKeyExchange u view \<and>
    (case v_content view of ChannelC channel \<Rightarrow> skip \<or> en_isEntitled env (chv_spaceId channel) s u | _ \<Rightarrow> True)"
  using assms by (auto simp: isUserEntitledToKeyExchange_def split: option.splits if_splits Content.splits)

section \<open>Properties\<close>

text \<open>
  (C4) No encrypted content is lost or handled twice. Under any interleaving of events, timers and
  answers, every item that was ever enqueued is either done with (decrypted, found to be decrypted
  already when its failure is reported to the view, or given up after a second attempt failed for
  another reason than a missing session), exactly once, or it is in exactly one place: the content
  queue, the retry queue, the tick under way, or the failures that wait for a session.
\<close>
theorem content_conserved:
  "tracked (run (decryptionStep x) ops (Decryption_new dev u inbox streams)) +
     mset (resolvedRun x ops (Decryption_new dev u inbox streams)) =
   mset [0..<dx_nextRef (run (decryptionStep x) ops (Decryption_new dev u inbox streams))]"
  using run_conserves [OF Decryption_new_inv(1), of x ops dev u inbox streams]
  by (simp add: Decryption_new_def tracked_def)

text \<open>
  (C34) In every reachable state the queue of key solicitations has at most one entry for a stream and
  a device, none for this device itself and none that asks for nothing, and the queue of missing keys
  has at most one entry per stream.
\<close>
theorem key_queues_unique:
  "queues_inv (run (decryptionStep x) ops (Decryption_new dev u inbox streams))"
  using queues.run_inv [of "Decryption_new dev u inbox streams" x ops] Decryption_new_inv by simp

text \<open>
  (C9) Session keys are sent only in answer to a solicitation under way, only when the view of the
  stream says that the asking user may take part in the key exchange (and, for a channel, the
  contracts say that the user may read it), and only sessions the device has and, unless the device
  asking is new, that were asked for.
\<close>
theorem keys_only_to_entitled:
  assumes "encryptAndShareGroupSessions s item sessions \<in> set (out_events (finishTick x env d))"
  shows "dx_inProgress d = Some (W_solicitation item) \<and> s = ksi_streamId item
    \<and> (\<exists>view. en_stream env s = Some view \<and> userIsEntitledToKeyExchange (ksi_fromUserId item) view \<and>
         (case v_content view of
            ChannelC channel \<Rightarrow> en_isEntitled env (chv_spaceId channel) s (ksi_fromUserId item) | _ \<Rightarrow> True))
    \<and> (\<forall>g \<in> set sessions. \<exists>ids i. en_getInboundGroupSessionIds env s = Some ids \<and> i \<in> set ids \<and>
         en_exportInboundGroupSession env s i = Some g \<and>
         (ks_isNewDevice (ksi_solicitation item) \<or> i \<in> set (ks_sessionIds (ksi_solicitation item))))"
proof -
  let ?c = "encryptAndShareGroupSessions s item sessions"
  have share: "isShare ?c" by (simp add: isShare_def)
  obtain w where w: "dx_inProgress d = Some w" "?c \<in> set (out_events (processWork x env w d))"
    using assms checkStartTicking_events by (fastforce simp: finishTick_def andThen_events split: option.splits)
  obtain it where it: "w = W_solicitation it" "?c \<in> set (out_events (processKeySolicitation env it d))"
    using share_only_solicitation [OF w(2) share] by blast
  obtain known where k: "?c = encryptAndShareGroupSessions (ksi_streamId it) it
        (List.map_filter (en_exportInboundGroupSession env (ksi_streamId it)) known)"
    "isUserEntitledToKeyExchange env (ksi_streamId it) (ksi_fromUserId it) False = Inr True"
    "set known \<subseteq> set (case en_getInboundGroupSessionIds env (ksi_streamId it) of Some ids \<Rightarrow> ids | None \<Rightarrow> [])"
    "ks_isNewDevice (ksi_solicitation it) \<or> set known \<subseteq> set (ks_sessionIds (ksi_solicitation it))"
    using solicitation_events [OF it(2) share] by metis
  have eq: "s = ksi_streamId item" "it = item"
    "sessions = List.map_filter (en_exportInboundGroupSession env s) known" using k(1) by simp_all
  have "\<exists>ids i. en_getInboundGroupSessionIds env s = Some ids \<and> i \<in> set ids \<and> en_exportInboundGroupSession env s i = Some g \<and>
      (ks_isNewDevice (ksi_solicitation item) \<or> i \<in> set (ks_sessionIds (ksi_solicitation item)))"
    if g: "g \<in> set sessions" for g
  proof -
    obtain i where i: "i \<in> set known" "en_exportInboundGroupSession env s i = Some g"
      using g unfolding eq(3) by (auto simp: map_filter_def)
    moreover obtain ids where "en_getInboundGroupSessionIds env s = Some ids" "i \<in> set ids"
      using subsetD [OF k(3) i(1)] eq(1,2) by (cases "en_getInboundGroupSessionIds env s") simp_all
    ultimately show ?thesis using k(4) eq(2) by blast
  qed
  moreover have "\<exists>view. en_stream env s = Some view \<and> userIsEntitledToKeyExchange (ksi_fromUserId item) view \<and>
      (case v_content view of ChannelC channel \<Rightarrow> en_isEntitled env (chv_spaceId channel) s (ksi_fromUserId item) | _ \<Rightarrow> True)"
    using entitled_view [OF k(2)] unfolding eq(1,2) by (auto split: Content.splits)
  ultimately show ?thesis using w(1) it(1) eq(1,2) by simp
qed

definition sample_env :: DecryptionEnv where
  "sample_env =
     \<lparr>en_now = 50,
      en_stream = (\<lambda>s. Some (sample_view\<lparr>v_membershipContent := (Members_new sample_channel)\<lparr>mb_membership :=
        (Membership_new sample_channel)\<lparr>ms_joinedUsers := {''bob'', ''me''}\<rparr>\<rparr>\<rparr>)),
      en_isEntitled = (\<lambda>_ _ u. u = ''bob''),
      en_hasInboundSessionKeys = (\<lambda>_ _. False),
      en_getInboundGroupSessionIds = (\<lambda>_. Some [''s2'', ''s1'']),
      en_exportInboundGroupSession = (\<lambda>s i. Some \<lparr>gs_streamId = s, gs_sessionId = i, gs_sessionKey = ''k'', gs_algorithm = ''a''\<rparr>),
      en_decryptWithDeviceKey = (\<lambda>_ _. Inl (LibError ''no'')), en_importError = None,
      en_decryptGroupEvent = (\<lambda>_. Some (LibError ''Session not found'')), en_sendError = None\<rparr>"

definition sample_solicited :: KeySolicitationItem where
  "sample_solicited =
     \<lparr>ksi_streamId = sample_channel, ksi_fromUserId = ''bob'', ksi_fromUserAddress = [1],
      ksi_solicitation = \<lparr>ks_deviceKey = ''bd'', ks_fallbackKey = ''bf'', ks_isNewDevice = False, ks_sessionIds = [''s1'']\<rparr>,
      ksi_respondAfter = 7\<rparr>"

definition sample_decryption :: Decryption where
  "sample_decryption = Decryption_new \<lparr>ud_deviceKey = ''md'', ud_fallbackKey = ''mf''\<rparr> ''me'' (Some ''inbox'') {''inbox'', sample_channel}"

theorem keys_only_to_entitled_witness:
  "\<exists>view. en_stream sample_env sample_channel = Some view \<and> userIsEntitledToKeyExchange ''bob'' view"
proof -
  have "encryptAndShareGroupSessions sample_channel sample_solicited
      [\<lparr>gs_streamId = sample_channel, gs_sessionId = ''s1'', gs_sessionKey = ''k'', gs_algorithm = ''a''\<rparr>]
    \<in> set (out_events (finishTick sample_externs sample_env
        (sample_decryption\<lparr>dx_inProgress := Some (W_solicitation sample_solicited)\<rparr>)))" by code_simp
  from keys_only_to_entitled [OF this] show ?thesis by (auto simp: sample_solicited_def)
qed

text \<open>
  A request for missing keys asks only for sessions whose content could not be decrypted, at most
  100 of them, sorted and without repetition; it carries no ids when the device has no session of
  the stream; it is made only when the user may take part in the key exchange of the stream, and
  not when the device already has the same request open or has asked as a new device.
\<close>
theorem key_request_bounded:
  assumes "d = run (decryptionStep x) ops (Decryption_new dev u inbox streams)"
    and "sendKeySolicitation s k \<in> set (out_events (finishTick x env d))"
  shows "length (ks_sessionIds k) \<le> 100 \<and> sorted (ks_sessionIds k) \<and> distinct (ks_sessionIds k)
    \<and> set (ks_sessionIds k) \<subseteq> set (failedSessions s d) \<and> (ks_isNewDevice k \<longrightarrow> ks_sessionIds k = [])
    \<and> ks_deviceKey k = ud_deviceKey (dx_userDevice d)
    \<and> (\<exists>view. en_stream env s = Some view \<and> userIsEntitledToKeyExchange (dx_userId d) view)
    \<and> (case openRequest env s d of
         None \<Rightarrow> True
       | Some k' \<Rightarrow> \<not> ks_isNewDevice k' \<and> (\<not> ks_isNewDevice k \<longrightarrow> ks_sessionIds k' \<noteq> ks_sessionIds k))"
proof -
  let ?ids = "take 100 (sort (failedSessions s d))"
  have "items_inv d" unfolding assms(1) by (rule decryption.run_inv [OF Decryption_new_inv(1)]) simp
  then have dist: "distinct ?ids"
    by (simp add: items_inv_def failedSessions_distinct distinct_take)
  have sort: "sorted ?ids" by (simp add: sorted_wrt_take)
  have sub: "set ?ids \<subseteq> set (failedSessions s d)" by (metis set_sort set_take_subset)
  have c: "isRequest (sendKeySolicitation s k)" by (simp add: isRequest_def)
  obtain w where w: "sendKeySolicitation s k \<in> set (out_events (processWork x env w d))"
    using assms(2) checkStartTicking_events by (fastforce simp: finishTick_def andThen_events split: option.splits)
  obtain m where m: "sendKeySolicitation s k \<in> set (out_events (processMissingKeys env m d))"
    using request_only_missing [OF w c] by blast
  obtain new where k: "s = mki_streamId m" "k = makeSolicitation new ?ids d"
    "isUserEntitledToKeyExchange env s (dx_userId d) True = Inr True"
    "case openRequest env s d of None \<Rightarrow> True | Some k' \<Rightarrow> \<not> ks_isNewDevice k' \<and> ks_sessionIds k' \<noteq> ?ids"
    using missing_events [OF m] by auto
  show ?thesis
    using k(4) entitled_view [OF k(3)] dist sort sub unfolding k(2)
    by (auto simp: makeSolicitation_def split: option.splits)
qed

definition sample_requests :: "DecryptionOp list" where
  "sample_requests =
     [D_newEncryptedContent sample_channel ''e1'' ''text'' (sample_data ''c''), D_start,
      D_timeout 0, D_finish sample_env, D_timeout 0, D_finish sample_env, D_timeout 10, D_finish sample_env,
      D_timeout 4000, D_finish sample_env, D_timeout 5000]"

theorem key_request_bounded_witness:
  "length (ks_sessionIds \<lparr>ks_deviceKey = ''md'', ks_fallbackKey = ''mf'', ks_isNewDevice = False, ks_sessionIds = [ed_sessionId (sample_data ''c'')]\<rparr>) \<le> 100"
proof -
  have "sendKeySolicitation sample_channel
      \<lparr>ks_deviceKey = ''md'', ks_fallbackKey = ''mf'', ks_isNewDevice = False, ks_sessionIds = [ed_sessionId (sample_data ''c'')]\<rparr>
    \<in> set (out_events (finishTick sample_externs sample_env
      (run (decryptionStep sample_externs) sample_requests
        (Decryption_new \<lparr>ud_deviceKey = ''md'', ud_fallbackKey = ''mf''\<rparr> ''me'' (Some ''inbox'') {''inbox'', sample_channel}))))"
    by code_simp
  from key_request_bounded [OF refl this] show ?thesis by blast
qed

end
