(* ===== verification/Entitlement.thy ===== *)
theory Entitlement
  imports Externs
begin

text \<open>
  Entitlement rules. A rule is a tree of checks joined by and/or; the contracts store it as three
  arrays, the nodes being in post-order. This theory holds the data types and the translations
  between the two forms: \<open>core/web3/src/entitlement.ts\<close> (the client) and the decoder
  \<open>getOperationTree\<close> of \<open>core/xchain/entitlement/entitlement.go\<close> (the node that evaluates rules),
  the lemmas on the post-order form, and the two round trips. The client counts with numbers; the
  contract and the node keep indices of eight bits, so a rule can be stored when it has at
  most 256 checks.

  The objects of an array of operations are updated in place by \<open>postOrderArrayToTree\<close>. Operations
  are values here: an object is only updated before it becomes a child, and the arrays the
  decoders build hold each logical operation once, so no update is seen through another reference.
\<close>

section \<open>Data\<close>

text \<open>The enumerations; the last constructor is a number outside the enumeration.\<close>

datatype OperationType = OT_NONE | OT_CHECK | OT_LOGICAL | OT_other nat

datatype CheckOperationType =
  CT_NONE | CT_MOCK | CT_ERC20 | CT_ERC721 | CT_ERC1155 | CT_ISENTITLED | CT_other nat

datatype LogicalOperationType = LT_NONE | LT_AND | LT_OR | LT_other nat

record ContractOperation =
  co_opType :: OperationType
  co_index :: nat

record ContractLogicalOperation =
  cl_logOpType :: LogicalOperationType
  cl_leftOperationIndex :: nat
  cl_rightOperationIndex :: nat

record RuleCheckOperation =
  rc_opType :: CheckOperationType
  rc_chainId :: bigint
  rc_contractAddress :: string
  rc_threshold :: bigint

record RuleData =
  rd_operations :: "ContractOperation list"
  rd_checkOperations :: "RuleCheckOperation list"
  rd_logicalOperations :: "ContractLogicalOperation list"

text \<open>A decoded struct, or one whose \<open>operations\<close> is undefined.\<close>

datatype RuleDataStruct = RuleDataStruct RuleData | NoOperations

text \<open>
  An operation of the client. The children of a logical operation are optional: reading an array
  outside its bounds gives \<open>undefined\<close>.
\<close>

datatype Operation =
    CheckOperation CheckOperationType bigint string bigint
  | LogicalOperation LogicalOperationType "Operation option" "Operation option"
  | NoOperation nat

definition NoopOperation :: ContractOperation where
  "NoopOperation = \<lparr>co_opType = OT_NONE, co_index = 0\<rparr>"

definition NoopRuleData :: RuleData where
  "NoopRuleData = \<lparr>rd_operations = [NoopOperation], rd_checkOperations = [], rd_logicalOperations = []\<rparr>"

fun isCheckOperation :: "Operation \<Rightarrow> bool" where
  "isCheckOperation (CheckOperation _ _ _ _) = True"
| "isCheckOperation _ = False"

fun isLogicalOperation :: "Operation \<Rightarrow> bool" where
  "isLogicalOperation (LogicalOperation _ _ _) = True"
| "isLogicalOperation _ = False"

text \<open>Reading an array at an index.\<close>

definition elementAt :: "'a list \<Rightarrow> nat \<Rightarrow> 'a option" where
  "elementAt xs i = (if i < length xs then Some (xs ! i) else None)"

section \<open>From post-order array to tree\<close>

text \<open>One turn of the loop; the head of the list is the top of the stack.\<close>

fun pushOperation :: "Operation \<Rightarrow> Operation list \<Rightarrow> js_error + Operation list" where
  "pushOperation (LogicalOperation t _ _) (right # left # stack) =
     Inr (LogicalOperation t (Some left) (Some right) # stack)"
| "pushOperation (LogicalOperation _ _ _) _ = Inl (JsError ''Invalid post-order array, missing operations'')"
| "pushOperation op stack = Inr (op # stack)"

fun pushOperations :: "Operation list \<Rightarrow> Operation list \<Rightarrow> js_error + Operation list" where
  "pushOperations [] stack = Inr stack"
| "pushOperations (op # ops) stack = bindE (pushOperation op stack) (pushOperations ops)"

definition postOrderArrayToTree :: "Operation list \<Rightarrow> js_error + Operation" where
  "postOrderArrayToTree operations =
     bindE (pushOperations operations []) (\<lambda>stack.
       case stack of [] \<Rightarrow> Inl (JsError ''Invalid post-order array'') | root # _ \<Rightarrow> Inr root)"

section \<open>From rule data to operations\<close>

fun decodeOperations :: "RuleData \<Rightarrow> Operation list \<Rightarrow> ContractOperation list \<Rightarrow> js_error + Operation list" where
  "decodeOperations firstData decoded [] = Inr decoded"
| "decodeOperations firstData decoded (operation # operations) =
     (case co_opType operation of
        OT_CHECK \<Rightarrow>
          (case elementAt (rd_checkOperations firstData) (co_index operation) of
             None \<Rightarrow> Inl (JsError ''TypeError'')
           | Some c \<Rightarrow>
               decodeOperations firstData
                 (decoded @ [CheckOperation (rc_opType c) (rc_chainId c) (rc_contractAddress c) (rc_threshold c)]) operations)
      | OT_LOGICAL \<Rightarrow>
          (case elementAt (rd_logicalOperations firstData) (co_index operation) of
             None \<Rightarrow> Inl (JsError ''TypeError'')
           | Some l \<Rightarrow>
               decodeOperations firstData
                 (decoded @ [LogicalOperation (cl_logOpType l) (elementAt decoded (cl_leftOperationIndex l))
                               (elementAt decoded (cl_rightOperationIndex l))]) operations)
      | OT_NONE \<Rightarrow> decodeOperations firstData (decoded @ [NoOperation 0]) operations
      | OT_other _ \<Rightarrow> Inl (JsError ''Unknown logical operation type''))"

fun ruleDataToOperations :: "RuleDataStruct list \<Rightarrow> js_error + Operation list" where
  "ruleDataToOperations [] = Inr []"
| "ruleDataToOperations (NoOperations # _) = Inr []"
| "ruleDataToOperations (RuleDataStruct firstData # _) = decodeOperations firstData [] (rd_operations firstData)"

section \<open>From tree to rule data\<close>

definition pushCheck :: "CheckOperationType \<Rightarrow> bigint \<Rightarrow> string \<Rightarrow> bigint \<Rightarrow> RuleData \<Rightarrow> RuleData" where
  "pushCheck t chainId address threshold data = data
     \<lparr>rd_checkOperations := rd_checkOperations data @
        [\<lparr>rc_opType = t, rc_chainId = chainId, rc_contractAddress = address, rc_threshold = threshold\<rparr>],
      rd_operations := rd_operations data @
        [\<lparr>co_opType = OT_CHECK, co_index = length (rd_checkOperations data)\<rparr>]\<rparr>"

definition pushLogical :: "LogicalOperationType \<Rightarrow> RuleData \<Rightarrow> RuleData" where
  "pushLogical t data = data
     \<lparr>rd_logicalOperations := rd_logicalOperations data @
        [\<lparr>cl_logOpType = t, cl_leftOperationIndex = length (rd_logicalOperations data),
          cl_rightOperationIndex = length (rd_logicalOperations data) + 1\<rparr>],
      rd_operations := rd_operations data @
        [\<lparr>co_opType = OT_LOGICAL, co_index = length (rd_logicalOperations data)\<rparr>]\<rparr>"

text \<open>Reading \<open>opType\<close> of a missing child throws.\<close>

fun postOrderTraversal :: "Operation \<Rightarrow> RuleData \<Rightarrow> js_error + RuleData" where
  "postOrderTraversal (CheckOperation t chainId address threshold) data = Inr (pushCheck t chainId address threshold data)"
| "postOrderTraversal (LogicalOperation t (Some l) (Some r)) data =
     bindE (postOrderTraversal l data) (\<lambda>data.
     bindE (postOrderTraversal r data) (\<lambda>data.
     Inr (pushLogical t data)))"
| "postOrderTraversal (LogicalOperation t _ _) data = Inl (JsError ''TypeError'')"
| "postOrderTraversal (NoOperation _) data = Inr data"

definition treeToRuleData :: "Operation \<Rightarrow> js_error + RuleData" where
  "treeToRuleData root =
     postOrderTraversal root \<lparr>rd_operations = [], rd_checkOperations = [], rd_logicalOperations = []\<rparr>"

section \<open>Lists of checks\<close>

record ContractCheckOperation =
  cco_type :: CheckOperationType
  cco_chainId :: bigint
  cco_address :: string
  cco_threshold :: bigint

text \<open>The argument of \<open>createOperationsTree\<close>, whose threshold is optional.\<close>

record CheckInput =
  ci_type :: CheckOperationType
  ci_chainId :: bigint
  ci_address :: string
  ci_threshold :: "bigint option"

text \<open>One turn of the \<open>while\<close> loop: neighbours are joined, an odd last one moves up.\<close>

fun pairUp :: "Operation list \<Rightarrow> Operation list" where
  "pairUp (a # b # rest) = LogicalOperation LT_AND (Some a) (Some b) # pairUp rest"
| "pairUp ops = ops"

lemma length_pairUp: "length (pairUp ops) = (length ops + 1) div 2"
  by (induction ops rule: pairUp.induct) auto

function combineAll :: "Operation list \<Rightarrow> Operation list" where
  "combineAll operations = (if length operations > 1 then combineAll (pairUp operations) else operations)"
  by pat_completeness auto
termination by (relation "measure length") (auto simp: length_pairUp)

declare combineAll.simps [simp del]

definition checkOf :: "CheckInput \<Rightarrow> Operation" where
  "checkOf op = CheckOperation (ci_type op) (ci_chainId op) (ci_address op)
     (case ci_threshold op of Some t \<Rightarrow> t | None \<Rightarrow> 1)"

definition createOperationsTree :: "CheckInput list \<Rightarrow> js_error + RuleData" where
  "createOperationsTree checkOp =
     (if checkOp = [] then Inr NoopRuleData
      else treeToRuleData (hd (combineAll (map checkOf checkOp))))"

definition createExternalTokenStruct :: "string list \<Rightarrow> js_error + RuleData" where
  "createExternalTokenStruct addresses =
     (if addresses = [] then Inr NoopRuleData
      else createOperationsTree (map (\<lambda>a. \<lparr>ci_type = CT_ERC20, ci_chainId = 1, ci_address = a, ci_threshold = None\<rparr>) addresses))"

definition createExternalNFTStruct :: "string list \<Rightarrow> js_error + RuleData" where
  "createExternalNFTStruct addresses =
     (if addresses = [] then Inr NoopRuleData
      else createOperationsTree (map (\<lambda>a. \<lparr>ci_type = CT_ERC721, ci_chainId = 31337, ci_address = a, ci_threshold = None\<rparr>) addresses))"

fun toContractCheck :: "Operation \<Rightarrow> ContractCheckOperation list" where
  "toContractCheck (CheckOperation t chainId address threshold) =
     [\<lparr>cco_type = t, cco_chainId = chainId, cco_address = address, cco_threshold = threshold\<rparr>]"
| "toContractCheck _ = []"

definition createContractCheckOperationFromTree :: "RuleData \<Rightarrow> js_error + ContractCheckOperation list" where
  "createContractCheckOperationFromTree entitlementData =
     bindE (ruleDataToOperations [RuleDataStruct entitlementData]) (\<lambda>operations.
       Inr (concat (map toContractCheck operations)))"

section \<open>Rules on the chain\<close>

text \<open>The struct the contracts store and the node reads: indices are \<open>uint8\<close>.\<close>

record IRuleEntitlementOperation =
  io_opType :: OperationType
  io_index :: "8 word"

record IRuleEntitlementLogicalOperation =
  il_logOpType :: LogicalOperationType
  il_leftOperationIndex :: "8 word"
  il_rightOperationIndex :: "8 word"

record IRuleData =
  ird_operations :: "IRuleEntitlementOperation list"
  ird_checkOperations :: "RuleCheckOperation list"
  ird_logicalOperations :: "IRuleEntitlementLogicalOperation list"

text \<open>
  The numbers of the client that the fields of the struct can hold: enumerations have no other
  values, indices are below 256, chain ids and thresholds below \<open>2 ^ 256\<close>. Contract
  addresses are kept as the strings the client writes them with.
\<close>

definition fits_operation :: "ContractOperation \<Rightarrow> bool" where
  "fits_operation o' = ((case co_opType o' of OT_other _ \<Rightarrow> False | _ \<Rightarrow> True) \<and> co_index o' < 256)"

definition fits_check :: "RuleCheckOperation \<Rightarrow> bool" where
  "fits_check k = ((case rc_opType k of CT_other _ \<Rightarrow> False | _ \<Rightarrow> True) \<and>
     0 \<le> rc_chainId k \<and> rc_chainId k < 2 ^ 256 \<and> 0 \<le> rc_threshold k \<and> rc_threshold k < 2 ^ 256)"

definition fits_logical :: "ContractLogicalOperation \<Rightarrow> bool" where
  "fits_logical l = ((case cl_logOpType l of LT_other _ \<Rightarrow> False | _ \<Rightarrow> True) \<and>
     cl_leftOperationIndex l < 256 \<and> cl_rightOperationIndex l < 256)"

definition fits_struct :: "RuleData \<Rightarrow> bool" where
  "fits_struct data = (list_all fits_operation (rd_operations data) \<and> list_all fits_check (rd_checkOperations data) \<and>
     list_all fits_logical (rd_logicalOperations data))"

definition narrowOperation :: "ContractOperation \<Rightarrow> IRuleEntitlementOperation" where
  "narrowOperation o' = \<lparr>io_opType = co_opType o', io_index = of_nat (co_index o')\<rparr>"

definition narrowLogical :: "ContractLogicalOperation \<Rightarrow> IRuleEntitlementLogicalOperation" where
  "narrowLogical l = \<lparr>il_logOpType = cl_logOpType l, il_leftOperationIndex = of_nat (cl_leftOperationIndex l),
     il_rightOperationIndex = of_nat (cl_rightOperationIndex l)\<rparr>"

definition narrowRuleData :: "RuleData \<Rightarrow> IRuleData" where
  "narrowRuleData data =
     \<lparr>ird_operations = map narrowOperation (rd_operations data), ird_checkOperations = rd_checkOperations data,
      ird_logicalOperations = map narrowLogical (rd_logicalOperations data)\<rparr>"

text \<open>
  What \<open>abi.decode\<close> makes of the encoding of the client's struct: nothing when a number does not
  fit its field. What the client decodes from the bytes of a stored struct are its numbers.
\<close>

definition encodeEntitlementData :: "RuleData \<Rightarrow> IRuleData option" where
  "encodeEntitlementData ruleData = (if fits_struct ruleData then Some (narrowRuleData ruleData) else None)"

definition decodeEntitlementData :: "IRuleData \<Rightarrow> RuleDataStruct list" where
  "decodeEntitlementData data =
     [RuleDataStruct
        \<lparr>rd_operations = map (\<lambda>o'. \<lparr>co_opType = io_opType o', co_index = unat (io_index o')\<rparr>) (ird_operations data),
         rd_checkOperations = ird_checkOperations data,
         rd_logicalOperations =
           map (\<lambda>l. \<lparr>cl_logOpType = il_logOpType l, cl_leftOperationIndex = unat (il_leftOperationIndex l),
                     cl_rightOperationIndex = unat (il_rightOperationIndex l)\<rparr>) (ird_logicalOperations data)\<rparr>]"

section \<open>The decoder of the evaluating node\<close>

text \<open>An error value, or a panic (an index outside a slice).\<close>

datatype go_error = GoError string | GoPanic

fun xchain_decode :: "IRuleData \<Rightarrow> Operation list \<Rightarrow> IRuleEntitlementOperation list \<Rightarrow> go_error + Operation list" where
  "xchain_decode ruleData decoded [] = Inr decoded"
| "xchain_decode ruleData decoded (operation # operations) =
     (case io_opType operation of
        OT_CHECK \<Rightarrow>
          (case elementAt (ird_checkOperations ruleData) (unat (io_index operation)) of
             None \<Rightarrow> Inl GoPanic
           | Some c \<Rightarrow>
               xchain_decode ruleData
                 (decoded @ [CheckOperation (rc_opType c) (rc_chainId c) (rc_contractAddress c) (rc_threshold c)]) operations)
      | OT_LOGICAL \<Rightarrow>
          (case elementAt (ird_logicalOperations ruleData) (unat (io_index operation)) of
             None \<Rightarrow> Inl GoPanic
           | Some l \<Rightarrow>
               if il_logOpType l = LT_AND \<or> il_logOpType l = LT_OR
               then (case (elementAt decoded (unat (il_leftOperationIndex l)), elementAt decoded (unat (il_rightOperationIndex l))) of
                       (Some left, Some right) \<Rightarrow>
                         xchain_decode ruleData (decoded @ [LogicalOperation (il_logOpType l) (Some left) (Some right)]) operations
                     | _ \<Rightarrow> Inl GoPanic)
               else Inl (GoError ''Unknown logical operation type''))
      | _ \<Rightarrow> Inl (GoError ''Unknown logical operation type''))"

fun xchain_stack :: "Operation list \<Rightarrow> Operation list \<Rightarrow> go_error + Operation list" where
  "xchain_stack [] stack = Inr stack"
| "xchain_stack (LogicalOperation t _ _ # ops) (right # left # stack) =
     xchain_stack ops (LogicalOperation t (Some left) (Some right) # stack)"
| "xchain_stack (LogicalOperation t _ _ # ops) _ = Inl (GoError ''Invalid post-order array, not enough operands'')"
| "xchain_stack (CheckOperation t chainId address threshold # ops) stack =
     xchain_stack ops (CheckOperation t chainId address threshold # stack)"
| "xchain_stack (NoOperation _ # ops) stack = Inl (GoError ''Unknown operation type'')"

definition xchain_getOperationTree :: "IRuleData \<Rightarrow> go_error + Operation" where
  "xchain_getOperationTree ruleData =
     (case xchain_decode ruleData [] (ird_operations ruleData) of
        Inl e \<Rightarrow> Inl e
      | Inr decoded \<Rightarrow>
          (case xchain_stack decoded [] of
             Inl e \<Rightarrow> Inl e
           | Inr stack \<Rightarrow> if length stack \<noteq> 1 then Inl (GoError ''Invalid post-order array'') else Inr (hd stack)))"

section \<open>The post-order form\<close>

text \<open>
  What the traversal appends to the three arrays, as functions of the tree and of the number of
  checks (\<open>c\<close>) and logical operations (\<open>n\<close>) already there.
\<close>

fun gateCount :: "Operation \<Rightarrow> nat" where
  "gateCount (LogicalOperation _ (Some l) (Some r)) = gateCount l + gateCount r + 1"
| "gateCount _ = 0"

fun checksOf :: "Operation \<Rightarrow> RuleCheckOperation list" where
  "checksOf (CheckOperation t chainId address threshold) =
     [\<lparr>rc_opType = t, rc_chainId = chainId, rc_contractAddress = address, rc_threshold = threshold\<rparr>]"
| "checksOf (LogicalOperation _ (Some l) (Some r)) = checksOf l @ checksOf r"
| "checksOf _ = []"

fun logicalsOf :: "nat \<Rightarrow> Operation \<Rightarrow> ContractLogicalOperation list" where
  "logicalsOf n (LogicalOperation t (Some l) (Some r)) =
     logicalsOf n l @ logicalsOf (n + gateCount l) r @
     [\<lparr>cl_logOpType = t, cl_leftOperationIndex = n + gateCount l + gateCount r,
       cl_rightOperationIndex = n + gateCount l + gateCount r + 1\<rparr>]"
| "logicalsOf n _ = []"

fun operationsOf :: "nat \<Rightarrow> nat \<Rightarrow> Operation \<Rightarrow> ContractOperation list" where
  "operationsOf c n (CheckOperation _ _ _ _) = [\<lparr>co_opType = OT_CHECK, co_index = c\<rparr>]"
| "operationsOf c n (LogicalOperation t (Some l) (Some r)) =
     operationsOf c n l @ operationsOf (c + gateCount l + 1) (n + gateCount l) r @
     [\<lparr>co_opType = OT_LOGICAL, co_index = n + gateCount l + gateCount r\<rparr>]"
| "operationsOf c n _ = []"

text \<open>A rule: every leaf is a check and every logical operation has both children.\<close>

fun is_rule :: "Operation \<Rightarrow> bool" where
  "is_rule (CheckOperation _ _ _ _) = True"
| "is_rule (LogicalOperation t (Some l) (Some r)) = (is_rule l \<and> is_rule r)"
| "is_rule _ = False"

fun gates_ok :: "Operation \<Rightarrow> bool" where
  "gates_ok (LogicalOperation t (Some l) (Some r)) = ((t = LT_AND \<or> t = LT_OR) \<and> gates_ok l \<and> gates_ok r)"
| "gates_ok _ = True"

lemma is_rule_induct [consumes 1, case_names Check Logical]:
  assumes "is_rule t"
    and "\<And>c i a h. P (CheckOperation c i a h)"
    and "\<And>o' l r. is_rule l \<Longrightarrow> is_rule r \<Longrightarrow> P l \<Longrightarrow> P r \<Longrightarrow> P (LogicalOperation o' (Some l) (Some r))"
  shows "P t"
  using assms(1) by (induction t rule: is_rule.induct) (auto intro: assms(2,3))

lemma length_checksOf [simp]: "is_rule t \<Longrightarrow> length (checksOf t) = gateCount t + 1"
  by (induction rule: is_rule_induct) auto

lemma length_logicalsOf [simp]: "is_rule t \<Longrightarrow> length (logicalsOf n t) = gateCount t"
  by (induction arbitrary: n rule: is_rule_induct) auto

lemma length_operationsOf [simp]: "is_rule t \<Longrightarrow> length (operationsOf c n t) = 2 * gateCount t + 1"
  by (induction arbitrary: c n rule: is_rule_induct) auto

definition appended :: "Operation \<Rightarrow> RuleData \<Rightarrow> RuleData" where
  "appended t d = d
     \<lparr>rd_operations := rd_operations d @ operationsOf (length (rd_checkOperations d)) (length (rd_logicalOperations d)) t,
      rd_checkOperations := rd_checkOperations d @ checksOf t,
      rd_logicalOperations := rd_logicalOperations d @ logicalsOf (length (rd_logicalOperations d)) t\<rparr>"

lemma postOrderTraversal_appends: "is_rule t \<Longrightarrow> postOrderTraversal t d = Inr (appended t d)"
  by (induction arbitrary: d rule: is_rule_induct)
    (simp_all add: appended_def pushCheck_def pushLogical_def add.assoc)

lemma treeToRuleData_eq:
  "is_rule t \<Longrightarrow> treeToRuleData t =
     Inr \<lparr>rd_operations = operationsOf 0 0 t, rd_checkOperations = checksOf t, rd_logicalOperations = logicalsOf 0 t\<rparr>"
  by (simp add: treeToRuleData_def postOrderTraversal_appends appended_def)

text \<open>Rule data that holds the arrays of a tree at given positions.\<close>

definition holds_at :: "nat \<Rightarrow> nat \<Rightarrow> Operation \<Rightarrow> RuleData \<Rightarrow> bool" where
  "holds_at c n t d =
     ((\<exists>xs ys. rd_checkOperations d = xs @ checksOf t @ ys \<and> length xs = c) \<and>
      (\<exists>xs ys. rd_logicalOperations d = xs @ logicalsOf n t @ ys \<and> length xs = n))"

lemma elementAt_middle [simp]: "length xs = i \<Longrightarrow> elementAt (xs @ y # ys) i = Some y"
  by (auto simp: elementAt_def)

lemma holds_at_check:
  "holds_at c n (CheckOperation t i a h) d \<Longrightarrow>
     elementAt (rd_checkOperations d) c = Some \<lparr>rc_opType = t, rc_chainId = i, rc_contractAddress = a, rc_threshold = h\<rparr>"
  by (auto simp: holds_at_def)

lemma holds_at_logical:
  assumes "holds_at c n (LogicalOperation t (Some l) (Some r)) d" "is_rule l" "is_rule r"
  shows "holds_at c n l d" "holds_at (c + gateCount l + 1) (n + gateCount l) r d"
    "elementAt (rd_logicalOperations d) (n + gateCount l + gateCount r) =
       Some \<lparr>cl_logOpType = t, cl_leftOperationIndex = n + gateCount l + gateCount r, cl_rightOperationIndex = n + gateCount l + gateCount r + 1\<rparr>"
proof -
  obtain xs ys us vs where d: "rd_checkOperations d = xs @ checksOf l @ checksOf r @ ys" "length xs = c"
    "rd_logicalOperations d = us @ logicalsOf n l @ logicalsOf (n + gateCount l) r @
       \<lparr>cl_logOpType = t, cl_leftOperationIndex = n + gateCount l + gateCount r, cl_rightOperationIndex = n + gateCount l + gateCount r + 1\<rparr> # vs"
    "length us = n"
    using assms(1) by (auto simp: holds_at_def)
  show "holds_at c n l d"
    unfolding holds_at_def d(1,3) using d(2,4) by blast
  show "holds_at (c + gateCount l + 1) (n + gateCount l) r d"
    unfolding holds_at_def
  proof
    show "\<exists>as bs. rd_checkOperations d = as @ checksOf r @ bs \<and> length as = c + gateCount l + 1"
      using d(1,2) assms(2) by (intro exI [of _ "xs @ checksOf l"] exI [of _ ys]) simp
    show "\<exists>as bs. rd_logicalOperations d = as @ logicalsOf (n + gateCount l) r @ bs \<and> length as = n + gateCount l"
      unfolding d(3) using d(4) assms(2)
      by (metis append.assoc length_append length_logicalsOf)
  qed
  show "elementAt (rd_logicalOperations d) (n + gateCount l + gateCount r) =
       Some \<lparr>cl_logOpType = t, cl_leftOperationIndex = n + gateCount l + gateCount r, cl_rightOperationIndex = n + gateCount l + gateCount r + 1\<rparr>"
    unfolding d(3) append.assoc [symmetric]
    by (rule elementAt_middle) (simp add: d(4) assms)
qed

lemma pushOperations_append:
  "pushOperations (xs @ ys) stk = bindE (pushOperations xs stk) (pushOperations ys)"
  by (induction xs arbitrary: stk) (auto split: sum.splits simp: bindE_Inr, metis bindE.simps sum.exhaust)

lemma decodeOperations_append:
  "decodeOperations d dec (xs @ ys) = bindE (decodeOperations d dec xs) (\<lambda>dec'. decodeOperations d dec' ys)"
  by (induction xs arbitrary: dec) (auto split: OperationType.splits option.splits)

lemma xchain_decode_append:
  "xchain_decode d dec xs = Inr dec' \<Longrightarrow> xchain_decode d dec (xs @ ys) = xchain_decode d dec' ys"
  by (induction xs arbitrary: dec) (auto split: OperationType.splits option.splits if_splits)

lemma xchain_stack_append:
  "xchain_stack xs stk = Inr stk' \<Longrightarrow> xchain_stack (xs @ ys) stk = xchain_stack ys stk'"
  by (induction xs stk rule: xchain_stack.induct) auto

text \<open>
  Decoding the arrays of a tree after \<open>dec\<close> operations appends operations that, pushed in order,
  leave exactly the tree on the stack, whatever children their indices gave them.
\<close>

lemma decode_tree:
  assumes "is_rule t" "holds_at c n t d"
  shows "\<exists>ops. decodeOperations d dec (operationsOf c n t) = Inr (dec @ ops) \<and>
    (\<forall>stk. pushOperations ops stk = Inr (t # stk)) \<and> concat (map toContractCheck ops) =
      map (\<lambda>k. \<lparr>cco_type = rc_opType k, cco_chainId = rc_chainId k, cco_address = rc_contractAddress k, cco_threshold = rc_threshold k\<rparr>) (checksOf t)"
  using assms
proof (induction arbitrary: c n dec rule: is_rule_induct)
  case (Check t i a h)
  then show ?case by (simp add: holds_at_check)
next
  case (Logical t l r)
  note h = holds_at_logical [OF Logical.prems Logical.hyps]
  obtain ops1 where 1: "decodeOperations d dec (operationsOf c n l) = Inr (dec @ ops1)"
    "\<forall>stk. pushOperations ops1 stk = Inr (l # stk)"
    "concat (map toContractCheck ops1) =
      map (\<lambda>k. \<lparr>cco_type = rc_opType k, cco_chainId = rc_chainId k, cco_address = rc_contractAddress k, cco_threshold = rc_threshold k\<rparr>) (checksOf l)"
    using Logical.IH(1) [OF h(1)] by blast
  obtain ops2 where 2: "decodeOperations d (dec @ ops1) (operationsOf (c + gateCount l + 1) (n + gateCount l) r) = Inr ((dec @ ops1) @ ops2)"
    "\<forall>stk. pushOperations ops2 stk = Inr (r # stk)"
    "concat (map toContractCheck ops2) =
      map (\<lambda>k. \<lparr>cco_type = rc_opType k, cco_chainId = rc_chainId k, cco_address = rc_contractAddress k, cco_threshold = rc_threshold k\<rparr>) (checksOf r)"
    using Logical.IH(2) [OF h(2)] by blast
  let ?m = "n + gateCount l + gateCount r"
  let ?op = "LogicalOperation t (elementAt (dec @ ops1 @ ops2) ?m) (elementAt (dec @ ops1 @ ops2) (?m + 1))"
  have "decodeOperations d dec (operationsOf c n (LogicalOperation t (Some l) (Some r))) = Inr (dec @ (ops1 @ ops2 @ [?op]))"
    using 1(1) 2(1) h(3) by (simp add: decodeOperations_append)
  moreover have "pushOperations (ops1 @ ops2 @ [?op]) stk = Inr (LogicalOperation t (Some l) (Some r) # stk)" for stk
    using 1(2) 2(2) by (simp add: pushOperations_append)
  ultimately show ?case using 1(3) 2(3) by (intro exI [of _ "ops1 @ ops2 @ [?op]"]) simp
qed

text \<open>
  The node's decoder needs the indices to be inside the operations decoded so far. They are: a
  post-order array has more than twice as many operations as logical operations.
\<close>

lemma elementAt_map: "elementAt (map f xs) i = map_option f (elementAt xs i)"
  by (simp add: elementAt_def)

lemma elementAt_all: "elementAt xs i = Some x \<Longrightarrow> list_all P xs \<Longrightarrow> P x"
  by (auto simp: elementAt_def list_all_length split: if_splits)

lemma unat_uint8 [simp]: "n < 256 \<Longrightarrow> unat (of_nat n :: 8 word) = n"
  by (simp add: unat_of_nat)

lemma narrow_simps [simp]:
  "ird_operations (narrowRuleData d) = map narrowOperation (rd_operations d)"
  "ird_checkOperations (narrowRuleData d) = rd_checkOperations d"
  "ird_logicalOperations (narrowRuleData d) = map narrowLogical (rd_logicalOperations d)"
  "io_opType (narrowOperation o') = co_opType o'" "il_logOpType (narrowLogical l) = cl_logOpType l"
  "fits_operation o' \<Longrightarrow> unat (io_index (narrowOperation o')) = co_index o'"
  "fits_logical l \<Longrightarrow> unat (il_leftOperationIndex (narrowLogical l)) = cl_leftOperationIndex l"
  "fits_logical l \<Longrightarrow> unat (il_rightOperationIndex (narrowLogical l)) = cl_rightOperationIndex l"
  by (auto simp: narrowRuleData_def narrowOperation_def narrowLogical_def fits_operation_def fits_logical_def)

lemma decode_encoded:
  assumes "encodeEntitlementData d = Some c"
  shows "decodeEntitlementData c = [RuleDataStruct d]"
proof -
  have f: "fits_struct d" and c: "c = narrowRuleData d" using assms by (auto simp: encodeEntitlementData_def split: if_splits)
  have "map (\<lambda>o'. \<lparr>co_opType = io_opType o', co_index = unat (io_index o')\<rparr>) (map narrowOperation xs) = xs"
    if "list_all fits_operation xs" for xs
    using that by (induction xs) simp_all
  moreover have "map (\<lambda>l. \<lparr>cl_logOpType = il_logOpType l, cl_leftOperationIndex = unat (il_leftOperationIndex l),
      cl_rightOperationIndex = unat (il_rightOperationIndex l)\<rparr>) (map narrowLogical xs) = xs" if "list_all fits_logical xs" for xs
    using that by (induction xs) simp_all
  ultimately show ?thesis using f by (simp add: c decodeEntitlementData_def fits_struct_def del: map_map)
qed

lemma xchain_decode_tree:
  assumes "is_rule t" "gates_ok t" "holds_at c n t d" "2 * n \<le> length dec"
    and "list_all fits_logical (rd_logicalOperations d)" "list_all fits_operation (operationsOf c n t)"
  shows "\<exists>ops. xchain_decode (narrowRuleData d) dec (map narrowOperation (operationsOf c n t)) = Inr (dec @ ops) \<and>
    length ops = 2 * gateCount t + 1 \<and> (\<forall>stk. xchain_stack ops stk = Inr (t # stk))"
  using assms
proof (induction arbitrary: c n dec rule: is_rule_induct)
  case (Check t i a h)
  then show ?case by (simp add: holds_at_check)
next
  case (Logical t l r)
  let ?d = "narrowRuleData d"
  note h = holds_at_logical [OF Logical.prems(2) Logical.hyps]
  have g: "gates_ok l" "gates_ok r" "t = LT_AND \<or> t = LT_OR" using Logical.prems(1) by simp_all
  let ?m = "n + gateCount l + gateCount r"
  have f: "list_all fits_operation (operationsOf c n l)" "list_all fits_operation (operationsOf (c + gateCount l + 1) (n + gateCount l) r)"
    "fits_operation \<lparr>co_opType = OT_LOGICAL, co_index = ?m\<rparr>" using Logical.prems(5) by simp_all
  obtain ops1 where 1: "xchain_decode ?d dec (map narrowOperation (operationsOf c n l)) = Inr (dec @ ops1)"
    "length ops1 = 2 * gateCount l + 1" "\<forall>stk. xchain_stack ops1 stk = Inr (l # stk)"
    using Logical.IH(1) [OF g(1) h(1) Logical.prems(3,4) f(1)] by blast
  have "2 * (n + gateCount l) \<le> length (dec @ ops1)" using Logical.prems(3) 1(2) by simp
  then obtain ops2 where 2: "xchain_decode ?d (dec @ ops1) (map narrowOperation (operationsOf (c + gateCount l + 1) (n + gateCount l) r)) = Inr ((dec @ ops1) @ ops2)"
    "length ops2 = 2 * gateCount r + 1" "\<forall>stk. xchain_stack ops2 stk = Inr (r # stk)"
    using Logical.IH(2) [OF g(2) h(2) _ Logical.prems(4) f(2)] by blast
  let ?dec = "dec @ ops1 @ ops2"
  let ?op = "LogicalOperation t (Some (?dec ! ?m)) (Some (?dec ! (?m + 1)))"
  have in_range: "elementAt ?dec ?m = Some (?dec ! ?m)" "elementAt ?dec (?m + 1) = Some (?dec ! (?m + 1))"
    using Logical.prems(3) 1(2) 2(2) by (simp_all add: elementAt_def)
  have "xchain_decode ?d dec (map narrowOperation (operationsOf c n (LogicalOperation t (Some l) (Some r)))) = Inr (dec @ (ops1 @ ops2 @ [?op]))"
    using xchain_decode_append [OF 1(1)] xchain_decode_append [OF 2(1)] h(3) in_range g(3) f(3) elementAt_all [OF h(3) Logical.prems(4)]
    by (simp add: elementAt_map)
  moreover have "xchain_stack (ops1 @ ops2 @ [?op]) stk = Inr (LogicalOperation t (Some l) (Some r) # stk)" for stk
    using xchain_stack_append 1(3) 2(3) by simp
  ultimately show ?case using 1(2) 2(2) by (intro exI [of _ "ops1 @ ops2 @ [?op]"]) simp
qed

text \<open>
  Which trees can be stored: those of at most 256 checks, with gates and checks of the
  enumerations and numbers in range.
\<close>

fun gates_known :: "Operation \<Rightarrow> bool" where
  "gates_known (LogicalOperation t (Some l) (Some r)) = ((case t of LT_other _ \<Rightarrow> False | _ \<Rightarrow> True) \<and> gates_known l \<and> gates_known r)"
| "gates_known _ = True"

definition storable :: "Operation \<Rightarrow> bool" where
  "storable t = (length (checksOf t) \<le> 256 \<and> list_all fits_check (checksOf t) \<and> gates_known t)"

lemma fits_operationsOf:
  "is_rule t \<Longrightarrow> list_all fits_operation (operationsOf c n t) = (c + gateCount t < 256 \<and> (gateCount t = 0 \<or> n + gateCount t \<le> 256))"
  by (induction arbitrary: c n rule: is_rule_induct) (auto simp: fits_operation_def)

lemma fits_logicalsOf:
  "is_rule t \<Longrightarrow> list_all fits_logical (logicalsOf n t) = (gates_known t \<and> (gateCount t = 0 \<or> n + gateCount t < 256))"
  by (induction arbitrary: n rule: is_rule_induct) (auto simp: fits_logical_def)

lemma fits_tree:
  assumes "is_rule t" "treeToRuleData t = Inr data"
  shows "fits_struct data = storable t"
proof -
  have "data = \<lparr>rd_operations = operationsOf 0 0 t, rd_checkOperations = checksOf t, rd_logicalOperations = logicalsOf 0 t\<rparr>"
    using assms treeToRuleData_eq by simp
  then show ?thesis
    using assms(1) by (auto simp: fits_struct_def storable_def fits_operationsOf fits_logicalsOf)
qed

lemma gates_ok_known: "gates_ok t \<Longrightarrow> gates_known t"
  by (induction t rule: gates_known.induct) auto

lemma holds_at_start:
  "holds_at 0 0 t \<lparr>rd_operations = ops, rd_checkOperations = checksOf t, rd_logicalOperations = logicalsOf 0 t\<rparr>"
  by (simp add: holds_at_def)

lemma pairUp_all:
  assumes "list_all is_rule ops" "list_all gates_ok ops"
  shows "list_all is_rule (pairUp ops) \<and> list_all gates_ok (pairUp ops) \<and>
    concat (map checksOf (pairUp ops)) = concat (map checksOf ops) \<and> (ops \<noteq> [] \<longrightarrow> pairUp ops \<noteq> [])"
  using assms by (induction ops rule: pairUp.induct) auto

lemma combineAll_all:
  assumes "list_all is_rule ops" "list_all gates_ok ops" "ops \<noteq> []"
  shows "\<exists>t. combineAll ops = [t] \<and> is_rule t \<and> gates_ok t \<and> checksOf t = concat (map checksOf ops)"
  using assms
proof (induction ops rule: combineAll.induct)
  case (1 ops)
  show ?case
  proof (cases "length ops > 1")
    case True
    then show ?thesis
      using 1 pairUp_all [OF 1(2,3)] by (simp add: combineAll.simps [of ops])
  next
    case False
    then obtain t where "ops = [t]" using 1(4) by (cases ops) auto
    then show ?thesis using 1 by (simp add: combineAll.simps [of "[t]"])
  qed
qed

lemma createOperationsTree_tree:
  assumes "checkOp \<noteq> []"
  obtains t where "combineAll (map checkOf checkOp) = [t]" "is_rule t" "gates_ok t"
    "checksOf t = concat (map (checksOf \<circ> checkOf) checkOp)" "createOperationsTree checkOp = treeToRuleData t"
proof -
  have "list_all is_rule (map checkOf checkOp)" "list_all gates_ok (map checkOf checkOp)"
    by (simp_all add: list_all_iff checkOf_def)
  from combineAll_all [OF this] assms show ?thesis
    using that by (auto simp: createOperationsTree_def)
qed

text \<open>
  Decoding alone does not give the tree back. The children recorded by the traversal are the
  numbers of logical operations, not positions of the children in \<open>operations\<close>: of a rule
  \<open>(a and b) and c\<close> the decoded root is \<open>b and (a and b)\<close>, without \<open>c\<close>. The operations are
  right again only after \<open>postOrderArrayToTree\<close>.
\<close>

lemma decoded_root_drops_check:
  fixes ta ia aa ha tb ib ab hb tc ic ac hc
  defines "a \<equiv> CheckOperation ta ia aa ha" and "b \<equiv> CheckOperation tb ib ab hb" and "c \<equiv> CheckOperation tc ic ac hc"
  defines "both \<equiv> LogicalOperation LT_AND (Some a) (Some b)"
  shows "bindE (treeToRuleData (LogicalOperation LT_AND (Some both) (Some c)))
      (\<lambda>data. ruleDataToOperations [RuleDataStruct data]) =
    Inr [a, b, both, c, LogicalOperation LT_AND (Some b) (Some both)]"
  by (simp add: assms treeToRuleData_def pushCheck_def pushLogical_def elementAt_def)

lemma tree_rebuilt:
  assumes "is_rule t" "treeToRuleData t = Inr data"
  shows "bindE (ruleDataToOperations [RuleDataStruct data]) postOrderArrayToTree = Inr t"
proof -
  have d: "data = \<lparr>rd_operations = operationsOf 0 0 t, rd_checkOperations = checksOf t, rd_logicalOperations = logicalsOf 0 t\<rparr>"
    using assms treeToRuleData_eq by simp
  obtain ops where "decodeOperations data [] (operationsOf 0 0 t) = Inr ops" "pushOperations ops [] = Inr [t]"
    using decode_tree [OF assms(1) holds_at_start, of "operationsOf 0 0 t" "[]"] unfolding d by auto
  then show ?thesis by (simp add: postOrderArrayToTree_def d)
qed

lemma xchain_tree_rebuilt:
  assumes "is_rule t" "gates_ok t" "treeToRuleData t = Inr data" "encodeEntitlementData data = Some c"
  shows "xchain_getOperationTree c = Inr t"
proof -
  have d: "data = \<lparr>rd_operations = operationsOf 0 0 t, rd_checkOperations = checksOf t, rd_logicalOperations = logicalsOf 0 t\<rparr>"
    using assms treeToRuleData_eq by simp
  have f: "fits_struct data" and c: "c = narrowRuleData data" using assms(4) by (auto simp: encodeEntitlementData_def split: if_splits)
  have f: "list_all fits_logical (rd_logicalOperations data)" "list_all fits_operation (operationsOf 0 0 t)"
    using f by (simp_all add: fits_struct_def d)
  obtain ops where "xchain_decode c [] (map narrowOperation (operationsOf 0 0 t)) = Inr ops" "xchain_stack ops [] = Inr [t]"
    using xchain_decode_tree [OF assms(1,2) _ _ f, of "[]"] holds_at_start [of t] unfolding c d by auto
  then show ?thesis by (simp add: xchain_getOperationTree_def c d)
qed

section \<open>Properties\<close>

text \<open>
  (C11) A rule survives its encoding. For every tree of checks the arrays that
  \<open>treeToRuleData\<close> builds, decoded with \<open>ruleDataToOperations\<close> and rebuilt with
  \<open>postOrderArrayToTree\<close>, give the same tree. They fit the struct of the contracts, whose
  indices have eight bits, exactly when the tree has at most 256 checks, its checks and gates are of
  the enumerations and their numbers below \<open>2 ^ 256\<close>. Then what the client decodes from the stored struct
  is rebuilt to the same tree, and when its gates are and/or the decoder of the
  evaluating node gives the same tree too, without an index out of range.
\<close>
theorem rule_tree_roundtrip:
  assumes "is_rule t"
  shows "\<exists>data. treeToRuleData t = Inr data
    \<and> bindE (ruleDataToOperations [RuleDataStruct data]) postOrderArrayToTree = Inr t
    \<and> (case encodeEntitlementData data of
         None \<Rightarrow> \<not> storable t
       | Some c \<Rightarrow> storable t
           \<and> bindE (ruleDataToOperations (decodeEntitlementData c)) postOrderArrayToTree = Inr t
           \<and> (gates_ok t \<longrightarrow> xchain_getOperationTree c = Inr t))"
proof -
  obtain data where data: "treeToRuleData t = Inr data" using treeToRuleData_eq [OF assms] by blast
  show ?thesis
    using data tree_rebuilt [OF assms data] xchain_tree_rebuilt [OF assms _ data] fits_tree [OF assms data] decode_encoded [of data]
    by (auto simp: encodeEntitlementData_def split: if_splits)
qed

definition sample_rule :: Operation where
  "sample_rule = LogicalOperation LT_AND
     (Some (LogicalOperation LT_OR (Some (CheckOperation CT_ERC721 1 ''a'' 1)) (Some (CheckOperation CT_MOCK 1 ''b'' 0))))
     (Some (CheckOperation CT_ERC721 1 ''c'' 2))"

theorem rule_tree_roundtrip_witness:
  "\<exists>data c. treeToRuleData sample_rule = Inr data \<and> encodeEntitlementData data = Some c \<and> xchain_getOperationTree c = Inr sample_rule"
proof -
  have "is_rule sample_rule" "gates_ok sample_rule" "storable sample_rule"
    by (simp_all add: sample_rule_def storable_def fits_check_def)
  with rule_tree_roundtrip [OF this(1)] show ?thesis by (auto split: option.splits)
qed

text \<open>
  The list of checks a role is created from is read back unchanged: \<open>createOperationsTree\<close>
  succeeds on every list, and \<open>createContractCheckOperationFromTree\<close> gives the same checks in the
  same order, a missing threshold being one.
\<close>
theorem check_list_roundtrip:
  "\<exists>data. createOperationsTree checkOp = Inr data
    \<and> createContractCheckOperationFromTree data = Inr (map (\<lambda>op.
         \<lparr>cco_type = ci_type op, cco_chainId = ci_chainId op, cco_address = ci_address op,
          cco_threshold = (case ci_threshold op of Some t \<Rightarrow> t | None \<Rightarrow> 1)\<rparr>) checkOp)"
proof (cases "checkOp = []")
  case True
  then show ?thesis
    by (simp add: createOperationsTree_def createContractCheckOperationFromTree_def NoopRuleData_def NoopOperation_def)
next
  case False
  obtain t where t: "is_rule t" "checksOf t = concat (map (checksOf \<circ> checkOf) checkOp)"
    "createOperationsTree checkOp = treeToRuleData t"
    using createOperationsTree_tree [OF False] by blast
  let ?d = "\<lparr>rd_operations = operationsOf 0 0 t, rd_checkOperations = checksOf t, rd_logicalOperations = logicalsOf 0 t\<rparr>"
  obtain ops where ops: "decodeOperations ?d [] (operationsOf 0 0 t) = Inr ops"
    "concat (map toContractCheck ops) =
      map (\<lambda>k. \<lparr>cco_type = rc_opType k, cco_chainId = rc_chainId k, cco_address = rc_contractAddress k, cco_threshold = rc_threshold k\<rparr>) (checksOf t)"
    using decode_tree [OF t(1) holds_at_start, of "operationsOf 0 0 t" "[]"] by auto
  have "concat (map (checksOf \<circ> checkOf) ops') = map (\<lambda>op. \<lparr>rc_opType = ci_type op, rc_chainId = ci_chainId op,
      rc_contractAddress = ci_address op, rc_threshold = (case ci_threshold op of Some t \<Rightarrow> t | None \<Rightarrow> 1)\<rparr>) ops'" for ops'
    by (induction ops') (simp_all add: checkOf_def)
  then show ?thesis
    using ops t(2,3) treeToRuleData_eq [OF t(1)] by (simp add: createContractCheckOperationFromTree_def comp_def)
qed

end
