(* ===== verification/Solidity.thy ===== *)
theory Solidity
  imports Prelude
begin

text \<open>
  What the models of the contracts share: addresses and 256-bit integers, the errors a call reverts
  with, the context of a call, and the arithmetic of the language. A call returns the new state or
  the error it reverts with; a revert undoes what the call has written.

  Contracts that only compare addresses use numbers for them; those that pack an address into a
  word use its 160 bits.
\<close>

unbundle bit_operations_syntax

section \<open>Values\<close>

type_synonym address = nat
type_synonym account = "160 word"
type_synonym uint256 = "256 word"

text \<open>The errors the contracts revert with. \<open>Panic\<close> is that of checked arithmetic.\<close>

datatype sol_error =
    Entitlement__NotAllowed
  | Entitlement__InvalidValue
  | InvalidCheckOperationIndex nat nat
  | InvalidLogicalOperationIndex nat nat
  | InvalidLeftOperationIndex nat nat
  | InvalidRightOperationIndex nat nat
  | EntitlementGated_TransactionCheckAlreadyRegistered
  | EntitlementGated_TransactionCheckAlreadyCompleted
  | EntitlementGated_TransactionNotRegistered
  | EntitlementGated_NodeNotFound
  | EntitlementGated_NodeAlreadyVoted
  | EntitlementChecker_InsufficientNumberOfNodes
  | EntitlementChecker_NodeAlreadyRegistered
  | EntitlementChecker_NodeNotRegistered
  | ApprovalCallerNotOwnerNorApproved
  | ApprovalQueryForNonexistentToken
  | BalanceQueryForZeroAddress
  | MintToZeroAddress
  | MintZeroQuantity
  | OwnerQueryForNonexistentToken
  | TransferCallerNotOwnerNorApproved
  | TransferFromIncorrectOwner
  | TransferToNonERC721ReceiverImplementer
  | TransferToZeroAddress
  | URIQueryForNonexistentToken
  | MintERC2309QuantityExceedsLimit
  | OwnershipNotInitializedForExtraData
  | InvalidQueryRange
  | Receiver_Reverted bytes
  | GuardianEnabled
  | AlreadyEnabled
  | AlreadyDisabled
  | NotExternalAccount
  | SpaceOwner__OnlyFactoryAllowed
  | SpaceOwner__OnlySpaceOwnerAllowed
  | Ownable__NotOwner account
  | Ownable__ZeroAddress
  | Validator__InvalidStringLength
  | Validator__InvalidAddress
  | InvalidAccountNonce account uint256
  | InvalidSignature
  | Panic
  | OutOfGas
  | PlainRevert
  | RevertString string
  | AbiError

text \<open>The state after a call of an outside account: a call that reverts leaves it as it was.\<close>

definition committed :: "'s \<Rightarrow> sol_error + 's \<Rightarrow> 's" where
  "committed s r = (case r of Inl _ \<Rightarrow> s | Inr s' \<Rightarrow> s')"

text \<open>The context of a call: its sender, the block it is in, and the length of the code at an address.\<close>

record call_context =
  msg_sender :: account
  block_timestamp :: uint256
  block_number :: uint256
  code_length :: "account \<Rightarrow> nat"

definition require :: "bool \<Rightarrow> sol_error \<Rightarrow> sol_error + unit" where
  "require c e = (if c then Inr () else Inl e)"

section \<open>Sequences of calls\<close>

text \<open>The state after a sequence of calls of outside accounts.\<close>

definition calls :: "('i \<Rightarrow> 's \<Rightarrow> sol_error + 's) \<Rightarrow> 'i list \<Rightarrow> 's \<Rightarrow> 's" where
  "calls step inputs s = fold (\<lambda>i s. committed s (step i s)) inputs s"

fun legal_calls :: "('i \<Rightarrow> 's \<Rightarrow> sol_error + 's) \<Rightarrow> ('i \<Rightarrow> 's \<Rightarrow> bool) \<Rightarrow> 'i list \<Rightarrow> 's \<Rightarrow> bool" where
  "legal_calls step legal [] s = True"
| "legal_calls step legal (i # inputs) s = (legal i s \<and> legal_calls step legal inputs (committed s (step i s)))"

section \<open>Arithmetic\<close>

text \<open>Addition and subtraction outside \<open>unchecked\<close> blocks.\<close>

definition checked_add :: "'w::len word \<Rightarrow> 'w word \<Rightarrow> sol_error + 'w word" where
  "checked_add a b = (if a + b < a then Inl Panic else Inr (a + b))"

definition checked_sub :: "'w::len word \<Rightarrow> 'w word \<Rightarrow> sol_error + 'w word" where
  "checked_sub a b = (if a < b then Inl Panic else Inr (a - b))"

section \<open>Lemmas\<close>

lemma require_Inr [simp]: "require c e = Inr u \<longleftrightarrow> c"
  by (simp add: require_def)

lemma require_simps [simp]: "require True e = Inr ()" "require False e = Inl e"
  by (simp_all add: require_def)

lemma committed_simps [simp]: "committed s (Inl e) = s" "committed s (Inr s') = s'"
  by (simp_all add: committed_def)

lemma of_nat_unat_word: "of_nat (unat w) = w" for w :: "'w::len word"
  by simp

lemma unat_less_power: "unat (x :: 'w::len word) < 2 ^ LENGTH('w)"
  by (rule unsigned_less)

lemma mod_once: "m \<le> x + y \<Longrightarrow> x < m \<Longrightarrow> y < m \<Longrightarrow> (x + y) mod m = x + y - m" for m :: nat
  by (simp add: le_mod_geq)

lemma checked_add_nat:
  "checked_add a b = (if unat a + unat b < 2 ^ LENGTH('w) then Inr (a + b) else Inl Panic)" for a :: "'w::len word"
proof (cases "unat a + unat b < 2 ^ LENGTH('w)")
  case True
  then show ?thesis by (simp add: checked_add_def word_less_nat_alt unat_word_ariths)
next
  case False
  then have "(unat a + unat b) mod 2 ^ LENGTH('w) = unat a + unat b - 2 ^ LENGTH('w)"
    using mod_once [OF _ unat_less_power unat_less_power, of a b] by simp
  moreover have "unat a + unat b - 2 ^ LENGTH('w) < unat a"
    using False unat_less_power [of b] by linarith
  ultimately have "a + b < a" by (simp add: word_less_nat_alt unat_word_ariths)
  with False show ?thesis by (simp add: checked_add_def)
qed

lemma checked_sub_nat:
  "checked_sub a b = (if unat b \<le> unat a then Inr (a - b) else Inl Panic)"
  by (simp add: checked_sub_def word_less_nat_alt not_le)

lemma unat_add_fits:
  fixes a :: "'w::len word"
  assumes "unat a + unat b < 2 ^ LENGTH('w)"
  shows "unat (a + b) = unat a + unat b"
  using assms by (simp add: unat_word_ariths)

lemma unat_Suc_fits:
  fixes a b :: "'w::len word"
  assumes "a < b"
  shows "unat (a + 1) = Suc (unat a)"
proof -
  have "Suc (unat a) < 2 ^ LENGTH('w)"
    using assms unat_less_power [of b] by (metis Suc_leI le_less_trans word_less_nat_alt)
  then show ?thesis using unat_add_fits [of a 1] by simp
qed

lemma unat_pred:
  fixes a :: "'w::len word"
  assumes "a \<noteq> 0"
  shows "unat (a - 1) = unat a - 1"
  using assms by (simp add: unat_minus_one)

lemma calls_simps [simp]:
  "calls step [] s = s" "calls step (i # inputs) s = calls step inputs (committed s (step i s))"
  "calls step (inputs @ inputs') s = calls step inputs' (calls step inputs s)"
  by (simp_all add: calls_def)

lemma legal_calls_append [simp]:
  "legal_calls step legal (inputs @ inputs') s \<longleftrightarrow>
     legal_calls step legal inputs s \<and> legal_calls step legal inputs' (calls step inputs s)"
  by (induction inputs arbitrary: s) auto

section \<open>Contracts and their specifications\<close>

text \<open>A property of the state that no call that succeeds breaks holds after every sequence of calls.\<close>

locale contract_inv =
  fixes step :: "'i \<Rightarrow> 's \<Rightarrow> sol_error + 's"
    and inv :: "'s \<Rightarrow> bool"
    and legal :: "'i \<Rightarrow> 's \<Rightarrow> bool"
  assumes call_inv: "inv s \<Longrightarrow> legal i s \<Longrightarrow> step i s = Inr s' \<Longrightarrow> inv s'"
begin

lemma committed_inv: "inv s \<Longrightarrow> legal i s \<Longrightarrow> inv (committed s (step i s))"
  by (cases "step i s") (auto intro: call_inv)

lemma calls_inv: "inv s \<Longrightarrow> legal_calls step legal inputs s \<Longrightarrow> inv (calls step inputs s)"
  by (induction inputs arbitrary: s) (auto intro: committed_inv)

end

text \<open>
  A contract implements a specification when every call fails with the specification's error, or
  both succeed in related states.
\<close>

locale contract_refines =
  fixes cstep :: "'i \<Rightarrow> 'c \<Rightarrow> sol_error + 'c"
    and astep :: "'i \<Rightarrow> 'a \<Rightarrow> sol_error + 'a"
    and rel :: "'c \<Rightarrow> 'a \<Rightarrow> bool"
    and legal :: "'i \<Rightarrow> 'a \<Rightarrow> bool"
  assumes call_sim: "rel c a \<Longrightarrow> legal i a \<Longrightarrow> rel_sum (=) rel (cstep i c) (astep i a)"
begin

lemma committed_sim: "rel c a \<Longrightarrow> legal i a \<Longrightarrow> rel (committed c (cstep i c)) (committed a (astep i a))"
  using call_sim [of c a i] by (auto elim!: rel_sum.cases)

lemma calls_sim: "rel c a \<Longrightarrow> legal_calls astep legal inputs a \<Longrightarrow> rel (calls cstep inputs c) (calls astep inputs a)"
  by (induction inputs arbitrary: c a) (auto intro: committed_sim)

end

end
