(* ===== verification/RuleContract.thy ===== *)
theory RuleContract
  imports Entitlement Solidity
begin

text \<open>
  The contract that stores the entitlement rules of a space,
  \<open>contracts/src/spaces/entitlements/rule/RuleEntitlement.sol\<close>. A call returns the new state or the
  error it reverts with, in which case nothing changes. A rule arrives as bytes; what
  \<open>abi.decode\<close> makes of them is the argument, none when they do not decode.
\<close>

section \<open>State\<close>

record RuleEntry =
  re_grantedBy :: address
  re_grantedTime :: nat
  re_data :: IRuleData

definition emptyRuleData :: IRuleData where
  "emptyRuleData = \<lparr>ird_operations = [], ird_checkOperations = [], ird_logicalOperations = []\<rparr>"

definition emptyRuleEntry :: RuleEntry where
  "emptyRuleEntry = \<lparr>re_grantedBy = 0, re_grantedTime = 0, re_data = emptyRuleData\<rparr>"

record RuleEntitlement =
  rule_entitlementsByRoleId :: "nat \<Rightarrow> RuleEntry"
  rule_SPACE_ADDRESS :: address

definition RuleEntitlement_initialize :: "address \<Rightarrow> RuleEntitlement" where
  "RuleEntitlement_initialize space = \<lparr>rule_entitlementsByRoleId = (\<lambda>_. emptyRuleEntry), rule_SPACE_ADDRESS = space\<rparr>"

section \<open>Operations\<close>

text \<open>
  One turn of the validation loop. Indices are \<open>uint8\<close>, widened to compare them with the lengths and with
  the \<open>uint256\<close> counter of the loop, which are narrowed to \<open>uint8\<close> as arguments of the errors.
\<close>

definition validateOperation :: "IRuleData \<Rightarrow> nat \<Rightarrow> IRuleEntitlementOperation \<Rightarrow> sol_error + unit" where
  "validateOperation data i operation =
     (case io_opType operation of
        OT_CHECK \<Rightarrow>
          if unat (io_index operation) \<ge> length (ird_checkOperations data)
          then Inl (InvalidCheckOperationIndex (unat (io_index operation)) (length (ird_checkOperations data) mod 256)) else Inr ()
      | OT_LOGICAL \<Rightarrow>
          (case elementAt (ird_logicalOperations data) (unat (io_index operation)) of
             None \<Rightarrow> Inl (InvalidLogicalOperationIndex (unat (io_index operation)) (length (ird_logicalOperations data) mod 256))
           | Some logicalOp \<Rightarrow>
               if unat (il_leftOperationIndex logicalOp) \<ge> i
               then Inl (InvalidLeftOperationIndex (unat (il_leftOperationIndex logicalOp)) (i mod 256))
               else if unat (il_rightOperationIndex logicalOp) \<ge> i
               then Inl (InvalidRightOperationIndex (unat (il_rightOperationIndex logicalOp)) (i mod 256))
               else Inr ())
      | _ \<Rightarrow> Inr ())"

fun validateOperations :: "IRuleData \<Rightarrow> nat \<Rightarrow> IRuleEntitlementOperation list \<Rightarrow> sol_error + unit" where
  "validateOperations data i [] = Inr ()"
| "validateOperations data i (operation # operations) =
     (case validateOperation data i operation of
        Inl e \<Rightarrow> Inl e
      | Inr _ \<Rightarrow> validateOperations data (i + 1) operations)"

text \<open>The arrays of the rule are appended to those already stored for the role.\<close>

definition storeRule :: "address \<Rightarrow> nat \<Rightarrow> IRuleData \<Rightarrow> RuleEntry \<Rightarrow> RuleEntry" where
  "storeRule sender now data e = e
     \<lparr>re_grantedBy := sender, re_grantedTime := now,
      re_data := \<lparr>ird_operations = ird_operations (re_data e) @ ird_operations data,
                  ird_checkOperations = ird_checkOperations (re_data e) @ ird_checkOperations data,
                  ird_logicalOperations = ird_logicalOperations (re_data e) @ ird_logicalOperations data\<rparr>\<rparr>"

definition rule_setEntitlement ::
    "address \<Rightarrow> nat \<Rightarrow> nat \<Rightarrow> IRuleData option \<Rightarrow> RuleEntitlement \<Rightarrow> sol_error + RuleEntitlement" where
  "rule_setEntitlement sender now roleId entitlementData s =
     (if sender \<noteq> rule_SPACE_ADDRESS s then Inl Entitlement__NotAllowed
      else (case entitlementData of
              None \<Rightarrow> Inl AbiError
            | Some data \<Rightarrow>
                if ird_operations data = [] then Inr s
                else (case validateOperations data 0 (ird_operations data) of
                        Inl e \<Rightarrow> Inl e
                      | Inr _ \<Rightarrow>
                          Inr (s\<lparr>rule_entitlementsByRoleId := (rule_entitlementsByRoleId s)
                            (roleId := storeRule sender now data (rule_entitlementsByRoleId s roleId))\<rparr>))))"

text \<open>Removing is open to every caller: the function does not carry the modifier \<open>onlySpace\<close>.\<close>

definition rule_removeEntitlement :: "address \<Rightarrow> nat \<Rightarrow> RuleEntitlement \<Rightarrow> sol_error + RuleEntitlement" where
  "rule_removeEntitlement sender roleId s =
     (if re_grantedBy (rule_entitlementsByRoleId s roleId) = 0 then Inl Entitlement__InvalidValue
      else Inr (s\<lparr>rule_entitlementsByRoleId := (rule_entitlementsByRoleId s)(roleId := emptyRuleEntry)\<rparr>))"

definition getRuleData :: "nat \<Rightarrow> RuleEntitlement \<Rightarrow> IRuleData" where
  "getRuleData roleId s = re_data (rule_entitlementsByRoleId s roleId)"

definition rule_isEntitled :: bool where
  "rule_isEntitled = False"

definition rule_isCrosschain :: bool where
  "rule_isCrosschain = True"

definition getOperations :: "nat \<Rightarrow> RuleEntitlement \<Rightarrow> IRuleEntitlementOperation list" where
  "getOperations roleId s = ird_operations (re_data (rule_entitlementsByRoleId s roleId))"

definition getLogicalOperations :: "nat \<Rightarrow> RuleEntitlement \<Rightarrow> IRuleEntitlementLogicalOperation list" where
  "getLogicalOperations roleId s = ird_logicalOperations (re_data (rule_entitlementsByRoleId s roleId))"

definition getCheckOperations :: "nat \<Rightarrow> RuleEntitlement \<Rightarrow> RuleCheckOperation list" where
  "getCheckOperations roleId s = ird_checkOperations (re_data (rule_entitlementsByRoleId s roleId))"

section \<open>Encoded trees are accepted\<close>

lemma validate_append:
  "validateOperations d i xs = Inr () \<Longrightarrow> validateOperations d (i + length xs) ys = Inr () \<Longrightarrow>
   validateOperations d i (xs @ ys) = Inr ()"
  by (induction xs arbitrary: i) (auto split: sum.splits)

lemma validate_tree:
  assumes "is_rule t" "holds_at c n t d" "2 * n \<le> i"
    and "list_all fits_logical (rd_logicalOperations d)" "list_all fits_operation (operationsOf c n t)"
  shows "validateOperations (narrowRuleData d) i (map narrowOperation (operationsOf c n t)) = Inr ()"
  using assms
proof (induction arbitrary: c n i rule: is_rule_induct)
  case (Check t k a h)
  then show ?case
    using holds_at_check [OF Check.prems(1)] by (simp add: validateOperation_def elementAt_def split: if_splits)
next
  case (Logical t l r)
  note h = holds_at_logical [OF Logical.prems(1) Logical.hyps]
  let ?ops = "\<lambda>c n t. map narrowOperation (operationsOf c n t)" and ?d = "narrowRuleData d"
  let ?op = "\<lparr>co_opType = OT_LOGICAL, co_index = n + gateCount l + gateCount r\<rparr>"
  have f: "list_all fits_operation (operationsOf c n l)" "list_all fits_operation (operationsOf (c + gateCount l + 1) (n + gateCount l) r)"
    "fits_operation ?op" using Logical.prems(4) by simp_all
  have 1: "validateOperations ?d i (?ops c n l) = Inr ()" using Logical.IH(1) [OF h(1) Logical.prems(2,3) f(1)] .
  have 2: "validateOperations ?d (i + length (?ops c n l)) (?ops (c + gateCount l + 1) (n + gateCount l) r) = Inr ()"
    using Logical.prems(2) Logical.hyps by (intro Logical.IH(2) [OF h(2) _ Logical.prems(3) f(2)]) simp
  have 3: "validateOperations ?d (i + length (?ops c n l @ ?ops (c + gateCount l + 1) (n + gateCount l) r)) [narrowOperation ?op] = Inr ()"
    using h(3) f(3) elementAt_all [OF h(3) Logical.prems(3)] Logical.prems(2) Logical.hyps
    by (simp add: validateOperation_def elementAt_map)
  show ?case using validate_append [OF validate_append [OF 1 2] 3] by simp
qed

lemma setEntitlement_tree:
  assumes "is_rule t" "treeToRuleData t = Inr data" "encodeEntitlementData data = Some c"
    and "re_data (rule_entitlementsByRoleId s roleId) = emptyRuleData"
  shows "\<exists>s'. rule_setEntitlement (rule_SPACE_ADDRESS s) now roleId (Some c) s = Inr s' \<and> getRuleData roleId s' = c \<and>
    (\<forall>r. r \<noteq> roleId \<longrightarrow> getRuleData r s' = getRuleData r s) \<and> rule_SPACE_ADDRESS s' = rule_SPACE_ADDRESS s"
proof -
  have d: "data = \<lparr>rd_operations = operationsOf 0 0 t, rd_checkOperations = checksOf t, rd_logicalOperations = logicalsOf 0 t\<rparr>"
    using assms treeToRuleData_eq by simp
  have c: "c = narrowRuleData data" "fits_struct data" using assms(3) by (auto simp: encodeEntitlementData_def split: if_splits)
  have f: "list_all fits_logical (rd_logicalOperations data)" "list_all fits_operation (operationsOf 0 0 t)"
    using c(2) by (simp_all add: fits_struct_def d)
  have "validateOperations c 0 (ird_operations c) = Inr ()"
    using validate_tree [OF assms(1) _ _ f, of 0] holds_at_start [of t] unfolding c d by simp
  moreover have "ird_operations c \<noteq> []" using length_operationsOf [OF assms(1), of 0 0] by (auto simp: c d)
  ultimately show ?thesis
    using assms(4) by (simp add: rule_setEntitlement_def storeRule_def getRuleData_def emptyRuleData_def)
qed

text \<open>
  A second rule set for a role without removing the first is appended to it, so that its indices
  point into the arrays of the first. With two single checks both decoded operations are the first.
\<close>

lemma second_rule_appended:
  fixes c1 c2 :: RuleCheckOperation
  defines "single k \<equiv> \<lparr>ird_operations = [\<lparr>io_opType = OT_CHECK, io_index = 0\<rparr>], ird_checkOperations = [k], ird_logicalOperations = []\<rparr>"
  assumes "rule_setEntitlement sp t1 r (Some (single c1)) (RuleEntitlement_initialize sp) = Inr s"
    and "rule_setEntitlement sp t2 r (Some (single c2)) s = Inr s'"
  shows "ruleDataToOperations (decodeEntitlementData (getRuleData r s')) =
    (let op = CheckOperation (rc_opType c1) (rc_chainId c1) (rc_contractAddress c1) (rc_threshold c1) in Inr [op, op])"
proof -
  have "re_data (rule_entitlementsByRoleId s r) = single c1"
    using assms(2)
    by (auto simp: single_def rule_setEntitlement_def validateOperation_def RuleEntitlement_initialize_def emptyRuleEntry_def
        emptyRuleData_def storeRule_def)
  moreover have "getRuleData r s' = re_data (storeRule sp t2 (single c2) (rule_entitlementsByRoleId s r))"
    using assms(3) by (auto simp: single_def rule_setEntitlement_def getRuleData_def split: if_splits sum.splits)
  ultimately show ?thesis by (simp add: storeRule_def single_def elementAt_def Let_def decodeEntitlementData_def)
qed

text \<open>Any account can remove the rule of a role.\<close>

lemma anyone_removes_rule:
  assumes "re_grantedBy (rule_entitlementsByRoleId s roleId) \<noteq> 0"
  shows "\<exists>s'. rule_removeEntitlement anyone roleId s = Inr s' \<and> getRuleData roleId s' = emptyRuleData"
  using assms by (simp add: rule_removeEntitlement_def getRuleData_def emptyRuleEntry_def)

section \<open>Property\<close>

text \<open>
  (C12) What the client writes is what client and node read. A rule of at most 256 checks, of the
  enumerations and with numbers below \<open>2 ^ 256\<close>, is accepted by the contract for a role that has no
  rule, for all its indices pass the validation; afterwards the role's stored rule, decoded and rebuilt
  by the client, is that tree, the node decodes the same tree when its gates are and/or, and the rules of the other roles
  are unchanged. Any other rule does not fit the struct, whose indices have eight bits, and the call reverts.
\<close>
theorem stored_rule_read_back:
  assumes "is_rule t" "treeToRuleData t = Inr data" "getRuleData roleId s = emptyRuleData"
  shows "case rule_setEntitlement (rule_SPACE_ADDRESS s) now roleId (encodeEntitlementData data) s of
      Inl err \<Rightarrow> \<not> storable t \<and> err = AbiError
    | Inr s' \<Rightarrow> storable t
        \<and> bindE (ruleDataToOperations (decodeEntitlementData (getRuleData roleId s'))) postOrderArrayToTree = Inr t
        \<and> (gates_ok t \<longrightarrow> xchain_getOperationTree (getRuleData roleId s') = Inr t)
        \<and> (\<forall>r. r \<noteq> roleId \<longrightarrow> getRuleData r s' = getRuleData r s)"
proof (cases "encodeEntitlementData data")
  case None
  then show ?thesis
    using fits_tree [OF assms(1,2)] by (simp add: rule_setEntitlement_def encodeEntitlementData_def split: if_splits)
next
  case (Some c)
  obtain s' where s': "rule_setEntitlement (rule_SPACE_ADDRESS s) now roleId (Some c) s = Inr s'" "getRuleData roleId s' = c"
      "\<forall>r. r \<noteq> roleId \<longrightarrow> getRuleData r s' = getRuleData r s"
    using setEntitlement_tree [OF assms(1,2) Some, of s roleId now] assms(3) by (auto simp: getRuleData_def)
  have "storable t" using Some fits_tree [OF assms(1,2)] by (simp add: encodeEntitlementData_def split: if_splits)
  then show ?thesis
    using s' decode_encoded [OF Some] tree_rebuilt [OF assms(1,2)] xchain_tree_rebuilt [OF assms(1) _ assms(2) Some] by (simp add: Some)
qed

theorem stored_rule_read_back_witness:
  "\<exists>data s'. rule_setEntitlement 9 5 3 (encodeEntitlementData data) (RuleEntitlement_initialize 9) = Inr s'
    \<and> xchain_getOperationTree (getRuleData 3 s') = Inr sample_rule"
proof -
  obtain data where data: "treeToRuleData sample_rule = Inr data" by (simp add: sample_rule_def treeToRuleData_def)
  have "storable sample_rule" "gates_ok sample_rule" "is_rule sample_rule" "getRuleData 3 (RuleEntitlement_initialize 9) = emptyRuleData"
    by (simp_all add: sample_rule_def storable_def fits_check_def RuleEntitlement_initialize_def getRuleData_def emptyRuleEntry_def)
  with stored_rule_read_back [OF _ data, of 3 "RuleEntitlement_initialize 9" 5] show ?thesis
    by (auto simp: RuleEntitlement_initialize_def split: sum.splits)
qed

end
