(* ===== verification/UserContract.thy ===== *)
theory UserContract
  imports RuleContract "HOL-Library.Multiset"
begin

text \<open>
  The contract that grants the roles of a space to users,
  \<open>contracts/src/spaces/entitlements/user/UserEntitlement.sol\<close>. It keeps the users of a role and,
  for lookups, the roles of a user; every operation has to keep the two in step. The roles'
  permissions and the channels' roles, read from the space contract, are arguments.
\<close>

section \<open>State\<close>

record UserEntry =
  ue_grantedBy :: address
  ue_grantedTime :: nat
  ue_users :: "address list"

definition emptyUserEntry :: UserEntry where
  "emptyUserEntry = \<lparr>ue_grantedBy = 0, ue_grantedTime = 0, ue_users = []\<rparr>"

record UserEntitlement =
  user_entitlementsByRoleId :: "nat \<Rightarrow> UserEntry"
  user_roleIdsByUser :: "address \<Rightarrow> nat list"
  user_SPACE_ADDRESS :: address

definition UserEntitlement_initialize :: "address \<Rightarrow> UserEntitlement" where
  "UserEntitlement_initialize space =
     \<lparr>user_entitlementsByRoleId = (\<lambda>_. emptyUserEntry), user_roleIdsByUser = (\<lambda>_. []), user_SPACE_ADDRESS = space\<rparr>"

section \<open>Operations\<close>

text \<open>The first occurrence is overwritten with the last element, which is popped.\<close>

definition removeSwapped :: "nat \<Rightarrow> nat list \<Rightarrow> nat list" where
  "removeSwapped i roles = butlast (roles[i := last roles])"

definition removeRoleIdFromUser :: "address \<Rightarrow> nat \<Rightarrow> UserEntitlement \<Rightarrow> sol_error + UserEntitlement" where
  "removeRoleIdFromUser user roleId s =
     (case findIndex (\<lambda>r. r = roleId) (user_roleIdsByUser s user) of
        None \<Rightarrow> Inl (RevertString ''Role ID not found for the user'')
      | Some i \<Rightarrow> Inr (s\<lparr>user_roleIdsByUser := (user_roleIdsByUser s)(user := removeSwapped i (user_roleIdsByUser s user))\<rparr>))"

text \<open>The \<open>while\<close> loop over the users of a role, from the last to the first, popping each.\<close>

fun removeUsers :: "address list \<Rightarrow> nat \<Rightarrow> UserEntitlement \<Rightarrow> sol_error + UserEntitlement" where
  "removeUsers [] roleId s = Inr s"
| "removeUsers (user # users) roleId s =
     (case removeRoleIdFromUser user roleId s of
        Inl e \<Rightarrow> Inl e
      | Inr s' \<Rightarrow> removeUsers users roleId s')"

definition clearRole :: "nat \<Rightarrow> UserEntitlement \<Rightarrow> sol_error + UserEntitlement" where
  "clearRole roleId s =
     (case removeUsers (rev (ue_users (user_entitlementsByRoleId s roleId))) roleId s of
        Inl e \<Rightarrow> Inl e
      | Inr s' \<Rightarrow> Inr (s'\<lparr>user_entitlementsByRoleId := (user_entitlementsByRoleId s')(roleId := emptyUserEntry)\<rparr>))"

fun pushRoles :: "address list \<Rightarrow> nat \<Rightarrow> UserEntitlement \<Rightarrow> UserEntitlement" where
  "pushRoles [] roleId s = s"
| "pushRoles (user # users) roleId s =
     pushRoles users roleId (s\<lparr>user_roleIdsByUser := (user_roleIdsByUser s)(user := user_roleIdsByUser s user @ [roleId])\<rparr>)"

definition user_setEntitlement ::
    "address \<Rightarrow> nat \<Rightarrow> nat \<Rightarrow> address list option \<Rightarrow> UserEntitlement \<Rightarrow> sol_error + UserEntitlement" where
  "user_setEntitlement sender now roleId entitlementData s =
     (if sender \<noteq> user_SPACE_ADDRESS s then Inl Entitlement__NotAllowed
      else (case entitlementData of
              None \<Rightarrow> Inl AbiError
            | Some users \<Rightarrow>
                if 0 \<in> set users then Inl Entitlement__InvalidValue
                else (case clearRole roleId s of
                        Inl e \<Rightarrow> Inl e
                      | Inr s' \<Rightarrow>
                          Inr (pushRoles users roleId
                            (s'\<lparr>user_entitlementsByRoleId := (user_entitlementsByRoleId s')
                              (roleId := \<lparr>ue_grantedBy = sender, ue_grantedTime = now, ue_users = users\<rparr>)\<rparr>)))))"

definition user_removeEntitlement :: "address \<Rightarrow> nat \<Rightarrow> UserEntitlement \<Rightarrow> sol_error + UserEntitlement" where
  "user_removeEntitlement sender roleId s =
     (if sender \<noteq> user_SPACE_ADDRESS s then Inl Entitlement__NotAllowed
      else if ue_grantedBy (user_entitlementsByRoleId s roleId) = 0 then Inl Entitlement__InvalidValue
      else clearRole roleId s)"

definition getEntitlementDataByRoleId :: "nat \<Rightarrow> UserEntitlement \<Rightarrow> address list" where
  "getEntitlementDataByRoleId roleId s = ue_users (user_entitlementsByRoleId s roleId)"

section \<open>Queries\<close>

definition everyone :: address where
  "everyone = 1"

definition getRoleIdsByUser :: "address list \<Rightarrow> UserEntitlement \<Rightarrow> nat list" where
  "getRoleIdsByUser wallets s = concat (map (user_roleIdsByUser s) wallets) @ user_roleIdsByUser s everyone"

text \<open>\<open>bytes32\<close> of a packed string: cut to 32 bytes or filled with zeros.\<close>

definition bytes32 :: "bytes \<Rightarrow> bytes" where
  "bytes32 b = take 32 b @ replicate (32 - length b) 0"

definition validateRolePermission :: "(nat \<Rightarrow> bytes list) \<Rightarrow> nat \<Rightarrow> bytes \<Rightarrow> bool" where
  "validateRolePermission getPermissionsByRoleId roleId permission =
     list_ex (\<lambda>p. bytes32 p = permission) (getPermissionsByRoleId roleId)"

definition isEntitledToSpace :: "(nat \<Rightarrow> bytes list) \<Rightarrow> address list \<Rightarrow> bytes \<Rightarrow> UserEntitlement \<Rightarrow> bool" where
  "isEntitledToSpace perms wallets permission s =
     list_ex (\<lambda>roleId. validateRolePermission perms roleId permission) (getRoleIdsByUser wallets s)"

definition isEntitledToChannel ::
    "(nat \<Rightarrow> bytes list) \<Rightarrow> (bytes \<Rightarrow> nat list) \<Rightarrow> bytes \<Rightarrow> address list \<Rightarrow> bytes \<Rightarrow> UserEntitlement \<Rightarrow> bool" where
  "isEntitledToChannel perms channelRoles channelId wallets permission s =
     list_ex (\<lambda>roleId. list_ex (\<lambda>r. r = roleId \<and> validateRolePermission perms r permission) (getRoleIdsByUser wallets s))
       (channelRoles channelId)"

definition user_isEntitled ::
    "(nat \<Rightarrow> bytes list) \<Rightarrow> (bytes \<Rightarrow> nat list) \<Rightarrow> bytes \<Rightarrow> address list \<Rightarrow> bytes \<Rightarrow> UserEntitlement \<Rightarrow> bool" where
  "user_isEntitled perms channelRoles channelId wallets permission s =
     (if channelId \<noteq> replicate 32 0
      then isEntitledToChannel perms channelRoles channelId wallets permission s
      else isEntitledToSpace perms wallets permission s)"

section \<open>Calls in sequence\<close>

datatype UserCall = U_set address nat nat "address list option" | U_remove address nat

fun userStep :: "UserCall \<Rightarrow> UserEntitlement \<Rightarrow> UserEntitlement" where
  "userStep (U_set sender now roleId users) s = committed s (user_setEntitlement sender now roleId users s)"
| "userStep (U_remove sender roleId) s = committed s (user_removeEntitlement sender roleId s)"

text \<open>What the calls promise, without the index by user: the users of each role.\<close>

fun specStep :: "address \<Rightarrow> UserCall \<Rightarrow> (nat \<Rightarrow> address list option) \<Rightarrow> nat \<Rightarrow> address list option" where
  "specStep space (U_set sender now roleId users) m =
     (case users of
        Some us \<Rightarrow> if sender = space \<and> 0 \<notin> set us then m(roleId := Some us) else m
      | None \<Rightarrow> m)"
| "specStep space (U_remove sender roleId) m = (if sender = space then m(roleId := None) else m)"

section \<open>The two mappings agree\<close>

definition in_step :: "UserEntitlement \<Rightarrow> bool" where
  "in_step s = (\<forall>u r. count (mset (user_roleIdsByUser s u)) r = count (mset (ue_users (user_entitlementsByRoleId s r))) u)"

lemma mset_removeSwapped:
  assumes "i < length roles"
  shows "mset (removeSwapped i roles) = mset roles - {#roles ! i#}"
proof -
  have "roles \<noteq> []" using assms by auto
  then obtain xs x where r: "roles = xs @ [x]" by (metis rev_exhaust)
  show ?thesis
  proof (cases "i < length xs")
    case True
    then show ?thesis by (simp add: r removeSwapped_def list_update_append nth_append mset_update)
  next
    case False
    then have "i = length xs" using assms r by simp
    then show ?thesis by (simp add: r removeSwapped_def list_update_append)
  qed
qed

lemma removeRoleId_ok:
  assumes "roleId \<in> set (user_roleIdsByUser s u)"
  shows "\<exists>s'. removeRoleIdFromUser u roleId s = Inr s' \<and>
    user_entitlementsByRoleId s' = user_entitlementsByRoleId s \<and> user_SPACE_ADDRESS s' = user_SPACE_ADDRESS s \<and>
    (\<forall>v. mset (user_roleIdsByUser s' v) = mset (user_roleIdsByUser s v) - (if v = u then {#roleId#} else {#}))"
proof -
  obtain i where i: "findIndex (\<lambda>r. r = roleId) (user_roleIdsByUser s u) = Some i"
    using assms by (cases "findIndex (\<lambda>r. r = roleId) (user_roleIdsByUser s u)") (auto simp: findIndex_None)
  then have "i < length (user_roleIdsByUser s u)" "user_roleIdsByUser s u ! i = roleId"
    by (auto simp: findIndex_Some)
  then show ?thesis
    using i by (simp add: removeRoleIdFromUser_def mset_removeSwapped)
qed

lemma removeUsers_ok:
  assumes "\<forall>u. count (mset users) u \<le> count (mset (user_roleIdsByUser s u)) roleId"
  shows "\<exists>s'. removeUsers users roleId s = Inr s' \<and> user_entitlementsByRoleId s' = user_entitlementsByRoleId s \<and>
    user_SPACE_ADDRESS s' = user_SPACE_ADDRESS s \<and>
    (\<forall>v. mset (user_roleIdsByUser s' v) = mset (user_roleIdsByUser s v) - replicate_mset (count (mset users) v) roleId)"
  using assms
proof (induction users arbitrary: s)
  case (Cons u users)
  have "roleId \<in> set (user_roleIdsByUser s u)"
    using Cons.prems [rule_format, of u] by (metis count_eq_zero_iff count_add_mset mset.simps(2) set_mset_mset not_less_eq_eq le0 le_zero_eq nat.distinct(1))
  then obtain s1 where s1: "removeRoleIdFromUser u roleId s = Inr s1"
    "user_entitlementsByRoleId s1 = user_entitlementsByRoleId s" "user_SPACE_ADDRESS s1 = user_SPACE_ADDRESS s"
    "\<forall>v. mset (user_roleIdsByUser s1 v) = mset (user_roleIdsByUser s v) - (if v = u then {#roleId#} else {#})"
    using removeRoleId_ok by blast
  have "\<forall>v. count (mset users) v \<le> count (mset (user_roleIdsByUser s1 v)) roleId"
    using Cons.prems by (auto simp: s1(4) split: if_splits)
  from Cons.IH [OF this] show ?case using s1 by auto
qed simp

lemma pushRoles_eq:
  "user_entitlementsByRoleId (pushRoles users roleId s) = user_entitlementsByRoleId s"
  "user_SPACE_ADDRESS (pushRoles users roleId s) = user_SPACE_ADDRESS s"
  "mset (user_roleIdsByUser (pushRoles users roleId s) v) = mset (user_roleIdsByUser s v) + replicate_mset (count (mset users) v) roleId"
  by (induction users arbitrary: s) auto

text \<open>Under the invariant clearing a role never reverts.\<close>

lemma clearRole_ok:
  assumes "in_step s"
  shows "\<exists>s'. clearRole roleId s = Inr s' \<and> in_step s' \<and> user_SPACE_ADDRESS s' = user_SPACE_ADDRESS s \<and>
    user_entitlementsByRoleId s' = (user_entitlementsByRoleId s)(roleId := emptyUserEntry)"
proof -
  let ?us = "rev (ue_users (user_entitlementsByRoleId s roleId))"
  have "\<forall>u. count (mset ?us) u \<le> count (mset (user_roleIdsByUser s u)) roleId" using assms by (simp add: in_step_def)
  from removeUsers_ok [OF this] obtain s' where s': "removeUsers ?us roleId s = Inr s'"
    "user_entitlementsByRoleId s' = user_entitlementsByRoleId s" "user_SPACE_ADDRESS s' = user_SPACE_ADDRESS s"
    "\<forall>v. mset (user_roleIdsByUser s' v) = mset (user_roleIdsByUser s v) - replicate_mset (count (mset ?us) v) roleId" by blast
  then show ?thesis using assms by (auto simp: clearRole_def in_step_def emptyUserEntry_def)
qed

section \<open>The calls implement the specification\<close>

locale simulation =
  fixes cstep :: "'i \<Rightarrow> 'c \<Rightarrow> 'c"
    and astep :: "'i \<Rightarrow> 'a \<Rightarrow> 'a"
    and rel :: "'c \<Rightarrow> 'a \<Rightarrow> bool"
  assumes sim: "rel c a \<Longrightarrow> rel (cstep i c) (astep i a)"
begin

lemma fold_sim: "rel c a \<Longrightarrow> rel (fold cstep inputs c) (fold astep inputs a)"
  by (induction inputs arbitrary: c a) (auto intro: sim)

end

fun entry_is :: "UserEntry \<Rightarrow> address list option \<Rightarrow> bool" where
  "entry_is e None = (ue_grantedBy e = 0 \<and> ue_users e = [])"
| "entry_is e (Some us) = (ue_grantedBy e \<noteq> 0 \<and> ue_users e = us)"

definition represents :: "address \<Rightarrow> UserEntitlement \<Rightarrow> (nat \<Rightarrow> address list option) \<Rightarrow> bool" where
  "represents space s m =
     (space \<noteq> 0 \<longrightarrow> in_step s \<and> user_SPACE_ADDRESS s = space \<and> (\<forall>r. entry_is (user_entitlementsByRoleId s r) (m r)))"

lemma entry_users: "entry_is e o' \<Longrightarrow> u \<in> set (ue_users e) \<longleftrightarrow> (\<exists>us. o' = Some us \<and> u \<in> set us)"
  by (cases o') auto

lemma entry_granted: "entry_is e o' \<Longrightarrow> ue_grantedBy e = 0 \<longleftrightarrow> o' = None"
  by (cases o') auto

lemma setEntitlement_ok:
  assumes "in_step s" "0 \<notin> set users"
  shows "\<exists>s'. user_setEntitlement (user_SPACE_ADDRESS s) now roleId (Some users) s = Inr s' \<and> in_step s' \<and>
    user_SPACE_ADDRESS s' = user_SPACE_ADDRESS s \<and>
    user_entitlementsByRoleId s' = (user_entitlementsByRoleId s)
      (roleId := \<lparr>ue_grantedBy = user_SPACE_ADDRESS s, ue_grantedTime = now, ue_users = users\<rparr>)"
proof -
  obtain s1 where s1: "clearRole roleId s = Inr s1" "in_step s1" "user_SPACE_ADDRESS s1 = user_SPACE_ADDRESS s"
    "user_entitlementsByRoleId s1 = (user_entitlementsByRoleId s)(roleId := emptyUserEntry)"
    using clearRole_ok [OF assms(1)] by blast
  have "count (mset (user_roleIdsByUser s1 u)) r = (if r = roleId then 0 else count (mset (ue_users (user_entitlementsByRoleId s r))) u)" for u r
    using s1(2) by (simp add: in_step_def s1(4) emptyUserEntry_def)
  then show ?thesis
    using s1(1,3,4) assms(2) by (auto simp: user_setEntitlement_def in_step_def pushRoles_eq)
qed

interpretation user: simulation userStep "specStep space" "represents space" for space
proof
  fix s m i
  assume rel: "represents space s m"
  show "represents space (userStep i s) (specStep space i m)"
  proof (cases "space = 0")
    case False
    then have inv: "in_step s" "user_SPACE_ADDRESS s = space" using rel by (auto simp: represents_def)
    show ?thesis
    proof (cases i)
      case (U_set sender now roleId users)
      show ?thesis
      proof (cases "sender = space \<and> users \<noteq> None \<and> 0 \<notin> set (the users)")
        case True
        then obtain us where us: "users = Some us" "0 \<notin> set us" "sender = space" by auto
        obtain s' where "user_setEntitlement space now roleId (Some us) s = Inr s'" "in_step s'" "user_SPACE_ADDRESS s' = space"
          "user_entitlementsByRoleId s' = (user_entitlementsByRoleId s)(roleId := \<lparr>ue_grantedBy = space, ue_grantedTime = now, ue_users = us\<rparr>)"
          using setEntitlement_ok [OF inv(1) us(2), of now roleId] inv(2) by auto
        then show ?thesis using rel us False U_set by (simp add: represents_def committed_def)
      next
        case no: False
        then have "userStep i s = s" "specStep space i m = m"
          using U_set inv(2) by (auto simp: user_setEntitlement_def committed_def split: option.split)
        then show ?thesis using rel by simp
      qed
    next
      case (U_remove sender roleId)
      show ?thesis
      proof (cases "sender = space \<and> m roleId \<noteq> None")
        case True
        then have g: "ue_grantedBy (user_entitlementsByRoleId s roleId) \<noteq> 0"
          using rel False entry_granted [of "user_entitlementsByRoleId s roleId" "m roleId"] by (simp add: represents_def)
        obtain s' where "clearRole roleId s = Inr s'" "in_step s'" "user_SPACE_ADDRESS s' = space"
          "user_entitlementsByRoleId s' = (user_entitlementsByRoleId s)(roleId := emptyUserEntry)"
          using clearRole_ok [OF inv(1)] inv(2) by auto
        then show ?thesis
          using rel True g inv(2) U_remove by (simp add: represents_def committed_def user_removeEntitlement_def emptyUserEntry_def)
      next
        case no: False
        then have "specStep space i m = m" using U_remove by (auto simp: fun_upd_idem)
        moreover have "userStep i s = s"
        proof (cases "sender = space")
          case True
          then have "m roleId = None" using no by simp
          then have "ue_grantedBy (user_entitlementsByRoleId s roleId) = 0"
            using rel \<open>space \<noteq> 0\<close> entry_granted unfolding represents_def by metis
          then show ?thesis using U_remove by (simp add: user_removeEntitlement_def committed_def)
        qed (use U_remove inv(2) in \<open>simp add: user_removeEntitlement_def committed_def\<close>)
        ultimately show ?thesis using rel by simp
      qed
    qed
  qed (simp add: represents_def)
qed

lemma initialize_represents: "represents space (UserEntitlement_initialize space) (\<lambda>_. None)"
  by (simp add: represents_def UserEntitlement_initialize_def in_step_def emptyUserEntry_def)

lemma roles_of_user:
  assumes "in_step s"
  shows "r \<in> set (user_roleIdsByUser s u) \<longleftrightarrow> u \<in> set (ue_users (user_entitlementsByRoleId s r))"
  using assms by (metis count_eq_zero_iff in_step_def set_mset_mset)

section \<open>Property\<close>

text \<open>
  (C10) The user entitlement grants exactly what was set. After any sequence of calls, by anyone, in
  which reverted calls change nothing, a set of wallets is entitled to a permission (in a channel,
  or in the space for the zero channel) exactly when some role that has the permission, and that
  the channel allows, was last set by the space for one of the wallets or for everyone.
\<close>
theorem user_entitlement_exact:
  assumes "space \<noteq> 0"
    and "s = fold userStep inputs (UserEntitlement_initialize space)"
    and "m = fold (specStep space) inputs (\<lambda>_. None)"
  shows "user_isEntitled perms channelRoles channelId wallets permission s \<longleftrightarrow>
    (\<exists>r us. m r = Some us \<and> (set wallets \<union> {everyone}) \<inter> set us \<noteq> {} \<and> validateRolePermission perms r permission
       \<and> (channelId = replicate 32 0 \<or> r \<in> set (channelRoles channelId)))"
proof -
  have rel: "represents space s m"
    unfolding assms(2,3) by (rule user.fold_sim [OF initialize_represents])
  then have inv: "in_step s" using assms(1) by (simp add: represents_def)
  have users: "u \<in> set (ue_users (user_entitlementsByRoleId s r)) \<longleftrightarrow> (\<exists>us. m r = Some us \<and> u \<in> set us)" for u r
    using rel assms(1) by (intro entry_users) (simp add: represents_def)
  have roles: "r \<in> set (getRoleIdsByUser wallets s) \<longleftrightarrow> (\<exists>us. m r = Some us \<and> (set wallets \<union> {everyone}) \<inter> set us \<noteq> {})" for r
    by (auto simp: getRoleIdsByUser_def roles_of_user [OF inv] users)
  have "user_isEntitled perms channelRoles channelId wallets permission s \<longleftrightarrow>
      (\<exists>r. r \<in> set (getRoleIdsByUser wallets s) \<and> validateRolePermission perms r permission \<and>
        (channelId = replicate 32 0 \<or> r \<in> set (channelRoles channelId)))"
    by (auto simp: user_isEntitled_def isEntitledToChannel_def isEntitledToSpace_def list_ex_iff)
  then show ?thesis unfolding roles by blast
qed

theorem user_entitlement_exact_witness:
  "user_isEntitled (\<lambda>r. if r = 2 then [[1]] else []) (\<lambda>_. []) (replicate 32 0) [7] (bytes32 [1])
     (fold userStep [U_set 9 0 2 (Some [7, 8, 7]), U_set 9 1 3 (Some [7]), U_remove 5 2, U_set 9 2 3 (Some [8])]
       (UserEntitlement_initialize 9))"
proof -
  have "fold (specStep 9) [U_set 9 0 2 (Some [7, 8, 7]), U_set 9 1 3 (Some [7]), U_remove 5 2, U_set 9 2 3 (Some [8])] (\<lambda>_. None) 2
      = Some [7, 8, 7]" by simp
  then show ?thesis
    by (subst user_entitlement_exact [OF _ refl refl]) (auto simp: validateRolePermission_def)
qed

end
