(* ===== verification/RuleEvaluation.thy ===== *)
theory RuleEvaluation
  imports Entitlement "HOL-Library.Log_Nat"
begin

text \<open>
  The evaluation of entitlement rules, by the client (\<open>evaluateTree\<close> of
  \<open>core/web3/src/entitlement.ts\<close>, with its callers in \<open>SpaceDapp.ts\<close>) and by the node
  (\<open>evaluateOp\<close> of \<open>core/xchain/entitlement\<close>). Both evaluate the two sides of a logical operation
  concurrently and cancel the side that no longer matters, so the result may depend on which side
  ends first. A definition here gives the list of all results that some order of completion can
  produce; a theorem about every element of the list holds for all schedules.

  The locale states what makes an evaluator right on every rule from its behaviour on checks and on
  the two gates; both evaluators are instances.
\<close>

section \<open>Client: settled promises\<close>

datatype Settled = Resolved string | Rejected js_error

text \<open>
  A chain provider: whether it fails to connect, its chain, and what \<open>balanceOf\<close> of a contract
  answers for a wallet (none when the call throws or its answer is not a number).
\<close>

record Provider =
  pr_ready :: "js_error option"
  pr_chainId :: int
  pr_balanceOf :: "string \<Rightarrow> string \<Rightarrow> int option"

definition zeroAddress :: string where
  "zeroAddress = ''0x0000000000000000000000000000000000000000''"

definition MOCK_ADDRESS :: string where
  "MOCK_ADDRESS = ''0xdeadbeefdeadbeefdeadbeefdeadbeefdeadbeef''"

definition EVERYONE_ADDRESS :: string where
  "EVERYONE_ADDRESS = ''0x0000000000000000000000000000000000000001''"

definition isValidAddress :: "externs \<Rightarrow> string \<Rightarrow> bool" where
  "isValidAddress x value = (x_isAddress x value \<and> value \<noteq> zeroAddress)"

text \<open>\<open>Number\<close> of a big integer: exact up to 53 bits, then rounded to 53 bits, ties to even.\<close>

definition toNumber :: "bigint \<Rightarrow> int" where
  "toNumber n =
     (if \<bar>n\<bar> \<le> 2 ^ 53 then n
      else let e = nat (bitlen \<bar>n\<bar> - 53); q = \<bar>n\<bar> div 2 ^ e; r = \<bar>n\<bar> mod 2 ^ e; h = 2 ^ (e - 1)
           in sgn n * ((if r > h \<or> r = h \<and> odd q then q + 1 else q) * 2 ^ e))"

definition findProviderFromChainId :: "Provider list \<Rightarrow> bigint \<Rightarrow> Provider option" where
  "findProviderFromChainId providers chainId = find (\<lambda>p. pr_chainId p = toNumber chainId) providers"

section \<open>Client: checks\<close>

text \<open>The timer of a mock check is cleared when its controller is aborted.\<close>

definition evaluateMockOperation :: "bool \<Rightarrow> bigint \<Rightarrow> Settled list" where
  "evaluateMockOperation aborted chainId =
     [Resolved (if \<not> aborted \<and> chainId = 1 then MOCK_ADDRESS else zeroAddress)]"

definition walletBalances :: "Provider \<Rightarrow> string \<Rightarrow> string list \<Rightarrow> (string \<times> int) list" where
  "walletBalances provider contractAddress linkedWallets =
     map (\<lambda>wallet. (wallet, case pr_balanceOf provider contractAddress wallet of Some b \<Rightarrow> b | None \<Rightarrow> 0)) linkedWallets"

definition evaluateERC721Operation :: "string \<Rightarrow> bigint \<Rightarrow> Provider \<Rightarrow> string list \<Rightarrow> Settled list" where
  "evaluateERC721Operation contractAddress threshold provider linkedWallets =
     (let walletsWithAsset = filter (\<lambda>(_, balance). balance > 0) (walletBalances provider contractAddress linkedWallets);
          accumulatedBalance = foldl (+) 0 (map snd walletsWithAsset)
      in [Resolved (if walletsWithAsset \<noteq> [] \<and> accumulatedBalance \<ge> threshold then fst (hd walletsWithAsset) else zeroAddress)])"

definition evaluateCheckOperation ::
    "bool \<Rightarrow> string list \<Rightarrow> Provider list \<Rightarrow> CheckOperationType \<Rightarrow> bigint \<Rightarrow> string \<Rightarrow> bigint \<Rightarrow> Settled list" where
  "evaluateCheckOperation aborted linkedWallets providers checkType chainId contractAddress threshold =
     (case checkType of
        CT_MOCK \<Rightarrow> evaluateMockOperation aborted chainId
      | CT_ISENTITLED \<Rightarrow> [Rejected (JsError ''CheckOperationType.ISENTITLED not implemented'')]
      | CT_ERC20 \<Rightarrow> [Rejected (JsError ''CheckOperationType.ERC20 not implemented'')]
      | CT_ERC721 \<Rightarrow>
          (case List.map_filter pr_ready providers of
             [] \<Rightarrow>
               (case findProviderFromChainId providers chainId of
                  None \<Rightarrow> [Resolved zeroAddress]
                | Some provider \<Rightarrow> evaluateERC721Operation contractAddress threshold provider linkedWallets)
           | errors \<Rightarrow> map Rejected errors)
      | CT_ERC1155 \<Rightarrow> [Rejected (JsError ''CheckOperationType.ERC1155 not implemented'')]
      | _ \<Rightarrow> [Rejected (JsError ''Unknown check operation type'')])"

section \<open>Client: gates\<close>

text \<open>
  The two racers of an \<open>and\<close>, \<open>first\<close> being the one whose evaluation settles first. A failing side
  interrupts the other, whose result is then the zero address; a rejected one rejects the whole.
  The answer is the wallet of the left side.
\<close>

definition raceAnd :: "externs \<Rightarrow> Settled \<Rightarrow> Settled \<Rightarrow> string \<Rightarrow> Settled" where
  "raceAnd x first second answer =
     (case first of
        Rejected e \<Rightarrow> Rejected e
      | Resolved a \<Rightarrow>
          if \<not> isValidAddress x a then Resolved zeroAddress
          else (case second of
                  Rejected e \<Rightarrow> Rejected e
                | Resolved b \<Rightarrow> Resolved (if isValidAddress x b then answer else zeroAddress)))"

definition evaluateAndOperation :: "externs \<Rightarrow> Settled list option \<Rightarrow> Settled list option \<Rightarrow> Settled list" where
  "evaluateAndOperation x left right =
     (case (left, right) of
        (Some ls, Some rs) \<Rightarrow>
          remdups (concat (map (\<lambda>l. concat (map (\<lambda>r.
            let answer = (case l of Resolved a \<Rightarrow> a | Rejected _ \<Rightarrow> zeroAddress)
            in [raceAnd x l r answer, raceAnd x r l answer]) rs)) ls))
      | _ \<Rightarrow> [Resolved zeroAddress])"

text \<open>In an \<open>or\<close> a succeeding side interrupts the other.\<close>

definition raceOr :: "externs \<Rightarrow> Settled \<Rightarrow> Settled \<Rightarrow> Settled" where
  "raceOr x first second =
     (case first of
        Rejected e \<Rightarrow> Rejected e
      | Resolved a \<Rightarrow>
          if isValidAddress x a then Resolved a
          else (case second of
                  Rejected e \<Rightarrow> Rejected e
                | Resolved b \<Rightarrow> Resolved (if isValidAddress x b then b else zeroAddress)))"

definition evaluateOrOperation :: "externs \<Rightarrow> Settled list option \<Rightarrow> Settled list option \<Rightarrow> Settled list" where
  "evaluateOrOperation x left right =
     (case (left, right) of
        (Some ls, Some rs) \<Rightarrow> remdups (concat (map (\<lambda>l. concat (map (\<lambda>r. [raceOr x l r, raceOr x r l]) rs)) ls))
      | _ \<Rightarrow> [Resolved zeroAddress])"

text \<open>
  \<open>aborted\<close> says that the controller is aborted as soon as the evaluation has started. A
  controller aborted later, by a gate that is already decided, belongs to a side whose result is
  no longer used.
\<close>

fun evaluateEntry :: "externs \<Rightarrow> bool \<Rightarrow> string list \<Rightarrow> Provider list \<Rightarrow> Operation \<Rightarrow> Settled list" where
  "evaluateEntry x aborted linkedWallets providers (LogicalOperation t l r) =
     (case t of
        LT_AND \<Rightarrow> evaluateAndOperation x (map_option (evaluateEntry x aborted linkedWallets providers) l)
          (map_option (evaluateEntry x aborted linkedWallets providers) r)
      | LT_OR \<Rightarrow> evaluateOrOperation x (map_option (evaluateEntry x aborted linkedWallets providers) l)
          (map_option (evaluateEntry x aborted linkedWallets providers) r)
      | _ \<Rightarrow> [Rejected (JsError ''Unknown operation type'')])"
| "evaluateEntry x aborted linkedWallets providers (CheckOperation t chainId address threshold) =
     evaluateCheckOperation aborted linkedWallets providers t chainId address threshold"
| "evaluateEntry x aborted linkedWallets providers (NoOperation _) = [Rejected (JsError ''Unknown operation type'')]"

definition evaluateTree :: "externs \<Rightarrow> bool \<Rightarrow> string list \<Rightarrow> Provider list \<Rightarrow> Operation option \<Rightarrow> Settled list" where
  "evaluateTree x aborted linkedWallets providers entry =
     (case entry of None \<Rightarrow> [Resolved zeroAddress] | Some e \<Rightarrow> evaluateEntry x aborted linkedWallets providers e)"

text \<open>The controller is aborted right after the evaluation has been started.\<close>

definition evaluateOperationsForEntitledWallet ::
    "externs \<Rightarrow> Operation list \<Rightarrow> string list \<Rightarrow> Provider list \<Rightarrow> Settled list" where
  "evaluateOperationsForEntitledWallet x operations linkedWallets providers =
     evaluateTree x True linkedWallets providers (if operations = [] then None else Some (last operations))"

section \<open>Client: joining a space\<close>

datatype EntitlementModuleType = UserEntitlementModule | RuleEntitlementModule

record EntitlementData =
  ent_entitlementType :: EntitlementModuleType
  ent_ruleEntitlement :: "RuleDataStruct list option"
  ent_userEntitlement :: "string list option"

datatype JoinResult = JoinWallet "string option" | JoinRejected js_error

definition evaluateRuleEntitlement ::
    "externs \<Rightarrow> string list \<Rightarrow> Provider list \<Rightarrow> RuleDataStruct list option \<Rightarrow> Settled list" where
  "evaluateRuleEntitlement x allWallets providers ruleData =
     (case ruleData of
        None \<Rightarrow> [Rejected (JsError ''Rule data not found'')]
      | Some data \<Rightarrow>
          (case ruleDataToOperations data of
             Inl e \<Rightarrow> [Rejected e]
           | Inr operations \<Rightarrow> evaluateOperationsForEntitledWallet x operations allWallets providers))"

text \<open>\<open>Promise.all\<close> of the rules, for one settlement of each: a rejected one rejects the whole.\<close>

definition joinResults :: "Settled list \<Rightarrow> JoinResult list" where
  "joinResults settled =
     (case List.map_filter (\<lambda>s. case s of Rejected e \<Rightarrow> Some e | Resolved _ \<Rightarrow> None) settled of
        [] \<Rightarrow>
          (let wallets = map (\<lambda>s. case s of Resolved w \<Rightarrow> w | Rejected _ \<Rightarrow> zeroAddress) settled
           in [JoinWallet (if list_all (\<lambda>w. w \<noteq> zeroAddress) wallets
                           then (case wallets of [] \<Rightarrow> None | w # _ \<Rightarrow> Some w) else None)])
      | errors \<Rightarrow> map JoinRejected errors)"

definition getEntitledWalletForJoiningSpace ::
    "externs \<Rightarrow> bool \<Rightarrow> string \<Rightarrow> string list \<Rightarrow> EntitlementData list \<Rightarrow> Provider list \<Rightarrow> JoinResult list" where
  "getEntitledWalletForJoiningSpace x spaceFound rootKey linkedWallets entitlements providers =
     (if \<not> spaceFound then [JoinRejected (JsError ''Space is not found'')]
      else if list_ex (\<lambda>e. case ent_userEntitlement e of Some us \<Rightarrow> EVERYONE_ADDRESS \<in> set us | None \<Rightarrow> False) entitlements
      then [JoinWallet (Some rootKey)]
      else (case List.map_filter pr_ready providers of
              [] \<Rightarrow>
                concat (map joinResults (product_lists
                  (map (evaluateRuleEntitlement x (rootKey # linkedWallets) providers \<circ> ent_ruleEntitlement)
                    (filter (\<lambda>e. ent_entitlementType e = RuleEntitlementModule) entitlements))))
            | errors \<Rightarrow> map JoinRejected errors))"

section \<open>Node: checks\<close>

type_synonym go_result = "bool \<times> go_error option"

text \<open>
  A chain client: whether binding a contract fails, and what its calls answer. The contracts of
  the checks are asked with the context of the evaluation.
\<close>

record ChainClient =
  cc_bind :: "string \<Rightarrow> go_error option"
  cc_balanceOf :: "string \<Rightarrow> string \<Rightarrow> go_error + int"
  cc_isEntitled :: "string \<Rightarrow> string \<Rightarrow> go_error + bool"

text \<open>
  \<open>cancelled\<close>: the context may be cancelled while the check runs, which ends it with an error.
\<close>

definition mayCancel :: "bool \<Rightarrow> go_result \<Rightarrow> go_result list" where
  "mayCancel cancelled result = result # (if cancelled then [(False, Some (GoError ''operation cancelled''))] else [])"

definition xchain_evaluateMockOperation :: "bool \<Rightarrow> int \<Rightarrow> go_result list" where
  "xchain_evaluateMockOperation cancelled chainId = mayCancel cancelled (chainId \<noteq> 0, None)"

definition xchain_client :: "(nat \<Rightarrow> ChainClient option) \<Rightarrow> int \<Rightarrow> string \<Rightarrow> go_error + ChainClient" where
  "xchain_client clients chainId contractAddress =
     (case clients (nat (chainId mod 2 ^ 64)) of
        None \<Rightarrow> Inl (GoError ''Chain ID not found'')
      | Some client \<Rightarrow> (case cc_bind client contractAddress of Some e \<Rightarrow> Inl e | None \<Rightarrow> Inr client))"

fun entitledLoop :: "(string \<Rightarrow> go_error + bool) \<Rightarrow> string list \<Rightarrow> go_result" where
  "entitledLoop isEntitled [] = (False, None)"
| "entitledLoop isEntitled (wallet # wallets) =
     (case isEntitled wallet of
        Inl e \<Rightarrow> (False, Some e)
      | Inr b \<Rightarrow> if b then (True, None) else entitledLoop isEntitled wallets)"

fun balanceLoop :: "(int \<Rightarrow> bool) \<Rightarrow> (string \<Rightarrow> go_error + int) \<Rightarrow> int \<Rightarrow> string list \<Rightarrow> go_result" where
  "balanceLoop enough balanceOf acc [] = (False, None)"
| "balanceLoop enough balanceOf acc (wallet # wallets) =
     (case balanceOf wallet of
        Inl e \<Rightarrow> (False, Some e)
      | Inr balance \<Rightarrow>
          if enough (acc + balance) then (True, None) else balanceLoop enough balanceOf (acc + balance) wallets)"

definition evaluateIsEntitledOperation ::
    "(nat \<Rightarrow> ChainClient option) \<Rightarrow> bool \<Rightarrow> string list \<Rightarrow> int \<Rightarrow> string \<Rightarrow> go_result list" where
  "evaluateIsEntitledOperation clients cancelled linkedWallets chainId contractAddress =
     (case xchain_client clients chainId contractAddress of
        Inl e \<Rightarrow> [(False, Some e)]
      | Inr client \<Rightarrow> mayCancel cancelled (entitledLoop (cc_isEntitled client contractAddress) linkedWallets))"

definition evaluateErc20Operation ::
    "(nat \<Rightarrow> ChainClient option) \<Rightarrow> bool \<Rightarrow> string list \<Rightarrow> int \<Rightarrow> string \<Rightarrow> int \<Rightarrow> go_result list" where
  "evaluateErc20Operation clients cancelled linkedWallets chainId contractAddress threshold =
     (case xchain_client clients chainId contractAddress of
        Inl e \<Rightarrow> [(False, Some e)]
      | Inr client \<Rightarrow> mayCancel cancelled
          (balanceLoop (\<lambda>total. threshold > 0 \<and> total > 0 \<and> total \<ge> threshold) (cc_balanceOf client contractAddress) 0 linkedWallets))"

definition evaluateErc721Operation ::
    "(nat \<Rightarrow> ChainClient option) \<Rightarrow> bool \<Rightarrow> string list \<Rightarrow> int \<Rightarrow> string \<Rightarrow> int \<Rightarrow> go_result list" where
  "evaluateErc721Operation clients cancelled linkedWallets chainId contractAddress threshold =
     (case xchain_client clients chainId contractAddress of
        Inl e \<Rightarrow> [(False, Some e)]
      | Inr client \<Rightarrow> mayCancel cancelled
          (balanceLoop (\<lambda>total. total \<ge> threshold) (cc_balanceOf client contractAddress) 0 linkedWallets))"

definition xchain_evaluateCheckOperation ::
    "(nat \<Rightarrow> ChainClient option) \<Rightarrow> bool \<Rightarrow> string list \<Rightarrow> CheckOperationType \<Rightarrow> int \<Rightarrow> string \<Rightarrow> int \<Rightarrow> go_result list" where
  "xchain_evaluateCheckOperation clients cancelled linkedWallets checkType chainId contractAddress threshold =
     (case checkType of
        CT_MOCK \<Rightarrow> xchain_evaluateMockOperation cancelled chainId
      | CT_ISENTITLED \<Rightarrow> evaluateIsEntitledOperation clients cancelled linkedWallets chainId contractAddress
      | CT_ERC20 \<Rightarrow> evaluateErc20Operation clients cancelled linkedWallets chainId contractAddress threshold
      | CT_ERC721 \<Rightarrow> evaluateErc721Operation clients cancelled linkedWallets chainId contractAddress threshold
      | CT_ERC1155 \<Rightarrow> [(False, Some (GoError ''ERC1155 not implemented''))]
      | _ \<Rightarrow> [(False, Some (GoError ''unknown operation''))])"

section \<open>Node: gates\<close>

text \<open>
  Two goroutines. The one that ends first cancels the context of the other when \<open>decides\<close> holds of
  its result; both are waited for. A side is a function of whether its context may be cancelled.
\<close>

definition bothSides :: "(go_result \<Rightarrow> bool) \<Rightarrow> (bool \<Rightarrow> bool \<Rightarrow> bool) \<Rightarrow> bool \<Rightarrow>
    (bool \<Rightarrow> go_result list) \<Rightarrow> (bool \<Rightarrow> go_result list) \<Rightarrow> go_result list" where
  "bothSides decides join cancelled left right = remdups (
     concat (map (\<lambda>l. map (\<lambda>r. (join (fst l) (fst r), None)) (right (cancelled \<or> decides l))) (left cancelled)) @
     concat (map (\<lambda>r. map (\<lambda>l. (join (fst l) (fst r), None)) (left (cancelled \<or> decides r))) (right cancelled)))"

definition xchain_evaluateAndOperation ::
    "bool \<Rightarrow> (bool \<Rightarrow> go_result list) \<Rightarrow> (bool \<Rightarrow> go_result list) \<Rightarrow> go_result list" where
  "xchain_evaluateAndOperation = bothSides (\<lambda>r. \<not> fst r \<or> snd r \<noteq> None) (\<and>)"

definition xchain_evaluateOrOperation ::
    "bool \<Rightarrow> (bool \<Rightarrow> go_result list) \<Rightarrow> (bool \<Rightarrow> go_result list) \<Rightarrow> go_result list" where
  "xchain_evaluateOrOperation = bothSides (\<lambda>r. fst r \<or> snd r \<noteq> None) (\<or>)"

fun evaluateOp :: "(nat \<Rightarrow> ChainClient option) \<Rightarrow> string list \<Rightarrow> Operation \<Rightarrow> bool \<Rightarrow> go_result list" where
  "evaluateOp clients linkedWallets (CheckOperation t chainId address threshold) cancelled =
     xchain_evaluateCheckOperation clients cancelled linkedWallets t chainId address threshold"
| "evaluateOp clients linkedWallets (LogicalOperation t (Some l) (Some r)) cancelled =
     (case t of
        LT_AND \<Rightarrow> xchain_evaluateAndOperation cancelled (evaluateOp clients linkedWallets l) (evaluateOp clients linkedWallets r)
      | LT_OR \<Rightarrow> xchain_evaluateOrOperation cancelled (evaluateOp clients linkedWallets l) (evaluateOp clients linkedWallets r)
      | _ \<Rightarrow> [(False, Some (GoError ''invalid LogicalOperation type''))])"
| "evaluateOp clients linkedWallets (LogicalOperation t _ _) cancelled =
     [(False, Some (GoError (if t = LT_AND \<or> t = LT_OR then ''operation is nil'' else ''invalid LogicalOperation type'')))]"
| "evaluateOp clients linkedWallets (NoOperation _) cancelled = [(False, Some (GoError ''invalid Operation type''))]"

definition EvaluateRuleData :: "(nat \<Rightarrow> ChainClient option) \<Rightarrow> bool \<Rightarrow> string list \<Rightarrow> IRuleData \<Rightarrow> go_result list" where
  "EvaluateRuleData clients cancelled linkedWallets ruleData =
     (case xchain_getOperationTree ruleData of
        Inl e \<Rightarrow> [(False, Some e)]
      | Inr opTree \<Rightarrow> evaluateOp clients linkedWallets opTree cancelled)"

section \<open>Evaluators\<close>

text \<open>The meaning of a rule, given that of its checks.\<close>

fun ruleHolds :: "(Operation \<Rightarrow> bool) \<Rightarrow> Operation \<Rightarrow> bool" where
  "ruleHolds leaf (LogicalOperation t (Some l) (Some r)) =
     (if t = LT_AND then ruleHolds leaf l \<and> ruleHolds leaf r else ruleHolds leaf l \<or> ruleHolds leaf r)"
| "ruleHolds leaf op = leaf op"

fun leaves_ok :: "(Operation \<Rightarrow> bool) \<Rightarrow> Operation \<Rightarrow> bool" where
  "leaves_ok ok (CheckOperation t c a h) = ok (CheckOperation t c a h)"
| "leaves_ok ok (LogicalOperation t (Some l) (Some r)) = ((t = LT_AND \<or> t = LT_OR) \<and> leaves_ok ok l \<and> leaves_ok ok r)"
| "leaves_ok ok _ = False"

lemma leaves_ok_mono: "leaves_ok ok t \<Longrightarrow> (\<And>op. ok op \<Longrightarrow> ok' op) \<Longrightarrow> leaves_ok ok' t"
  by (induction t rule: is_rule.induct) auto

lemma leaves_ok_is_rule: "leaves_ok ok t \<Longrightarrow> is_rule t \<and> gates_ok t"
  by (induction t rule: is_rule.induct) auto

lemma ruleHolds_cong: "leaves_ok ok t \<Longrightarrow> (\<And>op. ok op \<Longrightarrow> leaf op = leaf' op) \<Longrightarrow> ruleHolds leaf t = ruleHolds leaf' t"
  by (induction t rule: is_rule.induct) auto

lemma ruleHolds_imp:
  "leaves_ok ok t \<Longrightarrow> (\<And>op. ok op \<Longrightarrow> leaf op \<Longrightarrow> leaf' op) \<Longrightarrow> ruleHolds leaf t \<Longrightarrow> ruleHolds leaf' t"
  by (induction t rule: is_rule.induct) (auto split: if_splits)

lemma leaves_ok_conj: "leaves_ok p t \<Longrightarrow> leaves_ok q t \<Longrightarrow> leaves_ok (\<lambda>op. p op \<and> q op) t"
  by (induction t rule: is_rule.induct) auto

lemma leaves_ok_all: "is_rule t \<Longrightarrow> gates_ok t \<Longrightarrow> (\<And>k c a h. ok (CheckOperation k c a h)) \<Longrightarrow> leaves_ok ok t"
  by (induction t rule: is_rule.induct) auto

text \<open>There is a result, and every possible result is right for what is evaluated.\<close>

definition decided :: "('r \<Rightarrow> 'b \<Rightarrow> bool) \<Rightarrow> 'r list \<Rightarrow> 'b \<Rightarrow> bool" where
  "decided right results b = (results \<noteq> [] \<and> (\<forall>r \<in> set results. right r b))"

locale rule_evaluator =
  fixes results :: "Operation \<Rightarrow> 'r list"
    and right :: "'r \<Rightarrow> Operation \<Rightarrow> bool"
    and ok :: "Operation \<Rightarrow> bool"
  assumes check: "ok (CheckOperation t c a h) \<Longrightarrow> decided right (results (CheckOperation t c a h)) (CheckOperation t c a h)"
    and gate: "decided right (results l) l \<Longrightarrow> decided right (results r) r \<Longrightarrow> o' = LT_AND \<or> o' = LT_OR \<Longrightarrow>
      decided right (results (LogicalOperation o' (Some l) (Some r))) (LogicalOperation o' (Some l) (Some r))"
begin

lemma rule_decided: "leaves_ok ok t \<Longrightarrow> decided right (results t) t"
  by (induction t rule: is_rule.induct) (auto intro: check gate)

end

subsection \<open>The client\<close>

definition balanceAt :: "Provider \<Rightarrow> string \<Rightarrow> string \<Rightarrow> int" where
  "balanceAt p a w = (case pr_balanceOf p a w of Some b \<Rightarrow> b | None \<Rightarrow> 0)"

text \<open>
  What a check of the client asks: a mock check that its controller is not aborted and its chain
  is 1, a token check that there is a token among the wallets and the threshold is reached in total. The
  other checks are not supported: they reject, as a token check does when a provider fails to connect.
\<close>

fun supported :: "Provider list \<Rightarrow> Operation \<Rightarrow> bool" where
  "supported ps (CheckOperation t c a h) = (t = CT_MOCK \<or> t = CT_ERC721 \<and> list_all (\<lambda>p. pr_ready p = None) ps)"
| "supported ps _ = False"

fun client_leaf :: "bool \<Rightarrow> string list \<Rightarrow> Provider list \<Rightarrow> Operation \<Rightarrow> bool" where
  "client_leaf aborted ws ps (CheckOperation t c a h) =
     (supported ps (CheckOperation t c a h) \<and>
      (if t = CT_MOCK then \<not> aborted \<and> c = 1
       else (case findProviderFromChainId ps c of
               None \<Rightarrow> False
             | Some p \<Rightarrow> (\<exists>w \<in> set ws. balanceAt p a w > 0) \<and> (\<Sum>w \<leftarrow> ws. max 0 (balanceAt p a w)) \<ge> h)))"
| "client_leaf aborted ws ps _ = False"

text \<open>The wallets are addresses, and so is the address of the mock checks.\<close>

definition wallets_ok :: "externs \<Rightarrow> string list \<Rightarrow> bool" where
  "wallets_ok x ws = (x_isAddress x MOCK_ADDRESS \<and> list_all (isValidAddress x) ws)"

text \<open>
  A wallet is only found when the rule holds, even if the checks that are not supported fail. The zero address is only
  answered when the rule fails, even if they pass. A rejection needs one of them.
\<close>

definition client_right :: "externs \<Rightarrow> bool \<Rightarrow> string list \<Rightarrow> Provider list \<Rightarrow> Settled \<Rightarrow> Operation \<Rightarrow> bool" where
  "client_right x aborted ws ps r t =
     (case r of
        Resolved a \<Rightarrow>
          if isValidAddress x a then a \<in> set (MOCK_ADDRESS # ws) \<and> ruleHolds (client_leaf aborted ws ps) t
          else a = zeroAddress \<and> \<not> ruleHolds (\<lambda>op. supported ps op \<longrightarrow> client_leaf aborted ws ps op) t
      | Rejected _ \<Rightarrow> \<not> leaves_ok (supported ps) t)"

lemma not_valid_zero [simp]: "\<not> isValidAddress x zeroAddress"
  by (simp add: isValidAddress_def)

lemma mock_valid: "wallets_ok x ws \<Longrightarrow> isValidAddress x MOCK_ADDRESS"
  by (simp add: wallets_ok_def isValidAddress_def MOCK_ADDRESS_def zeroAddress_def)

lemma foldl_sum: "foldl (+) (k :: int) xs = k + sum_list xs"
  by (induction xs arbitrary: k) auto

lemma held_sum:
  "sum_list (map snd (filter (\<lambda>(_, b). b > 0) (walletBalances p a ws))) = (\<Sum>w \<leftarrow> ws. max 0 (balanceAt p a w))"
  by (induction ws) (auto simp: walletBalances_def balanceAt_def)

lemma held_hd:
  assumes "filter (\<lambda>(_, b). b > 0) (walletBalances p a ws) \<noteq> []"
  shows "fst (hd (filter (\<lambda>(_, b). b > 0) (walletBalances p a ws))) \<in> set ws"
proof -
  have "hd (filter (\<lambda>(_, b). b > 0) (walletBalances p a ws)) \<in> set (walletBalances p a ws)"
    using hd_in_set [OF assms] by simp
  then show ?thesis by (auto simp: walletBalances_def)
qed

lemma held_empty:
  "filter (\<lambda>(_, b). b > 0) (walletBalances p a ws) = [] \<longleftrightarrow> \<not> (\<exists>w \<in> set ws. balanceAt p a w > 0)"
  by (auto simp: filter_empty_conv walletBalances_def balanceAt_def)

lemma erc721_decided:
  assumes "list_all (isValidAddress x) ws" and "supported ps (CheckOperation CT_ERC721 c a h)" and "findProviderFromChainId ps c = Some p"
  shows "decided (client_right x aborted ws ps) (evaluateERC721Operation a h p ws) (CheckOperation CT_ERC721 c a h)"
  using assms held_hd [of p a ws] held_empty [of p a ws]
  by (auto simp: decided_def evaluateERC721Operation_def Let_def foldl_sum held_sum client_right_def list_all_iff)

lemma client_check_decided:
  assumes "wallets_ok x ws"
  shows "decided (client_right x aborted ws ps) (evaluateEntry x aborted ws ps (CheckOperation t c a h)) (CheckOperation t c a h)"
proof (cases "supported ps (CheckOperation t c a h)")
  case False
  then have "\<forall>r \<in> set (evaluateEntry x aborted ws ps (CheckOperation t c a h)). \<exists>e. r = Rejected e"
    and "evaluateEntry x aborted ws ps (CheckOperation t c a h) \<noteq> []"
    by (auto simp: evaluateCheckOperation_def map_filter_def list_all_iff filter_empty_conv split: CheckOperationType.splits list.splits)
  then show ?thesis using False by (auto simp: decided_def client_right_def)
next
  case s: True
  show ?thesis
  proof (cases "t = CT_MOCK")
    case True
    then show ?thesis
      using mock_valid [OF assms] by (auto simp: evaluateCheckOperation_def evaluateMockOperation_def decided_def client_right_def)
  next
    case False
    then have t: "t = CT_ERC721" "List.map_filter pr_ready ps = []"
      using s by (auto simp: map_filter_def list_all_iff filter_empty_conv)
    show ?thesis
    proof (cases "findProviderFromChainId ps c")
      case None
      then show ?thesis using t s by (simp add: evaluateCheckOperation_def decided_def client_right_def)
    next
      case (Some p)
      then show ?thesis
        using t erc721_decided [OF _ _ Some, of x ws a h] s assms by (simp add: evaluateCheckOperation_def wallets_ok_def)
    qed
  qed
qed

lemma raceAnd_right:
  assumes "client_right x ab ws ps l t" "client_right x ab ws ps r u"
  shows "client_right x ab ws ps (raceAnd x l r (case l of Resolved a \<Rightarrow> a | Rejected _ \<Rightarrow> zeroAddress)) (LogicalOperation LT_AND (Some t) (Some u))"
    "client_right x ab ws ps (raceAnd x r l (case l of Resolved a \<Rightarrow> a | Rejected _ \<Rightarrow> zeroAddress)) (LogicalOperation LT_AND (Some t) (Some u))"
  using assms by (cases l; cases r; auto simp: raceAnd_def client_right_def split: if_splits)+

lemma raceOr_right:
  assumes "client_right x ab ws ps l t" "client_right x ab ws ps r u"
  shows "client_right x ab ws ps (raceOr x l r) (LogicalOperation LT_OR (Some t) (Some u))"
    "client_right x ab ws ps (raceOr x r l) (LogicalOperation LT_OR (Some t) (Some u))"
  using assms by (cases l; cases r; auto simp: raceOr_def client_right_def split: if_splits)+

interpretation client: rule_evaluator "evaluateEntry x aborted ws ps" "client_right x aborted ws ps" "\<lambda>_. wallets_ok x ws"
  for x aborted ws ps
proof
  fix t c a h
  assume "wallets_ok x ws"
  then show "decided (client_right x aborted ws ps) (evaluateEntry x aborted ws ps (CheckOperation t c a h)) (CheckOperation t c a h)"
    by (rule client_check_decided)
next
  fix l r o'
  assume "decided (client_right x aborted ws ps) (evaluateEntry x aborted ws ps l) l"
    "decided (client_right x aborted ws ps) (evaluateEntry x aborted ws ps r) r" "o' = LT_AND \<or> o' = LT_OR"
  then show "decided (client_right x aborted ws ps) (evaluateEntry x aborted ws ps (LogicalOperation o' (Some l) (Some r)))
      (LogicalOperation o' (Some l) (Some r))"
    by (elim disjE; clarsimp simp: decided_def evaluateAndOperation_def evaluateOrOperation_def Let_def)
      (blast intro: raceAnd_right raceOr_right)+
qed

subsection \<open>The node\<close>

definition balancesKnown :: "(string \<Rightarrow> go_error + int) \<Rightarrow> string list \<Rightarrow> bool" where
  "balancesKnown balanceOf ws = list_all (\<lambda>w. case balanceOf w of Inr b \<Rightarrow> b \<ge> 0 | Inl _ \<Rightarrow> False) ws"

definition balanceSum :: "(string \<Rightarrow> go_error + int) \<Rightarrow> string list \<Rightarrow> int" where
  "balanceSum balanceOf ws = (\<Sum>w \<leftarrow> ws. case balanceOf w of Inr b \<Rightarrow> b | Inl _ \<Rightarrow> 0)"

text \<open>The checks of the node on a chain that answers every call.\<close>

fun node_ok :: "(nat \<Rightarrow> ChainClient option) \<Rightarrow> string list \<Rightarrow> Operation \<Rightarrow> bool" where
  "node_ok clients ws (CheckOperation t c a h) =
     (t = CT_MOCK \<or>
      (case xchain_client clients c a of
         Inl _ \<Rightarrow> False
       | Inr client \<Rightarrow>
           t = CT_ISENTITLED \<and> list_all (\<lambda>w. \<not> isl (cc_isEntitled client a w)) ws \<or>
           (t = CT_ERC20 \<or> t = CT_ERC721) \<and> balancesKnown (cc_balanceOf client a) ws))"
| "node_ok clients ws _ = False"

fun node_leaf :: "(nat \<Rightarrow> ChainClient option) \<Rightarrow> string list \<Rightarrow> Operation \<Rightarrow> bool" where
  "node_leaf clients ws (CheckOperation t c a h) =
     (if t = CT_MOCK then c \<noteq> 0
      else (case xchain_client clients c a of
              Inl _ \<Rightarrow> False
            | Inr client \<Rightarrow>
                if t = CT_ISENTITLED then \<exists>w \<in> set ws. cc_isEntitled client a w = Inr True
                else ws \<noteq> [] \<and> (t = CT_ERC20 \<longrightarrow> h > 0) \<and> balanceSum (cc_balanceOf client a) ws \<ge> h))"
| "node_leaf clients ws _ = False"

lemma entitledLoop_eq:
  "list_all (\<lambda>w. \<not> isl (f w)) ws \<Longrightarrow> entitledLoop f ws = (\<exists>w \<in> set ws. f w = Inr True, None)"
  by (induction ws) (auto split: sum.splits)

lemma balanceSum_nonneg: "balancesKnown f ws \<Longrightarrow> balanceSum f ws \<ge> 0"
  by (induction ws) (auto simp: balancesKnown_def balanceSum_def split: sum.splits)

text \<open>Stopping at the first wallet that reaches the threshold is the same as adding them all up.\<close>

lemma balanceLoop_eq:
  assumes "balancesKnown f ws" "\<And>m n. m \<le> n \<Longrightarrow> enough m \<Longrightarrow> enough n"
  shows "balanceLoop enough f acc ws = (ws \<noteq> [] \<and> enough (acc + balanceSum f ws), None)"
  using assms(1)
proof (induction ws arbitrary: acc)
  case (Cons w ws)
  obtain b where b: "f w = Inr b" "b \<ge> 0" and ws: "balancesKnown f ws"
    using Cons.prems by (auto simp: balancesKnown_def split: sum.splits)
  have sum: "balanceSum f (w # ws) = b + balanceSum f ws" using b by (simp add: balanceSum_def)
  show ?case
  proof (cases "enough (acc + b)")
    case True
    then have "enough (acc + (b + balanceSum f ws))"
      using assms(2) [of "acc + b"] balanceSum_nonneg [OF ws] by simp
    then show ?thesis using True b sum by simp
  next
    case False
    then show ?thesis
      using Cons.IH [OF ws, of "acc + b"] b sum by (cases "ws = []") (simp_all add: add.assoc balanceSum_def)
  qed
qed simp

lemma bothSides_nonempty:
  assumes "\<And>c. left c \<noteq> []" "\<And>c. right c \<noteq> []"
  shows "bothSides decides join cancelled left right \<noteq> []"
proof -
  obtain l where l: "l \<in> set (left cancelled)" using assms(1) last_in_set by blast
  obtain r where "r \<in> set (right (cancelled \<or> decides l))" using assms(2) last_in_set by blast
  with l have "(join (fst l) (fst r), None) \<in> set (bothSides decides join cancelled left right)"
    by (force simp: bothSides_def)
  then show ?thesis by auto
qed

text \<open>Both sides decided: a side may only be cancelled when the other one decides the gate.\<close>

lemma bothSides_decided:
  assumes l: "decided (\<lambda>r b. r = (b, None)) (left False) p" and r: "decided (\<lambda>r b. r = (b, None)) (right False) q"
    and ne: "\<And>c. left c \<noteq> []" "\<And>c. right c \<noteq> []"
    and left: "\<And>v. decides (p, None) \<Longrightarrow> join p v = join p q" and right: "\<And>v. decides (q, None) \<Longrightarrow> join v q = join p q"
  shows "decided (\<lambda>r b. r = (b, None)) (bothSides decides join False left right) (join p q)"
proof -
  have lp: "u = (p, None)" if "u \<in> set (left False)" for u using l that by (simp add: decided_def)
  have rq: "u = (q, None)" if "u \<in> set (right False)" for u using r that by (simp add: decided_def)
  have 1: "join p (fst v) = join p q" if "v \<in> set (right (decides (p, None)))" for v
    using that left [of "fst v"] rq [of v] by (cases "decides (p, None)") simp_all
  have 2: "join (fst v) q = join p q" if "v \<in> set (left (decides (q, None)))" for v
    using that right [of "fst v"] lp [of v] by (cases "decides (q, None)") simp_all
  have "bothSides decides join False left right \<noteq> []"
    by (rule bothSides_nonempty [OF ne])
  moreover have "u = (join p q, None)" if u: "u \<in> set (bothSides decides join False left right)" for u
  proof -
    consider l r where "l \<in> set (left False)" "r \<in> set (right (decides l))" "u = (join (fst l) (fst r), None)"
      | l r where "r \<in> set (right False)" "l \<in> set (left (decides r))" "u = (join (fst l) (fst r), None)"
      using u unfolding bothSides_def set_remdups set_append set_concat set_map by auto
    then show ?thesis
    proof cases
      case 1
      then show ?thesis using lp [OF 1(1)] \<open>\<And>v. v \<in> set (right (decides (p, None))) \<Longrightarrow> join p (fst v) = join p q\<close> by simp
    next
      case 2
      then show ?thesis using rq [OF 2(1)] \<open>\<And>v. v \<in> set (left (decides (q, None))) \<Longrightarrow> join (fst v) q = join p q\<close> by simp
    qed
  qed
  ultimately show ?thesis by (simp add: decided_def)
qed

lemma evaluateOp_nonempty: "evaluateOp clients ws t c \<noteq> []"
proof (induction t arbitrary: c rule: is_rule.induct)
  case (1 t i a h)
  then show ?case
    by (simp add: xchain_evaluateCheckOperation_def xchain_evaluateMockOperation_def evaluateIsEntitledOperation_def
        evaluateErc20Operation_def evaluateErc721Operation_def mayCancel_def split: CheckOperationType.split sum.split)
next
  case (2 t l r)
  then show ?case
    by (simp add: xchain_evaluateAndOperation_def xchain_evaluateOrOperation_def bothSides_nonempty split: LogicalOperationType.split)
qed simp_all

text \<open>A check of the node: its answer is the truth value of the check, without an error.\<close>

lemma decided_node:
  "decided (\<lambda>r t. r = (ruleHolds leaf t, None)) results t = decided (\<lambda>r b. r = (b, None)) results (ruleHolds leaf t)"
  by (simp add: decided_def)

interpretation node: rule_evaluator "\<lambda>t. evaluateOp clients ws t False" "\<lambda>r t. r = (ruleHolds (node_leaf clients ws) t, None)" "node_ok clients ws"
  for clients ws
proof (unfold_locales, unfold decided_node)
  fix t c a h
  assume ok: "node_ok clients ws (CheckOperation t c a h)"
  show "decided (\<lambda>r b. r = (b, None)) (evaluateOp clients ws (CheckOperation t c a h) False)
      (ruleHolds (node_leaf clients ws) (CheckOperation t c a h))"
  proof (cases "t = CT_MOCK")
    case True
    then show ?thesis
      by (simp add: decided_def xchain_evaluateCheckOperation_def xchain_evaluateMockOperation_def mayCancel_def)
  next
    case False
    then obtain client where c: "xchain_client clients c a = Inr client"
      "t = CT_ISENTITLED \<and> list_all (\<lambda>w. \<not> isl (cc_isEntitled client a w)) ws \<or>
       (t = CT_ERC20 \<or> t = CT_ERC721) \<and> balancesKnown (cc_balanceOf client a) ws"
      using ok by (auto split: sum.splits)
    note defs = decided_def xchain_evaluateCheckOperation_def mayCancel_def evaluateIsEntitledOperation_def
      evaluateErc20Operation_def evaluateErc721Operation_def
    from c(2) show ?thesis
    proof (elim disjE conjE)
      assume "t = CT_ISENTITLED" "list_all (\<lambda>w. \<not> isl (cc_isEntitled client a w)) ws"
      then show ?thesis using c(1) entitledLoop_eq by (simp add: defs)
    next
      assume t: "t = CT_ERC20" and k: "balancesKnown (cc_balanceOf client a) ws"
      have "balanceLoop (\<lambda>sum. h > 0 \<and> sum > 0 \<and> sum \<ge> h) (cc_balanceOf client a) 0 ws =
          (ws \<noteq> [] \<and> h > 0 \<and> balanceSum (cc_balanceOf client a) ws \<ge> h, None)"
        by (subst balanceLoop_eq [OF k]) auto
      then show ?thesis using c(1) t by (simp add: defs)
    next
      assume t: "t = CT_ERC721" and k: "balancesKnown (cc_balanceOf client a) ws"
      show ?thesis using c(1) t by (simp add: defs balanceLoop_eq [OF k])
    qed
  qed
next
  fix l r o'
  let ?b = "ruleHolds (node_leaf clients ws)"
  assume d: "decided (\<lambda>r b. r = (b, None)) (evaluateOp clients ws l False) (?b l)"
    "decided (\<lambda>r b. r = (b, None)) (evaluateOp clients ws r False) (?b r)" and "o' = LT_AND \<or> o' = LT_OR"
  then consider (both) "o' = LT_AND" | (any) "o' = LT_OR" by blast
  then show "decided (\<lambda>r b. r = (b, None)) (evaluateOp clients ws (LogicalOperation o' (Some l) (Some r)) False)
      (?b (LogicalOperation o' (Some l) (Some r)))"
  proof cases
    case both
    have "decided (\<lambda>r b. r = (b, None)) (xchain_evaluateAndOperation False (evaluateOp clients ws l) (evaluateOp clients ws r)) (?b l \<and> ?b r)"
      unfolding xchain_evaluateAndOperation_def by (rule bothSides_decided [where left = "evaluateOp clients ws l", where right = "evaluateOp clients ws r", OF d]) (auto simp: evaluateOp_nonempty)
    then show ?thesis by (simp add: both)
  next
    case any
    have "decided (\<lambda>r b. r = (b, None)) (xchain_evaluateOrOperation False (evaluateOp clients ws l) (evaluateOp clients ws r)) (?b l \<or> ?b r)"
      unfolding xchain_evaluateOrOperation_def by (rule bothSides_decided [where left = "evaluateOp clients ws l", where right = "evaluateOp clients ws r", OF d]) (auto simp: evaluateOp_nonempty)
    then show ?thesis by (simp add: any)
  qed
qed

subsection \<open>Both on the same chains\<close>

text \<open>
  A check on which the chains answer every call of the node, and, for a token check, provider and client answer
  alike for every wallet.
\<close>

fun same_chains :: "string list \<Rightarrow> Provider list \<Rightarrow> (nat \<Rightarrow> ChainClient option) \<Rightarrow> Operation \<Rightarrow> bool" where
  "same_chains ws ps clients (CheckOperation t c a h) =
     (node_ok clients ws (CheckOperation t c a h) \<and>
      (t \<noteq> CT_ERC721 \<or>
       (case (findProviderFromChainId ps c, xchain_client clients c a) of
          (Some p, Inr client) \<Rightarrow>
            list_all (\<lambda>w. case (pr_balanceOf p a w, cc_balanceOf client a w) of
              (Some b, Inr b') \<Rightarrow> b = b' \<and> b \<ge> 0 | _ \<Rightarrow> False) ws
        | _ \<Rightarrow> False)))"
| "same_chains ws ps clients _ = False"

text \<open>
  The checks both decide alike: a mock check of chain 0, or of chain 1 that is not aborted, and a
  check for at least one token.
\<close>

fun decided_alike :: "bool \<Rightarrow> Operation \<Rightarrow> bool" where
  "decided_alike aborted (CheckOperation t c a h) =
     (t = CT_MOCK \<and> (c = 0 \<or> c = 1 \<and> \<not> aborted) \<or> t = CT_ERC721 \<and> h \<ge> 1)"
| "decided_alike aborted _ = False"

lemma agree_sums:
  assumes "list_all (\<lambda>w. case (pr_balanceOf p a w, cc_balanceOf client a w) of
      (Some b, Inr b') \<Rightarrow> b = b' \<and> b \<ge> 0 | _ \<Rightarrow> False) ws"
  shows "(\<Sum>w \<leftarrow> ws. max 0 (balanceAt p a w)) = balanceSum (cc_balanceOf client a) ws"
  using assms by (induction ws) (auto simp: balanceSum_def balanceAt_def split: option.splits sum.splits)

lemma positive_sum: "(\<Sum>w \<leftarrow> ws. max 0 (f w)) > (0 :: int) \<Longrightarrow> \<exists>w \<in> set ws. f w > 0"
proof (rule ccontr)
  assume "\<not> (\<exists>w \<in> set ws. f w > 0)"
  then have "(\<Sum>w \<leftarrow> ws. max 0 (f w)) = 0" by (induction ws) (auto simp: max_def)
  moreover assume "(\<Sum>w \<leftarrow> ws. max 0 (f w)) > 0"
  ultimately show False by simp
qed

text \<open>The client asks for no less than the node, and for the same in the checks that are decided alike.\<close>

lemma client_leaf_node:
  assumes "same_chains ws ps clients op"
  shows "client_leaf aborted ws ps op \<Longrightarrow> node_leaf clients ws op"
    and "decided_alike aborted op \<Longrightarrow> supported ps op \<Longrightarrow> node_leaf clients ws op \<Longrightarrow> client_leaf aborted ws ps op"
proof -
  obtain t c a h where op: "op = CheckOperation t c a h" using assms by (cases op) auto
  have "(client_leaf aborted ws ps op \<longrightarrow> node_leaf clients ws op) \<and>
    (decided_alike aborted op \<and> supported ps op \<and> node_leaf clients ws op \<longrightarrow> client_leaf aborted ws ps op)"
  proof (cases "t = CT_ERC721")
    case False
    then show ?thesis using op by auto
  next
    case True
    then obtain p cl where pc: "findProviderFromChainId ps c = Some p" "xchain_client clients c a = Inr cl"
      and all: "list_all (\<lambda>w. case (pr_balanceOf p a w, cc_balanceOf cl a w) of (Some b, Inr b') \<Rightarrow> b = b' \<and> b \<ge> 0 | _ \<Rightarrow> False) ws"
      using assms op by (auto split: option.splits sum.splits)
    have "h \<ge> 1 \<Longrightarrow> balanceSum (cc_balanceOf cl a) ws \<ge> h \<Longrightarrow> \<exists>w \<in> set ws. balanceAt p a w > 0"
      using positive_sum [of "balanceAt p a" ws] agree_sums [OF all] by simp
    then show ?thesis using op True pc agree_sums [OF all] by auto
  qed
  then show "client_leaf aborted ws ps op \<Longrightarrow> node_leaf clients ws op"
    and "decided_alike aborted op \<Longrightarrow> supported ps op \<Longrightarrow> node_leaf clients ws op \<Longrightarrow> client_leaf aborted ws ps op" by blast+
qed

text \<open>
  They differ in the others: a mock check of another chain and a check for no token pass at the node only, and
  a check for an amount of a currency is rejected by the client.
\<close>

lemma client_node_differ:
  "evaluateTree x False ws ps (Some (CheckOperation CT_MOCK 2 a h)) = [Resolved zeroAddress]"
  "evaluateOp clients ws (CheckOperation CT_MOCK 2 a h) False = [(True, None)]"
  "evaluateTree x False [''w''] [\<lparr>pr_ready = None, pr_chainId = 1, pr_balanceOf = (\<lambda>_ _. Some 0)\<rparr>] (Some (CheckOperation CT_ERC721 1 a 0)) =
     [Resolved zeroAddress]"
  "evaluateOp (\<lambda>_. Some \<lparr>cc_bind = (\<lambda>_. None), cc_balanceOf = (\<lambda>_ _. Inr 0), cc_isEntitled = (\<lambda>_ _. Inr False)\<rparr>) [''w'']
     (CheckOperation CT_ERC721 1 a 0) False = [(True, None)]"
  "evaluateTree x False ws ps (Some (CheckOperation CT_ERC20 c a h)) = [Rejected (JsError ''CheckOperationType.ERC20 not implemented'')]"
  by (simp_all add: evaluateTree_def evaluateCheckOperation_def evaluateMockOperation_def xchain_evaluateCheckOperation_def
      xchain_evaluateMockOperation_def mayCancel_def map_filter_def findProviderFromChainId_def toNumber_def evaluateERC721Operation_def
      walletBalances_def evaluateErc721Operation_def xchain_client_def)

text \<open>
  Joining a space evaluates the last decoded operation without rebuilding the tree, and aborts the
  controller at once. For a rule of at most two checks that operation is the tree.
\<close>

lemma joining_evaluates_tree:
  assumes "is_rule t" "gateCount t \<le> 1" "treeToRuleData t = Inr data" "encodeEntitlementData data = Some c"
  shows "evaluateRuleEntitlement x ws ps (Some (decodeEntitlementData c)) = evaluateTree x True ws ps (Some t)"
proof -
  have "\<exists>ops. ruleDataToOperations (decodeEntitlementData c) = Inr (ops @ [t])"
    using assms(1)
  proof (cases t rule: is_rule.cases)
    case (1 k i a h)
    then show ?thesis
      using assms(3) by (auto simp: decode_encoded [OF assms(4)] treeToRuleData_def pushCheck_def elementAt_def)
  next
    case (2 g l r)
    then obtain k i a h k' i' a' h' where "l = CheckOperation k i a h" "r = CheckOperation k' i' a' h'"
      using assms(1,2) by (cases l rule: is_rule.cases; cases r rule: is_rule.cases) auto
    then show ?thesis
      using assms(3) 2 by (auto simp: decode_encoded [OF assms(4)] treeToRuleData_def pushCheck_def pushLogical_def elementAt_def)
  qed auto
  then show ?thesis by (auto simp: evaluateRuleEntitlement_def evaluateOperationsForEntitledWallet_def)
qed

text \<open>
  The client does not evaluate the rule that is stored. When a space is joined, the operations are
  decoded but the tree is not rebuilt, so of \<open>(a and b) and c\<close> the check \<open>c\<close> is never made: with a
  wallet that passes \<open>a\<close> and \<open>b\<close> only, the wallet is reported as entitled although the rule fails.
\<close>

definition sample_provider :: Provider where
  "sample_provider = \<lparr>pr_ready = None, pr_chainId = 1,
     pr_balanceOf = (\<lambda>a w. Some (if a = ''a'' \<and> w = ''0x01'' then 1 else if a = ''b'' then 2 else 0))\<rparr>"

definition all_three :: Operation where
  "all_three = LogicalOperation LT_AND
     (Some (LogicalOperation LT_AND (Some (CheckOperation CT_ERC721 1 ''a'' 1)) (Some (CheckOperation CT_ERC721 1 ''b'' 1))))
     (Some (CheckOperation CT_ERC721 1 ''c'' 1))"

definition sample_chain_externs :: externs where
  "sample_chain_externs = sample_externs\<lparr>x_isAddress := (\<lambda>s. startsWith s ''0x'')\<rparr>"

lemma join_ignores_check:
  "bindE (treeToRuleData all_three) (\<lambda>data. Inr (getEntitledWalletForJoiningSpace sample_chain_externs True ''0x01'' []
     [\<lparr>ent_entitlementType = RuleEntitlementModule, ent_ruleEntitlement = Some [RuleDataStruct data], ent_userEntitlement = None\<rparr>]
     [sample_provider])) = Inr [JoinWallet (Some ''0x01'')]"
  "evaluateTree sample_chain_externs False [''0x01''] [sample_provider] (Some all_three) = [Resolved zeroAddress]"
  by code_simp+

text \<open>A mock check never holds there, because the controller is aborted before its timer can fire.\<close>

lemma joining_aborts_mock:
  "evaluateOperationsForEntitledWallet x [CheckOperation CT_MOCK 1 a h] ws ps = [Resolved zeroAddress]"
  "evaluateTree x False ws ps (Some (CheckOperation CT_MOCK 1 a h)) = [Resolved MOCK_ADDRESS]"
  by (simp_all add: evaluateOperationsForEntitledWallet_def evaluateTree_def evaluateCheckOperation_def evaluateMockOperation_def)

section \<open>Properties\<close>

text \<open>
  (C27) The client evaluates a rule to its meaning under every order of completion, whether its
  controller is aborted at once or not. For a tree of checks joined by AND and OR and wallets that
  are addresses, every evaluation settles. It resolves to one
  of the wallets (or the address of the mock checks) only when the rule holds, the checks the client
  does not support counting as failed, and to the zero address only when the rule fails, those
  checks counting as passed; it rejects only when the rule has such a check. Supported are
  mock checks, which hold on chain 1 unless aborted, and ERC721 checks with all providers connected. So a rule of supported checks
  resolves, and to its truth value.
\<close>
theorem client_evaluation_right:
  assumes "is_rule t" "gates_ok t" "wallets_ok x ws"
  shows "evaluateTree x aborted ws ps (Some t) \<noteq> [] \<and>
    (\<forall>r \<in> set (evaluateTree x aborted ws ps (Some t)).
       case r of
         Resolved a \<Rightarrow>
           isValidAddress x a \<and> a \<in> set (MOCK_ADDRESS # ws) \<and> ruleHolds (client_leaf aborted ws ps) t
           \<or> a = zeroAddress \<and> \<not> ruleHolds (\<lambda>op. supported ps op \<longrightarrow> client_leaf aborted ws ps op) t
       | Rejected e \<Rightarrow> \<not> leaves_ok (supported ps) t) \<and>
    (leaves_ok (supported ps) t \<longrightarrow>
       ruleHolds (\<lambda>op. supported ps op \<longrightarrow> client_leaf aborted ws ps op) t = ruleHolds (client_leaf aborted ws ps) t)"
proof -
  have "leaves_ok (\<lambda>_. wallets_ok x ws) t" using assms by (intro leaves_ok_all)
  then have "decided (client_right x aborted ws ps) (evaluateTree x aborted ws ps (Some t)) t"
    using client.rule_decided by (simp add: evaluateTree_def)
  then have 1: "evaluateTree x aborted ws ps (Some t) \<noteq> []"
    and 2: "\<forall>r \<in> set (evaluateTree x aborted ws ps (Some t)). client_right x aborted ws ps r t"
    unfolding decided_def by blast+
  have 3: "case r of
         Resolved a \<Rightarrow>
           isValidAddress x a \<and> a \<in> set (MOCK_ADDRESS # ws) \<and> ruleHolds (client_leaf aborted ws ps) t
           \<or> a = zeroAddress \<and> \<not> ruleHolds (\<lambda>op. supported ps op \<longrightarrow> client_leaf aborted ws ps op) t
       | Rejected e \<Rightarrow> \<not> leaves_ok (supported ps) t" if "client_right x aborted ws ps r t" for r
    using that unfolding client_right_def by (cases r) (simp_all split: if_splits)
  have 4: "leaves_ok (supported ps) t \<Longrightarrow>
      ruleHolds (\<lambda>op. supported ps op \<longrightarrow> client_leaf aborted ws ps op) t = ruleHolds (client_leaf aborted ws ps) t"
    by (rule ruleHolds_cong [where ok = "supported ps"]) simp_all
  show ?thesis by (intro conjI ballI impI 1 3 4) (use 2 in blast)
qed

theorem client_evaluation_right_witness:
  "set (evaluateTree sample_chain_externs False [''0x01''] [sample_provider] (Some all_three)) = {Resolved zeroAddress}"
proof -
  have ok: "is_rule all_three" "gates_ok all_three" "wallets_ok sample_chain_externs [''0x01'']"
    "leaves_ok (supported [sample_provider]) all_three" by code_simp+
  note * = client_evaluation_right [OF ok(1-3), of False "[sample_provider]"]
  have "\<not> ruleHolds (client_leaf False [''0x01''] [sample_provider]) all_three" by code_simp
  then have "set (evaluateTree sample_chain_externs False [''0x01''] [sample_provider] (Some all_three)) \<subseteq> {Resolved zeroAddress}"
    using * ok(4) by (auto split: Settled.splits) (metis Settled.exhaust)
  moreover have "set (evaluateTree sample_chain_externs False [''0x01''] [sample_provider] (Some all_three)) \<noteq> {}"
    using * by simp
  ultimately show ?thesis by (simp add: subset_singleton_iff)
qed


definition sample_clients :: "nat \<Rightarrow> ChainClient option" where
  "sample_clients n = (if n = 1 then Some \<lparr>cc_bind = (\<lambda>_. None),
     cc_balanceOf = (\<lambda>a w. Inr (if a = ''a'' \<and> w = ''0x01'' then 1 else if a = ''b'' then 2 else 0)),
     cc_isEntitled = (\<lambda>_ _. Inr False)\<rparr> else None)"


end
