(* ===== verification/Gated.thy ===== *)
theory Gated
  imports UserContract RuleEvaluation
begin

text \<open>
  The checks of rules by vote: the registry of nodes and its random selection
  (\<open>contracts/src/base/registry/facets/checker/EntitlementChecker.sol\<close>), the transactions a space
  opens and the votes it counts (\<open>contracts/src/spaces/facets/gated/EntitlementGatedBase.sol\<close>), and
  the part of a node that answers a request (\<open>core/xchain/server/server.go\<close>).

  The enumerable set of the contract library is a parameter with its documented laws. The hash of
  the random selection, the hook called with a result, and the answers of contracts of other
  components are arguments. Accounts are numbers here; \<open>hex\<close> is the text form the chain clients use.
\<close>

section \<open>Registry of nodes\<close>

record 'n addressSet =
  es_contains :: "'n \<Rightarrow> address \<Rightarrow> bool"
  es_add :: "'n \<Rightarrow> address \<Rightarrow> 'n"
  es_remove :: "'n \<Rightarrow> address \<Rightarrow> 'n"
  es_values :: "'n \<Rightarrow> address list"

definition address_set_laws :: "'n addressSet \<Rightarrow> bool" where
  "address_set_laws E =
     ((\<forall>n. distinct (es_values E n)) \<and>
      (\<forall>n a. es_contains E n a = (a \<in> set (es_values E n))) \<and>
      (\<forall>n a. set (es_values E (es_add E n a)) = insert a (set (es_values E n))) \<and>
      (\<forall>n a. set (es_values E (es_remove E n a)) = set (es_values E n) - {a}))"

record 'n EntitlementChecker =
  ck_nodes :: 'n
  ck_operatorByNode :: "address \<Rightarrow> address"

definition registerNode :: "'n addressSet \<Rightarrow> address \<Rightarrow> address \<Rightarrow> 'n EntitlementChecker \<Rightarrow> sol_error + 'n EntitlementChecker" where
  "registerNode E sender node s =
     (if es_contains E (ck_nodes s) node then Inl EntitlementChecker_NodeAlreadyRegistered
      else Inr (s\<lparr>ck_nodes := es_add E (ck_nodes s) node, ck_operatorByNode := (ck_operatorByNode s)(node := sender)\<rparr>))"

definition unregisterNode :: "'n addressSet \<Rightarrow> address \<Rightarrow> address \<Rightarrow> 'n EntitlementChecker \<Rightarrow> sol_error + 'n EntitlementChecker" where
  "unregisterNode E sender node s =
     (if \<not> es_contains E (ck_nodes s) node then Inl EntitlementChecker_NodeNotRegistered
      else Inr (s\<lparr>ck_nodes := es_remove E (ck_nodes s) node, ck_operatorByNode := (ck_operatorByNode s)(node := 0)\<rparr>))"

definition isValidNode :: "'n addressSet \<Rightarrow> address \<Rightarrow> 'n EntitlementChecker \<Rightarrow> bool" where
  "isValidNode E node s = es_contains E (ck_nodes s) node"

definition getNodeCount :: "'n addressSet \<Rightarrow> 'n EntitlementChecker \<Rightarrow> nat" where
  "getNodeCount E s = length (es_values E (ck_nodes s))"

definition getNodeAtIndex :: "'n addressSet \<Rightarrow> nat \<Rightarrow> 'n EntitlementChecker \<Rightarrow> sol_error + address" where
  "getNodeAtIndex E index s =
     (if index < length (es_values E (ck_nodes s)) then Inr (es_values E (ck_nodes s) ! index)
      else Inl (RevertString ''Index out of bounds''))"

text \<open>\<open>hash seed\<close> is the digest of the block, the seed and the caller.\<close>

definition pseudoRandom :: "(nat \<Rightarrow> nat) \<Rightarrow> nat \<Rightarrow> nat \<Rightarrow> nat" where
  "pseudoRandom hash seed nodeCount = hash seed mod nodeCount"

text \<open>The selection loop, from turn \<open>i\<close> on, with \<open>n\<close> indices left in the pool.\<close>

fun selectNodes :: "(nat \<Rightarrow> nat) \<Rightarrow> address list \<Rightarrow> nat \<Rightarrow> nat \<Rightarrow> nat \<Rightarrow> nat list \<Rightarrow> address list" where
  "selectNodes hash pool 0 i n indices = []"
| "selectNodes hash pool (Suc k) i n indices =
     (let rand = pseudoRandom hash i n
      in pool ! (indices ! rand) # selectNodes hash pool k (i + 1) (n - 1) (indices[rand := indices ! (n - 1)]))"

definition getRandomNodes :: "'n addressSet \<Rightarrow> (nat \<Rightarrow> nat) \<Rightarrow> nat \<Rightarrow> 'n EntitlementChecker \<Rightarrow> sol_error + address list" where
  "getRandomNodes E hash k s =
     (let pool = es_values E (ck_nodes s); nodeCount = length pool
      in if k > nodeCount then Inl EntitlementChecker_InsufficientNumberOfNodes
         else Inr (selectNodes hash pool k 0 nodeCount [0..<nodeCount]))"

section \<open>Transactions\<close>

datatype NodeVoteStatus = NOT_VOTED | PASSED | FAILED

record NodeVote =
  nv_node :: address
  nv_vote :: NodeVoteStatus

record Transaction =
  tr_hasBenSet :: bool
  tr_clientAddress :: address
  tr_nodeVotesArray :: "nat \<Rightarrow> NodeVote list"
  tr_isCompleted :: "nat \<Rightarrow> bool"
  tr_entitlement :: address
  tr_roleIds :: "nat list"

definition noTransaction :: Transaction where
  "noTransaction = \<lparr>tr_hasBenSet = False, tr_clientAddress = 0, tr_nodeVotesArray = (\<lambda>_. []),
     tr_isCompleted = (\<lambda>_. False), tr_entitlement = 0, tr_roleIds = []\<rparr>"

record EntitlementGated =
  eg_entitlementChecker :: address
  eg_transactions :: "nat \<Rightarrow> Transaction"

datatype GatedEvent =
    EntitlementCheckRequested address nat nat "address list"
  | EntitlementCheckResultPosted nat NodeVoteStatus

definition EntitlementGated_init :: "address \<Rightarrow> EntitlementGated" where
  "EntitlementGated_init checker = \<lparr>eg_entitlementChecker = checker, eg_transactions = (\<lambda>_. noTransaction)\<rparr>"

text \<open>
  \<open>selected\<close> is the answer of the checker to \<open>getRandomNodes(5)\<close>, \<open>fallback\<close> the address of the
  registry entry used when no checker is set.
\<close>

definition requestEntitlementCheck ::
    "address \<Rightarrow> nat \<Rightarrow> address \<Rightarrow> nat \<Rightarrow> address \<Rightarrow> sol_error + address list \<Rightarrow> EntitlementGated \<Rightarrow>
     sol_error + EntitlementGated \<times> GatedEvent list" where
  "requestEntitlementCheck sender transactionId entitlement roleId fallback selected s =
     (let transaction = eg_transactions s transactionId
      in if tr_hasBenSet transaction \<and> roleId \<in> set (tr_roleIds transaction)
         then Inl EntitlementGated_TransactionCheckAlreadyRegistered
         else (case selected of
                 Inl e \<Rightarrow> Inl e
               | Inr selectedNodes \<Rightarrow>
                   (let opened = (if tr_hasBenSet transaction then transaction
                          else transaction\<lparr>tr_hasBenSet := True, tr_entitlement := entitlement, tr_clientAddress := sender\<rparr>);
                        voted = opened\<lparr>tr_roleIds := tr_roleIds opened @ [roleId],
                          tr_nodeVotesArray := (tr_nodeVotesArray opened)(roleId := tr_nodeVotesArray opened roleId @
                            map (\<lambda>node. \<lparr>nv_node = node, nv_vote = NOT_VOTED\<rparr>) selectedNodes)\<rparr>
                    in Inr (s\<lparr>eg_entitlementChecker := (if eg_entitlementChecker s = 0 then fallback else eg_entitlementChecker s),
                              eg_transactions := (eg_transactions s)(transactionId := voted)\<rparr>,
                            [EntitlementCheckRequested sender transactionId roleId selectedNodes]))))"

text \<open>The loop over the votes: update the caller's, and count.\<close>

fun voteLoop :: "address \<Rightarrow> NodeVoteStatus \<Rightarrow> NodeVote list \<Rightarrow> bool \<Rightarrow> nat \<Rightarrow> nat \<Rightarrow>
    sol_error + NodeVote list \<times> bool \<times> nat \<times> nat" where
  "voteLoop sender result [] found passed failed = Inr ([], found, passed, failed)"
| "voteLoop sender result (tempVote # votes) found passed failed =
     (if nv_node tempVote = sender \<and> nv_vote tempVote \<noteq> NOT_VOTED then Inl EntitlementGated_NodeAlreadyVoted
      else let tempVote' = (if nv_node tempVote = sender then tempVote\<lparr>nv_vote := result\<rparr> else tempVote)
           in (case voteLoop sender result votes (found \<or> nv_node tempVote = sender)
                      (if nv_vote tempVote' = PASSED then passed + 1 else passed)
                      (if nv_vote tempVote' = FAILED then failed + 1 else failed) of
                 Inl e \<Rightarrow> Inl e
               | Inr (votes', r) \<Rightarrow> Inr (tempVote' # votes', r)))"

text \<open>
  Deleting a struct keeps its mappings: the votes of the listed roles are deleted one by one,
  \<open>isCompleted\<close> stays.
\<close>

definition removeTransaction :: "Transaction \<Rightarrow> Transaction" where
  "removeTransaction transaction = transaction
     \<lparr>tr_nodeVotesArray := (\<lambda>r. if r \<in> set (tr_roleIds transaction) then [] else tr_nodeVotesArray transaction r),
      tr_roleIds := [], tr_hasBenSet := False, tr_clientAddress := 0, tr_entitlement := 0\<rparr>"

definition postEntitlementCheckResult ::
    "(nat \<Rightarrow> NodeVoteStatus \<Rightarrow> sol_error option) \<Rightarrow> address \<Rightarrow> nat \<Rightarrow> nat \<Rightarrow> NodeVoteStatus \<Rightarrow> EntitlementGated \<Rightarrow>
     sol_error + EntitlementGated \<times> GatedEvent list" where
  "postEntitlementCheckResult onPosted sender transactionId roleId result s =
     (let transaction = eg_transactions s transactionId
      in if tr_clientAddress transaction = 0 \<or> \<not> tr_hasBenSet transaction
         then Inl EntitlementGated_TransactionNotRegistered
         else if tr_isCompleted transaction roleId then Inl EntitlementGated_TransactionCheckAlreadyCompleted
         else (case voteLoop sender result (tr_nodeVotesArray transaction roleId) False 0 0 of
                 Inl e \<Rightarrow> Inl e
               | Inr (votes, found, passed, failed) \<Rightarrow>
                   if \<not> found then Inl EntitlementGated_NodeNotFound
                   else let n = length votes;
                            voted = transaction\<lparr>tr_nodeVotesArray := (tr_nodeVotesArray transaction)(roleId := votes)\<rparr>
                        in if passed > n div 2 \<or> failed > n div 2
                           then let completed = voted\<lparr>tr_isCompleted := (tr_isCompleted voted)(roleId := True)\<rparr>;
                                    finalStatus = (if passed > failed then PASSED else FAILED)
                                in (case onPosted transactionId finalStatus of
                                      Some e \<Rightarrow> Inl e
                                    | None \<Rightarrow> Inr (s\<lparr>eg_transactions := (eg_transactions s)(transactionId := removeTransaction completed)\<rparr>,
                                        [EntitlementCheckResultPosted transactionId finalStatus]))
                           else Inr (s\<lparr>eg_transactions := (eg_transactions s)(transactionId := voted)\<rparr>, [])))"

definition gated_getRuleData :: "(address \<Rightarrow> RuleEntitlement) \<Rightarrow> nat \<Rightarrow> nat \<Rightarrow> EntitlementGated \<Rightarrow> sol_error + IRuleData" where
  "gated_getRuleData contracts transactionId roleId s =
     (let transaction = eg_transactions s transactionId
      in if \<not> tr_hasBenSet transaction then Inl EntitlementGated_TransactionNotRegistered
         else Inr (getRuleData roleId (contracts (tr_entitlement transaction))))"

section \<open>A node's answer\<close>

text \<open>What the wallet link contract answers for a wallet and for a root key.\<close>

record WalletLink =
  wl_getRootKeyForWallet :: "address \<Rightarrow> go_error + address"
  wl_getWalletsByRootKey :: "address \<Rightarrow> go_error + address list"

definition getLinkedWallets :: "WalletLink \<Rightarrow> address \<Rightarrow> go_error + address list" where
  "getLinkedWallets link wallet =
     (case wl_getRootKeyForWallet link wallet of
        Inl e \<Rightarrow> Inl e
      | Inr found \<Rightarrow>
          (let rootKey = (if found = 0 then wallet else found)
           in case wl_getWalletsByRootKey link rootKey of
                Inl e \<Rightarrow> Inl e
              | Inr wallets \<Rightarrow>
                  if wallets = [] then Inr [wallet]
                  else Inr (if rootKey \<in> set wallets then wallets else wallets @ [rootKey])))"

text \<open>All results of \<open>process\<close>; the request carries the caller, and \<open>ruleData\<close> is what the space answers.\<close>

definition process ::
    "(address \<Rightarrow> string) \<Rightarrow> (nat \<Rightarrow> ChainClient option) \<Rightarrow> WalletLink \<Rightarrow> address \<Rightarrow> go_error + IRuleData \<Rightarrow> go_result list" where
  "process hex clients link callerAddress ruleData =
     (case getLinkedWallets link callerAddress of
        Inl e \<Rightarrow> [(False, Some e)]
      | Inr wallets \<Rightarrow>
          (case ruleData of
             Inl e \<Rightarrow> [(False, Some e)]
           | Inr data \<Rightarrow>
               map (\<lambda>(result, err). if err = None then (result, None) else (False, err))
                 (EvaluateRuleData clients False (map hex wallets) data)))"

text \<open>
  The votes a node may post for a request, none when the request is not for it or its evaluation
  reports an error.
\<close>

definition handleEntitlementCheckRequest ::
    "(address \<Rightarrow> string) \<Rightarrow> (nat \<Rightarrow> ChainClient option) \<Rightarrow> WalletLink \<Rightarrow> address \<Rightarrow> address list \<Rightarrow> address \<Rightarrow>
     go_error + IRuleData \<Rightarrow> NodeVoteStatus option list" where
  "handleEntitlementCheckRequest hex clients link node selectedNodes callerAddress ruleData =
     (if node \<in> set selectedNodes
      then map (\<lambda>(result, err). if err = None then Some (if result then PASSED else FAILED) else None)
             (process hex clients link callerAddress ruleData)
      else [None])"

section \<open>The selected nodes\<close>

lemma shrunk_pool:
  assumes "r < n" "n \<le> length indices"
  shows "take (n - 1) (indices[r := indices ! (n - 1)]) = removeSwapped r (take n indices)"
proof -
  have "last (take n indices) = indices ! (n - 1)" using assms by (subst last_conv_nth) auto
  then show ?thesis
    using assms by (simp add: removeSwapped_def butlast_conv_take take_update_swap min_def take_take)
qed

lemma selectNodes_ok:
  assumes "distinct pool" "k \<le> n" "n \<le> length indices" "distinct (take n indices)" "set (take n indices) \<subseteq> {..<length pool}"
  shows "length (selectNodes hash pool k i n indices) = k \<and> distinct (selectNodes hash pool k i n indices) \<and>
    set (selectNodes hash pool k i n indices) \<subseteq> (!) pool ` set (take n indices)"
  using assms(2-)
proof (induction k arbitrary: i n indices)
  case (Suc k)
  let ?r = "pseudoRandom hash i n"
  let ?rest = "indices[?r := indices ! (n - 1)]"
  have r: "?r < n" using Suc.prems(1) by (simp add: pseudoRandom_def)
  have m: "mset (take (n - 1) ?rest) = mset (take n indices) - {#indices ! ?r#}"
    unfolding shrunk_pool [OF r Suc.prems(2)] using mset_removeSwapped [of ?r "take n indices"] r Suc.prems(2) by simp
  have chosen: "indices ! ?r \<in> set (take n indices)"
    using r Suc.prems(2) by (metis in_set_conv_nth length_take min.absorb2 nth_take)
  then have add: "mset (take n indices) = add_mset (indices ! ?r) (mset (take (n - 1) ?rest))" using m by simp
  have both: "distinct (indices ! ?r # take (n - 1) ?rest)" "set (take n indices) = insert (indices ! ?r) (set (take (n - 1) ?rest))"
    using Suc.prems(3) mset_eq_imp_distinct_iff [of "take n indices" "indices ! ?r # take (n - 1) ?rest"]
      mset_eq_setD [of "take n indices" "indices ! ?r # take (n - 1) ?rest"] add by simp_all
  then have d: "distinct (take (n - 1) ?rest)" and st: "set (take (n - 1) ?rest) = set (take n indices) - {indices ! ?r}"
    by auto
  have pre: "k \<le> n - 1" "n - 1 \<le> length ?rest" "set (take (n - 1) ?rest) \<subseteq> {..<length pool}"
    using Suc.prems st by auto
  have IH: "length (selectNodes hash pool k (i + 1) (n - 1) ?rest) = k"
    "distinct (selectNodes hash pool k (i + 1) (n - 1) ?rest)"
    "set (selectNodes hash pool k (i + 1) (n - 1) ?rest) \<subseteq> (!) pool ` (set (take n indices) - {indices ! ?r})"
    using Suc.IH [OF pre(1,2) d pre(3), of "i + 1"] unfolding st by blast+
  have "pool ! (indices ! ?r) \<notin> (!) pool ` (set (take n indices) - {indices ! ?r})"
    using assms(1) chosen Suc.prems(4) by (auto simp: nth_eq_iff_index_eq subset_iff)
  then show ?case using IH chosen by (auto simp: Let_def)
qed simp

section \<open>Votes\<close>

text \<open>The calls of a space contract, and the votes accepted so far (caller, transaction, role, vote).\<close>

datatype GatedCall =
    G_request address nat address nat address "sol_error + address list"
  | G_post "nat \<Rightarrow> NodeVoteStatus \<Rightarrow> sol_error option" address nat nat NodeVoteStatus

type_synonym vote_log = "(address \<times> nat \<times> nat \<times> NodeVoteStatus) list"

fun gatedStep :: "GatedCall \<Rightarrow> EntitlementGated \<times> vote_log \<Rightarrow> EntitlementGated \<times> vote_log" where
  "gatedStep (G_request sender tx ent role fallback selected) (s, ballots) =
     (case requestEntitlementCheck sender tx ent role fallback selected s of Inl _ \<Rightarrow> (s, ballots) | Inr (s', _) \<Rightarrow> (s', ballots))"
| "gatedStep (G_post hook sender tx role result) (s, ballots) =
     (case postEntitlementCheckResult hook sender tx role result s of
        Inl _ \<Rightarrow> (s, ballots) | Inr (s', _) \<Rightarrow> (s', ballots @ [(sender, tx, role, result)]))"

text \<open>The checker selects nodes without repetition.\<close>

fun distinct_request :: "GatedCall \<Rightarrow> bool" where
  "distinct_request (G_request _ _ _ _ _ (Inr selectedNodes)) = distinct selectedNodes"
| "distinct_request _ = True"

abbreviation votes_of :: "EntitlementGated \<Rightarrow> nat \<Rightarrow> nat \<Rightarrow> NodeVote list" where
  "votes_of s tx role \<equiv> tr_nodeVotesArray (eg_transactions s tx) role"

definition castVote :: "address \<Rightarrow> NodeVoteStatus \<Rightarrow> NodeVote \<Rightarrow> NodeVote" where
  "castVote sender result v = (if nv_node v = sender then v\<lparr>nv_vote := result\<rparr> else v)"

definition tally :: "NodeVoteStatus \<Rightarrow> NodeVote list \<Rightarrow> nat" where
  "tally status votes = length (filter (\<lambda>v. nv_vote v = status) votes)"

lemma voteLoop_Inr:
  assumes "voteLoop sender result votes found p f = Inr (votes', found', p', f')"
  shows "votes' = map (castVote sender result) votes \<and> (found' \<longleftrightarrow> found \<or> sender \<in> nv_node ` set votes)
    \<and> p' = p + tally PASSED votes' \<and> f' = f + tally FAILED votes'
    \<and> (\<forall>v \<in> set votes. nv_node v = sender \<longrightarrow> nv_vote v = NOT_VOTED)"
  using assms
proof (induction votes arbitrary: found p f votes')
  case Nil
  then show ?case by (simp add: tally_def)
next
  case (Cons v votes)
  have free: "\<not> (nv_node v = sender \<and> nv_vote v \<noteq> NOT_VOTED)" using Cons.prems by (auto split: if_splits)
  let ?v = "castVote sender result v"
  obtain vs where vs: "votes' = ?v # vs"
    "voteLoop sender result votes (found \<or> nv_node v = sender) (if nv_vote ?v = PASSED then p + 1 else p)
       (if nv_vote ?v = FAILED then f + 1 else f) = Inr (vs, found', p', f')"
    using Cons.prems free by (auto simp: castVote_def Let_def split: sum.splits prod.splits)
  from Cons.IH [OF vs(2)] show ?case using free by (auto simp: vs(1) tally_def)
qed

lemma post_Inr:
  assumes "postEntitlementCheckResult hook sender tx role result s = Inr (s', events)"
  obtains votes where "votes = map (castVote sender result) (votes_of s tx role)"
    "sender \<in> nv_node ` set (votes_of s tx role)"
    "\<forall>v \<in> set (votes_of s tx role). nv_node v = sender \<longrightarrow> nv_vote v = NOT_VOTED"
    "tr_hasBenSet (eg_transactions s tx)" "\<not> tr_isCompleted (eg_transactions s tx) role"
    "let voted = (eg_transactions s tx)\<lparr>tr_nodeVotesArray := (tr_nodeVotesArray (eg_transactions s tx))(role := votes)\<rparr>
     in (if tally PASSED votes > length votes div 2 \<or> tally FAILED votes > length votes div 2
         then s' = s\<lparr>eg_transactions := (eg_transactions s)(tx := removeTransaction
                (voted\<lparr>tr_isCompleted := (tr_isCompleted voted)(role := True)\<rparr>))\<rparr>
           \<and> events = [EntitlementCheckResultPosted tx (if tally PASSED votes > tally FAILED votes then PASSED else FAILED)]
         else s' = s\<lparr>eg_transactions := (eg_transactions s)(tx := voted)\<rparr> \<and> events = [])"
proof -
  let ?t = "eg_transactions s tx"
  have reg: "\<not> (tr_clientAddress ?t = 0 \<or> \<not> tr_hasBenSet ?t)" "\<not> tr_isCompleted ?t role"
    using assms by (auto simp: postEntitlementCheckResult_def Let_def split: if_splits)
  obtain votes found p f where loop: "voteLoop sender result (tr_nodeVotesArray ?t role) False 0 0 = Inr (votes, found, p, f)" "found"
    using assms reg by (auto simp: postEntitlementCheckResult_def Let_def split: sum.splits prod.splits if_splits)
  note * = voteLoop_Inr [OF loop(1)]
  have rest: "let voted = ?t\<lparr>tr_nodeVotesArray := (tr_nodeVotesArray ?t)(role := votes)\<rparr>
     in (if tally PASSED votes > length votes div 2 \<or> tally FAILED votes > length votes div 2
         then s' = s\<lparr>eg_transactions := (eg_transactions s)(tx := removeTransaction
                (voted\<lparr>tr_isCompleted := (tr_isCompleted voted)(role := True)\<rparr>))\<rparr>
           \<and> events = [EntitlementCheckResultPosted tx (if tally PASSED votes > tally FAILED votes then PASSED else FAILED)]
         else s' = s\<lparr>eg_transactions := (eg_transactions s)(tx := voted)\<rparr> \<and> events = [])"
    using assms reg loop * by (auto simp: postEntitlementCheckResult_def Let_def split: if_splits option.splits)
  show ?thesis
    using that [of votes] * loop(2) reg rest by simp
qed

section \<open>The ballots behind the votes\<close>

definition gated_inv :: "EntitlementGated \<times> vote_log \<Rightarrow> bool" where
  "gated_inv c =
     ((\<forall>tx role v. v \<in> set (votes_of (fst c) tx role) \<longrightarrow> nv_vote v \<noteq> NOT_VOTED \<longrightarrow> (nv_node v, tx, role, nv_vote v) \<in> set (snd c)) \<and>
      (\<forall>tx role. distinct (map nv_node (votes_of (fst c) tx role))) \<and>
      (\<forall>tx role. role \<notin> set (tr_roleIds (eg_transactions (fst c) tx)) \<longrightarrow> votes_of (fst c) tx role = []) \<and>
      (\<forall>tx. \<not> tr_hasBenSet (eg_transactions (fst c) tx) \<longrightarrow> tr_roleIds (eg_transactions (fst c) tx) = []))"

lemma map_castVote_nodes [simp]: "map nv_node (map (castVote sender result) votes) = map nv_node votes"
  by (simp add: castVote_def)

lemma request_inv:
  assumes "gated_inv (s, ballots)" "requestEntitlementCheck sender tx ent role fallback (Inr nodes) s = Inr (s', ev)" "distinct nodes"
  shows "gated_inv (s', ballots)"
proof -
  let ?t = "eg_transactions s tx"
  have new: "role \<notin> set (tr_roleIds ?t)"
    using assms(1,2) by (auto simp: requestEntitlementCheck_def gated_inv_def Let_def split: if_splits)
  then have empty: "votes_of s tx role = []" using assms(1) by (simp add: gated_inv_def)
  have votes: "votes_of s' t r = (if t = tx \<and> r = role then map (\<lambda>n. \<lparr>nv_node = n, nv_vote = NOT_VOTED\<rparr>) nodes else votes_of s t r)"
    "set (tr_roleIds (eg_transactions s' t)) = (if t = tx then insert role (set (tr_roleIds ?t)) else set (tr_roleIds (eg_transactions s t)))"
    "tr_hasBenSet (eg_transactions s' t) = (t = tx \<or> tr_hasBenSet (eg_transactions s t))" for t r
    using assms(2) new empty by (auto simp: requestEntitlementCheck_def Let_def split: if_splits)
  have "distinct (map nv_node (map (\<lambda>n. \<lparr>nv_node = n, nv_vote = NOT_VOTED\<rparr>) nodes))" using assms(3) by (simp add: comp_def)
  then show ?thesis using assms(1) unfolding gated_inv_def fst_conv snd_conv votes set_empty [symmetric]
    by auto
qed

lemma post_inv:
  assumes inv: "gated_inv (s, ballots)" and post: "postEntitlementCheckResult hook sender tx role result s = Inr (s', ev)"
  shows "gated_inv (s', ballots @ [(sender, tx, role, result)])"
proof -
  let ?t = "eg_transactions s tx"
  let ?votes = "map (castVote sender result) (votes_of s tx role)"
  let ?voted = "?t\<lparr>tr_nodeVotesArray := (tr_nodeVotesArray ?t)(role := ?votes)\<rparr>"
  have "s' = s\<lparr>eg_transactions := (eg_transactions s)(tx := removeTransaction
          (?voted\<lparr>tr_isCompleted := (tr_isCompleted ?voted)(role := True)\<rparr>))\<rparr> \<or>
      s' = s\<lparr>eg_transactions := (eg_transactions s)(tx := ?voted)\<rparr>"
    by (rule post_Inr [OF post]) (auto simp: Let_def split: if_splits)
  moreover have "votes_of s tx r = []" if "r \<notin> set (tr_roleIds ?t)" for r using that inv by (simp add: gated_inv_def)
  ultimately have votes: "votes_of s' t r = [] \<or> votes_of s' t r = (if t = tx \<and> r = role then ?votes else votes_of s t r)"
    and ids: "(tr_roleIds (eg_transactions s' t) = tr_roleIds (eg_transactions s t) \<or> (\<forall>r. votes_of s' t r = []))"
    and set: "\<not> tr_hasBenSet (eg_transactions s' t) \<longrightarrow> tr_roleIds (eg_transactions s' t) = []" for t r
    using inv by (auto simp: removeTransaction_def gated_inv_def)
  have cast: "(nv_node v, tx, role, nv_vote v) \<in> set (ballots @ [(sender, tx, role, result)])"
    if "v \<in> set ?votes" "nv_vote v \<noteq> NOT_VOTED" for v
    using that inv by (auto simp: castVote_def gated_inv_def split: if_splits)
  have 1: "(nv_node v, t, r, nv_vote v) \<in> set (ballots @ [(sender, tx, role, result)])"
    if "v \<in> set (votes_of s' t r)" "nv_vote v \<noteq> NOT_VOTED" for v t r
  proof (cases "t = tx \<and> r = role")
    case True
    then have "v \<in> set ?votes" using that(1) votes [of t r] by auto
    then show ?thesis using cast that(2) True by blast
  next
    case False
    then have "v \<in> set (votes_of s t r)" using that votes [of t r] by (auto split: if_splits)
    then show ?thesis using that(2) inv by (simp add: gated_inv_def)
  qed
  have 2: "distinct (map nv_node (votes_of s' t r))" for t r
    using votes [of t r] inv by (cases "t = tx \<and> r = role") (auto simp: gated_inv_def simp del: map_map)
  have 3: "votes_of s' t r = []" if "r \<notin> set (tr_roleIds (eg_transactions s' t))" for t r
    using that ids [of t] votes [of t r] inv by (auto simp: gated_inv_def split: if_splits)
  show ?thesis unfolding gated_inv_def using 1 2 3 set by simp
qed

lemma gatedStep_inv:
  assumes "gated_inv c" "distinct_request call"
  shows "gated_inv (gatedStep call c)"
proof -
  obtain s ballots where c: "c = (s, ballots)" by (cases c)
  show ?thesis
  proof (cases call)
    case (G_request sender tx ent role fallback selected)
    then show ?thesis
      using assms c request_inv [of s ballots sender tx ent role fallback]
      by (cases selected) (auto simp: requestEntitlementCheck_def Let_def split: sum.splits if_splits prod.splits)
  next
    case (G_post hook sender tx role result)
    then show ?thesis using assms(1) c post_inv by (auto split: sum.splits)
  qed
qed

lemma run_gated_inv:
  assumes "list_all distinct_request inputs" "gated_inv c"
  shows "gated_inv (fold gatedStep inputs c)"
  using assms
proof (induction inputs arbitrary: c)
  case (Cons call inputs)
  then have "gated_inv (gatedStep call c)" by (intro gatedStep_inv) simp_all
  then show ?case using Cons by simp
qed simp

lemma init_gated_inv: "gated_inv (EntitlementGated_init checker, [])"
  by (simp add: gated_inv_def EntitlementGated_init_def noTransaction_def)

section \<open>Majorities\<close>

lemma tally_sum: "tally PASSED votes + tally FAILED votes \<le> length votes"
  by (induction votes) (auto simp: tally_def)

lemma final_status_majority:
  assumes "tally PASSED votes > length votes div 2 \<or> tally FAILED votes > length votes div 2"
  shows "2 * tally (if tally PASSED votes > tally FAILED votes then PASSED else FAILED) votes > length votes"
  using assms tally_sum [of votes] by auto

lemma tally_voters:
  assumes "distinct (map nv_node votes)" "\<And>v. v \<in> set votes \<Longrightarrow> nv_vote v = status \<Longrightarrow> P (nv_node v)"
  shows "tally status votes \<le> card {n \<in> nv_node ` set votes. P n}"
proof -
  let ?f = "filter (\<lambda>v. nv_vote v = status) votes"
  have "tally status votes = card (nv_node ` set ?f)"
    using distinct_card [of "map nv_node ?f"] assms(1) by (simp add: tally_def distinct_map_filter)
  also have "\<dots> \<le> card {n \<in> nv_node ` set votes. P n}"
    using assms(2) by (intro card_mono) auto
  finally show ?thesis .
qed

text \<open>A result is posted: a majority of the selected nodes has voted for it.\<close>

lemma posted_majority:
  assumes inv: "gated_inv (s, ballots)"
    and post: "postEntitlementCheckResult hook sender tx role result s = Inr (s', events)"
    and ev: "EntitlementCheckResultPosted tx' status \<in> set events"
  shows "tx' = tx \<and> status \<noteq> NOT_VOTED \<and> length (votes_of s tx role)
    < 2 * card {n \<in> nv_node ` set (votes_of s tx role). (n, tx, role, status) \<in> set (ballots @ [(sender, tx, role, result)])}"
proof -
  let ?votes = "map (castVote sender result) (votes_of s tx role)"
  let ?final = "if tally PASSED ?votes > tally FAILED ?votes then PASSED else FAILED"
  have won: "(tally PASSED ?votes > length ?votes div 2 \<or> tally FAILED ?votes > length ?votes div 2) \<and> tx' = tx \<and> status = ?final"
    by (rule post_Inr [OF post]) (use ev in \<open>auto simp: Let_def split: if_splits\<close>)
  then have more: "2 * tally status ?votes > length (votes_of s tx role)"
    using final_status_majority [of ?votes] by auto
  have voted: "(nv_node v, tx, role, status) \<in> set (ballots @ [(sender, tx, role, result)])"
    if v: "v \<in> set ?votes" "nv_vote v = status" for v
  proof -
    obtain v0 where v0: "v0 \<in> set (votes_of s tx role)" "v = castVote sender result v0" using v(1) by auto
    have "status \<noteq> NOT_VOTED" using won by auto
    then show ?thesis
      using v0 v(2) inv by (cases "nv_node v0 = sender") (auto simp: castVote_def gated_inv_def)
  qed
  have "tally status ?votes \<le> card {n \<in> nv_node ` set ?votes. (n, tx, role, status) \<in> set (ballots @ [(sender, tx, role, result)])}"
    using inv voted by (intro tally_voters) (auto simp: gated_inv_def simp del: map_map)
  moreover have "nv_node ` set ?votes = nv_node ` set (votes_of s tx role)" by (metis map_castVote_nodes set_map)
  ultimately show ?thesis using won more by auto
qed

text \<open>
  The first result ends the whole transaction: a vote on another role of it is refused, even when
  the result was a failure and the other role would have admitted the user.
\<close>

lemma first_result_ends_all:
  assumes "postEntitlementCheckResult hook sender tx role result s = Inr (s', events)" "events \<noteq> []"
  shows "postEntitlementCheckResult hook' node tx role' vote s' = Inl EntitlementGated_TransactionNotRegistered"
  by (rule post_Inr [OF assms(1)])
    (use assms(2) in \<open>auto simp: Let_def postEntitlementCheckResult_def removeTransaction_def split: if_splits\<close>)

text \<open>
  Registering and unregistering a node is open to every caller, although the comments reserve it to
  operators.
\<close>

lemma anyone_unregisters:
  assumes "es_contains E (ck_nodes s) node"
  shows "\<exists>s'. unregisterNode E anyone node s = Inr s'"
  using assms by (simp add: unregisterNode_def)

section \<open>Properties\<close>

text \<open>
  (C33) The random selection is a selection: when enough nodes are registered it returns as many as
  asked for, all of them registered and no node twice, whatever the hash yields; otherwise it reverts.
\<close>
theorem random_nodes_distinct:
  assumes "address_set_laws E"
  shows "case getRandomNodes E hash k s of
      Inl e \<Rightarrow> k > getNodeCount E s \<and> e = EntitlementChecker_InsufficientNumberOfNodes
    | Inr selected \<Rightarrow> length selected = k \<and> distinct selected \<and> (\<forall>node \<in> set selected. isValidNode E node s)"
proof -
  let ?pool = "es_values E (ck_nodes s)"
  have laws: "distinct ?pool" "\<And>a. isValidNode E a s = (a \<in> set ?pool)"
    using assms by (auto simp: address_set_laws_def isValidNode_def)
  show ?thesis
  proof (cases "k > length ?pool")
    case False
    then have "length (selectNodes hash ?pool k 0 (length ?pool) [0..<length ?pool]) = k \<and>
        distinct (selectNodes hash ?pool k 0 (length ?pool) [0..<length ?pool]) \<and>
        set (selectNodes hash ?pool k 0 (length ?pool) [0..<length ?pool]) \<subseteq> (!) ?pool ` set (take (length ?pool) [0..<length ?pool])"
      using laws(1) by (intro selectNodes_ok) auto
    then show ?thesis using False laws(2) by (auto simp: getRandomNodes_def Let_def)
  qed (simp add: getRandomNodes_def getNodeCount_def)
qed

definition sample_set :: "address list addressSet" where
  "sample_set = \<lparr>es_contains = (\<lambda>n a. a \<in> set n), es_add = (\<lambda>n a. a # n), es_remove = (\<lambda>n a. removeAll a n), es_values = remdups\<rparr>"

theorem random_nodes_distinct_witness:
  "\<exists>selected. getRandomNodes sample_set (\<lambda>i. 7 * i + 3) 3 \<lparr>ck_nodes = [11, 12, 13, 14], ck_operatorByNode = (\<lambda>_. 0)\<rparr> = Inr selected
    \<and> distinct selected"
proof -
  have "address_set_laws sample_set" by (auto simp: address_set_laws_def sample_set_def)
  from random_nodes_distinct [OF this, where hash = "\<lambda>i. 7 * i + 3" and k = 3 and s = "\<lparr>ck_nodes = [11, 12, 13, 14], ck_operatorByNode = (\<lambda>_. 0)\<rparr>"]
  show ?thesis
    by (auto simp: getNodeCount_def sample_set_def split: sum.splits)
qed

text \<open>
  (C19) A result is only posted by a majority. After any sequence of requests and votes, from any
  callers, in which each request selected distinct nodes, a vote that makes the contract post a
  result is preceded by votes for exactly that result of more than half of the nodes selected
  for the role, each counted once.
\<close>
theorem posted_by_majority:
  assumes "list_all distinct_request inputs"
    and "fold gatedStep inputs (EntitlementGated_init checker, []) = (s, ballots)"
    and "postEntitlementCheckResult hook sender tx role result s = Inr (s', events)"
    and "EntitlementCheckResultPosted tx' status \<in> set events"
  shows "tx' = tx \<and> status \<noteq> NOT_VOTED \<and> distinct (map nv_node (votes_of s tx role)) \<and> length (votes_of s tx role)
    < 2 * card {n \<in> nv_node ` set (votes_of s tx role). (n, tx, role, status) \<in> set (ballots @ [(sender, tx, role, result)])}"
proof -
  have inv: "gated_inv (s, ballots)" using run_gated_inv [OF assms(1) init_gated_inv] assms(2) by metis
  then show ?thesis using posted_majority [OF inv assms(3,4)] by (simp add: gated_inv_def)
qed

definition sample_calls :: "GatedCall list" where
  "sample_calls = [G_request 5 1 9 2 0 (Inr [11, 12, 13]), G_post (\<lambda>_ _. None) 11 1 2 PASSED, G_post (\<lambda>_ _. None) 12 1 2 FAILED]"

theorem posted_by_majority_witness:
  "\<exists>s ballots s'. fold gatedStep sample_calls (EntitlementGated_init 4, []) = (s, ballots)
    \<and> postEntitlementCheckResult (\<lambda>_ _. None) 13 1 2 PASSED s = Inr (s', [EntitlementCheckResultPosted 1 PASSED])
    \<and> 3 < 2 * card {n \<in> nv_node ` set (votes_of s 1 2). (n, 1, 2, PASSED) \<in> set (ballots @ [(13, 1, 2, PASSED)])}"
proof -
  obtain s ballots where run: "fold gatedStep sample_calls (EntitlementGated_init 4, []) = (s, ballots)" by fastforce
  have len: "length (votes_of s 1 2) = 3"
    and "\<exists>s'. postEntitlementCheckResult (\<lambda>_ _. None) 13 1 2 PASSED s = Inr (s', [EntitlementCheckResultPosted 1 PASSED])"
    using run by (auto simp: sample_calls_def requestEntitlementCheck_def postEntitlementCheckResult_def EntitlementGated_init_def
        noTransaction_def Let_def)
  then obtain s' where s': "postEntitlementCheckResult (\<lambda>_ _. None) 13 1 2 PASSED s = Inr (s', [EntitlementCheckResultPosted 1 PASSED])" by blast
  have "list_all distinct_request sample_calls" by (simp add: sample_calls_def)
  from posted_by_majority [OF this run s'] show ?thesis using run s' len by auto
qed

text \<open>The votes of an honest node are answers the node may give to the request.\<close>

definition honest :: "(address \<Rightarrow> string) \<Rightarrow> (nat \<Rightarrow> ChainClient option) \<Rightarrow> WalletLink \<Rightarrow> address list \<Rightarrow> address \<Rightarrow>
    go_error + IRuleData \<Rightarrow> vote_log \<Rightarrow> nat \<Rightarrow> nat \<Rightarrow> address \<Rightarrow> bool" where
  "honest hex clients link selected caller ruleData ballots tx role node =
     list_all (\<lambda>(n, t, r, vote). n = node \<and> t = tx \<and> r = role \<longrightarrow>
       Some vote \<in> set (handleEntitlementCheckRequest hex clients link node selected caller ruleData)) ballots"

lemma honest_vote:
  assumes "leaves_ok (node_ok clients (map hex wallets)) t" "treeToRuleData t = Inr clientData" "encodeEntitlementData clientData = Some data"
    and "getLinkedWallets link caller = Inr wallets"
    and "Some vote \<in> set (handleEntitlementCheckRequest hex clients link node selected caller (Inr data))"
  shows "vote = (if ruleHolds (node_leaf clients (map hex wallets)) t then PASSED else FAILED)"
proof -
  have "xchain_getOperationTree data = Inr t"
    using xchain_tree_rebuilt leaves_ok_is_rule [OF assms(1)] assms(2,3) by blast
  then have "\<forall>g \<in> set (EvaluateRuleData clients False (map hex wallets) data). g = (ruleHolds (node_leaf clients (map hex wallets)) t, None)"
    using node.rule_decided [OF assms(1)] by (simp add: EvaluateRuleData_def decided_def)
  then show ?thesis
    using assms(4,5) by (auto simp: handleEntitlementCheckRequest_def process_def split: if_splits)
qed

text \<open>
  (C1) The posted result is the meaning of the rule. A tree of checks encoded by the client and read
  back through the contract is evaluated by the selected nodes; when at least half of them vote
  as the node program does, on chains that answer, then whatever the other nodes, or other
  accounts, send and in whatever order, a posted result is \<open>PASSED\<close> exactly when the rule holds
  for the wallets linked to the caller.
\<close>
theorem posted_result_right:
  assumes "list_all distinct_request inputs"
    and "fold gatedStep inputs (EntitlementGated_init checker, []) = (s, ballots)"
    and "postEntitlementCheckResult hook sender tx role result s = Inr (s', events)"
    and "EntitlementCheckResultPosted tx' status \<in> set events"
    and "gated_getRuleData contracts tx role s = Inr data" "treeToRuleData t = Inr clientData" "encodeEntitlementData clientData = Some data"
    and "getLinkedWallets link caller = Inr wallets" "leaves_ok (node_ok clients (map hex wallets)) t"
    and "length (votes_of s tx role) \<le> 2 * card {n \<in> nv_node ` set (votes_of s tx role).
      honest hex clients link selected caller (Inr data) (ballots @ [(sender, tx, role, result)]) tx role n}"
  shows "status = (if ruleHolds (node_leaf clients (map hex wallets)) t then PASSED else FAILED)"
proof -
  let ?nodes = "nv_node ` set (votes_of s tx role)"
  let ?log = "ballots @ [(sender, tx, role, result)]"
  let ?for = "{n \<in> ?nodes. (n, tx, role, status) \<in> set ?log}"
  let ?honest = "{n \<in> ?nodes. honest hex clients link selected caller (Inr data) ?log tx role n}"
  have inv: "gated_inv (s, ballots)" using run_gated_inv [OF assms(1) init_gated_inv] assms(2) by metis
  have "card ?nodes = length (votes_of s tx role)"
    using inv distinct_card [of "map nv_node (votes_of s tx role)"] by (simp add: gated_inv_def)
  moreover have "length (votes_of s tx role) < 2 * card ?for" using posted_majority [OF inv assms(3,4)] by blast
  moreover have "card (?for \<union> ?honest) \<le> card ?nodes" by (intro card_mono) auto
  ultimately have "card (?for \<union> ?honest) < card ?for + card ?honest" using assms(10) by simp
  then have "?for \<inter> ?honest \<noteq> {}" using card_Un_disjoint [of ?for ?honest] by auto
  then obtain n where n: "(n, tx, role, status) \<in> set ?log" "honest hex clients link selected caller (Inr data) ?log tx role n" by blast
  then have "Some status \<in> set (handleEntitlementCheckRequest hex clients link n selected caller (Inr data))"
    by (auto simp: honest_def list_all_iff)
  then show ?thesis by (rule honest_vote [OF assms(9,6,7,8)])
qed

definition sample_check :: Operation where
  "sample_check = CheckOperation CT_MOCK 1 ''a'' 0"

definition sample_check_data :: IRuleData where
  "sample_check_data = \<lparr>ird_operations = [\<lparr>io_opType = OT_CHECK, io_index = 0\<rparr>],
     ird_checkOperations = [\<lparr>rc_opType = CT_MOCK, rc_chainId = 1, rc_contractAddress = ''a'', rc_threshold = 0\<rparr>], ird_logicalOperations = []\<rparr>"

definition sample_link :: WalletLink where
  "sample_link = \<lparr>wl_getRootKeyForWallet = (\<lambda>_. Inr 0), wl_getWalletsByRootKey = (\<lambda>_. Inr [])\<rparr>"

theorem posted_result_right_witness:
  "\<exists>s ballots s'. fold gatedStep sample_calls (EntitlementGated_init 4, []) = (s, ballots)
    \<and> postEntitlementCheckResult (\<lambda>_ _. None) 13 1 2 PASSED s = Inr (s', [EntitlementCheckResultPosted 1 PASSED])
    \<and> ruleHolds (node_leaf (\<lambda>_. None) [''5'']) sample_check"
proof -
  let ?contracts = "\<lambda>_ :: nat. (RuleEntitlement_initialize 9)\<lparr>rule_entitlementsByRoleId :=
    (\<lambda>_. \<lparr>re_grantedBy = 9, re_grantedTime = 0, re_data = sample_check_data\<rparr>)\<rparr>"
  obtain s ballots where run: "fold gatedStep sample_calls (EntitlementGated_init 4, []) = (s, ballots)" by fastforce
  have st: "nv_node ` set (votes_of s 1 2) = {11, 12, 13}" "length (votes_of s 1 2) = 3"
      "ballots = [(11, 1, 2, PASSED), (12, 1, 2, FAILED)]" "gated_getRuleData ?contracts 1 2 s = Inr sample_check_data"
    and "\<exists>s'. postEntitlementCheckResult (\<lambda>_ _. None) 13 1 2 PASSED s = Inr (s', [EntitlementCheckResultPosted 1 PASSED])"
    using run by (auto simp: sample_calls_def requestEntitlementCheck_def postEntitlementCheckResult_def EntitlementGated_init_def
        noTransaction_def Let_def gated_getRuleData_def getRuleData_def)
  then obtain s' where s': "postEntitlementCheckResult (\<lambda>_ _. None) 13 1 2 PASSED s = Inr (s', [EntitlementCheckResultPosted 1 PASSED])" by blast
  obtain clientData where rule: "treeToRuleData sample_check = Inr clientData" "encodeEntitlementData clientData = Some sample_check_data"
    by (simp add: sample_check_def treeToRuleData_def pushCheck_def sample_check_data_def encodeEntitlementData_def fits_struct_def
        fits_operation_def fits_check_def narrowRuleData_def narrowOperation_def)
  have ok: "list_all distinct_request sample_calls"
    "getLinkedWallets sample_link 5 = Inr [5]" "leaves_ok (node_ok (\<lambda>_. None) (map (\<lambda>_. ''5'') [5 :: nat])) sample_check"
    by (simp_all add: sample_calls_def sample_check_def getLinkedWallets_def sample_link_def)
  have voters: "honest (\<lambda>_. ''5'') (\<lambda>_. None) sample_link [11, 12, 13] 5 (Inr sample_check_data) (ballots @ [(13, 1, 2, PASSED)]) 1 2 n"
    if "n = 11 \<or> n = 13" for n
    using that unfolding st(3) by (elim disjE; simp; code_simp)
  have "{11, 13} \<subseteq> {n \<in> nv_node ` set (votes_of s 1 2).
      honest (\<lambda>_. ''5'') (\<lambda>_. None) sample_link [11, 12, 13] 5 (Inr sample_check_data) (ballots @ [(13, 1, 2, PASSED)]) 1 2 n}"
    using voters st(1) by auto
  from card_mono [OF _ this] have "length (votes_of s 1 2) \<le> 2 * card {n \<in> nv_node ` set (votes_of s 1 2).
      honest (\<lambda>_. ''5'') (\<lambda>_. None) sample_link [11, 12, 13] 5 (Inr sample_check_data) (ballots @ [(13, 1, 2, PASSED)]) 1 2 n}"
    using st(1,2) by simp
  from posted_result_right [OF ok(1) run s' _ st(4) rule ok(2,3) this] show ?thesis
    using run s' by (auto split: if_splits)
qed

end
