(* ===== verification/Persistence.thy ===== *)
theory Persistence
  imports Protocol
begin

text \<open>
  The local database of streams: \<open>core/sdk/src/persistenceStore.ts\<close> and the conversions of
  \<open>core/sdk/src/streamUtils.ts\<close>. A table of the browser database is a map from its key; a record
  holds the protocol message itself, of which the generated code reads back what it wrote.
\<close>

section \<open>Persisted messages\<close>

record PersistedEvent =
  pv_event :: "StreamEvent option"
  pv_hash :: bytes
  pv_prevMiniblockHashStr :: string
  pv_creatorUserId :: string

record PersistedMiniblock =
  pmb_hash :: bytes
  pmb_header :: "MiniblockHeader option"
  pmb_events :: "PersistedEvent list"

record PersistedSyncedStream =
  pss_syncCookie :: "SyncCookie option"
  pss_lastSnapshotMiniblockNum :: bigint
  pss_minipoolEvents :: "PersistedEvent list"
  pss_lastMiniblockNum :: bigint

text \<open>A synced stream as \<open>getSyncedStream\<close> returns it.\<close>

record ParsedSyncedStream =
  rss_syncCookie :: SyncCookie
  rss_lastSnapshotMiniblockNum :: bigint
  rss_minipoolEvents :: "ParsedEvent list"
  rss_lastMiniblockNum :: bigint

definition persistedEventToParsedEvent :: "externs \<Rightarrow> PersistedEvent \<Rightarrow> ParsedEvent option" where
  "persistedEventToParsedEvent x event =
     (case pv_event event of
        None \<Rightarrow> None
      | Some e \<Rightarrow>
          Some \<lparr>pe_event = e, pe_hash = pv_hash event, pe_hashStr = bin_toHexString x (pv_hash event),
                pe_prevMiniblockHashStr = (if length (pv_prevMiniblockHashStr event) > 0 then Some (pv_prevMiniblockHashStr event) else None),
                pe_creatorUserId = pv_creatorUserId event\<rparr>)"

definition persistedMiniblockToParsedMiniblock :: "externs \<Rightarrow> PersistedMiniblock \<Rightarrow> ParsedMiniblock option" where
  "persistedMiniblockToParsedMiniblock x miniblock =
     (case pmb_header miniblock of
        None \<Rightarrow> None
      | Some header \<Rightarrow>
          Some \<lparr>pm_hash = pmb_hash miniblock, pm_header = header,
                pm_events = List.map_filter (persistedEventToParsedEvent x) (pmb_events miniblock)\<rparr>)"

text \<open>A field that is undefined is written as the empty string.\<close>

definition parsedEventToPersistedEvent :: "ParsedEvent \<Rightarrow> PersistedEvent" where
  "parsedEventToPersistedEvent event =
     \<lparr>pv_event = Some (pe_event event), pv_hash = pe_hash event,
      pv_prevMiniblockHashStr = (case pe_prevMiniblockHashStr event of Some s \<Rightarrow> s | None \<Rightarrow> []),
      pv_creatorUserId = pe_creatorUserId event\<rparr>"

definition parsedMiniblockToPersistedMiniblock :: "ParsedMiniblock \<Rightarrow> PersistedMiniblock" where
  "parsedMiniblockToPersistedMiniblock miniblock =
     \<lparr>pmb_hash = pm_hash miniblock, pmb_header = Some (pm_header miniblock),
      pmb_events = map parsedEventToPersistedEvent (pm_events miniblock)\<rparr>"

definition persistedSyncedStreamToParsedSyncedStream :: "externs \<Rightarrow> PersistedSyncedStream \<Rightarrow> ParsedSyncedStream option" where
  "persistedSyncedStreamToParsedSyncedStream x stream =
     (case pss_syncCookie stream of
        None \<Rightarrow> None
      | Some cookie \<Rightarrow>
          Some \<lparr>rss_syncCookie = cookie, rss_lastSnapshotMiniblockNum = pss_lastSnapshotMiniblockNum stream,
                rss_minipoolEvents = List.map_filter (persistedEventToParsedEvent x) (pss_minipoolEvents stream),
                rss_lastMiniblockNum = pss_lastMiniblockNum stream\<rparr>)"

section \<open>Tables\<close>

record Store =
  st_cleartexts :: "string \<rightharpoonup> string"
  st_syncedStreams :: "string \<rightharpoonup> PersistedSyncedStream"
  st_miniblocks :: "string \<times> bigint \<rightharpoonup> PersistedMiniblock"

definition saveCleartext :: "string \<Rightarrow> string \<Rightarrow> Store \<Rightarrow> Store" where
  "saveCleartext eventId cleartext s = s\<lparr>st_cleartexts := (st_cleartexts s)(eventId \<mapsto> cleartext)\<rparr>"

definition getCleartext :: "string \<Rightarrow> Store \<Rightarrow> string option" where
  "getCleartext eventId s = st_cleartexts s eventId"

definition getCleartexts :: "string list \<Rightarrow> Store \<Rightarrow> (string \<rightharpoonup> string) option" where
  "getCleartexts eventIds s =
     (if eventIds = [] then None
      else Some (foldl (\<lambda>acc eventId. case st_cleartexts s eventId of None \<Rightarrow> acc | Some c \<Rightarrow> acc(eventId \<mapsto> c)) Map.empty eventIds))"

definition getSyncedStream :: "externs \<Rightarrow> string \<Rightarrow> Store \<Rightarrow> ParsedSyncedStream option" where
  "getSyncedStream x streamId s =
     (case st_syncedStreams s streamId of
        None \<Rightarrow> None
      | Some record \<Rightarrow> persistedSyncedStreamToParsedSyncedStream x record)"

definition saveSyncedStream :: "string \<Rightarrow> PersistedSyncedStream \<Rightarrow> Store \<Rightarrow> Store" where
  "saveSyncedStream streamId syncedStream s = s\<lparr>st_syncedStreams := (st_syncedStreams s)(streamId \<mapsto> syncedStream)\<rparr>"

definition saveMiniblock :: "string \<Rightarrow> ParsedMiniblock \<Rightarrow> Store \<Rightarrow> Store" where
  "saveMiniblock streamId miniblock s = s\<lparr>st_miniblocks := (st_miniblocks s)
     ((streamId, mh_miniblockNum (pm_header miniblock)) \<mapsto> parsedMiniblockToPersistedMiniblock miniblock)\<rparr>"

definition saveMiniblocks :: "string \<Rightarrow> ParsedMiniblock list \<Rightarrow> Store \<Rightarrow> Store" where
  "saveMiniblocks streamId miniblocks s = fold (saveMiniblock streamId) miniblocks s"

definition getMiniblock :: "externs \<Rightarrow> string \<Rightarrow> bigint \<Rightarrow> Store \<Rightarrow> ParsedMiniblock option" where
  "getMiniblock x streamId miniblockNum s =
     (case st_miniblocks s (streamId, miniblockNum) of
        None \<Rightarrow> None
      | Some record \<Rightarrow> persistedMiniblockToParsedMiniblock x record)"

text \<open>All of a range or nothing.\<close>

definition getMiniblocks :: "externs \<Rightarrow> string \<Rightarrow> bigint \<Rightarrow> bigint \<Rightarrow> Store \<Rightarrow> ParsedMiniblock list" where
  "getMiniblocks x streamId rangeStart rangeEnd s =
     (let ids = [rangeStart..rangeEnd];
          miniblocks = List.map_filter (\<lambda>i. getMiniblock x streamId i s) ids
      in if length miniblocks = length ids then miniblocks else [])"

section \<open>Reads with retries\<close>

text \<open>
  The outcome of one attempt to read: a value, an \<open>AbortError\<close>, which is tried again, or another
  error. \<open>attempt n\<close> is that of the n-th call of the function. The counter is only decremented
  after it has become smaller than \<open>retries\<close>, so it never is. A loop that does not end has no value.
\<close>

datatype 'a Attempt = Value 'a | AbortError js_error | OtherError js_error

partial_function (option) retryLoop ::
    "(nat \<Rightarrow> 'a Attempt) \<Rightarrow> nat \<Rightarrow> nat \<Rightarrow> nat \<Rightarrow> js_error option \<Rightarrow> (js_error option + 'a) option" where
  "retryLoop attempt retries retryCounter n lastErr =
     (if retryCounter > 0
      then let counter = (if retryCounter < retries then retryCounter - 1 else retryCounter)
           in (case attempt n of
                 Value a \<Rightarrow> Some (Inr a)
               | AbortError e \<Rightarrow> retryLoop attempt retries counter (n + 1) (Some e)
               | OtherError e \<Rightarrow> Some (Inl (Some e)))
      else Some (Inl lastErr))"

definition fnReadRetryer :: "(nat \<Rightarrow> 'a Attempt) \<Rightarrow> nat \<Rightarrow> (js_error option + 'a) option" where
  "fnReadRetryer attempt retries = retryLoop attempt retries retries 0 None"

definition DEFAULT_RETRY_COUNT :: nat where
  "DEFAULT_RETRY_COUNT = 2"

section \<open>Lemmas\<close>

text \<open>An event as the parser makes it: its text hash is that of its bytes.\<close>

definition parsed_event :: "externs \<Rightarrow> ParsedEvent \<Rightarrow> bool" where
  "parsed_event x e = (pe_hashStr e = bin_toHexString x (pe_hash e) \<and> pe_prevMiniblockHashStr e \<noteq> Some [])"

lemma event_roundtrip: "parsed_event x e \<Longrightarrow> persistedEventToParsedEvent x (parsedEventToPersistedEvent e) = Some e"
  by (cases e) (auto simp: parsed_event_def persistedEventToParsedEvent_def parsedEventToPersistedEvent_def split: option.split)

lemma events_roundtrip:
  "list_all (parsed_event x) es \<Longrightarrow> List.map_filter (persistedEventToParsedEvent x) (map parsedEventToPersistedEvent es) = es"
  by (induction es) (simp_all add: map_filter_simps event_roundtrip)

definition parsed_miniblock :: "externs \<Rightarrow> ParsedMiniblock \<Rightarrow> bool" where
  "parsed_miniblock x mb = list_all (parsed_event x) (pm_events mb)"

lemma miniblock_roundtrip:
  "parsed_miniblock x mb \<Longrightarrow> persistedMiniblockToParsedMiniblock x (parsedMiniblockToPersistedMiniblock mb) = Some mb"
  by (cases mb) (simp add: parsed_miniblock_def persistedMiniblockToParsedMiniblock_def parsedMiniblockToPersistedMiniblock_def events_roundtrip)

text \<open>What the store holds of a stream: the parsed miniblock of a number.\<close>

lemma getMiniblock_saved:
  "parsed_miniblock x mb \<Longrightarrow> getMiniblock x sid n (saveMiniblock sid' mb s) =
     (if sid = sid' \<and> n = mh_miniblockNum (pm_header mb) then Some mb else getMiniblock x sid n s)"
  by (simp add: getMiniblock_def saveMiniblock_def miniblock_roundtrip)

lemma map_filter_all:
  "length (List.map_filter f xs) = length xs \<Longrightarrow> map f xs = map Some (List.map_filter f xs)"
proof (induction xs)
  case (Cons a xs)
  have "length (List.map_filter f xs) \<le> length xs"
    by (metis length_filter_le length_map map_filter_def)
  with Cons show ?case by (cases "f a") (auto simp: map_filter_simps)
qed (simp add: map_filter_simps)

text \<open>A range that is returned is complete: the blocks of its numbers, in order.\<close>

lemma getMiniblocks_complete:
  assumes "getMiniblocks x sid a b s \<noteq> []"
  shows "map (\<lambda>i. getMiniblock x sid i s) [a..b] = map Some (getMiniblocks x sid a b s)"
  using assms map_filter_all [of "\<lambda>i. getMiniblock x sid i s" "[a..b]"] by (simp add: getMiniblocks_def Let_def split: if_splits)

lemma getMiniblocks_known:
  assumes "map (\<lambda>i. getMiniblock x sid i s) [a..b] = map Some mbs"
  shows "getMiniblocks x sid a b s = mbs"
proof -
  have "List.map_filter f xs = ys" if "map f xs = map Some ys" for f :: "bigint \<Rightarrow> ParsedMiniblock option" and xs ys
    using that by (induction xs arbitrary: ys) (auto simp: map_filter_simps)
  then show ?thesis using assms by (metis getMiniblocks_def length_map)
qed

text \<open>
  Reading never gives up on aborted transactions: the number of retries has no effect. The result
  is that of the first attempt that is not aborted, and when all are there is none.
\<close>

lemma retryLoop_first:
  assumes "\<forall>i < k. \<exists>e. attempt (n + i) = AbortError e" "retries > 0"
  shows "attempt (n + k) = Value a \<Longrightarrow> retryLoop attempt retries retries n err = Some (Inr a)"
    "attempt (n + k) = OtherError e' \<Longrightarrow> retryLoop attempt retries retries n err = Some (Inl (Some e'))"
proof -
  have step: "retryLoop attempt retries retries n err = retryLoop attempt retries retries (n + k) err'"
    if "\<forall>i < k. \<exists>e. attempt (n + i) = AbortError e" "err' = (if k = 0 then err else case attempt (n + k - 1) of AbortError e \<Rightarrow> Some e | _ \<Rightarrow> None)"
    for k n err err'
    using that
  proof (induction k arbitrary: err')
    case (Suc k)
    let ?err = "if k = 0 then err else case attempt (n + k - 1) of AbortError e \<Rightarrow> Some e | _ \<Rightarrow> None"
    obtain e where e: "attempt (n + k) = AbortError e" using Suc.prems(1) by blast
    have "retryLoop attempt retries retries n err = retryLoop attempt retries retries (n + k) ?err"
      using Suc.IH [OF _ refl] Suc.prems(1) by simp
    also have "\<dots> = retryLoop attempt retries retries (n + k + 1) (Some e)"
      using e assms(2) by (subst retryLoop.simps) (simp add: Let_def)
    finally show ?case using Suc.prems(2) e by simp
  qed simp
  show "attempt (n + k) = Value a \<Longrightarrow> retryLoop attempt retries retries n err = Some (Inr a)"
    using step [OF assms(1) refl, of err] assms(2) by (simp add: retryLoop.simps [of _ _ _ "n + k"])
  show "attempt (n + k) = OtherError e' \<Longrightarrow> retryLoop attempt retries retries n err = Some (Inl (Some e'))"
    using step [OF assms(1) refl, of err] assms(2) by (simp add: retryLoop.simps [of _ _ _ "n + k"])
qed

lemma retry_never_ends:
  assumes "\<forall>n. \<exists>e. attempt n = AbortError e" "retries > 0"
  shows "fnReadRetryer attempt retries = None"
proof -
  have "at = attempt \<longrightarrow> r = retries \<longrightarrow> c = retries \<longrightarrow> False" if "retryLoop at r c n err = Some y" for at r c n err y
    using that
  proof (rule retryLoop.raw_induct [rotated], intro impI)
    fix loop at r c n err y
    assume IH: "\<And>at r c n err y. loop at r c n err = Some y \<Longrightarrow> at = attempt \<longrightarrow> r = retries \<longrightarrow> c = retries \<longrightarrow> False"
      and body: "(if c > 0 then let counter = (if c < r then c - 1 else c) in
          (case at n of Value a \<Rightarrow> Some (Inr a) | AbortError e \<Rightarrow> loop at r counter (n + 1) (Some e) | OtherError e \<Rightarrow> Some (Inl (Some e)))
        else Some (Inl err)) = Some y" and eq: "at = attempt" "r = retries" "c = retries"
    obtain e where "attempt n = AbortError e" using assms(1) by blast
    then have "loop attempt retries retries (n + 1) (Some e) = Some y" using body eq assms(2) by simp
    then show False using IH by blast
  qed
  then show ?thesis unfolding fnReadRetryer_def by (cases "retryLoop attempt retries retries 0 None") blast+
qed

end
