(* ===== verification/SyncedStream.thy ===== *)
theory SyncedStream
  imports Views Persistence
begin

text \<open>
  A stream with its view and its copy in the local database: \<open>core/sdk/src/stream.ts\<close> and
  \<open>core/sdk/src/syncedStream.ts\<close>. The state is the stream and the database. The database answers
  every read; an operation runs as one step, although it awaits its writes.
\<close>

section \<open>State\<close>

record SyncedStream =
  ss_view :: StreamView
  ss_isUpToDate :: bool
  ss_stopped :: bool

definition SyncedStream_new :: "externs \<Rightarrow> string \<Rightarrow> string \<Rightarrow> js_error + SyncedStream" where
  "SyncedStream_new x userId streamId =
     bindE (StreamView_new x userId streamId) (\<lambda>v. Inr \<lparr>ss_view = v, ss_isUpToDate = False, ss_stopped = False\<rparr>)"

text \<open>An operation of the view, with the stream as its emitter: a stopped stream emits nothing.\<close>

definition on_stream ::
    "(StreamView \<Rightarrow> (StreamView, emission) outcome) \<Rightarrow> SyncedStream \<times> Store \<Rightarrow> (SyncedStream \<times> Store, emission) outcome" where
  "on_stream f c =
     (case c of (s, st) \<Rightarrow>
        (case f (ss_view s) of (v, es, e) \<Rightarrow> ((s\<lparr>ss_view := v\<rparr>, st), if ss_stopped s then [] else es, e)))"

definition stop_stream :: "SyncedStream \<Rightarrow> SyncedStream" where
  "stop_stream s = s\<lparr>ss_stopped := True\<rparr>"

definition markUpToDate :: "SyncedStream \<times> Store \<Rightarrow> (SyncedStream \<times> Store, emission) outcome" where
  "markUpToDate c =
     (case c of (s, st) \<Rightarrow>
        if ss_isUpToDate s then pass c
        else emit (\<not> ss_stopped s) (streamUpToDate (v_streamId (ss_view s))) (s\<lparr>ss_isUpToDate := True\<rparr>, st))"

section \<open>Initialization\<close>

text \<open>The view is made anew; local events that were not sent yet are carried over.\<close>

definition unsentEvents :: "StreamView \<Rightarrow> StreamTimelineEvent list" where
  "unsentEvents v = filter (\<lambda>e. isLocalEvent e \<and> startsWith (te_hashStr e) ''~'') (eventsAt v (v_timeline v))"

definition Stream_initialize ::
    "externs \<Rightarrow> SyncCookie \<Rightarrow> ParsedEvent list \<Rightarrow> Snapshot \<Rightarrow> ParsedMiniblock list \<Rightarrow> ParsedMiniblock list \<Rightarrow> bigint \<Rightarrow>
     cleartexts \<Rightarrow> SyncedStream \<times> Store \<Rightarrow> (SyncedStream \<times> Store, emission) outcome" where
  "Stream_initialize x nextSyncCookie minipoolEvents snapshot miniblocks prependedMiniblocks prevSnapshotMiniblockNum cleartexts c =
     (let v = ss_view (fst c); localEvents = unsentEvents v
      in with_value (StreamView_new x (v_userId v) (v_streamId v))
           (\<lambda>new (s, st). on_stream (initialize x nextSyncCookie minipoolEvents snapshot miniblocks prependedMiniblocks
              prevSnapshotMiniblockNum cleartexts localEvents True) (s\<lparr>ss_view := new\<rparr>, st)) c)"

definition SyncedStream_initialize ::
    "externs \<Rightarrow> SyncCookie \<Rightarrow> ParsedEvent list \<Rightarrow> Snapshot \<Rightarrow> ParsedMiniblock list \<Rightarrow> ParsedMiniblock list \<Rightarrow> bigint \<Rightarrow>
     cleartexts \<Rightarrow> SyncedStream \<times> Store \<Rightarrow> (SyncedStream \<times> Store, emission) outcome" where
  "SyncedStream_initialize x nextSyncCookie events snapshot miniblocks prependedMiniblocks prevSnapshotMiniblockNum cleartexts c =
     andThen (andThen
       (Stream_initialize x nextSyncCookie events snapshot miniblocks prependedMiniblocks prevSnapshotMiniblockNum cleartexts c)
       (\<lambda>(s, st).
          let streamId = v_streamId (ss_view s);
              cached = \<lparr>pss_syncCookie = Some nextSyncCookie,
                        pss_lastSnapshotMiniblockNum = mh_miniblockNum (pm_header (hd miniblocks)),
                        pss_minipoolEvents = map parsedEventToPersistedEvent events,
                        pss_lastMiniblockNum = mh_miniblockNum (pm_header (last miniblocks))\<rparr>
          in pass (s, saveMiniblocks streamId miniblocks (saveSyncedStream streamId cached st))))
       markUpToDate"

text \<open>What the parser makes of a stream response.\<close>

record ParsedStreamResponse =
  psr_snapshot :: Snapshot
  psr_nextSyncCookie :: SyncCookie
  psr_events :: "ParsedEvent list"
  psr_miniblocks :: "ParsedMiniblock list"
  psr_prevSnapshotMiniblockNum :: bigint
  psr_eventIds :: "string list"

definition initializeFromResponse ::
    "externs \<Rightarrow> ParsedStreamResponse \<Rightarrow> SyncedStream \<times> Store \<Rightarrow> (SyncedStream \<times> Store, emission) outcome" where
  "initializeFromResponse x response c =
     andThen
       (SyncedStream_initialize x (psr_nextSyncCookie response) (psr_events response) (psr_snapshot response)
          (psr_miniblocks response) [] (psr_prevSnapshotMiniblockNum response)
          (getCleartexts (psr_eventIds response) (snd c)) c)
       markUpToDate"

section \<open>Cached history\<close>

definition CACHED_SCROLLBACK_COUNT :: nat where
  "CACHED_SCROLLBACK_COUNT = 3"

fun scrollbackLoop :: "externs \<Rightarrow> string \<Rightarrow> Store \<Rightarrow> nat \<Rightarrow> bigint \<Rightarrow> bigint \<Rightarrow> ParsedMiniblock list \<Rightarrow> ParsedMiniblock list" where
  "scrollbackLoop x streamId st 0 fromInclusive toExclusive miniblocks = miniblocks"
| "scrollbackLoop x streamId st (Suc n) fromInclusive toExclusive miniblocks =
     (if toExclusive \<le> 0 then miniblocks
      else (case getMiniblocks x streamId fromInclusive (toExclusive - 1) st of
              [] \<Rightarrow> miniblocks
            | mb # mbs \<Rightarrow> scrollbackLoop x streamId st n (mh_prevSnapshotMiniblockNum (pm_header mb))
                (mh_miniblockNum (pm_header mb)) ((mb # mbs) @ miniblocks)))"

definition cachedScrollback :: "externs \<Rightarrow> string \<Rightarrow> bigint \<Rightarrow> bigint \<Rightarrow> Store \<Rightarrow> ParsedMiniblock list" where
  "cachedScrollback x streamId fromInclusive toExclusive st =
     (if \<not> isChannelStreamId x (StringId streamId) \<and> \<not> isDMChannelStreamId x (StringId streamId) \<and>
         \<not> isGDMChannelStreamId x (StringId streamId)
      then [] else scrollbackLoop x streamId st CACHED_SCROLLBACK_COUNT fromInclusive toExclusive [])"

definition eventIdsFromSnapshot :: "externs \<Rightarrow> Snapshot \<Rightarrow> string list" where
  "eventIdsFromSnapshot x snapshot =
     (let members = (case sn_members snapshot of Some ms \<Rightarrow> ms | None \<Rightarrow> []);
          ids = (\<lambda>f. map (bin_toHexString x \<circ> wed_eventHash) (List.map_filter f members));
          names = ids sm_username @ ids sm_displayName
      in case sn_content snapshot of
           SC_gdmChannel (Some properties) \<Rightarrow> names @ [bin_toHexString x (wed_eventHash properties)]
         | _ \<Rightarrow> names)"

text \<open>The events whose cleartext is looked up: those of the blocks and of the snapshot, not of the minipool.\<close>

definition cachedEventIds :: "externs \<Rightarrow> ParsedMiniblock list \<Rightarrow> Snapshot \<Rightarrow> ParsedMiniblock list \<Rightarrow> string list" where
  "cachedEventIds x miniblocks snapshot prependedMiniblocks =
     concat (map (\<lambda>b. map pe_hashStr (pm_events b)) miniblocks) @ eventIdsFromSnapshot x snapshot @
     concat (map (\<lambda>b. map pe_hashStr (pm_events b)) prependedMiniblocks)"

text \<open>The boolean result comes with the state; an exception of the view is caught, and the answer is false.\<close>

definition try_initialize :: "('s, 'e) outcome \<Rightarrow> ('s \<times> bool, 'e) outcome" where
  "try_initialize r = (case r of (c, es, e) \<Rightarrow> ((c, e = None), es, None))"

definition initializeFromPersistence ::
    "externs \<Rightarrow> SyncedStream \<times> Store \<Rightarrow> ((SyncedStream \<times> Store) \<times> bool, emission) outcome" where
  "initializeFromPersistence x c =
     (let streamId = v_streamId (ss_view (fst c)); st = snd c
      in case getSyncedStream x streamId st of
           None \<Rightarrow> pass (c, False)
         | Some cached \<Rightarrow>
             (case getMiniblocks x streamId (rss_lastSnapshotMiniblockNum cached) (rss_lastMiniblockNum cached) st of
                [] \<Rightarrow> pass (c, False)
              | mb # mbs \<Rightarrow>
                  (case mh_snapshot (pm_header mb) of
                     None \<Rightarrow> pass (c, False)
                   | Some snapshot \<Rightarrow>
                       let prepended = cachedScrollback x streamId (mh_prevSnapshotMiniblockNum (pm_header mb)) (mh_miniblockNum (pm_header mb)) st;
                           cleartexts = getCleartexts (cachedEventIds x (mb # mbs) snapshot prepended) st
                       in try_initialize (Stream_initialize x (rss_syncCookie cached) (rss_minipoolEvents cached) snapshot (mb # mbs)
                            prepended (mh_prevSnapshotMiniblockNum (pm_header mb)) cleartexts c))))"

section \<open>Appended events\<close>

definition remoteEventAt :: "StreamView \<Rightarrow> string \<Rightarrow> ParsedEvent option" where
  "remoteEventAt v hash = (case v_events v hash of None \<Rightarrow> None | Some a \<Rightarrow> te_remoteEvent (v_store v ! a))"

text \<open>The events not confirmed yet, without those that exist only locally.\<close>

definition minipoolOf :: "StreamView \<Rightarrow> ParsedEvent list" where
  "minipoolOf v = List.map_filter te_remoteEvent (filter (\<lambda>e. te_confirmedEventNum e = None) (eventsAt v (v_timeline v)))"

definition onMiniblockHeader ::
    "externs \<Rightarrow> MiniblockHeader \<Rightarrow> ParsedEvent \<Rightarrow> bytes \<Rightarrow> SyncedStream \<times> Store \<Rightarrow> (SyncedStream \<times> Store, emission) outcome" where
  "onMiniblockHeader x miniblockHeader miniblockEvent hash c =
     (case c of (s, st) \<Rightarrow>
        let v = ss_view s; streamId = v_streamId v;
            eventHashes = map (bin_toHexString x) (mh_eventHashes miniblockHeader);
            events = List.map_filter (remoteEventAt v) eventHashes
        in if length events \<noteq> length eventHashes
           then throw (JsError ''Couldn't find event for hash in miniblock'') c
           else let miniblock = \<lparr>pm_hash = hash, pm_header = miniblockHeader, pm_events = events @ [miniblockEvent]\<rparr>;
                    st1 = saveMiniblock streamId miniblock st
                in (case v_syncCookie v of
                      None \<Rightarrow> pass (s, st1)
                    | Some syncCookie \<Rightarrow>
                        pass (s, saveSyncedStream streamId
                          \<lparr>pss_syncCookie = Some syncCookie,
                           pss_lastSnapshotMiniblockNum = mh_prevSnapshotMiniblockNum miniblockHeader,
                           pss_minipoolEvents = map parsedEventToPersistedEvent (minipoolOf v),
                           pss_lastMiniblockNum = mh_miniblockNum miniblockHeader\<rparr> st1)))"

definition onAppended :: "externs \<Rightarrow> ParsedEvent \<Rightarrow> SyncedStream \<times> Store \<Rightarrow> (SyncedStream \<times> Store, emission) outcome" where
  "onAppended x event c =
     (case se_payload (pe_event event) of
        PL_miniblockHeader header \<Rightarrow> onMiniblockHeader x header event (pe_hash event) c
      | _ \<Rightarrow> pass c)"

definition SyncedStream_appendEvents ::
    "externs \<Rightarrow> ParsedEvent list \<Rightarrow> SyncCookie \<Rightarrow> cleartexts \<Rightarrow> SyncedStream \<times> Store \<Rightarrow> (SyncedStream \<times> Store, emission) outcome" where
  "SyncedStream_appendEvents x events nextSyncCookie cleartexts c =
     andThen (andThen (on_stream (appendEvents x events nextSyncCookie cleartexts) c)
       (for_each (onAppended x) events))
       markUpToDate"

definition SyncedStream_prependEvents ::
    "externs \<Rightarrow> ParsedMiniblock list \<Rightarrow> cleartexts \<Rightarrow> bool \<Rightarrow> SyncedStream \<times> Store \<Rightarrow> (SyncedStream \<times> Store, emission) outcome" where
  "SyncedStream_prependEvents x miniblocks cleartexts terminus c =
     on_stream (prependEvents x miniblocks cleartexts terminus True True) c"

section \<open>Blocks in the database\<close>

definition blockNum :: "ParsedMiniblock \<Rightarrow> bigint" where
  "blockNum mb = mh_miniblockNum (pm_header mb)"

lemma getMiniblock_other:
  "n \<notin> blockNum ` set mbs \<Longrightarrow> getMiniblock x sid n (saveMiniblocks sid mbs st) = getMiniblock x sid n st"
proof (induction mbs arbitrary: st)
  case (Cons mb mbs)
  then show ?case
    by (auto simp: saveMiniblocks_def getMiniblock_def saveMiniblock_def blockNum_def)
qed (simp add: saveMiniblocks_def)

lemma getMiniblock_saved_all:
  assumes "list_all (parsed_miniblock x) mbs" "distinct (map blockNum mbs)" "mb \<in> set mbs"
  shows "getMiniblock x sid (blockNum mb) (saveMiniblocks sid mbs st) = Some mb"
  using assms
proof (induction mbs arbitrary: st)
  case (Cons m mbs)
  show ?case
  proof (cases "mb = m")
    case True
    then have "getMiniblock x sid (blockNum mb) (saveMiniblocks sid mbs (saveMiniblock sid m st)) =
        getMiniblock x sid (blockNum mb) (saveMiniblock sid m st)"
      using Cons.prems(2) by (intro getMiniblock_other) simp
    then show ?thesis using True Cons.prems(1) by (simp add: saveMiniblocks_def getMiniblock_saved blockNum_def)
  next
    case False
    then show ?thesis using Cons by (simp add: saveMiniblocks_def)
  qed
qed simp

text \<open>The blocks of a consecutive range are read back as they were saved.\<close>

lemma saved_range:
  assumes "list_all (parsed_miniblock x) mbs" "map blockNum mbs = [a..b]"
  shows "getMiniblocks x sid a b (saveMiniblocks sid mbs st) = mbs"
proof (rule getMiniblocks_known)
  have "distinct (map blockNum mbs)" unfolding assms(2) by simp
  then have "map (\<lambda>i. getMiniblock x sid i (saveMiniblocks sid mbs st)) (map blockNum mbs) = map Some mbs"
    using getMiniblock_saved_all [OF assms(1)] unfolding map_map comp_def by (intro map_cong) auto
  then show "map (\<lambda>i. getMiniblock x sid i (saveMiniblocks sid mbs st)) [a..b] = map Some mbs" by (simp only: assms(2))
qed

definition store_ok :: "externs \<Rightarrow> Store \<Rightarrow> bool" where
  "store_ok x st = (\<forall>sid n mb. getMiniblock x sid n st = Some mb \<longrightarrow> blockNum mb = n)"

lemma saveMiniblock_ok: "store_ok x st \<Longrightarrow> store_ok x (saveMiniblock sid mb st)"
  by (auto simp: store_ok_def getMiniblock_def saveMiniblock_def persistedMiniblockToParsedMiniblock_def
      parsedMiniblockToPersistedMiniblock_def blockNum_def split: if_splits)

lemma saveMiniblocks_ok: "store_ok x st \<Longrightarrow> store_ok x (saveMiniblocks sid mbs st)"
  by (induction mbs arbitrary: st) (simp_all add: saveMiniblocks_def saveMiniblock_ok)

lemma range_numbers:
  assumes "store_ok x st" "getMiniblocks x sid a b st = mb # mbs"
  shows "map blockNum (mb # mbs) = [a..b]" "blockNum mb = a" "a \<le> b"
proof -
  have all: "map (\<lambda>i. getMiniblock x sid i st) [a..b] = map Some (mb # mbs)"
    using getMiniblocks_complete [of x sid a b st] assms(2) by simp
  have "map blockNum ys = xs" if "map f xs = map Some ys" "\<And>i y. f i = Some y \<Longrightarrow> blockNum y = i" for f xs ys
    using that by (induction xs arbitrary: ys) auto
  from this [OF all] show nums: "map blockNum (mb # mbs) = [a..b]" using assms(1) by (simp add: store_ok_def)
  then show "a \<le> b" by (metis list.distinct(1) list.simps(9) not_less upto_empty)
  with nums show "blockNum mb = a" by (simp add: upto.simps [of a b])
qed

lemma upto_joined: "from \<le> to \<Longrightarrow> to \<le> e + 1 \<Longrightarrow> [from..to - 1] @ [to..e] = [from..(e :: int)]"
  by (cases "to = e + 1") (simp_all add: upto_split1 [of "from" to e])

lemma scrollbackLoop_contiguous:
  assumes "store_ok x st" "map blockNum acc = [to..end]" "to \<le> end + 1"
  shows "\<exists>k \<le> to. map blockNum (scrollbackLoop x sid st n from to acc) = [k..end] \<and>
    (\<forall>mb \<in> set (scrollbackLoop x sid st n from to acc). mb \<in> set acc \<or> getMiniblock x sid (blockNum mb) st = Some mb)"
  using assms(2,3)
proof (induction n arbitrary: "from" to acc)
  case (Suc n)
  show ?case
  proof (cases "to \<le> 0 \<or> getMiniblocks x sid from (to - 1) st = []")
    case True
    then show ?thesis using Suc.prems by (intro exI [of _ to]) (auto split: list.splits)
  next
    case False
    then obtain mb mbs where r: "getMiniblocks x sid from (to - 1) st = mb # mbs" by (cases "getMiniblocks x sid from (to - 1) st") auto
    note nums = range_numbers [OF assms(1) r]
    have acc: "map blockNum ((mb # mbs) @ acc) = [from..end]"
      unfolding map_append nums(1) Suc.prems(1) using nums(3) Suc.prems(2) by (intro upto_joined) simp_all
    obtain k where k: "k \<le> from" "map blockNum (scrollbackLoop x sid st n (mh_prevSnapshotMiniblockNum (pm_header mb)) from ((mb # mbs) @ acc)) = [k..end]"
      "\<forall>b \<in> set (scrollbackLoop x sid st n (mh_prevSnapshotMiniblockNum (pm_header mb)) from ((mb # mbs) @ acc)).
         b \<in> set ((mb # mbs) @ acc) \<or> getMiniblock x sid (blockNum b) st = Some b"
      using Suc.IH [OF acc, of "mh_prevSnapshotMiniblockNum (pm_header mb)"] nums(3) Suc.prems(2) by auto
    have "getMiniblock x sid (blockNum b) st = Some b" if "b \<in> set (mb # mbs)" for b
    proof -
      have all: "map (\<lambda>i. getMiniblock x sid i st) [from..to - 1] = map Some (mb # mbs)"
        using getMiniblocks_complete [of x sid "from" "to - 1" st] r by simp
      have "f (blockNum b) = Some b" if "map f (map blockNum ys) = map Some ys" "b \<in> set ys" for f ys
        using that by (induction ys) auto
      then show ?thesis using all nums(1) that by metis
    qed
    moreover have "scrollbackLoop x sid st (Suc n) from to acc =
        scrollbackLoop x sid st n (mh_prevSnapshotMiniblockNum (pm_header mb)) from ((mb # mbs) @ acc)"
      using r False nums(2) by (simp add: blockNum_def)
    ultimately show ?thesis
      using k nums(3) by (intro exI [of _ k]) auto
  qed
qed auto

section \<open>A stream keeps its id\<close>

definition has_id :: "string \<Rightarrow> StreamView \<Rightarrow> bool" where
  "has_id sid v = (v_streamId v = sid)"

lemma frame_id: "has_id sid v \<Longrightarrow> frame v v' \<Longrightarrow> has_id sid v'"
  by (simp add: has_id_def frame_def)

lemma appendedPayload_id [simp]: "v_streamId (fst (out_state (appendedPayload x a ct em st v))) = v_streamId v"
  using appendedPayload_frame [of v x a ct em st] by (simp add: frame_def)

lemma prependedPayload_id [simp]: "v_streamId (out_state (prependedPayload x a ct em v)) = v_streamId v"
  using prependedPayload_frame [of v x a ct em] by (simp add: frame_def)

lemma then_do_state:
  "out_state (then_do r f g) = (if out_error r = None then out_state (f (out_state r)) else g (out_state r))"
  by (auto simp: then_do_def split: prod.splits option.splits)

lemma then_do_out: "P (fst (out_state r)) \<Longrightarrow> (\<And>s. P (fst s) \<Longrightarrow> P (out_state (f s))) \<Longrightarrow> P (out_state (then_do r f fst))"
  by (simp add: then_do_state)

lemma processAppendedEvent_id: "has_id sid v \<Longrightarrow> has_id sid (fst (out_state (processAppendedEvent x a ct em st v)))"
  unfolding processAppendedEvent_def
  by (rule andThen_inv [where P = "\<lambda>vr. has_id sid (fst vr)"]) (auto simp: has_id_def check_def throw_def pass_def)

lemma processPrependedEvent_id: "has_id sid v \<Longrightarrow> has_id sid (out_state (processPrependedEvent x a ct em v))"
  unfolding processPrependedEvent_def
  by (rule andThen_inv [where P = "has_id sid"]) (auto simp: has_id_def check_def throw_def pass_def)

lemma appendOne_id: "has_id sid (fst vr) \<Longrightarrow> has_id sid (fst (out_state (appendOne x ct em st e vr)))"
proof (cases vr)
  case (Pair v r)
  assume "has_id sid (fst vr)"
  let ?ev = "makeRemoteTimelineEvent e (v_lastEventNum v) None None"
  have "has_id sid (v\<lparr>v_lastEventNum := v_lastEventNum v + 1, v_store := v_store v @ [?ev], v_timeline := v_timeline v @ [length (v_store v)]\<rparr>)"
    using \<open>has_id sid (fst vr)\<close> Pair by (simp add: has_id_def)
  from processAppendedEvent_id [OF this, of x "length (v_store v)" "cleartextOf ct (te_hashStr ?ev)" em st] \<open>has_id sid (fst vr)\<close> Pair
  show ?thesis
    by (auto simp: appendOne_def Let_def pass_def has_id_def split: option.splits prod.splits)
qed

lemma appendStreamAndCookie_id:
  assumes "has_id sid v"
  shows "has_id sid (fst (out_state (appendStreamAndCookie x cookie es ct em st v)))"
  unfolding appendStreamAndCookie_def
proof (rule andThen_inv [where P = "\<lambda>vr. has_id sid (fst vr)"])
  show "has_id sid (fst (out_state (for_each (appendOne x ct em st) es (v, \<lparr>ap_appended = [], ap_updated = [], ap_confirmed = []\<rparr>))))"
    using assms by (intro for_each_inv [where P = "\<lambda>vr. has_id sid (fst vr)"] appendOne_id) simp_all
qed (auto simp: has_id_def pass_def)

lemma prependEvents_id:
  assumes "has_id sid v"
  shows "has_id sid (out_state (prependEvents x mbs ct t em st v))"
  unfolding prependEvents_def Let_def
  by (rule andThen_inv [where P = "has_id sid"], rule for_each_inv [where P = "has_id sid"])
    (use assms in \<open>auto simp: emit_def has_id_def processPrependedEvent_id [unfolded has_id_def] split: option.splits\<close>)

lemma initialize_id:
  assumes "has_id sid v"
  shows "has_id sid (out_state (initialize x cookie pool sn mbs older prev ct locals em v))"
proof (cases mbs)
  case (Cons mb0 rest)
  have first: "has_id sid (out_state (initFirstBlock x mb0 ct em w))" if "has_id sid w" for w
    unfolding initFirstBlock_def Let_def
  proof (rule andThen_inv [where P = "has_id sid"])
    fix u assume "has_id sid u"
    then show "has_id sid (out_state (for_each (\<lambda>a v. processPrependedEvent x a (cleartextOf ct (te_hashStr (v_store v ! a))) em v)
        (rev (newPositions w (miniblockEvents mb0))) (u\<lparr>v_store := v_store u @ miniblockEvents mb0,
          v_timeline := v_timeline u @ newPositions w (miniblockEvents mb0)\<rparr>)))"
      by (intro for_each_inv [where P = "has_id sid"] processPrependedEvent_id) (simp_all add: has_id_def)
  qed (use that in \<open>simp add: check_def throw_def pass_def\<close>)
  have rest: "has_id sid (out_state (initRest x rest ct em w))" if "has_id sid w" for w
    unfolding initRest_def Let_def
  proof (rule for_each_inv [where P = "has_id sid"])
    fix a u assume "has_id sid u"
    then show "has_id sid (out_state (then_do (processAppendedEvent x a (cleartextOf ct (te_hashStr (v_store u ! a))) em False u)
        (\<lambda>(v, _). pass v) fst))"
      by (rule then_do_out [where P = "has_id sid", OF processAppendedEvent_id]) (auto simp: pass_def)
  qed (use that in \<open>simp add: has_id_def\<close>)
  have append: "has_id sid (out_state (then_do (appendStreamAndCookie x cookie pool ct em False
      (w\<lparr>v_lastEventNum := n, v_prevMiniblockHash := h\<rparr>)) (\<lambda>(v, _). pass (v\<lparr>v_prevSnapshotMiniblockNum := prev\<rparr>)) fst))"
    if "has_id sid w" for w n h
    using that by (intro then_do_out [where P = "has_id sid", OF appendStreamAndCookie_id]) (auto simp: pass_def has_id_def)
  have locals: "has_id sid (out_state (for_each (addLocalEvent em) locals w))" if "has_id sid w" for w
    using that by (intro for_each_inv [where P = "has_id sid"]) (auto simp: addLocalEvent_def Let_def on_field_def has_id_def split: prod.splits)
  have older: "has_id sid (out_state (case older of [] \<Rightarrow> pass w
      | pmb # _ \<Rightarrow> prependEvents x older ct (mh_miniblockNum (pm_header pmb) = 0) em False w))" if "has_id sid w" for w
    using that by (cases older) (simp_all add: pass_def prependEvents_id)
  have finish: "has_id sid (out_state (emit em ev (w\<lparr>v_isInitialized := True\<rparr>)))" if "has_id sid w" for w ev
    using that by (simp add: emit_def has_id_def)
  show ?thesis
    unfolding initialize_def Cons list.case Let_def
    by (rule andThen_inv [where P = "has_id sid"], rule andThen_inv [where P = "has_id sid"], rule andThen_inv [where P = "has_id sid"],
        rule andThen_inv [where P = "has_id sid"], rule andThen_inv [where P = "has_id sid"], rule andThen_inv [where P = "has_id sid"],
        rule frame_id [OF assms applySnapshot_frame], (rule first rest append older locals finish, assumption)+)
qed (use assms in \<open>simp add: initialize_def throw_def\<close>)

lemma on_stream_store [simp]: "snd (out_state (on_stream f c)) = snd c"
  by (auto simp: on_stream_def split: prod.splits)

lemma Stream_initialize_store: "snd (out_state (Stream_initialize x cookie es sn mbs older prev ct c)) = snd c"
  by (auto simp: Stream_initialize_def with_value_def throw_def Let_def split: sum.splits prod.splits)

lemma StreamView_new_id: "StreamView_new x userId streamId = Inr v \<Longrightarrow> has_id streamId v"
  by (auto simp: StreamView_new_def has_id_def bindE_Inr)

lemma Stream_initialize_id:
  "v_streamId (ss_view (fst (out_state (Stream_initialize x cookie es sn mbs older prev ct c)))) = v_streamId (ss_view (fst c))"
proof (cases "StreamView_new x (v_userId (ss_view (fst c))) (v_streamId (ss_view (fst c)))")
  case (Inr v)
  let ?f = "initialize x cookie es sn mbs older prev ct (unsentEvents (ss_view (fst c))) True"
  have "has_id (v_streamId (ss_view (fst c))) (out_state (?f v))"
    by (rule initialize_id [OF StreamView_new_id [OF Inr]])
  then show ?thesis
    using Inr by (cases c; cases "?f v") (simp add: Stream_initialize_def on_stream_def has_id_def with_value_def Let_def)
qed (simp add: Stream_initialize_def throw_def with_value_def Let_def)

lemma markUpToDate_store: "snd (out_state (markUpToDate c)) = snd c" "out_error (markUpToDate c) = None"
  by (auto simp: markUpToDate_def emit_def pass_def split: prod.splits)

text \<open>What initialization from the network leaves in the database.\<close>

lemma SyncedStream_initialize_saves:
  assumes "out_error (SyncedStream_initialize x cookie es sn mbs older prev ct (s, st)) = None"
  shows "snd (out_state (SyncedStream_initialize x cookie es sn mbs older prev ct (s, st))) =
    saveMiniblocks (v_streamId (ss_view s)) mbs (saveSyncedStream (v_streamId (ss_view s))
      \<lparr>pss_syncCookie = Some cookie, pss_lastSnapshotMiniblockNum = blockNum (hd mbs),
       pss_minipoolEvents = map parsedEventToPersistedEvent es, pss_lastMiniblockNum = blockNum (last mbs)\<rparr> st)"
proof -
  obtain s1 st1 es1 where r: "Stream_initialize x cookie es sn mbs older prev ct (s, st) = ((s1, st1), es1, None)"
    using assms by (cases "Stream_initialize x cookie es sn mbs older prev ct (s, st)")
      (auto simp: SyncedStream_initialize_def andThen_error split: if_splits)
  have "st1 = st" "v_streamId (ss_view s1) = v_streamId (ss_view s)"
    using Stream_initialize_store [of x cookie es sn mbs older prev ct "(s, st)"]
      Stream_initialize_id [of x cookie es sn mbs older prev ct "(s, st)"] r by simp_all
  then show ?thesis
    using r by (simp add: SyncedStream_initialize_def andThen_state andThen_error pass_def Let_def markUpToDate_store blockNum_def)
qed

lemma getMiniblock_saveSyncedStream [simp]: "getMiniblock x sid n (saveSyncedStream sid' c st) = getMiniblock x sid n st"
  by (simp add: getMiniblock_def saveSyncedStream_def)

lemma saveMiniblocks_streams: "st_syncedStreams (saveMiniblocks sid mbs st) = st_syncedStreams st"
  by (induction mbs arbitrary: st) (simp_all add: saveMiniblocks_def saveMiniblock_def)

lemma saveSyncedStream_ok: "store_ok x st \<Longrightarrow> store_ok x (saveSyncedStream sid c st)"
  by (simp add: store_ok_def)

lemma initializeFromResponse_saves:
  assumes "initializeFromResponse x r (s, st) = ((s1, st1), es, None)"
  shows "st1 = saveMiniblocks (v_streamId (ss_view s)) (psr_miniblocks r) (saveSyncedStream (v_streamId (ss_view s))
      \<lparr>pss_syncCookie = Some (psr_nextSyncCookie r), pss_lastSnapshotMiniblockNum = blockNum (hd (psr_miniblocks r)),
       pss_minipoolEvents = map parsedEventToPersistedEvent (psr_events r),
       pss_lastMiniblockNum = blockNum (last (psr_miniblocks r))\<rparr> st)"
proof -
  let ?i = "SyncedStream_initialize x (psr_nextSyncCookie r) (psr_events r) (psr_snapshot r) (psr_miniblocks r) []
    (psr_prevSnapshotMiniblockNum r) (getCleartexts (psr_eventIds r) st) (s, st)"
  have r: "andThen ?i markUpToDate = ((s1, st1), es, None)" using assms by (simp add: initializeFromResponse_def)
  then have "out_error (andThen ?i markUpToDate) = None" "snd (out_state (andThen ?i markUpToDate)) = st1" by simp_all
  then have "out_error ?i = None" "snd (out_state ?i) = st1"
    by (simp_all only: andThen_error andThen_state markUpToDate_store split: if_splits) simp_all
  with SyncedStream_initialize_saves [OF this(1)] show ?thesis by simp
qed

lemma cachedScrollback_contiguous:
  assumes "store_ok x st"
  obtains k where "k \<le> to" "map blockNum (cachedScrollback x sid from to st) = [k..to - 1]"
    "\<And>mb. mb \<in> set (cachedScrollback x sid from to st) \<Longrightarrow> getMiniblock x sid (blockNum mb) st = Some mb"
proof -
  have "\<exists>k \<le> to. map blockNum (scrollbackLoop x sid st CACHED_SCROLLBACK_COUNT from to []) = [k..to - 1] \<and>
      (\<forall>mb \<in> set (scrollbackLoop x sid st CACHED_SCROLLBACK_COUNT from to []). mb \<in> set [] \<or> getMiniblock x sid (blockNum mb) st = Some mb)"
    by (rule scrollbackLoop_contiguous [OF assms]) simp_all
  then have "\<exists>k \<le> to. map blockNum (cachedScrollback x sid from to st) = [k..to - 1] \<and>
      (\<forall>mb \<in> set (cachedScrollback x sid from to st). getMiniblock x sid (blockNum mb) st = Some mb)"
    unfolding cachedScrollback_def by (cases "\<not> isChannelStreamId x (StringId sid) \<and> \<not> isDMChannelStreamId x (StringId sid) \<and>
         \<not> isGDMChannelStreamId x (StringId sid)") (auto intro: exI [of _ to])
  then show ?thesis using that by blast
qed

text \<open>
  After a restart the stream is initialized from the local database with exactly what the node had delivered
  to the client: the same synchronisation cookie, minipool, snapshot and blocks. In front of
  them come older blocks of the database, without a gap, each the block stored under its number.
\<close>

lemma restart_restores:
  assumes "store_ok x st" "list_all (parsed_event x) (psr_events r)" "list_all (parsed_miniblock x) (psr_miniblocks r)"
    "map blockNum (psr_miniblocks r) = [a..b]" "psr_miniblocks r = mb # mbs"
    "mh_snapshot (pm_header mb) = Some (psr_snapshot r)"
    "mh_prevSnapshotMiniblockNum (pm_header mb) = psr_prevSnapshotMiniblockNum r"
    "initializeFromResponse x r (s, st) = ((s1, st1), es, None)"
    "SyncedStream_new x u (v_streamId (ss_view s)) = Inr s2"
  shows "\<exists>k older. map blockNum (older @ psr_miniblocks r) = [k..b] \<and>
    (\<forall>m \<in> set older. getMiniblock x (v_streamId (ss_view s)) (blockNum m) st1 = Some m) \<and>
    initializeFromPersistence x (s2, st1) = try_initialize
      (Stream_initialize x (psr_nextSyncCookie r) (psr_events r) (psr_snapshot r) (psr_miniblocks r) older
         (psr_prevSnapshotMiniblockNum r) (getCleartexts (cachedEventIds x (psr_miniblocks r) (psr_snapshot r) older) st1) (s2, st1))"
proof -
  let ?sid = "v_streamId (ss_view s)"
  note st1 = initializeFromResponse_saves [OF assms(8)]
  have ok: "store_ok x st1" unfolding st1 by (intro saveMiniblocks_ok saveSyncedStream_ok assms(1))
  have ab: "a \<le> b" "blockNum mb = a" using assms(4,5) by (auto simp: upto.simps [of a b] split: if_splits)
  have last: "blockNum (last (mb # mbs)) = b"
    using assms(4) unfolding assms(5) by (metis ab(1) last_map last_snoc list.distinct(1) upto_rec2)
  have id2: "v_streamId (ss_view s2) = ?sid"
    using assms(9) by (auto simp: SyncedStream_new_def bindE_Inr dest: StreamView_new_id simp: has_id_def)
  have cached: "getSyncedStream x ?sid st1 = Some \<lparr>rss_syncCookie = psr_nextSyncCookie r, rss_lastSnapshotMiniblockNum = a,
      rss_minipoolEvents = psr_events r, rss_lastMiniblockNum = b\<rparr>"
    unfolding st1 assms(5) using ab(2) last events_roundtrip [OF assms(2)]
    by (simp add: getSyncedStream_def saveMiniblocks_streams saveSyncedStream_def persistedSyncedStreamToParsedSyncedStream_def)
  have blocks: "getMiniblocks x ?sid a b st1 = mb # mbs"
    unfolding st1 using saved_range [OF assms(3,4)] assms(5) by simp
  obtain k where k: "k \<le> a" "map blockNum (cachedScrollback x ?sid (mh_prevSnapshotMiniblockNum (pm_header mb)) a st1) = [k..a - 1]"
    "\<And>m. m \<in> set (cachedScrollback x ?sid (mh_prevSnapshotMiniblockNum (pm_header mb)) a st1) \<Longrightarrow>
       getMiniblock x ?sid (blockNum m) st1 = Some m"
    by (rule cachedScrollback_contiguous [OF ok]) blast
  let ?older = "cachedScrollback x ?sid (mh_prevSnapshotMiniblockNum (pm_header mb)) a st1"
  have "map blockNum (?older @ psr_miniblocks r) = [k..b]"
    unfolding map_append k(2) assms(4) using k(1) ab(1) by (intro upto_joined) simp_all
  moreover have "initializeFromPersistence x (s2, st1) = try_initialize
      (Stream_initialize x (psr_nextSyncCookie r) (psr_events r) (psr_snapshot r) (psr_miniblocks r) ?older
         (psr_prevSnapshotMiniblockNum r) (getCleartexts (cachedEventIds x (psr_miniblocks r) (psr_snapshot r) ?older) st1) (s2, st1))"
    using cached blocks assms(5-7) ab(2) by (simp add: initializeFromPersistence_def id2 Let_def blockNum_def)
  ultimately show ?thesis using k(3) by blast
qed

section \<open>A stream in the database\<close>

definition sample_store :: Store where
  "sample_store = \<lparr>st_cleartexts = Map.empty, st_syncedStreams = Map.empty, st_miniblocks = Map.empty\<rparr>"

definition sample_stream :: SyncedStream where
  "sample_stream = \<lparr>ss_view = sample_view, ss_isUpToDate = False, ss_stopped = False\<rparr>"

definition sample_channel_snapshot :: Snapshot where
  "sample_channel_snapshot = \<lparr>sn_members = None, sn_snapshotVersion = 0, sn_content = SC_channel None\<rparr>"

definition sample_snapshot_block :: ParsedMiniblock where
  "sample_snapshot_block =
     (let header = (sample_header 4 [[1]])\<lparr>mh_snapshot := Some sample_channel_snapshot\<rparr>
      in \<lparr>pm_hash = [0], pm_header = header,
          pm_events = [sample_parsed 1 sample_message, sample_parsed 255 (PL_miniblockHeader header)]\<rparr>)"

definition sample_response :: ParsedStreamResponse where
  "sample_response =
     \<lparr>psr_snapshot = sample_channel_snapshot, psr_nextSyncCookie = sample_cookie, psr_events = [sample_parsed 7 sample_message],
      psr_miniblocks = [sample_snapshot_block], psr_prevSnapshotMiniblockNum = 0, psr_eventIds = []\<rparr>"

lemma sample_response_ok: "out_error (initializeFromResponse sample_externs sample_response (sample_stream, sample_store)) = None"
  by code_simp

text \<open>The blocks from \<open>lo\<close> to \<open>n\<close> are in the database, and the record of the stream names a range of them.\<close>

definition covered :: "externs \<Rightarrow> string \<Rightarrow> bigint \<Rightarrow> bigint \<Rightarrow> Store \<Rightarrow> bool" where
  "covered x sid lo n st =
     ((\<forall>i \<in> {lo..n}. getMiniblock x sid i st \<noteq> None) \<and>
      (case getSyncedStream x sid st of
         None \<Rightarrow> True
       | Some c \<Rightarrow> lo \<le> rss_lastSnapshotMiniblockNum c \<and> rss_lastMiniblockNum c \<le> n))"

text \<open>The miniblock headers among the events continue the blocks from \<open>n\<close>, one number after the other.\<close>

fun headers_follow :: "bigint \<Rightarrow> bigint \<Rightarrow> ParsedEvent list \<Rightarrow> bool" where
  "headers_follow lo n [] = True"
| "headers_follow lo n (e # es) =
     (case se_payload (pe_event e) of
        PL_miniblockHeader h \<Rightarrow> mh_miniblockNum h = n + 1 \<and> lo \<le> mh_prevSnapshotMiniblockNum h \<and> headers_follow lo (n + 1) es
      | _ \<Rightarrow> headers_follow lo n es)"

lemma getMiniblock_saveMiniblock_Some:
  "getMiniblock x sid i (saveMiniblock sid mb st) \<noteq> None \<longleftrightarrow> i = blockNum mb \<or> getMiniblock x sid i st \<noteq> None"
  by (auto simp: getMiniblock_def saveMiniblock_def blockNum_def persistedMiniblockToParsedMiniblock_def parsedMiniblockToPersistedMiniblock_def)

lemma getSyncedStream_saveMiniblock [simp]: "getSyncedStream x sid (saveMiniblock sid' mb st) = getSyncedStream x sid st"
  by (simp add: getSyncedStream_def saveMiniblock_def)

lemma getSyncedStream_saved:
  "getSyncedStream x sid (saveSyncedStream sid c st) = persistedSyncedStreamToParsedSyncedStream x c"
  by (simp add: getSyncedStream_def saveSyncedStream_def)

lemma onMiniblockHeader_covered:
  assumes "covered x sid lo n st" "v_streamId (ss_view s) = sid" "mh_miniblockNum h = n + 1" "lo \<le> mh_prevSnapshotMiniblockNum h"
  shows "out_error (onMiniblockHeader x h e hash (s, st)) = None \<Longrightarrow>
      covered x sid lo (n + 1) (snd (out_state (onMiniblockHeader x h e hash (s, st))))"
    "out_error (onMiniblockHeader x h e hash (s, st)) \<noteq> None \<Longrightarrow> snd (out_state (onMiniblockHeader x h e hash (s, st))) = st"
    "fst (out_state (onMiniblockHeader x h e hash (s, st))) = s"
proof -
  have save: "covered x sid lo (n + 1) (saveMiniblock sid \<lparr>pm_hash = hash, pm_header = h, pm_events = es\<rparr> st)" for es
  proof -
    have "getMiniblock x sid i (saveMiniblock sid \<lparr>pm_hash = hash, pm_header = h, pm_events = es\<rparr> st) \<noteq> None" if "i \<in> {lo..n + 1}" for i
    proof (cases "i = n + 1")
      case False
      then have "i \<in> {lo..n}" using that by simp
      then show ?thesis using assms(1) unfolding covered_def getMiniblock_saveMiniblock_Some by blast
    qed (unfold getMiniblock_saveMiniblock_Some, simp add: blockNum_def assms(3))
    then show ?thesis using assms(1) by (simp add: covered_def split: option.splits)
  qed
  have both: "covered x sid lo (n + 1) (saveSyncedStream sid \<lparr>pss_syncCookie = Some cookie,
      pss_lastSnapshotMiniblockNum = mh_prevSnapshotMiniblockNum h, pss_minipoolEvents = pool, pss_lastMiniblockNum = n + 1\<rparr> st')"
    if "covered x sid lo (n + 1) st'" for cookie pool st'
    using that assms(4) by (simp add: covered_def getSyncedStream_saved persistedSyncedStreamToParsedSyncedStream_def)
  let ?found = "length (List.map_filter (remoteEventAt (ss_view s)) (map (bin_toHexString x) (mh_eventHashes h))) = length (mh_eventHashes h)"
  have error: "out_error (onMiniblockHeader x h e hash (s, st)) = None \<longleftrightarrow> ?found"
    by (simp add: onMiniblockHeader_def Let_def throw_def pass_def split: option.split)
  show "out_error (onMiniblockHeader x h e hash (s, st)) = None \<Longrightarrow>
      covered x sid lo (n + 1) (snd (out_state (onMiniblockHeader x h e hash (s, st))))"
    unfolding error using save both by (simp add: onMiniblockHeader_def Let_def pass_def assms(2,3) split: option.split)
  show "out_error (onMiniblockHeader x h e hash (s, st)) \<noteq> None \<Longrightarrow> snd (out_state (onMiniblockHeader x h e hash (s, st))) = st"
    unfolding error by (simp add: onMiniblockHeader_def Let_def throw_def)
  show "fst (out_state (onMiniblockHeader x h e hash (s, st))) = s"
    by (simp add: onMiniblockHeader_def Let_def throw_def pass_def split: option.split)
qed

lemma onAppended_covered:
  assumes "covered x sid lo n st" "v_streamId (ss_view s) = sid" "headers_follow lo n es"
  shows "\<exists>m \<ge> n. covered x sid lo m (snd (out_state (for_each (onAppended x) es (s, st))))"
  using assms
proof (induction es arbitrary: n st)
  case Nil
  then show ?case by (auto simp: pass_def)
next
  case (Cons e es)
  show ?case
  proof (cases "\<exists>h. se_payload (pe_event e) = PL_miniblockHeader h")
    case True
    then obtain h where h: "se_payload (pe_event e) = PL_miniblockHeader h" by blast
    let ?r = "onMiniblockHeader x h e (pe_hash e) (s, st)"
    have follow: "mh_miniblockNum h = n + 1" "lo \<le> mh_prevSnapshotMiniblockNum h" "headers_follow lo (n + 1) es"
      using Cons.prems(3) h by simp_all
    have e: "onAppended x e (s, st) = ?r" by (simp add: onAppended_def h)
    note step = onMiniblockHeader_covered [OF Cons.prems(1,2) follow(1,2), of e "pe_hash e"]
    show ?thesis
    proof (cases "out_error ?r = None")
      case True
      obtain m where "n + 1 \<le> m" "covered x sid lo m (snd (out_state (for_each (onAppended x) es (s, snd (out_state ?r)))))"
        using Cons.IH [OF step(1) [OF True] Cons.prems(2) follow(3)] by blast
      moreover have "out_state ?r = (s, snd (out_state ?r))" using step(3) by (metis prod.collapse)
      ultimately show ?thesis using True by (intro exI [of _ m]) (simp add: e andThen_state)
    next
      case False
      then show ?thesis using step(2) Cons.prems(1) by (auto simp: e andThen_state)
    qed
  next
    case False
    then have "onAppended x e (s, st) = pass (s, st)" "headers_follow lo n es"
      using Cons.prems(3) by (auto simp: onAppended_def split: StreamEvent_payload.splits)
    then show ?thesis using Cons.IH [OF Cons.prems(1,2)] by (simp add: andThen_state pass_def)
  qed
qed

lemma appendEvents_id: "has_id sid v \<Longrightarrow> has_id sid (out_state (appendEvents x events cookie ct v))"
  unfolding appendEvents_def
  by (rule then_do_out [where P = "has_id sid", OF appendStreamAndCookie_id]) (auto simp: emit_def)

lemma on_stream_id:
  "(\<And>v. has_id sid v \<Longrightarrow> has_id sid (out_state (f v))) \<Longrightarrow> has_id sid (ss_view (fst c)) \<Longrightarrow>
     has_id sid (ss_view (fst (out_state (on_stream f c))))"
  by (cases c; cases "f (ss_view (fst c))") (fastforce simp: on_stream_def)

lemma SyncedStream_appendEvents_covered:
  assumes "covered x sid lo n st" "v_streamId (ss_view s) = sid" "headers_follow lo n events"
  shows "\<exists>m \<ge> n. covered x sid lo m (snd (out_state (SyncedStream_appendEvents x events cookie ct (s, st))))"
proof -
  let ?r = "on_stream (appendEvents x events cookie ct) (s, st)"
  have "has_id sid (ss_view (fst (out_state ?r)))"
    using assms(2) by (intro on_stream_id appendEvents_id) (simp_all add: has_id_def)
  then have "\<exists>m \<ge> n. covered x sid lo m (snd (out_state (for_each (onAppended x) events (fst (out_state ?r), st))))"
    using assms(1,3) by (intro onAppended_covered) (simp_all add: has_id_def)
  moreover have "out_state ?r = (fst (out_state ?r), st)" by (metis on_stream_store prod.collapse snd_conv)
  ultimately show ?thesis
    using assms(1) by (auto simp: SyncedStream_appendEvents_def andThen_state markUpToDate_store)
qed

lemma covered_complete:
  assumes "covered x sid lo n st" "store_ok x st" "getSyncedStream x sid st = Some c"
  shows "map blockNum (getMiniblocks x sid (rss_lastSnapshotMiniblockNum c) (rss_lastMiniblockNum c) st) =
    [rss_lastSnapshotMiniblockNum c..rss_lastMiniblockNum c]"
proof -
  let ?is = "[rss_lastSnapshotMiniblockNum c..rss_lastMiniblockNum c]"
  define mbs where "mbs = map (\<lambda>i. the (getMiniblock x sid i st)) ?is"
  have "getMiniblock x sid i st \<noteq> None" if "i \<in> set ?is" for i
    using assms(1,3) that by (auto simp: covered_def)
  then have all: "map (\<lambda>i. getMiniblock x sid i st) ?is = map Some mbs" by (auto simp: mbs_def)
  have "map blockNum mbs = ?is"
    using assms(2) \<open>\<And>i. i \<in> set ?is \<Longrightarrow> getMiniblock x sid i st \<noteq> None\<close>
    unfolding mbs_def map_map by (intro map_idI) (fastforce simp: store_ok_def)
  then show ?thesis using getMiniblocks_known [OF all] by simp
qed

lemma onAppended_ok: "store_ok x (snd c) \<Longrightarrow> store_ok x (snd (out_state (onAppended x e c)))"
  by (cases c) (auto simp: onAppended_def onMiniblockHeader_def Let_def throw_def pass_def saveMiniblock_ok saveSyncedStream_ok
      split: StreamEvent_payload.split option.split)

lemma SyncedStream_appendEvents_ok:
  "store_ok x st \<Longrightarrow> store_ok x (snd (out_state (SyncedStream_appendEvents x events cookie ct (s, st))))"
  unfolding SyncedStream_appendEvents_def
  by (intro andThen_inv [where P = "\<lambda>c. store_ok x (snd c)"] for_each_inv [where P = "\<lambda>c. store_ok x (snd c)"])
    (simp_all add: onAppended_ok markUpToDate_store)

text \<open>
  (C26) The database keeps every block that the record of a stream refers to. When the appended events
  contain miniblock headers that continue the numbering, then afterwards reading the range from the
  last snapshot to the last block gives every block of it, so a later restart finds its blocks.
\<close>

theorem appended_blocks_complete:
  assumes "covered x (v_streamId (ss_view s)) lo n st" "store_ok x st" "headers_follow lo n events"
    and "SyncedStream_appendEvents x events cookie ct (s, st) = ((s', st'), es, err)"
    and "getSyncedStream x (v_streamId (ss_view s)) st' = Some c"
  shows "map blockNum (getMiniblocks x (v_streamId (ss_view s)) (rss_lastSnapshotMiniblockNum c) (rss_lastMiniblockNum c) st') =
    [rss_lastSnapshotMiniblockNum c..rss_lastMiniblockNum c]"
proof -
  obtain m where "covered x (v_streamId (ss_view s)) lo m st'"
    using SyncedStream_appendEvents_covered [OF assms(1) refl assms(3), of cookie ct] assms(4) by auto
  moreover have "store_ok x st'"
    using SyncedStream_appendEvents_ok [OF assms(2), of events cookie ct s] assms(4) by simp
  ultimately show ?thesis by (rule covered_complete [OF _ _ assms(5)])
qed

definition sample_next_header :: ParsedEvent where
  "sample_next_header = sample_parsed 99 (PL_miniblockHeader ((sample_header 5 [[7]])\<lparr>mh_prevSnapshotMiniblockNum := 4\<rparr>))"

definition sample_synced :: "SyncedStream \<times> Store" where
  "sample_synced = out_state (initializeFromResponse sample_externs sample_response (sample_stream, sample_store))"

theorem appended_blocks_complete_witness:
  "map blockNum (getMiniblocks sample_externs sample_channel 4 5
     (snd (out_state (SyncedStream_appendEvents sample_externs [sample_next_header] sample_cookie None sample_synced)))) = [4, 5]"
proof -
  obtain s st where sst: "sample_synced = (s, st)" by (cases sample_synced)
  let ?r = "SyncedStream_appendEvents sample_externs [sample_next_header] sample_cookie None sample_synced"
  obtain s' st' es err where r: "?r = ((s', st'), es, err)" by (metis prod.collapse)
  have "v_streamId (ss_view (fst sample_synced)) = sample_channel"
    "getMiniblock sample_externs sample_channel 4 (snd sample_synced) = Some sample_snapshot_block"
    "map_option (\<lambda>c. (rss_lastSnapshotMiniblockNum c, rss_lastMiniblockNum c)) (getSyncedStream sample_externs sample_channel (snd sample_synced))
       = Some (4, 4)" by code_simp+
  then have id: "v_streamId (ss_view s) = sample_channel" and cov: "covered sample_externs sample_channel 4 4 st"
    by (auto simp: sst covered_def)
  have follow: "headers_follow 4 4 [sample_next_header]" by code_simp
  have "map_option (\<lambda>c. (rss_lastSnapshotMiniblockNum c, rss_lastMiniblockNum c))
      (getSyncedStream sample_externs sample_channel (snd (out_state ?r))) = Some (4, 5)" by code_simp
  then obtain c where c: "getSyncedStream sample_externs sample_channel st' = Some c"
    "rss_lastSnapshotMiniblockNum c = 4" "rss_lastMiniblockNum c = 5" by (auto simp: r)
  have "store_ok sample_externs (snd sample_synced)"
  proof -
    obtain s1 st1 es where i: "initializeFromResponse sample_externs sample_response (sample_stream, sample_store) = ((s1, st1), es, None)"
      using sample_response_ok by (cases "initializeFromResponse sample_externs sample_response (sample_stream, sample_store)") auto
    have "store_ok sample_externs sample_store" by (simp add: store_ok_def sample_store_def getMiniblock_def)
    then show ?thesis
      by (simp add: sample_synced_def i initializeFromResponse_saves [OF i] saveMiniblocks_ok saveSyncedStream_ok)
  qed
  then have ok: "store_ok sample_externs st" by (simp add: sst)
  have "[4..5::int] = [4, 5]" by code_simp
  then show ?thesis
    using appended_blocks_complete [of sample_externs s 4 4 st, OF _ ok follow r [unfolded sst], unfolded id, OF cov c(1)] c(2,3)
    by (simp add: r)
qed

end
