(* ===== verification/Sign.thy ===== *)
theory Sign
  imports SyncedStream
begin

text \<open>
  Signing and unpacking of events: \<open>core/sdk/src/sign.ts\<close> and \<open>core/sdk/src/signerContext.ts\<close>. The
  signature scheme, the wallets and the generated protobuf code are packages, gathered in the
  record \<open>crypto\<close> that is passed beside \<open>externs\<close>.
\<close>

section \<open>Packages and messages\<close>

record rpc_sig =
  rs_v :: int
  rs_r :: bytes
  rs_s :: bytes

record crypto =
  c_signSync :: "bytes \<Rightarrow> string \<Rightarrow> js_error + bytes \<times> 8 word"
  c_recoverPublicKey :: "bytes \<Rightarrow> bytes \<Rightarrow> 8 word \<Rightarrow> js_error + bytes"
  c_verify :: "bytes \<Rightarrow> bytes \<Rightarrow> bytes \<Rightarrow> bool"
  c_hashPersonalMessage :: "bytes \<Rightarrow> bytes"
  c_fromRpcSig :: "string \<Rightarrow> js_error + rpc_sig"
  c_ecrecover :: "bytes \<Rightarrow> rpc_sig \<Rightarrow> js_error + bytes"
  c_toBinary :: "StreamEvent \<Rightarrow> bytes"
  c_fromBinary :: "bytes \<Rightarrow> js_error + StreamEvent"

text \<open>The user's wallet as it is used, and the device's.\<close>

record PrimaryWallet =
  pw_signMessage :: "bytes \<Rightarrow> js_error + string"
  pw_address :: string

record DelegateWallet =
  dw_publicKey :: string
  dw_privateKey :: string

record Envelope =
  env_hash :: bytes
  env_signature :: bytes
  env_event :: bytes

record Miniblock =
  mb_events :: "Envelope list"
  mb_header :: "Envelope option"

record StreamAndCookie =
  sac_events :: "Envelope list"
  sac_nextSyncCookie :: "SyncCookie option"
  sac_miniblocks :: "Miniblock list"
  sac_syncReset :: bool

record ParsedStreamAndCookie =
  psc_nextSyncCookie :: SyncCookie
  psc_miniblocks :: "ParsedMiniblock list"
  psc_events :: "ParsedEvent list"

section \<open>Hashes and signatures\<close>

definition HASH_HEADER :: bytes where
  "HASH_HEADER = [67, 83, 66, 76, 65, 78, 67, 65]"

definition HASH_SEPARATOR :: bytes where
  "HASH_SEPARATOR = [65, 66, 67, 68, 69, 70, 71, 62]"

definition HASH_FOOTER :: bytes where
  "HASH_FOOTER = [60, 71, 70, 69, 68, 67, 66, 65]"

definition RIVER_SIG_HEADER :: bytes where
  "RIVER_SIG_HEADER = [82, 73, 86, 69, 82, 83, 73, 71]"

text \<open>\<open>num >>> 8\<close> first takes the number to 32 bits, \<open>num & 0xff\<close> its lowest byte; writes past the array are ignored.\<close>

function le_loop :: "nat \<Rightarrow> bytes" where
  "le_loop 0 = []"
| "le_loop (Suc n) = of_nat (Suc n) # le_loop (unat (drop_bit 8 (of_nat (Suc n) :: 32 word)))"
  by pat_completeness auto
termination
proof (relation "measure id")
  fix n
  have "unat (drop_bit 8 (of_nat (Suc n) :: 32 word)) = Suc n mod 2 ^ 32 div 256"
    by (simp add: drop_bit_eq_div unat_div unat_of_nat del: of_nat_Suc)
  also have "\<dots> \<le> Suc n div 256" by (intro div_le_mono) simp
  finally show "(unat (drop_bit 8 (of_nat (Suc n) :: 32 word)), Suc n) \<in> measure id" by simp
qed simp

definition numberToUint8Array64LE :: "nat \<Rightarrow> bytes" where
  "numberToUint8Array64LE num = take 8 (le_loop num @ replicate 8 0)"

text \<open>\<open>setBigInt64\<close> keeps the low 64 bits.\<close>

definition bigintToUint8Array64LE :: "bigint \<Rightarrow> bytes" where
  "bigintToUint8Array64LE num = map (\<lambda>i. of_int (num div 256 ^ i)) [0..<8]"

definition pushByteToUint8Array :: "bytes \<Rightarrow> 8 word \<Rightarrow> bytes" where
  "pushByteToUint8Array arr byte = arr @ [byte]"

text \<open>\<open>assertBytes(b, ...lengths)\<close> of the package: throws unless the length is one of those given.\<close>

definition assertBytes :: "bytes \<Rightarrow> nat list \<Rightarrow> js_error + unit" where
  "assertBytes b lengths =
     (if lengths \<noteq> [] \<and> length b \<notin> set lengths then Inl (LibError ''Expected Uint8Array of length'') else Inr ())"

definition checkSignature :: "bytes \<Rightarrow> js_error + unit" where
  "checkSignature signature = assertBytes signature [65]"

definition checkHash :: "bytes \<Rightarrow> js_error + unit" where
  "checkHash hash = assertBytes hash [32]"

definition hashedBytes :: "bytes \<Rightarrow> bytes" where
  "hashedBytes data = HASH_HEADER @ numberToUint8Array64LE (length data) @ HASH_SEPARATOR @ data @ HASH_FOOTER"

definition riverHash :: "externs \<Rightarrow> bytes \<Rightarrow> bytes" where
  "riverHash x data = x_keccak256 x (hashedBytes data)"

definition riverDelegateHashSrc :: "bytes \<Rightarrow> bigint \<Rightarrow> js_error + bytes" where
  "riverDelegateHashSrc devicePublicKey expiryEpochMs =
     bindE (checkE (expiryEpochMs \<ge> 0) ''Expiry should be positive'' ERR_UNSPECIFIED) (\<lambda>_.
     bindE (checkE (length devicePublicKey = 64 \<or> length devicePublicKey = 65) ''Bad public key'' ERR_UNSPECIFIED) (\<lambda>_.
     Inr (RIVER_SIG_HEADER @ devicePublicKey @ bigintToUint8Array64LE expiryEpochMs)))"

definition riverSign :: "crypto \<Rightarrow> bytes \<Rightarrow> string \<Rightarrow> js_error + bytes" where
  "riverSign c hash privateKey =
     bindE (checkHash hash) (\<lambda>_.
     bindE (c_signSync c hash privateKey) (\<lambda>(sig, recovery). Inr (pushByteToUint8Array sig recovery)))"

definition riverVerifySignature :: "crypto \<Rightarrow> bytes \<Rightarrow> bytes \<Rightarrow> bytes \<Rightarrow> js_error + bool" where
  "riverVerifySignature c hash signature publicKey =
     bindE (checkHash hash) (\<lambda>_. bindE (checkSignature signature) (\<lambda>_. Inr (c_verify c (take 64 signature) hash publicKey)))"

definition riverRecoverPubKey :: "crypto \<Rightarrow> bytes \<Rightarrow> bytes \<Rightarrow> js_error + bytes" where
  "riverRecoverPubKey c hash signature =
     bindE (checkHash hash) (\<lambda>_.
     bindE (checkSignature signature) (\<lambda>_. c_recoverPublicKey c hash (take 64 signature) (signature ! 64)))"

definition publicKeyToAddress :: "externs \<Rightarrow> bytes \<Rightarrow> js_error + bytes" where
  "publicKeyToAddress x publicKey =
     bindE (assertBytes publicKey [64, 65]) (\<lambda>_.
     let key = (if length publicKey = 65 then drop 1 publicKey else publicKey); hash = x_keccak256 x key
     in Inr (drop (length hash - 20) hash))"

definition publicKeyToUint8Array :: "externs \<Rightarrow> string \<Rightarrow> js_error + bytes" where
  "publicKeyToUint8Array x publicKey =
     bindE (checkE (startsWith publicKey ''0x04'' \<and> length publicKey = 132) ''Bad public key'' BAD_PUBLIC_KEY)
       (\<lambda>_. bin_fromHexString x publicKey)"

section \<open>Signer contexts\<close>

record SignerContext =
  ctx_privateKey :: string
  ctx_creatorAddress :: bytes
  ctx_delegateSig :: "bytes option"
  ctx_delegateExpiryEpochMs :: "bigint option"

definition checkDelegateSig :: "externs \<Rightarrow> crypto \<Rightarrow> bytes \<Rightarrow> bytes \<Rightarrow> bytes \<Rightarrow> bigint \<Rightarrow> js_error + unit" where
  "checkDelegateSig x c delegatePubKey creatorAddress delegateSig expiryEpochMs =
     bindE (riverDelegateHashSrc delegatePubKey expiryEpochMs) (\<lambda>hashSource.
     bindE (c_fromRpcSig c (''0x'' @ bin_toHexString x delegateSig)) (\<lambda>vrs.
     bindE (c_ecrecover c (c_hashPersonalMessage c hashSource) vrs) (\<lambda>recoveredCreatorPubKey.
     bindE (publicKeyToAddress x recoveredCreatorPubKey) (\<lambda>recoveredCreatorAddress.
     checkE (bin_equal x (Some recoveredCreatorAddress) (Some creatorAddress))
       ''delegateSig does not match creatorAddress'' BAD_DELEGATE_SIG))))"

definition makeRiverDelegateSig :: "externs \<Rightarrow> PrimaryWallet \<Rightarrow> string \<Rightarrow> bigint \<Rightarrow> js_error + bytes" where
  "makeRiverDelegateSig x primaryWallet devicePubKeyStr expiryEpochMs =
     bindE (publicKeyToUint8Array x devicePubKeyStr) (\<lambda>devicePubKey.
     bindE (checkE (length devicePubKey = 65) ''Bad public key'' BAD_PUBLIC_KEY) (\<lambda>_.
     bindE (riverDelegateHashSrc devicePubKey expiryEpochMs) (\<lambda>hashSrc.
     bindE (pw_signMessage primaryWallet hashSrc) (bin_fromHexString x))))"

text \<open>The expiry: none, a time, or a duration of days, hours, minutes and seconds from now.\<close>

datatype Expiry = NoExpiry | ExpiryAt bigint | ExpiryIn "int option" "int option" "int option" "int option"

definition makeExpiryEpochMs :: "bigint \<Rightarrow> int option \<Rightarrow> int option \<Rightarrow> int option \<Rightarrow> int option \<Rightarrow> js_error + bigint" where
  "makeExpiryEpochMs now days hours minutes seconds =
     (let part = (\<lambda>ms n. case n of None \<Rightarrow> 0 | Some k \<Rightarrow> ms * k);
          delta = part (1000 * 60 * 60 * 24) days + part (1000 * 60 * 60) hours + part (1000 * 60) minutes + part 1000 seconds
      in bindE (checkE (delta \<noteq> 0) ''Bad expiration, no values were set'' ERR_UNSPECIFIED) (\<lambda>_. Inr (now + delta)))"

definition makeSignerContext ::
    "externs \<Rightarrow> bigint \<Rightarrow> PrimaryWallet \<Rightarrow> DelegateWallet \<Rightarrow> Expiry \<Rightarrow> js_error + SignerContext" where
  "makeSignerContext x now primaryWallet delegateWallet inExpiryEpochMs =
     bindE (case inExpiryEpochMs of
              NoExpiry \<Rightarrow> Inr 0 | ExpiryAt ms \<Rightarrow> Inr ms
            | ExpiryIn days hours minutes seconds \<Rightarrow> makeExpiryEpochMs now days hours minutes seconds) (\<lambda>delegateExpiryEpochMs.
     bindE (makeRiverDelegateSig x primaryWallet (dw_publicKey delegateWallet) delegateExpiryEpochMs) (\<lambda>delegateSig.
     bindE (bin_fromHexString x (pw_address primaryWallet)) (\<lambda>creatorAddress.
     Inr \<lparr>ctx_privateKey = drop 2 (dw_privateKey delegateWallet), ctx_creatorAddress = creatorAddress,
          ctx_delegateSig = Some delegateSig, ctx_delegateExpiryEpochMs = Some delegateExpiryEpochMs\<rparr>)))"

section \<open>Making events\<close>

text \<open>Whether the oneof of a payload's value is set.\<close>

fun contentSet :: "StreamEvent_payload \<Rightarrow> bool" where
  "contentSet (PL_memberPayload p) = (p \<noteq> MP_undefined)"
| "contentSet (PL_spacePayload p) = (p \<noteq> SP_undefined)"
| "contentSet (PL_channelPayload p) = (p \<noteq> CP_undefined)"
| "contentSet (PL_userPayload p) = (p \<noteq> UP_undefined)"
| "contentSet (PL_userSettingsPayload p) = (p \<noteq> USP_undefined)"
| "contentSet (PL_userDeviceKeyPayload p) = (p \<noteq> UDKP_undefined)"
| "contentSet (PL_userInboxPayload p) = (p \<noteq> UIP_undefined)"
| "contentSet (PL_mediaPayload p) = (p \<noteq> MEP_undefined)"
| "contentSet (PL_dmChannelPayload p) = (p \<noteq> DMP_undefined)"
| "contentSet (PL_gdmChannelPayload p) = (p \<noteq> GDMP_undefined)"
| "contentSet (PL_miniblockHeader h) = mh_contentSet h"
| "contentSet PL_undefined = False"

definition newStreamEvent :: "SignerContext \<Rightarrow> StreamEvent_payload \<Rightarrow> bytes option \<Rightarrow> bytes \<Rightarrow> bigint \<Rightarrow> StreamEvent" where
  "newStreamEvent context payload prevMiniblockHash salt now =
     (let streamEvent = \<lparr>se_creatorAddress = ctx_creatorAddress context, se_delegateSig = [], se_salt = salt,
            se_prevMiniblockHash = prevMiniblockHash, se_createdAtEpochMs = now, se_delegateExpiryEpochMs = 0, se_payload = payload\<rparr>
      in case ctx_delegateSig context of
           None \<Rightarrow> streamEvent
         | Some delegateSig \<Rightarrow> streamEvent\<lparr>se_delegateSig := delegateSig,
             se_delegateExpiryEpochMs := (case ctx_delegateExpiryEpochMs context of None \<Rightarrow> 0 | Some e \<Rightarrow> e)\<rparr>)"

definition makeEvent_impl ::
    "externs \<Rightarrow> crypto \<Rightarrow> SignerContext \<Rightarrow> StreamEvent_payload \<Rightarrow> bytes option \<Rightarrow> bytes \<Rightarrow> bigint \<Rightarrow> js_error + Envelope" where
  "makeEvent_impl x c context payload prevMiniblockHash salt now =
     (let event = c_toBinary c (newStreamEvent context payload prevMiniblockHash salt now); hash = riverHash x event
      in bindE (riverSign c hash (ctx_privateKey context)) (\<lambda>signature.
           Inr \<lparr>env_hash = hash, env_signature = signature, env_event = event\<rparr>))"

definition makeEvent ::
    "externs \<Rightarrow> crypto \<Rightarrow> SignerContext \<Rightarrow> StreamEvent_payload \<Rightarrow> bytes option \<Rightarrow> bytes \<Rightarrow> bigint \<Rightarrow> js_error + Envelope" where
  "makeEvent x c context payload prevMiniblockHash salt now =
     bindE (checkE (payload \<noteq> PL_undefined) ''Payload can't be empty'' BAD_PAYLOAD) (\<lambda>_.
     bindE (checkE (contentSet payload) ''Payload content case can't be empty'' BAD_PAYLOAD) (\<lambda>_.
     bindE (case prevMiniblockHash of
              None \<Rightarrow> Inr ()
            | Some h \<Rightarrow> checkE (length h = 32) ''prevMiniblockHash should be 32 bytes'' BAD_HASH_FORMAT) (\<lambda>_.
     makeEvent_impl x c context payload prevMiniblockHash salt now)))"

text \<open>Several events; the salt and the time of each are given.\<close>

fun makeEvents ::
    "externs \<Rightarrow> crypto \<Rightarrow> SignerContext \<Rightarrow> (StreamEvent_payload \<times> bytes \<times> bigint) list \<Rightarrow> bytes option \<Rightarrow> js_error + Envelope list" where
  "makeEvents x c context [] prevMiniblockHash = Inr []"
| "makeEvents x c context ((payload, salt, now) # rest) prevMiniblockHash =
     bindE (makeEvent x c context payload prevMiniblockHash salt now) (\<lambda>event.
     bindE (makeEvents x c context rest prevMiniblockHash) (\<lambda>events. Inr (event # events)))"

definition makeEventRef :: "externs \<Rightarrow> string + bytes \<Rightarrow> Envelope \<Rightarrow> js_error + EventRef" where
  "makeEventRef x streamId event =
     bindE (case streamId of Inl s \<Rightarrow> bin_fromHexString x s | Inr b \<Rightarrow> Inr b) (\<lambda>sid.
     Inr \<lparr>er_streamId = sid, er_hash = env_hash event, er_signature = env_signature event\<rparr>)"

section \<open>Unpacking\<close>

definition verifyEnvelope :: "externs \<Rightarrow> crypto \<Rightarrow> Envelope \<Rightarrow> StreamEvent \<Rightarrow> js_error + unit" where
  "verifyEnvelope x c envelope event =
     (let hash = riverHash x (env_event envelope)
      in bindE (checkE (bin_equal x (Some hash) (Some (env_hash envelope))) ''Event id is not valid'' BAD_EVENT_ID) (\<lambda>_.
         bindE (riverRecoverPubKey c hash (env_signature envelope)) (\<lambda>recoveredPubKey.
         if se_delegateSig event = []
         then bindE (publicKeyToAddress x recoveredPubKey) (\<lambda>address.
                checkE (bin_equal x (Some address) (Some (se_creatorAddress event))) ''Event signature is not valid'' BAD_EVENT_SIGNATURE)
         else checkDelegateSig x c recoveredPubKey (se_creatorAddress event) (se_delegateSig event) (se_delegateExpiryEpochMs event))))"

definition unpackEnvelope :: "externs \<Rightarrow> crypto \<Rightarrow> bool \<Rightarrow> Envelope \<Rightarrow> js_error + ParsedEvent" where
  "unpackEnvelope x c disableChecks envelope =
     bindE (checkE (env_event envelope \<noteq> []) ''Event base is not set'' BAD_EVENT) (\<lambda>_.
     bindE (checkE (env_hash envelope \<noteq> []) ''Event hash is not set'' BAD_EVENT) (\<lambda>_.
     bindE (checkE (env_signature envelope \<noteq> []) ''Event signature is not set'' BAD_EVENT) (\<lambda>_.
     bindE (c_fromBinary c (env_event envelope)) (\<lambda>event.
     bindE (if disableChecks then Inr () else verifyEnvelope x c envelope event) (\<lambda>_.
     bindE (userIdFromAddress x (se_creatorAddress event)) (\<lambda>creatorUserId.
     Inr \<lparr>pe_event = event, pe_hash = env_hash envelope, pe_hashStr = bin_toHexString x (env_hash envelope),
          pe_prevMiniblockHashStr = map_option (bin_toHexString x) (se_prevMiniblockHash event),
          pe_creatorUserId = creatorUserId\<rparr>))))))"

fun unpackEnvelopes :: "externs \<Rightarrow> crypto \<Rightarrow> bool \<Rightarrow> Envelope list \<Rightarrow> js_error + ParsedEvent list" where
  "unpackEnvelopes x c disableChecks [] = Inr []"
| "unpackEnvelopes x c disableChecks (e # es) =
     bindE (unpackEnvelope x c disableChecks e) (\<lambda>p. bindE (unpackEnvelopes x c disableChecks es) (\<lambda>ps. Inr (p # ps)))"

definition unpackMiniblock :: "externs \<Rightarrow> crypto \<Rightarrow> bool \<Rightarrow> Miniblock \<Rightarrow> js_error + ParsedMiniblock" where
  "unpackMiniblock x c disableChecks miniblock =
     (case mb_header miniblock of
        None \<Rightarrow> Inl (CodeException ''Miniblock header is not set'' ERR_UNSPECIFIED)
      | Some headerEnvelope \<Rightarrow>
          bindE (unpackEnvelope x c disableChecks headerEnvelope) (\<lambda>header.
          case se_payload (pe_event header) of
            PL_miniblockHeader h \<Rightarrow>
              bindE (unpackEnvelopes x c disableChecks (mb_events miniblock)) (\<lambda>events.
              Inr \<lparr>pm_hash = env_hash headerEnvelope, pm_header = h, pm_events = events @ [header]\<rparr>)
          | _ \<Rightarrow> Inl (CodeException ''bad miniblock header: wrong case received'' ERR_UNSPECIFIED)))"

text \<open>\<open>Promise.all\<close>; when several blocks fail, the error taken is that of the first.\<close>

fun unpackMiniblocks :: "externs \<Rightarrow> crypto \<Rightarrow> bool \<Rightarrow> Miniblock list \<Rightarrow> js_error + ParsedMiniblock list" where
  "unpackMiniblocks x c disableChecks [] = Inr []"
| "unpackMiniblocks x c disableChecks (mb # mbs) =
     bindE (unpackMiniblock x c disableChecks mb) (\<lambda>p. bindE (unpackMiniblocks x c disableChecks mbs) (\<lambda>ps. Inr (p # ps)))"

definition unpackStreamAndCookie :: "externs \<Rightarrow> crypto \<Rightarrow> StreamAndCookie \<Rightarrow> js_error + ParsedStreamAndCookie" where
  "unpackStreamAndCookie x c streamAndCookie =
     (case sac_nextSyncCookie streamAndCookie of
        None \<Rightarrow> Inl (JsError ''bad stream: no cookie'')
      | Some cookie \<Rightarrow>
          bindE (unpackMiniblocks x c False (sac_miniblocks streamAndCookie)) (\<lambda>miniblocks.
          bindE (unpackEnvelopes x c False (sac_events streamAndCookie)) (\<lambda>events.
          Inr \<lparr>psc_nextSyncCookie = cookie, psc_miniblocks = miniblocks, psc_events = events\<rparr>)))"

text \<open>
  The ids of the minipool events are passed as the second argument of \<open>flatMap\<close>, which is not an
  array to be joined, so they are not part of the result.
\<close>

definition unpackStream :: "externs \<Rightarrow> crypto \<Rightarrow> StreamAndCookie option \<Rightarrow> js_error + ParsedStreamResponse" where
  "unpackStream x c stream =
     (case stream of
        None \<Rightarrow> Inl (JsError ''bad stream'')
      | Some s \<Rightarrow>
          bindE (unpackStreamAndCookie x c s) (\<lambda>p.
          case psc_miniblocks p of
            [] \<Rightarrow> Inl (JsError ''bad stream: no blocks'')
          | mb # mbs \<Rightarrow>
              (case mh_snapshot (pm_header mb) of
                 None \<Rightarrow> Inl (JsError ''bad block: snapshot is undefined'')
               | Some snapshot \<Rightarrow>
                   Inr \<lparr>psr_snapshot = snapshot, psr_nextSyncCookie = psc_nextSyncCookie p, psr_events = psc_events p,
                        psr_miniblocks = mb # mbs, psr_prevSnapshotMiniblockNum = mh_prevSnapshotMiniblockNum (pm_header mb),
                        psr_eventIds = concat (map (\<lambda>b. map pe_hashStr (pm_events b)) (mb # mbs))\<rparr>)))"

definition emptySyncCookie :: SyncCookie where
  "emptySyncCookie = \<lparr>sc_nodeAddress = [], sc_streamId = [], sc_minipoolGen = 0, sc_minipoolSlot = 0, sc_prevMiniblockHash = []\<rparr>"

definition unpackStreamEx :: "externs \<Rightarrow> crypto \<Rightarrow> Miniblock list \<Rightarrow> js_error + ParsedStreamResponse" where
  "unpackStreamEx x c miniblocks =
     unpackStream x c (Some \<lparr>sac_events = [], sac_nextSyncCookie = Some emptySyncCookie, sac_miniblocks = miniblocks, sac_syncReset = False\<rparr>)"

fun unpackBlockEnvelopes :: "externs \<Rightarrow> crypto \<Rightarrow> Miniblock list \<Rightarrow> js_error + ParsedEvent list" where
  "unpackBlockEnvelopes x c [] = Inr []"
| "unpackBlockEnvelopes x c (mb # mbs) =
     bindE (unpackEnvelopes x c False (mb_events mb)) (\<lambda>events.
     bindE (case mb_header mb of None \<Rightarrow> Inl (JsError ''Cannot read properties of undefined'') | Some h \<Rightarrow> unpackEnvelope x c False h) (\<lambda>header.
     bindE (unpackBlockEnvelopes x c mbs) (\<lambda>rest. Inr (events @ header # rest))))"

definition unpackStreamEnvelopes :: "externs \<Rightarrow> crypto \<Rightarrow> StreamAndCookie \<Rightarrow> js_error + ParsedEvent list" where
  "unpackStreamEnvelopes x c stream =
     bindE (unpackBlockEnvelopes x c (sac_miniblocks stream)) (\<lambda>blocks.
     bindE (unpackEnvelopes x c False (sac_events stream)) (\<lambda>events. Inr (blocks @ events)))"

section \<open>What an accepted envelope proves\<close>

lemma assertBytes_Inr: "assertBytes b ls = Inr u \<longleftrightarrow> ls = [] \<or> length b \<in> set ls"
  by (simp add: assertBytes_def)

lemma bin_equal_bytes: "equals_bytes_law x \<Longrightarrow> bin_equal x (Some a) (Some b) \<longleftrightarrow> a = b"
  by (simp add: bin_equal_iff bytes_or_empty_def)

lemma riverDelegateHashSrc_Inr:
  "riverDelegateHashSrc key expiry = Inr src \<longleftrightarrow>
     0 \<le> expiry \<and> length key \<in> {64, 65} \<and> src = RIVER_SIG_HEADER @ key @ bigintToUint8Array64LE expiry"
  by (auto simp: riverDelegateHashSrc_def bindE_Inr checkE_Inr)

text \<open>The device key was signed by the key of the creator.\<close>

definition delegated_by :: "externs \<Rightarrow> crypto \<Rightarrow> bytes \<Rightarrow> StreamEvent \<Rightarrow> bool" where
  "delegated_by x c key event =
     (\<exists>vrs user. c_fromRpcSig c (''0x'' @ bin_toHexString x (se_delegateSig event)) = Inr vrs \<and> 0 \<le> se_delegateExpiryEpochMs event \<and>
        length key \<in> {64, 65} \<and>
        c_ecrecover c (c_hashPersonalMessage c
          (RIVER_SIG_HEADER @ key @ bigintToUint8Array64LE (se_delegateExpiryEpochMs event))) vrs = Inr user \<and>
        publicKeyToAddress x user = Inr (se_creatorAddress event))"

lemma checkDelegateSig_Inr:
  "equals_bytes_law x \<Longrightarrow>
     checkDelegateSig x c key (se_creatorAddress event) (se_delegateSig event) (se_delegateExpiryEpochMs event) = Inr u \<longleftrightarrow>
     delegated_by x c key event"
  by (auto simp: checkDelegateSig_def delegated_by_def bindE_Inr checkE_Inr riverDelegateHashSrc_Inr bin_equal_bytes)

text \<open>The envelope is signed by a key of the creator, or by a device the creator delegated to.\<close>

definition signed_by_creator :: "externs \<Rightarrow> crypto \<Rightarrow> Envelope \<Rightarrow> StreamEvent \<Rightarrow> bool" where
  "signed_by_creator x c env event =
     (length (env_signature env) = 65 \<and>
      (\<exists>key. c_recoverPublicKey c (env_hash env) (take 64 (env_signature env)) (env_signature env ! 64) = Inr key \<and>
        (if se_delegateSig event = [] then publicKeyToAddress x key = Inr (se_creatorAddress event) else delegated_by x c key event)))"

lemma verifyEnvelope_Inr:
  assumes "equals_bytes_law x" "keccak_law x"
  shows "verifyEnvelope x c env event = Inr u \<longleftrightarrow> env_hash env = riverHash x (env_event env) \<and> signed_by_creator x c env event"
proof -
  have len: "length (riverHash x (env_event env)) = 32" using assms(2) by (simp add: keccak_law_def riverHash_def)
  show ?thesis
    using len by (auto simp: verifyEnvelope_def signed_by_creator_def Let_def bindE_Inr checkE_Inr riverRecoverPubKey_def
        checkHash_def checkSignature_def assertBytes_Inr bin_equal_bytes [OF assms(1)] checkDelegateSig_Inr [OF assms(1)])
qed

lemma unpackEnvelope_Inr:
  assumes "equals_bytes_law x" "keccak_law x"
  shows "unpackEnvelope x c False env = Inr p \<longleftrightarrow>
    env_event env \<noteq> [] \<and> env_signature env \<noteq> [] \<and> env_hash env = riverHash x (env_event env) \<and>
    (\<exists>event. c_fromBinary c (env_event env) = Inr event \<and> signed_by_creator x c env event \<and>
      (\<exists>u. userIdFromAddress x (se_creatorAddress event) = Inr u \<and>
        p = \<lparr>pe_event = event, pe_hash = env_hash env, pe_hashStr = bin_toHexString x (env_hash env),
             pe_prevMiniblockHashStr = map_option (bin_toHexString x) (se_prevMiniblockHash event), pe_creatorUserId = u\<rparr>))"
proof -
  have "length (riverHash x (env_event env)) = 32" using assms(2) by (simp add: keccak_law_def riverHash_def)
  then have "riverHash x (env_event env) \<noteq> []" by auto
  then show ?thesis
    by (auto simp: unpackEnvelope_def bindE_Inr checkE_Inr verifyEnvelope_Inr [OF assms])
qed

text \<open>Different data are framed to different bytes: the length takes eight bytes.\<close>

lemma hashedBytes_inject: "hashedBytes a = hashedBytes b \<longleftrightarrow> a = b"
proof
  assume "hashedBytes a = hashedBytes b"
  then have eq: "numberToUint8Array64LE (length a) @ HASH_SEPARATOR @ a @ HASH_FOOTER =
      numberToUint8Array64LE (length b) @ HASH_SEPARATOR @ b @ HASH_FOOTER"
    by (simp only: hashedBytes_def same_append_eq)
  have len: "length (numberToUint8Array64LE n) = 8" for n by (simp add: numberToUint8Array64LE_def)
  have "HASH_SEPARATOR @ a @ HASH_FOOTER = HASH_SEPARATOR @ b @ HASH_FOOTER"
    by (rule append_eq_append_conv [THEN iffD1, THEN conjunct2, OF _ eq]) (simp only: len simp_thms)
  then show "a = b" by (simp only: same_append_eq append_same_eq)
qed simp


section \<open>Signed events are accepted\<close>

text \<open>
  The documented behaviour of the packages for one pair of wallets. Signing with the device's
  private key and recovering gives its public key; what the user's wallet signs recovers to the
  user's public key, whose address is the address of the wallet.
\<close>

definition device_keys :: "externs \<Rightarrow> crypto \<Rightarrow> DelegateWallet \<Rightarrow> bytes \<Rightarrow> bool" where
  "device_keys x c w pub =
     (startsWith (dw_publicKey w) ''0x04'' \<and> length (dw_publicKey w) = 132 \<and> x_hexToBytes x (dw_publicKey w) = Inr pub \<and> length pub = 65 \<and>
      (\<forall>h. length h = 32 \<longrightarrow> (\<exists>sig r. c_signSync c h (drop 2 (dw_privateKey w)) = Inr (sig, r) \<and> length sig = 64 \<and>
         c_recoverPublicKey c h sig r = Inr pub)))"

definition user_keys :: "externs \<Rightarrow> crypto \<Rightarrow> PrimaryWallet \<Rightarrow> bytes \<Rightarrow> bytes \<Rightarrow> bool" where
  "user_keys x c w pub address =
     (publicKeyToAddress x pub = Inr address \<and> x_hexToBytes x (pw_address w) = Inr address \<and>
      (\<forall>m. \<exists>hex sig vrs. pw_signMessage w m = Inr hex \<and> x_hexToBytes x hex = Inr sig \<and> sig \<noteq> [] \<and>
         c_fromRpcSig c (''0x'' @ x_bytesToHex x sig) = Inr vrs \<and> c_ecrecover c (c_hashPersonalMessage c m) vrs = Inr pub))"

lemma makeSignerContext_delegates:
  assumes "makeSignerContext x now pw dw expiry = Inr ctx" "device_keys x c dw pub" "user_keys x c pw upub address"
  shows "ctx_privateKey ctx = drop 2 (dw_privateKey dw)" "ctx_creatorAddress ctx = address"
    "\<exists>sig e. ctx_delegateSig ctx = Some sig \<and> sig \<noteq> [] \<and> ctx_delegateExpiryEpochMs ctx = Some e \<and> 0 \<le> e \<and>
      (\<exists>vrs. c_fromRpcSig c (''0x'' @ bin_toHexString x sig) = Inr vrs \<and>
        c_ecrecover c (c_hashPersonalMessage c (RIVER_SIG_HEADER @ pub @ bigintToUint8Array64LE e)) vrs = Inr upub)"
proof -
  obtain e sig where ctx: "ctx = \<lparr>ctx_privateKey = drop 2 (dw_privateKey dw), ctx_creatorAddress = address,
      ctx_delegateSig = Some sig, ctx_delegateExpiryEpochMs = Some e\<rparr>" and sig: "makeRiverDelegateSig x pw (dw_publicKey dw) e = Inr sig"
    using assms(1,3) by (auto simp: makeSignerContext_def bindE_Inr user_keys_def bin_fromHexString_def)
  then show "ctx_privateKey ctx = drop 2 (dw_privateKey dw)" "ctx_creatorAddress ctx = address" by simp_all
  have e: "0 \<le> e" and hex: "\<exists>hex. pw_signMessage pw (RIVER_SIG_HEADER @ pub @ bigintToUint8Array64LE e) = Inr hex \<and> x_hexToBytes x hex = Inr sig"
    using sig assms(2) by (auto simp: makeRiverDelegateSig_def bindE_Inr publicKeyToUint8Array_def device_keys_def
        bin_fromHexString_def riverDelegateHashSrc_Inr)
  have "\<exists>hex sig' vrs. pw_signMessage pw m = Inr hex \<and> x_hexToBytes x hex = Inr sig' \<and> sig' \<noteq> [] \<and>
      c_fromRpcSig c (''0x'' @ x_bytesToHex x sig') = Inr vrs \<and> c_ecrecover c (c_hashPersonalMessage c m) vrs = Inr upub" for m
    using assms(3) unfolding user_keys_def by blast
  from this [of "RIVER_SIG_HEADER @ pub @ bigintToUint8Array64LE e"] hex
  show "\<exists>sig e. ctx_delegateSig ctx = Some sig \<and> sig \<noteq> [] \<and> ctx_delegateExpiryEpochMs ctx = Some e \<and> 0 \<le> e \<and>
      (\<exists>vrs. c_fromRpcSig c (''0x'' @ bin_toHexString x sig) = Inr vrs \<and>
        c_ecrecover c (c_hashPersonalMessage c (RIVER_SIG_HEADER @ pub @ bigintToUint8Array64LE e)) vrs = Inr upub)"
    using e ctx by (auto simp: bin_toHexString_def)
qed

text \<open>
  (C23) What a device signs for its user is accepted by every client. With a context made from the two
  wallets, an event that can be made is unpacked to exactly the event that was built, under its
  hash, and attributed to the user of the primary wallet, whatever the expiry.
\<close>

theorem signed_event_accepted:
  assumes "equals_bytes_law x" "keccak_law x" "device_keys x c dw pub" "user_keys x c pw upub address"
    and "makeSignerContext x now pw dw expiry = Inr ctx" "makeEvent x c ctx payload prev salt time = Inr env"
    and "c_toBinary c (newStreamEvent ctx payload prev salt time) \<noteq> []"
    and "c_fromBinary c (c_toBinary c (newStreamEvent ctx payload prev salt time)) = Inr (newStreamEvent ctx payload prev salt time)"
    and "userIdFromAddress x address = Inr user"
  shows "\<exists>p. unpackEnvelope x c False env = Inr p \<and> pe_event p = newStreamEvent ctx payload prev salt time \<and>
    pe_hash p = env_hash env \<and> pe_creatorUserId p = user"
proof -
  let ?e = "newStreamEvent ctx payload prev salt time"
  let ?b = "c_toBinary c ?e"
  obtain dsig e vrs where ctx: "ctx_privateKey ctx = drop 2 (dw_privateKey dw)" "ctx_creatorAddress ctx = address"
    "ctx_delegateSig ctx = Some dsig" "dsig \<noteq> []" "ctx_delegateExpiryEpochMs ctx = Some e" "0 \<le> e"
    "c_fromRpcSig c (''0x'' @ bin_toHexString x dsig) = Inr vrs"
    "c_ecrecover c (c_hashPersonalMessage c (RIVER_SIG_HEADER @ pub @ bigintToUint8Array64LE e)) vrs = Inr upub"
    using makeSignerContext_delegates [OF assms(5,3,4)] by blast
  have len: "length (riverHash x ?b) = 32" using assms(2) by (simp add: keccak_law_def riverHash_def)
  then obtain sig r where sig: "c_signSync c (riverHash x ?b) (drop 2 (dw_privateKey dw)) = Inr (sig, r)" "length sig = 64"
    "c_recoverPublicKey c (riverHash x ?b) sig r = Inr pub"
    using assms(3) unfolding device_keys_def by blast
  have env: "env = \<lparr>env_hash = riverHash x ?b, env_signature = sig @ [r], env_event = ?b\<rparr>"
    using assms(6) sig len by (auto simp: makeEvent_def makeEvent_impl_def bindE_Inr riverSign_def ctx(1) checkHash_def
        assertBytes_def pushByteToUint8Array_def Let_def)
  have fields: "se_creatorAddress ?e = address" "se_delegateSig ?e = dsig" "se_delegateExpiryEpochMs ?e = e"
    by (simp_all add: newStreamEvent_def ctx)
  have "delegated_by x c pub ?e"
    using ctx(6-8) assms(3,4) by (auto simp: delegated_by_def fields device_keys_def user_keys_def)
  then have "signed_by_creator x c env ?e"
    using sig ctx(4) by (simp add: signed_by_creator_def env fields nth_append)
  then have "unpackEnvelope x c False env = Inr \<lparr>pe_event = ?e, pe_hash = env_hash env, pe_hashStr = bin_toHexString x (env_hash env),
      pe_prevMiniblockHashStr = map_option (bin_toHexString x) (se_prevMiniblockHash ?e), pe_creatorUserId = user\<rparr>"
    unfolding unpackEnvelope_Inr [OF assms(1,2)] using assms(7-9) by (simp add: env fields)
  then show ?thesis by simp
qed

section \<open>Delivered streams\<close>

definition links_set :: "ParsedEvent list \<Rightarrow> bool" where
  "links_set es = list_all (\<lambda>e. se_prevMiniblockHash (pe_event e) \<noteq> Some []) es"

lemma unpackEnvelope_parsed:
  assumes "hex_codec x" "unpackEnvelope x c d env = Inr p" "se_prevMiniblockHash (pe_event p) \<noteq> Some []"
  shows "parsed_event x p"
proof -
  have hex: "bin_toHexString x b \<noteq> []" if "b \<noteq> []" for b
    using assms(1) that by (metis bin_toHexString_def hex_codec_def length_0_conv mult_eq_0_iff zero_neq_numeral)
  show ?thesis
    using assms(2,3) hex by (auto simp: unpackEnvelope_def bindE_Inr parsed_event_def)
qed

lemma unpackEnvelopes_parsed:
  "hex_codec x \<Longrightarrow> unpackEnvelopes x c d es = Inr ps \<Longrightarrow> links_set ps \<Longrightarrow> list_all (parsed_event x) ps"
  by (induction es arbitrary: ps) (auto simp: bindE_Inr links_set_def intro: unpackEnvelope_parsed)

lemma unpackMiniblock_parsed:
  assumes "hex_codec x" "unpackMiniblock x c d mb = Inr p" "links_set (pm_events p)"
  shows "parsed_miniblock x p"
proof -
  obtain env header where h: "mb_header mb = Some env" "unpackEnvelope x c d env = Inr header"
    using assms(2) by (auto simp: unpackMiniblock_def bindE_Inr split: option.split_asm)
  then obtain events where u: "unpackEnvelope x c d env = Inr header" "unpackEnvelopes x c d (mb_events mb) = Inr events"
    "pm_events p = events @ [header]"
    using assms(2) by (cases "se_payload (pe_event header)") (auto simp: unpackMiniblock_def bindE_Inr)
  have "links_set events" "se_prevMiniblockHash (pe_event header) \<noteq> Some []" using assms(3) u(3) by (simp_all add: links_set_def)
  then show ?thesis
    using unpackEnvelopes_parsed [OF assms(1) u(2)] unpackEnvelope_parsed [OF assms(1) u(1)] by (simp add: parsed_miniblock_def u(3))
qed

lemma unpackMiniblocks_parsed:
  "hex_codec x \<Longrightarrow> unpackMiniblocks x c d mbs = Inr ps \<Longrightarrow> links_set (concat (map pm_events ps)) \<Longrightarrow> list_all (parsed_miniblock x) ps"
  by (induction mbs arbitrary: ps) (auto simp: bindE_Inr links_set_def intro: unpackMiniblock_parsed [unfolded links_set_def])

lemma unpackStream_Inr:
  assumes "unpackStream x c (Some s) = Inr r"
  obtains p mb mbs snapshot where "unpackStreamAndCookie x c s = Inr p" "psc_miniblocks p = mb # mbs"
    "mh_snapshot (pm_header mb) = Some snapshot"
    "r = \<lparr>psr_snapshot = snapshot, psr_nextSyncCookie = psc_nextSyncCookie p, psr_events = psc_events p,
          psr_miniblocks = mb # mbs, psr_prevSnapshotMiniblockNum = mh_prevSnapshotMiniblockNum (pm_header mb),
          psr_eventIds = concat (map (\<lambda>b. map pe_hashStr (pm_events b)) (mb # mbs))\<rparr>"
proof -
  obtain p where p: "unpackStreamAndCookie x c s = Inr p" using assms by (auto simp: unpackStream_def bindE_Inr)
  show ?thesis
  proof (cases "psc_miniblocks p")
    case (Cons mb mbs)
    then show ?thesis
      using assms p that by (cases "mh_snapshot (pm_header mb)") (auto simp: unpackStream_def)
  qed (use assms p in \<open>simp add: unpackStream_def\<close>)
qed

text \<open>What \<open>unpackStream\<close> returns is what initialization and the database need.\<close>

lemma unpackStream_response:
  assumes "hex_codec x" "unpackStream x c (Some s) = Inr r" "links_set (psr_events r @ concat (map pm_events (psr_miniblocks r)))"
  obtains mb mbs where "psr_miniblocks r = mb # mbs" "mh_snapshot (pm_header mb) = Some (psr_snapshot r)"
    "mh_prevSnapshotMiniblockNum (pm_header mb) = psr_prevSnapshotMiniblockNum r"
    "list_all (parsed_event x) (psr_events r)" "list_all (parsed_miniblock x) (psr_miniblocks r)"
proof (rule unpackStream_Inr [OF assms(2)])
  fix p mb mbs snapshot
  assume p: "unpackStreamAndCookie x c s = Inr p" "psc_miniblocks p = mb # mbs" "mh_snapshot (pm_header mb) = Some snapshot"
    and r: "r = \<lparr>psr_snapshot = snapshot, psr_nextSyncCookie = psc_nextSyncCookie p, psr_events = psc_events p,
          psr_miniblocks = mb # mbs, psr_prevSnapshotMiniblockNum = mh_prevSnapshotMiniblockNum (pm_header mb),
          psr_eventIds = concat (map (\<lambda>b. map pe_hashStr (pm_events b)) (mb # mbs))\<rparr>"
  have u: "unpackMiniblocks x c False (sac_miniblocks s) = Inr (psc_miniblocks p)" "unpackEnvelopes x c False (sac_events s) = Inr (psc_events p)"
    using p(1) by (auto simp: unpackStreamAndCookie_def bindE_Inr split: option.split_asm)
  have fields: "psr_events r = psc_events p" "psr_miniblocks r = psc_miniblocks p" "psr_snapshot r = snapshot"
    "psr_prevSnapshotMiniblockNum r = mh_prevSnapshotMiniblockNum (pm_header mb)" by (simp_all add: r p(2))
  have links: "links_set (psc_events p)" "links_set (concat (map pm_events (psc_miniblocks p)))"
    using assms(3) unfolding fields links_set_def by simp_all
  show thesis
  proof (rule that)
    show "psr_miniblocks r = mb # mbs" "mh_snapshot (pm_header mb) = Some (psr_snapshot r)"
      "mh_prevSnapshotMiniblockNum (pm_header mb) = psr_prevSnapshotMiniblockNum r" by (simp_all only: fields p(2,3))
    show "list_all (parsed_event x) (psr_events r)" unfolding fields by (rule unpackEnvelopes_parsed [OF assms(1) u(2) links(1)])
    show "list_all (parsed_miniblock x) (psr_miniblocks r)" unfolding fields by (rule unpackMiniblocks_parsed [OF assms(1) u(1) links(2)])
  qed
qed

text \<open>The cleartexts of minipool events are never looked up when a stream is initialized.\<close>

lemma minipool_cleartext_ignored:
  "unpackStream x c (Some s) = Inr r \<Longrightarrow> set (psr_eventIds r) = pe_hashStr ` set (concat (map pm_events (psr_miniblocks r)))"
  by (erule unpackStream_Inr) auto

text \<open>
  (C24) From the wire through the database and back. When a delivered stream was unpacked and used to
  initialize a stream, then a client that starts anew initializes the stream from its database
  with exactly what had been unpacked: the same synchronisation cookie, minipool, snapshot and
  blocks. In front of them come older blocks of the database, without a gap, each the block
  stored under its number.
\<close>

theorem delivered_stream_restored:
  assumes "hex_codec x" "store_ok x st" "unpackStream x c (Some sac) = Inr r"
    "links_set (psr_events r @ concat (map pm_events (psr_miniblocks r)))" "map blockNum (psr_miniblocks r) = [a..b]"
    "initializeFromResponse x r (s, st) = ((s1, st1), es, None)" "SyncedStream_new x u (v_streamId (ss_view s)) = Inr s2"
  shows "\<exists>k older. map blockNum (older @ psr_miniblocks r) = [k..b] \<and>
    (\<forall>m \<in> set older. getMiniblock x (v_streamId (ss_view s)) (blockNum m) st1 = Some m) \<and>
    initializeFromPersistence x (s2, st1) = try_initialize
      (Stream_initialize x (psr_nextSyncCookie r) (psr_events r) (psr_snapshot r) (psr_miniblocks r) older
         (psr_prevSnapshotMiniblockNum r) (getCleartexts (cachedEventIds x (psr_miniblocks r) (psr_snapshot r) older) st1) (s2, st1))"
proof -
  obtain mb mbs where r: "psr_miniblocks r = mb # mbs" "mh_snapshot (pm_header mb) = Some (psr_snapshot r)"
    "mh_prevSnapshotMiniblockNum (pm_header mb) = psr_prevSnapshotMiniblockNum r"
    "list_all (parsed_event x) (psr_events r)" "list_all (parsed_miniblock x) (psr_miniblocks r)"
    by (rule unpackStream_response [OF assms(1,3,4)])
  show ?thesis by (rule restart_restores [OF assms(2) r(4,5) assms(5) r(1-3) assms(6,7)])
qed

section \<open>Concrete wallets\<close>

definition sample_device :: bytes where
  "sample_device = 4 # replicate 64 1"

definition sample_upub :: bytes where
  "sample_upub = replicate 64 2"

definition sample_primary :: PrimaryWallet where
  "sample_primary = \<lparr>pw_signMessage = (\<lambda>m. Inr ''09''), pw_address = ''0x'' @ to_hex (replicate 20 2)\<rparr>"

definition sample_delegate :: DelegateWallet where
  "sample_delegate = \<lparr>dw_publicKey = ''0x'' @ to_hex sample_device, dw_privateKey = ''0x11''\<rparr>"

definition sample_context :: SignerContext where
  "sample_context = \<lparr>ctx_privateKey = ''11'', ctx_creatorAddress = replicate 20 2, ctx_delegateSig = Some [9],
     ctx_delegateExpiryEpochMs = Some 77\<rparr>"

definition sample_signed :: StreamEvent where
  "sample_signed = newStreamEvent sample_context sample_message (Some (replicate 32 3)) [5] 1000"

definition sample_channel_event :: StreamEvent where
  "sample_channel_event = \<lparr>se_creatorAddress = replicate 20 1, se_delegateSig = [], se_salt = [], se_prevMiniblockHash = Some [1],
     se_createdAtEpochMs = 5, se_delegateExpiryEpochMs = 0, se_payload = sample_message\<rparr>"

definition sample_block_event :: StreamEvent where
  "sample_block_event = sample_channel_event\<lparr>se_payload := PL_miniblockHeader (pm_header sample_snapshot_block)\<rparr>"

text \<open>An encoding that knows three events, and a signature scheme with one key for each role.\<close>

definition sample_crypto :: crypto where
  "sample_crypto =
     \<lparr>c_signSync = (\<lambda>h k. Inr (take 64 (h @ replicate 64 0), 0)),
      c_recoverPublicKey = (\<lambda>h s r. Inr sample_device),
      c_verify = (\<lambda>s h k. True), c_hashPersonalMessage = (\<lambda>m. m),
      c_fromRpcSig = (\<lambda>s. Inr \<lparr>rs_v = 27, rs_r = [], rs_s = []\<rparr>),
      c_ecrecover = (\<lambda>h s. Inr sample_upub),
      c_toBinary = (\<lambda>e. if e = sample_signed then [1] else if e = sample_channel_event then [2] else [3]),
      c_fromBinary = (\<lambda>b. Inr (if b = [1] then sample_signed else if b = [2] then sample_channel_event else sample_block_event))\<rparr>"

definition sample_envelope :: "bytes \<Rightarrow> Envelope" where
  "sample_envelope b = \<lparr>env_hash = riverHash sample_externs b, env_signature = replicate 65 7, env_event = b\<rparr>"

lemma sample_device_keys: "device_keys sample_externs sample_crypto sample_delegate sample_device"
proof -
  have "startsWith (dw_publicKey sample_delegate) ''0x04''" "length (dw_publicKey sample_delegate) = 132"
    "x_hexToBytes sample_externs (dw_publicKey sample_delegate) = Inr sample_device" "length sample_device = 65" by code_simp+
  then show ?thesis by (simp add: device_keys_def sample_crypto_def)
qed

lemma sample_user_keys: "user_keys sample_externs sample_crypto sample_primary sample_upub (replicate 20 2)"
proof -
  have "publicKeyToAddress sample_externs sample_upub = Inr (replicate 20 2)"
    "x_hexToBytes sample_externs (pw_address sample_primary) = Inr (replicate 20 2)" "x_hexToBytes sample_externs ''09'' = Inr [9]" by code_simp+
  then show ?thesis by (simp add: user_keys_def sample_crypto_def sample_primary_def)
qed

lemmas sample_bytes_laws = sample_laws [unfolded externs_laws_def, THEN conjunct2]

theorem signed_event_accepted_witness:
  "\<exists>env p. makeEvent sample_externs sample_crypto sample_context sample_message (Some (replicate 32 3)) [5] 1000 = Inr env \<and>
    unpackEnvelope sample_externs sample_crypto False env = Inr p \<and> pe_event p = sample_signed"
proof -
  have ctx: "makeSignerContext sample_externs 0 sample_primary sample_delegate (ExpiryAt 77) = Inr sample_context" by code_simp
  have "isl (makeEvent sample_externs sample_crypto sample_context sample_message (Some (replicate 32 3)) [5] 1000) = False" by code_simp
  then obtain env where env: "makeEvent sample_externs sample_crypto sample_context sample_message (Some (replicate 32 3)) [5] 1000 = Inr env"
    by (auto simp: isl_def split: sum.splits) (metis obj_sumE)
  have "\<not> isl (userIdFromAddress sample_externs (replicate 20 2))" by code_simp
  then obtain u where u: "userIdFromAddress sample_externs (replicate 20 2) = Inr u" by (metis obj_sumE sum.disc(1))
  from signed_event_accepted [OF _ _ sample_device_keys sample_user_keys ctx env _ _ u] sample_bytes_laws env
  show ?thesis by (auto simp: sample_crypto_def sample_signed_def)
qed


definition sample_delivered :: StreamAndCookie where
  "sample_delivered = \<lparr>sac_events = [sample_envelope [2]], sac_nextSyncCookie = Some sample_cookie,
     sac_miniblocks = [\<lparr>mb_events = [], mb_header = Some (sample_envelope [3])\<rparr>], sac_syncReset = False\<rparr>"

theorem delivered_stream_restored_witness:
  "\<exists>r k older. unpackStream sample_externs sample_crypto (Some sample_delivered) = Inr r \<and>
    map blockNum (older @ psr_miniblocks r) = [k..4] \<and> psr_nextSyncCookie r = sample_cookie"
proof -
  have "\<not> isl (unpackStream sample_externs sample_crypto (Some sample_delivered))" by code_simp
  then obtain r where r: "unpackStream sample_externs sample_crypto (Some sample_delivered) = Inr r" by (metis obj_sumE sum.disc(1))
  have "case unpackStream sample_externs sample_crypto (Some sample_delivered) of Inl _ \<Rightarrow> False | Inr r \<Rightarrow>
      links_set (psr_events r @ concat (map pm_events (psr_miniblocks r))) \<and> map blockNum (psr_miniblocks r) = [4..4] \<and>
      psr_nextSyncCookie r = sample_cookie \<and> out_error (initializeFromResponse sample_externs r (sample_stream, sample_store)) = None"
    by code_simp
  then have h: "links_set (psr_events r @ concat (map pm_events (psr_miniblocks r)))" "map blockNum (psr_miniblocks r) = [4..4]"
    "psr_nextSyncCookie r = sample_cookie" "out_error (initializeFromResponse sample_externs r (sample_stream, sample_store)) = None"
    by (simp_all add: r)
  obtain s1 st1 es where i: "initializeFromResponse sample_externs r (sample_stream, sample_store) = ((s1, st1), es, None)"
    using h(4) by (cases "initializeFromResponse sample_externs r (sample_stream, sample_store)") auto
  have ok: "store_ok sample_externs sample_store" by (simp add: store_ok_def sample_store_def getMiniblock_def)
  have new: "SyncedStream_new sample_externs ''me'' (v_streamId (ss_view sample_stream)) = Inr sample_stream"
    using sample_view_new by (simp add: SyncedStream_new_def sample_stream_def sample_view_def)
  have hex: "hex_codec sample_externs" using sample_laws by (simp add: externs_laws_def)
  from delivered_stream_restored [OF hex ok r h(1,2) i new] h(3) r show ?thesis by blast
qed

end
