(* ===== verification/Sync.thy ===== *)
theory Sync
  imports Sign
begin

text \<open>
  The synchronisation loop of the client, \<open>core/sdk/src/syncedStreams.ts\<close>, as a state machine. One
  step is one stretch of code between two \<open>await\<close>s: a call of the client, an answer of the node, a
  timer, or the end of an asynchronous operation. Stream objects live in a store and the map of
  streams refers to them by position. The statistics of the keep-alive pings are only logged and
  have no counterpart.
\<close>

section \<open>State\<close>

datatype SyncState = Canceling | NotSyncing | Retrying | Starting | Syncing

fun stateConstraints :: "SyncState \<Rightarrow> SyncState list" where
  "stateConstraints NotSyncing = [Starting]"
| "stateConstraints Starting = [Syncing, Retrying, Canceling]"
| "stateConstraints Syncing = [Canceling, Retrying]"
| "stateConstraints Retrying = [Starting, Canceling, Syncing, Retrying]"
| "stateConstraints Canceling = [NotSyncing]"

datatype SyncOp = SYNC_UNSPECIFIED | SYNC_NEW | SYNC_CLOSE | SYNC_UPDATE | SYNC_PONG

record SyncStreamsResponse =
  sr_syncId :: string
  sr_syncOp :: SyncOp
  sr_stream :: "StreamAndCookie option"

datatype SyncEmission =
    streamSyncStateChange SyncState
  | streamSyncActive bool
  | streamRemovedFromSync string
  | fromStream emission

text \<open>
  Where a synchronisation loop waits: for the next response, for the end of the retry delay (in
  milliseconds), or nowhere because it has ended. Where the processing of an update waits: for the
  update to be unpacked, or only for its turn to end.
\<close>

datatype LoopAt = AtNext | AtRetry nat | Ended

datatype TickAt = TickEnding | TickReset nat StreamAndCookie | TickAppend nat StreamAndCookie

record Syncs =
  sy_objects :: "SyncedStream list"
  sy_streams :: "(string \<times> nat) list"
  sy_store :: Store
  sy_state :: SyncState
  sy_syncId :: "string option"
  sy_loops :: "LoopAt list"
  sy_interrupt :: "nat option"
  sy_releaseRetryWait :: "nat option"
  sy_retryCount :: nat
  sy_backgrounded :: bool
  sy_responses :: "SyncStreamsResponse list"
  sy_tick :: "TickAt option"
  sy_pingTimeout :: bool
  sy_orphanTimers :: nat
  sy_pings :: nat
  sy_breakTimers :: nat
  sy_waiting :: "(string \<times> nat) list"
  sy_removing :: "(string \<times> nat) list"

definition Syncs_new :: "Store \<Rightarrow> Syncs" where
  "Syncs_new st =
     \<lparr>sy_objects = [], sy_streams = [], sy_store = st, sy_state = NotSyncing, sy_syncId = None, sy_loops = [],
      sy_interrupt = None, sy_releaseRetryWait = None, sy_retryCount = 0, sy_backgrounded = False, sy_responses = [],
      sy_tick = None, sy_pingTimeout = False, sy_orphanTimers = 0, sy_pings = 0, sy_breakTimers = 0, sy_waiting = [], sy_removing = []\<rparr>"

section \<open>The map of streams\<close>

definition sync_get :: "string \<Rightarrow> Syncs \<Rightarrow> nat option" where
  "sync_get streamId s = map_of (sy_streams s) streamId"

definition sync_has :: "string \<Rightarrow> Syncs \<Rightarrow> bool" where
  "sync_has streamId s = (sync_get streamId s \<noteq> None)"

text \<open>A key that is there keeps its place; a new object is added to the store.\<close>

definition sync_set :: "string \<Rightarrow> SyncedStream \<Rightarrow> Syncs \<Rightarrow> Syncs" where
  "sync_set streamId stream s =
     (let a = length (sy_objects s)
      in s\<lparr>sy_objects := sy_objects s @ [stream],
           sy_streams := (if sync_has streamId s then map (\<lambda>(k, b). (k, if k = streamId then a else b)) (sy_streams s)
                          else sy_streams s @ [(streamId, a)])\<rparr>)"

definition stopObject :: "nat \<Rightarrow> Syncs \<Rightarrow> Syncs" where
  "stopObject a s = s\<lparr>sy_objects := (sy_objects s)[a := stop_stream (sy_objects s ! a)]\<rparr>"

definition dropStream :: "string \<Rightarrow> Syncs \<Rightarrow> Syncs" where
  "dropStream streamId s = s\<lparr>sy_streams := filter (\<lambda>(k, _). k \<noteq> streamId) (sy_streams s)\<rparr>"

definition sync_delete :: "string \<Rightarrow> Syncs \<Rightarrow> Syncs" where
  "sync_delete streamId s =
     dropStream streamId (case sync_get streamId s of None \<Rightarrow> s | Some a \<Rightarrow> stopObject a s)"

section \<open>State changes and retries\<close>

definition setSyncState :: "SyncState \<Rightarrow> Syncs \<Rightarrow> (Syncs, SyncEmission) outcome" where
  "setSyncState newState s =
     (if sy_state s = newState then throw (JsError ''setSyncState called for the existing state'') s
      else if newState \<notin> set (stateConstraints (sy_state s)) then throw (JsError ''invalid state transition'') s
      else emit True (streamSyncStateChange newState) (s\<lparr>sy_state := newState\<rparr>))"

text \<open>A timer whose handle is overwritten cannot be cancelled any more.\<close>

definition sendKeepAlivePings :: "Syncs \<Rightarrow> Syncs" where
  "sendKeepAlivePings s =
     s\<lparr>sy_orphanTimers := (if sy_pingTimeout s then sy_orphanTimers s + 1 else sy_orphanTimers s), sy_pingTimeout := True\<rparr>"

definition stopPing :: "Syncs \<Rightarrow> Syncs" where
  "stopPing s = s\<lparr>sy_pingTimeout := False\<rparr>"

definition MAX_RETRY_DELAY_FACTOR :: nat where
  "MAX_RETRY_DELAY_FACTOR = 7"

definition nextRetryCount :: "nat \<Rightarrow> nat" where
  "nextRetryCount currentRetryCount =
     (if currentRetryCount \<ge> MAX_RETRY_DELAY_FACTOR then MAX_RETRY_DELAY_FACTOR else currentRetryCount + 1)"

definition retryDelay :: "nat \<Rightarrow> nat" where
  "retryDelay retryCount = 2 ^ retryCount * 1000"

definition syncStarted :: "string \<Rightarrow> Syncs \<Rightarrow> (Syncs, SyncEmission) outcome" where
  "syncStarted syncId s =
     (if sy_syncId s = None \<and> Syncing \<in> set (stateConstraints (sy_state s))
      then andThen (setSyncState Syncing s)
             (\<lambda>s. emit True (streamSyncActive True) (sendKeepAlivePings (s\<lparr>sy_syncId := Some syncId, sy_retryCount := 0\<rparr>)))
      else pass s)"

definition syncClosed :: "Syncs \<Rightarrow> (Syncs, SyncEmission) outcome" where
  "syncClosed s = (if sy_state (stopPing s) = Canceling then pass (stopPing s) else setSyncState Retrying (stopPing s))"

section \<open>Updates\<close>

definition onUpdate :: "externs \<Rightarrow> SyncStreamsResponse \<Rightarrow> Syncs \<Rightarrow> TickAt" where
  "onUpdate x res s =
     (if sy_state s = Syncing \<or> sy_state s = Canceling
      then if sy_syncId s \<noteq> Some (sr_syncId res) then TickEnding
           else (case sr_stream res of
                   None \<Rightarrow> TickEnding
                 | Some syncStream \<Rightarrow>
                     let streamIdBytes = (case sac_nextSyncCookie syncStream of None \<Rightarrow> [] | Some cookie \<Rightarrow> sc_streamId cookie)
                     in (case sync_get (bin_toHexString x streamIdBytes) s of
                           None \<Rightarrow> TickEnding
                         | Some a \<Rightarrow> if sac_syncReset syncStream then TickReset a syncStream else TickAppend a syncStream))
      else TickEnding)"

definition sync_tick :: "externs \<Rightarrow> Syncs \<Rightarrow> Syncs" where
  "sync_tick x s =
     (case sy_responses s of
        [] \<Rightarrow> s\<lparr>sy_tick := Some TickEnding\<rparr>
      | item # rest \<Rightarrow>
          let s1 = s\<lparr>sy_responses := rest\<rparr>
          in s1\<lparr>sy_tick := Some (if sy_syncId s1 \<noteq> Some (sr_syncId item) then TickEnding else onUpdate x item s1)\<rparr>)"

definition sync_checkStartTicking :: "externs \<Rightarrow> Syncs \<Rightarrow> Syncs" where
  "sync_checkStartTicking x s =
     (if sy_tick s \<noteq> None \<or> sy_responses s = [] \<or> sy_backgrounded s then s else sync_tick x s)"

text \<open>An operation of the stream object at \<open>a\<close>, on the shared database; its exceptions are logged.\<close>

definition on_object ::
    "nat \<Rightarrow> (SyncedStream \<times> Store \<Rightarrow> (SyncedStream \<times> Store, emission) outcome) \<Rightarrow> Syncs \<Rightarrow> (Syncs, SyncEmission) outcome" where
  "on_object a f s =
     (case f (sy_objects s ! a, sy_store s) of
        ((stream, st), es, _) \<Rightarrow> (s\<lparr>sy_objects := (sy_objects s)[a := stream], sy_store := st\<rparr>, map fromStream es, None))"

definition finishUpdate :: "externs \<Rightarrow> crypto \<Rightarrow> TickAt \<Rightarrow> Syncs \<Rightarrow> (Syncs, SyncEmission) outcome" where
  "finishUpdate x c t s =
     (case t of
        TickEnding \<Rightarrow> pass s
      | TickReset a syncStream \<Rightarrow>
          (case unpackStream x c (Some syncStream) of
             Inl _ \<Rightarrow> pass s | Inr response \<Rightarrow> on_object a (initializeFromResponse x response) s)
      | TickAppend a syncStream \<Rightarrow>
          (case unpackStreamAndCookie x c syncStream of
             Inl _ \<Rightarrow> pass s
           | Inr p \<Rightarrow> on_object a (SyncedStream_appendEvents x (psc_events p) (psc_nextSyncCookie p) None) s))"

definition tickDone :: "externs \<Rightarrow> crypto \<Rightarrow> Syncs \<Rightarrow> (Syncs, SyncEmission) outcome" where
  "tickDone x c s =
     (case sy_tick s of
        None \<Rightarrow> pass s
      | Some t \<Rightarrow> andThen (finishUpdate x c t s) (\<lambda>s. pass (sync_checkStartTicking x (s\<lparr>sy_tick := None\<rparr>))))"

section \<open>The loop\<close>

definition setLoop :: "nat \<Rightarrow> LoopAt \<Rightarrow> Syncs \<Rightarrow> Syncs" where
  "setLoop i l s = s\<lparr>sy_loops := (sy_loops s)[i := l]\<rparr>"

definition stopStreams :: "Syncs \<Rightarrow> Syncs" where
  "stopStreams s = (fold (\<lambda>(_, a). stopObject a) (sy_streams s) s)\<lparr>sy_streams := []\<rparr>"

text \<open>The \<open>finally\<close> block of the loop.\<close>

definition finishLoop :: "nat \<Rightarrow> Syncs \<Rightarrow> (Syncs, SyncEmission) outcome" where
  "finishLoop i s0 =
     (let s = setLoop i Ended (stopPing s0)
      in if NotSyncing \<in> set (stateConstraints (sy_state s))
         then andThen (setSyncState NotSyncing s)
                (\<lambda>s. emit True (streamSyncActive False) ((stopStreams s)\<lparr>sy_releaseRetryWait := None, sy_syncId := None\<rparr>))
         else pass s)"

text \<open>
  The outer loop up to its first \<open>await\<close>: a new request to the node with the cookies of all
  streams, after which the inner loop waits for the first response.
\<close>

definition enterLoop :: "nat \<Rightarrow> Syncs \<Rightarrow> (Syncs, SyncEmission) outcome" where
  "enterLoop i s =
     (if sy_state s = Starting \<or> sy_state s = Syncing \<or> sy_state s = Retrying
      then andThen (if sy_state s = Retrying then setSyncState Starting s else pass s)
             (\<lambda>s. pass (setLoop i AtNext (s\<lparr>sy_syncId := None, sy_interrupt := Some i\<rparr>)))
      else finishLoop i s)"

text \<open>The head of the inner loop; when its condition fails the outer loop is entered again.\<close>

definition innerLoop :: "nat \<Rightarrow> Syncs \<Rightarrow> (Syncs, SyncEmission) outcome" where
  "innerLoop i s =
     (if sy_state s = Syncing \<or> sy_state s = Starting then pass (setLoop i AtNext (s\<lparr>sy_interrupt := Some i\<rparr>)) else enterLoop i s)"

definition attemptRetry :: "nat \<Rightarrow> Syncs \<Rightarrow> (Syncs, SyncEmission) outcome" where
  "attemptRetry i s0 =
     (let s = stopPing s0
      in if Retrying \<in> set (stateConstraints (sy_state s))
         then andThen
                (if sy_state s \<noteq> Retrying
                 then andThen (setSyncState Retrying s) (\<lambda>s. emit True (streamSyncActive False) (s\<lparr>sy_syncId := None\<rparr>))
                 else pass s)
                (\<lambda>s. let n = nextRetryCount (sy_retryCount s)
                     in pass (setLoop i (AtRetry (retryDelay n)) (s\<lparr>sy_retryCount := n, sy_releaseRetryWait := Some i\<rparr>)))
         else enterLoop i s)"

text \<open>A response of the node; what a handler throws is caught and leads to a retry.\<close>

definition handleResponse :: "externs \<Rightarrow> SyncStreamsResponse \<Rightarrow> Syncs \<Rightarrow> (Syncs, SyncEmission) outcome" where
  "handleResponse x value s =
     (if sr_syncId value = [] \<or> sr_syncOp value = SYNC_UNSPECIFIED then pass s
      else (case sr_syncOp value of
              SYNC_NEW \<Rightarrow> syncStarted (sr_syncId value) s
            | SYNC_CLOSE \<Rightarrow> syncClosed s
            | SYNC_UPDATE \<Rightarrow> pass (sync_checkStartTicking x (s\<lparr>sy_responses := sy_responses s @ [value]\<rparr>))
            | _ \<Rightarrow> pass s))"

definition waitsAt :: "nat \<Rightarrow> Syncs \<Rightarrow> bool" where
  "waitsAt i s = (i < length (sy_loops s) \<and> sy_loops s ! i = AtNext)"

definition retriesAt :: "nat \<Rightarrow> Syncs \<Rightarrow> bool" where
  "retriesAt i s = (i < length (sy_loops s) \<and> (case sy_loops s ! i of AtRetry _ \<Rightarrow> True | _ \<Rightarrow> False))"

definition onResponse :: "externs \<Rightarrow> nat \<Rightarrow> SyncStreamsResponse \<Rightarrow> Syncs \<Rightarrow> (Syncs, SyncEmission) outcome" where
  "onResponse x i value s =
     (if waitsAt i s
      then (case handleResponse x value s of
              (s1, es, None) \<Rightarrow> (case innerLoop i s1 of (s2, es', e) \<Rightarrow> (s2, es @ es', e))
            | (s1, es, Some _) \<Rightarrow> (case attemptRetry i s1 of (s2, es', e) \<Rightarrow> (s2, es @ es', e)))
      else pass s)"

text \<open>The iterator is done, or \<open>forceStopSyncStreams\<close> was called: the loop returns.\<close>

definition onDone :: "nat \<Rightarrow> Syncs \<Rightarrow> (Syncs, SyncEmission) outcome" where
  "onDone i s = (if waitsAt i s then finishLoop i (s\<lparr>sy_interrupt := None\<rparr>) else pass s)"

definition onError :: "nat \<Rightarrow> Syncs \<Rightarrow> (Syncs, SyncEmission) outcome" where
  "onError i s = (if waitsAt i s then attemptRetry i s else pass s)"

definition retryElapsed :: "nat \<Rightarrow> Syncs \<Rightarrow> (Syncs, SyncEmission) outcome" where
  "retryElapsed i s = (if retriesAt i s then enterLoop i (s\<lparr>sy_releaseRetryWait := None\<rparr>) else pass s)"

definition releaseRetry :: "Syncs \<Rightarrow> (Syncs, SyncEmission) outcome" where
  "releaseRetry s = (case sy_releaseRetryWait s of None \<Rightarrow> pass s | Some i \<Rightarrow> retryElapsed i (s\<lparr>sy_releaseRetryWait := None\<rparr>))"

section \<open>Calls of the client\<close>

text \<open>
  Neither rejection returns, so the loop is created in any case. The loop runs up to its first
  \<open>await\<close> at once.
\<close>

definition createSyncLoop :: "Syncs \<Rightarrow> (Syncs, SyncEmission) outcome" where
  "createSyncLoop s =
     (let allowed = Starting \<in> set (stateConstraints (sy_state s));
          rejected = (if \<not> allowed then Some (JsError ''invalid state transition'')
                      else if sy_loops s \<noteq> [] then Some (JsError ''createSyncLoop called while a loop exists'') else None);
          i = length (sy_loops s)
      in case andThen (if allowed then setSyncState Starting s else pass s) (\<lambda>s. enterLoop i (s\<lparr>sy_loops := sy_loops s @ [AtNext]\<rparr>)) of
           (s1, es, _) \<Rightarrow> (s1, es, rejected))"

definition stopSync :: "Syncs \<Rightarrow> (Syncs, SyncEmission) outcome" where
  "stopSync s0 =
     (let s = s0\<lparr>sy_responses := []\<rparr>
      in if Canceling \<in> set (stateConstraints (sy_state s))
         then andThen (setSyncState Canceling s)
                (\<lambda>s. releaseRetry ((stopPing s)\<lparr>sy_breakTimers := (if sy_syncId s \<noteq> None then sy_breakTimers s + 1 else sy_breakTimers s)\<rparr>))
         else pass s)"

text \<open>Five seconds after \<open>stopSync\<close>, unless it was done before.\<close>

definition breakTimeout :: "Syncs \<Rightarrow> (Syncs, SyncEmission) outcome" where
  "breakTimeout s =
     (if sy_breakTimers s = 0 then pass s
      else let s1 = s\<lparr>sy_breakTimers := sy_breakTimers s - 1\<rparr>
           in (case sy_interrupt s1 of None \<Rightarrow> pass s1 | Some i \<Rightarrow> onDone i s1))"

definition stopSettled :: "Syncs \<Rightarrow> Syncs" where
  "stopSettled s = s\<lparr>sy_breakTimers := sy_breakTimers s - 1\<rparr>"

definition onNetworkStatusChanged :: "bool \<Rightarrow> Syncs \<Rightarrow> (Syncs, SyncEmission) outcome" where
  "onNetworkStatusChanged isOnline s = (if isOnline then releaseRetry s else pass s)"

definition onMobileSafariBackgrounded :: "externs \<Rightarrow> bool \<Rightarrow> Syncs \<Rightarrow> (Syncs, SyncEmission) outcome" where
  "onMobileSafariBackgrounded x hidden s =
     (let s1 = s\<lparr>sy_backgrounded := hidden\<rparr>
      in if hidden then pass s1 else andThen (releaseRetry s1) (\<lambda>s. pass (sync_checkStartTicking x s)))"

text \<open>
  The ping timer fires: a request is sent when there is a synchronisation. When it was answered the
  next timer is set; when it failed, the waiting loop is interrupted.
\<close>

definition pingFires :: "bool \<Rightarrow> Syncs \<Rightarrow> Syncs" where
  "pingFires orphan s =
     (if (if orphan then sy_orphanTimers s = 0 else \<not> sy_pingTimeout s) then s
      else let s1 = (if orphan then s\<lparr>sy_orphanTimers := sy_orphanTimers s - 1\<rparr> else s\<lparr>sy_pingTimeout := False\<rparr>)
           in if sy_state s1 = Syncing \<and> sy_syncId s1 \<noteq> None then s1\<lparr>sy_pings := sy_pings s1 + 1\<rparr>
              else if sy_state s1 = Syncing then sendKeepAlivePings s1 else s1)"

definition pingAnswered :: "bool \<Rightarrow> Syncs \<Rightarrow> (Syncs, SyncEmission) outcome" where
  "pingAnswered ok s =
     (if sy_pings s = 0 then pass s
      else let s1 = s\<lparr>sy_pings := sy_pings s - 1\<rparr>
           in if ok then pass (if sy_state s1 = Syncing then sendKeepAlivePings s1 else s1)
              else (case sy_interrupt s1 of None \<Rightarrow> pass s1 | Some i \<Rightarrow> onError i s1))"

text \<open>
  Removing a stream from the synchronisation: wait while it is starting, call the node, and when it
  has answered, with or without an error, forget the stream.
\<close>

definition callRemove :: "string \<times> nat \<Rightarrow> Syncs \<Rightarrow> Syncs" where
  "callRemove r s = (if sy_state s = Syncing then s\<lparr>sy_removing := sy_removing s @ [r]\<rparr> else s)"

definition removeStreamFromSync :: "string \<Rightarrow> Syncs \<Rightarrow> Syncs" where
  "removeStreamFromSync streamId s =
     (case sync_get streamId s of
        None \<Rightarrow> s
      | Some a \<Rightarrow>
          if sy_state s = Starting \<or> sy_state s = Retrying then s\<lparr>sy_waiting := sy_waiting s @ [(streamId, a)]\<rparr>
          else callRemove (streamId, a) s)"

definition waitedForSyncing :: "Syncs \<Rightarrow> Syncs" where
  "waitedForSyncing s =
     (case sy_waiting s of
        [] \<Rightarrow> s
      | r # rs \<Rightarrow> if Syncing \<in> set (stateConstraints (sy_state s)) then s else callRemove r (s\<lparr>sy_waiting := rs\<rparr>))"

definition removeAnswered :: "Syncs \<Rightarrow> (Syncs, SyncEmission) outcome" where
  "removeAnswered s =
     (case sy_removing s of
        [] \<Rightarrow> pass s
      | (streamId, a) # rs \<Rightarrow>
          emit True (streamRemovedFromSync streamId) (dropStream streamId (stopObject a (s\<lparr>sy_removing := rs\<rparr>))))"

section \<open>Steps\<close>

datatype SyncInput =
    StartSync | StopSync | StopSettled | Response nat SyncStreamsResponse | IteratorDone nat | IteratorError nat
  | RetryElapsed nat | BreakTimeout | NetworkStatus bool | Visibility bool | PingFires bool | PingAnswered bool
  | TickDone | SetStream string SyncedStream | DeleteStream string | RemoveStream string | WaitOver | RemoveAnswered

fun syncStep :: "externs \<Rightarrow> crypto \<Rightarrow> SyncInput \<Rightarrow> Syncs \<Rightarrow> (Syncs, SyncEmission) outcome" where
  "syncStep x c StartSync s = createSyncLoop s"
| "syncStep x c StopSync s = stopSync s"
| "syncStep x c StopSettled s = pass (stopSettled s)"
| "syncStep x c (Response i value) s = onResponse x i value s"
| "syncStep x c (IteratorDone i) s = onDone i s"
| "syncStep x c (IteratorError i) s = onError i s"
| "syncStep x c (RetryElapsed i) s = retryElapsed i s"
| "syncStep x c BreakTimeout s = breakTimeout s"
| "syncStep x c (NetworkStatus online) s = onNetworkStatusChanged online s"
| "syncStep x c (Visibility hidden) s = onMobileSafariBackgrounded x hidden s"
| "syncStep x c (PingFires orphan) s = pass (pingFires orphan s)"
| "syncStep x c (PingAnswered ok) s = pingAnswered ok s"
| "syncStep x c TickDone s = tickDone x c s"
| "syncStep x c (SetStream streamId stream) s = pass (sync_set streamId stream s)"
| "syncStep x c (DeleteStream streamId) s = pass (sync_delete streamId s)"
| "syncStep x c (RemoveStream streamId) s = pass (removeStreamFromSync streamId s)"
| "syncStep x c WaitOver s = pass (waitedForSyncing s)"
| "syncStep x c RemoveAnswered s = removeAnswered s"

end
