(* ===== verification/SyncRuns.thy ===== *)
theory SyncRuns
  imports Sync
begin

text \<open>
  Properties of the synchronisation loop: what each state means at every point where the code
  waits, how stopping ends, how long retries wait, and the flaws of starting and ending a loop.
\<close>

section \<open>Control state\<close>

text \<open>The fields that decide where the loop is; the other operations leave them alone.\<close>

definition control :: "Syncs \<Rightarrow> SyncState \<times> string option \<times> LoopAt list \<times> nat option \<times> nat option \<times> nat" where
  "control s = (sy_state s, sy_syncId s, sy_loops s, sy_interrupt s, sy_releaseRetryWait s, sy_retryCount s)"

text \<open>Where the last loop is in each state.\<close>

fun loopFor :: "SyncState \<Rightarrow> LoopAt \<Rightarrow> bool" where
  "loopFor NotSyncing l = (l = Ended)"
| "loopFor Retrying l = (case l of AtRetry _ \<Rightarrow> True | _ \<Rightarrow> False)"
| "loopFor _ l = (l = AtNext)"

fun syncIdFor :: "SyncState \<Rightarrow> string option \<Rightarrow> bool" where
  "syncIdFor Syncing i = (i \<noteq> None)"
| "syncIdFor Canceling i = True"
| "syncIdFor _ i = (i = None)"

definition sync_ok :: "Syncs \<Rightarrow> bool" where
  "sync_ok s =
     (list_all (\<lambda>l. l = Ended) (butlast (sy_loops s)) \<and>
      (if sy_loops s = [] then sy_state s = NotSyncing else loopFor (sy_state s) (last (sy_loops s))) \<and>
      syncIdFor (sy_state s) (sy_syncId s) \<and>
      (sy_state s = Starting \<or> sy_state s = Syncing \<or> sy_state s = Canceling \<longrightarrow> sy_interrupt s = Some (length (sy_loops s) - 1)) \<and>
      sy_releaseRetryWait s = (if sy_state s = Retrying then Some (length (sy_loops s) - 1) else None))"

lemma sync_ok_control: "control s' = control s \<Longrightarrow> sync_ok s' = sync_ok s"
  by (simp add: control_def sync_ok_def)

lemma control_simps [simp]:
  "control (stopPing s) = control s" "control (sendKeepAlivePings s) = control s"
  "control (sync_set i o' s) = control s" "control (stopObject a s) = control s" "control (dropStream i s) = control s"
  "control (sync_delete i s) = control s" "control (sync_tick x s) = control s" "control (sync_checkStartTicking x s) = control s"
  "control (stopSettled s) = control s" "control (pingFires b s) = control s" "control (callRemove r s) = control s"
  "control (removeStreamFromSync i s) = control s" "control (waitedForSyncing s) = control s"
  "control (s\<lparr>sy_responses := rs\<rparr>) = control s" "control (s\<lparr>sy_tick := t\<rparr>) = control s" "control (s\<lparr>sy_backgrounded := b\<rparr>) = control s"
  "control (s\<lparr>sy_breakTimers := n\<rparr>) = control s" "control (s\<lparr>sy_pings := n\<rparr>) = control s" "control (s\<lparr>sy_streams := ss\<rparr>) = control s"
  "control (s\<lparr>sy_removing := r'\<rparr>) = control s"
  by (simp_all add: control_def stopPing_def sendKeepAlivePings_def sync_set_def stopObject_def dropStream_def sync_delete_def sync_tick_def
      sync_checkStartTicking_def stopSettled_def pingFires_def callRemove_def removeStreamFromSync_def waitedForSyncing_def Let_def
      split: option.split list.split)

lemma control_fields:
  assumes "control s' = control s"
  shows "sy_state s' = sy_state s" "sy_syncId s' = sy_syncId s" "sy_loops s' = sy_loops s" "sy_interrupt s' = sy_interrupt s"
    "sy_releaseRetryWait s' = sy_releaseRetryWait s" "sy_retryCount s' = sy_retryCount s"
  using assms by (simp_all add: control_def)

lemma stopStreams_control [simp]: "control (stopStreams s) = control s"
proof -
  have "control (fold (\<lambda>(_, a). stopObject a) xs s) = control s" for xs :: "(string \<times> nat) list" and s
    by (induction xs arbitrary: s) auto
  then show ?thesis by (simp add: stopStreams_def)
qed

lemmas stop_fields [simp] = control_fields [OF stopStreams_control] control_fields [OF control_simps(1)]
  control_fields [OF control_simps(2)] control_fields [OF control_simps(8)] control_fields [OF control_simps(14)]

lemma finishUpdate_control: "control (out_state (finishUpdate x c t s)) = control s"
  by (auto simp: finishUpdate_def on_object_def control_def split: TickAt.split sum.split prod.split)

lemma tickDone_control: "control (out_state (tickDone x c s)) = control s"
proof (cases "sy_tick s")
  case (Some t)
  then show ?thesis
    by (simp add: tickDone_def andThen_state finishUpdate_control)
qed (simp add: tickDone_def)

section \<open>The states keep their meaning\<close>

lemma setSyncState_allowed:
  "newState \<in> set (stateConstraints (sy_state s)) \<Longrightarrow> newState \<noteq> sy_state s \<Longrightarrow>
     setSyncState newState s = (s\<lparr>sy_state := newState\<rparr>, [streamSyncStateChange newState], None)"
  by (auto simp: setSyncState_def emit_def)

text \<open>All loops but the last, at position \<open>n\<close>, have ended.\<close>

definition single :: "nat \<Rightarrow> Syncs \<Rightarrow> bool" where
  "single n s = (length (sy_loops s) = Suc n \<and> list_all (\<lambda>l. l = Ended) (butlast (sy_loops s)))"

lemma single_update [simp]: "single n s \<Longrightarrow> butlast ((sy_loops s)[n := l]) = butlast (sy_loops s)"
  by (simp add: single_def butlast_list_update)

lemma single_last [simp]: "single n s \<Longrightarrow> last ((sy_loops s)[n := l]) = l"
  by (subst last_list_update) (auto simp: single_def)

lemma single_nonempty: "single n s \<Longrightarrow> sy_loops s \<noteq> []"
  by (auto simp: single_def)

lemma single_control: "control s' = control s \<Longrightarrow> single n s' = single n s"
  by (simp add: single_def control_def)

lemma sync_ok_single: "sync_ok s \<Longrightarrow> sy_loops s \<noteq> [] \<Longrightarrow> single (length (sy_loops s) - 1) s"
  by (simp add: sync_ok_def single_def)

lemma finishLoop_ok:
  assumes "single n s" "sy_state s = Canceling" "sy_releaseRetryWait s = None"
  shows "sync_ok (out_state (finishLoop n s)) \<and> sy_state (out_state (finishLoop n s)) = NotSyncing"
  using assms by (simp add: finishLoop_def setLoop_def setSyncState_allowed then_do_def emit_def sync_ok_def single_def
      butlast_list_update last_list_update Let_def)

lemma enterLoop_ok:
  assumes "single n s" "sy_state s \<in> {Starting, Retrying, Canceling}" "sy_releaseRetryWait s = None"
  shows "sync_ok (out_state (enterLoop n s))"
proof (cases "sy_state s = Canceling")
  case True
  then show ?thesis using finishLoop_ok [OF assms(1) _ assms(3)] by (simp add: enterLoop_def)
next
  case False
  then show ?thesis
    using assms by (auto simp: enterLoop_def setLoop_def setSyncState_allowed then_do_def sync_ok_def single_def pass_def
        butlast_list_update last_list_update)
qed

lemma innerLoop_ok:
  assumes "single n s" "sy_state s \<noteq> NotSyncing" "sy_releaseRetryWait s = None" "sy_state s \<in> {Syncing, Starting} \<Longrightarrow> syncIdFor (sy_state s) (sy_syncId s)"
  shows "sync_ok (out_state (innerLoop n s))"
proof (cases "sy_state s = Syncing \<or> sy_state s = Starting")
  case True
  then show ?thesis
    using assms by (auto simp: innerLoop_def setLoop_def sync_ok_def single_def butlast_list_update last_list_update)
next
  case False
  then show ?thesis using assms enterLoop_ok [OF assms(1)] by (cases "sy_state s") (auto simp: innerLoop_def)
qed

lemma attemptRetry_ok:
  assumes "single n s" "sy_state s \<noteq> NotSyncing" "sy_releaseRetryWait s = None" "sy_state s = Retrying \<Longrightarrow> sy_syncId s = None"
  shows "sync_ok (out_state (attemptRetry n s))"
proof (cases "sy_state s = Canceling")
  case True
  then show ?thesis
    using enterLoop_ok [of n "stopPing s"] assms by (simp add: attemptRetry_def Let_def single_control [OF control_simps(1)])
next
  case False
  then have "sy_state s \<in> {Starting, Syncing, Retrying}" using assms(2) by (cases "sy_state s") auto
  then show ?thesis
    using assms by (auto simp: attemptRetry_def Let_def setLoop_def setSyncState_allowed then_do_def emit_def pass_def sync_ok_def single_def
        butlast_list_update last_list_update)
qed

lemma ended_before_last:
  assumes "list_all (\<lambda>l. l = Ended) (butlast ls)" "i < length ls" "ls ! i \<noteq> Ended"
  shows "i = length ls - 1" "last ls = ls ! i"
proof -
  show "i = length ls - 1"
  proof (rule ccontr)
    assume "i \<noteq> length ls - 1"
    then have "i < length (butlast ls)" using assms(2) by simp
    then show False using assms(1,3) nth_butlast [of i ls] by (simp add: list_all_length)
  qed
  then show "last ls = ls ! i" using assms(2) by (metis last_conv_nth list.size(3) not_less_zero)
qed

lemma waitsAt_ok:
  assumes "sync_ok s" "waitsAt i s"
  shows "single i s" "sy_state s \<in> {Starting, Syncing, Canceling}" "sy_releaseRetryWait s = None"
    "sy_state s \<noteq> Canceling \<Longrightarrow> syncIdFor (sy_state s) (sy_syncId s)"
proof -
  have i: "i < length (sy_loops s)" "sy_loops s ! i = AtNext" using assms(2) by (simp_all add: waitsAt_def)
  have e: "list_all (\<lambda>l. l = Ended) (butlast (sy_loops s))" using assms(1) by (simp add: sync_ok_def)
  note l = ended_before_last [OF e i(1)]
  have ne: "sy_loops s \<noteq> []" using i(1) by auto
  show "single i s" using l(1) i e by (auto simp: single_def)
  show st: "sy_state s \<in> {Starting, Syncing, Canceling}"
    using assms(1) l(2) i(2) ne by (cases "sy_state s") (auto simp: sync_ok_def)
  then show "sy_releaseRetryWait s = None" "sy_state s \<noteq> Canceling \<Longrightarrow> syncIdFor (sy_state s) (sy_syncId s)"
    using assms(1) by (auto simp: sync_ok_def)
qed

lemma retriesAt_ok:
  assumes "sync_ok s" "retriesAt i s"
  shows "single i s" "sy_state s = Retrying"
proof -
  have i: "i < length (sy_loops s)" "\<exists>d. sy_loops s ! i = AtRetry d"
    using assms(2) by (auto simp: retriesAt_def split: LoopAt.splits)
  have e: "list_all (\<lambda>l. l = Ended) (butlast (sy_loops s))" using assms(1) by (simp add: sync_ok_def)
  have n: "sy_loops s ! i \<noteq> Ended" using i(2) by auto
  note l = ended_before_last [OF e i(1) n]
  have ne: "sy_loops s \<noteq> []" using i(1) by auto
  show "single i s" using l(1) i e by (auto simp: single_def)
  show "sy_state s = Retrying"
    using assms(1) l(2) i(2) ne by (cases "sy_state s") (auto simp: sync_ok_def)
qed

text \<open>After a response the loop can go on; nothing is thrown.\<close>

lemma handleResponse_mid:
  fixes x v
  assumes "sy_state s \<in> {Starting, Syncing, Canceling}" "single n s" "sy_releaseRetryWait s = None"
    "sy_state s \<noteq> Canceling \<Longrightarrow> syncIdFor (sy_state s) (sy_syncId s)"
  defines "r \<equiv> handleResponse x v s"
  shows "out_error r = None" "single n (out_state r)" "sy_state (out_state r) \<noteq> NotSyncing" "sy_releaseRetryWait (out_state r) = None"
    "sy_state (out_state r) \<in> {Syncing, Starting} \<Longrightarrow> syncIdFor (sy_state (out_state r)) (sy_syncId (out_state r))"
    "sy_state s = Canceling \<Longrightarrow> sy_state (out_state r) = Canceling"
  using assms(1-4)
  by (auto simp: r_def handleResponse_def syncStarted_def syncClosed_def setSyncState_allowed then_do_def emit_def pass_def single_def
      split: SyncOp.splits if_splits)

lemma onResponse_waiting:
  assumes "sync_ok s" "waitsAt i s"
  shows "out_state (onResponse x i v s) = out_state (innerLoop i (out_state (handleResponse x v s)))"
proof -
  note w = waitsAt_ok [OF assms]
  have "out_error (handleResponse x v s) = None" by (rule handleResponse_mid(1) [OF w(2,1,3,4)])
  then show ?thesis
    using assms(2) by (cases "handleResponse x v s") (simp add: onResponse_def split: prod.split)
qed

lemma onResponse_ok:
  assumes "sync_ok s"
  shows "sync_ok (out_state (onResponse x i v s))"
proof (cases "waitsAt i s")
  case True
  note w = waitsAt_ok [OF assms True]
  note m = handleResponse_mid [OF w(2,1,3,4), of x v]
  show ?thesis unfolding onResponse_waiting [OF assms True] by (rule innerLoop_ok [OF m(2-5)])
qed (simp add: onResponse_def assms)

lemma onError_ok: "sync_ok s \<Longrightarrow> sync_ok (out_state (onError i s))"
  using waitsAt_ok [of s i] attemptRetry_ok [of i s] by (auto simp: onError_def)

lemma onDone_ok: "sync_ok s \<Longrightarrow> sy_state s = Canceling \<Longrightarrow> sync_ok (out_state (onDone i s))"
  using waitsAt_ok [of s i] finishLoop_ok [of i "s\<lparr>sy_interrupt := None\<rparr>"] by (auto simp: onDone_def single_def)

lemma retryElapsed_ok:
  assumes "sync_ok s"
  shows "sync_ok (out_state (retryElapsed i s))"
proof (cases "retriesAt i s")
  case True
  note r = retriesAt_ok [OF assms True]
  have "sync_ok (out_state (enterLoop i (s\<lparr>sy_releaseRetryWait := None\<rparr>)))"
    by (rule enterLoop_ok) (use r in \<open>simp_all add: single_def\<close>)
  then show ?thesis using True by (simp add: retryElapsed_def)
qed (simp add: retryElapsed_def assms)

text \<open>Releasing the wait of the last loop enters the loop again.\<close>

lemma releaseRetry_entered:
  assumes "single n s" "loopFor Retrying (last (sy_loops s))" "sy_releaseRetryWait s = Some n"
  shows "releaseRetry s = enterLoop n (s\<lparr>sy_releaseRetryWait := None\<rparr>)"
proof -
  have "sy_loops s ! n = last (sy_loops s)"
    using assms(1) by (metis One_nat_def diff_Suc_Suc diff_zero last_conv_nth single_def single_nonempty)
  then have "retriesAt n (s\<lparr>sy_releaseRetryWait := None\<rparr>)" using assms(1,2) by (simp add: retriesAt_def single_def)
  then show ?thesis by (simp add: releaseRetry_def assms(3) retryElapsed_def)
qed

lemma releaseRetry_ok:
  assumes "sync_ok s"
  shows "sync_ok (out_state (releaseRetry s))"
proof (cases "sy_state s = Retrying")
  case True
  then have ne: "sy_loops s \<noteq> []" and l: "loopFor Retrying (last (sy_loops s))" and
    r: "sy_releaseRetryWait s = Some (length (sy_loops s) - 1)"
    using assms by (auto simp: sync_ok_def split: if_splits)
  note sg = sync_ok_single [OF assms ne]
  have "sync_ok (out_state (enterLoop (length (sy_loops s) - 1) (s\<lparr>sy_releaseRetryWait := None\<rparr>)))"
    by (rule enterLoop_ok) (use sg True in \<open>simp_all add: single_def\<close>)
  then show ?thesis by (simp add: releaseRetry_entered [OF sg l r])
next
  case False
  then show ?thesis using assms by (simp add: releaseRetry_def sync_ok_def)
qed

text \<open>What stopping does in each state.\<close>

definition stopping :: "Syncs \<Rightarrow> Syncs" where
  "stopping s = (stopPing (s\<lparr>sy_responses := [], sy_state := Canceling\<rparr>))
    \<lparr>sy_breakTimers := (if sy_syncId s \<noteq> None then sy_breakTimers s + 1 else sy_breakTimers s)\<rparr>"

lemma stopping_fields [simp]:
  "sy_state (stopping s) = Canceling" "sy_loops (stopping s) = sy_loops s" "sy_releaseRetryWait (stopping s) = sy_releaseRetryWait s"
  "sy_interrupt (stopping s) = sy_interrupt s" "sy_streams (stopping s) = sy_streams s" "sy_objects (stopping s) = sy_objects s"
  "single n (stopping s) = single n s" "sy_syncId s \<noteq> None \<Longrightarrow> sy_breakTimers (stopping s) > 0"
  by (simp_all add: stopping_def stopPing_def single_def)

lemma stopSync_stopping:
  "sy_state s \<in> {Starting, Syncing, Retrying} \<Longrightarrow> out_state (stopSync s) = out_state (releaseRetry (stopping s))"
  by (auto simp: stopSync_def stopping_def Let_def setSyncState_allowed then_do_def stopPing_def split: prod.split)

lemma stopSync_retrying:
  assumes "sync_ok s" "sy_state s = Retrying"
  shows "out_state (stopSync s) = out_state (finishLoop (length (sy_loops s) - 1) ((stopping s)\<lparr>sy_releaseRetryWait := None\<rparr>))"
    "single (length (sy_loops s) - 1) s"
proof -
  have ne: "sy_loops s \<noteq> []" and l: "loopFor Retrying (last (sy_loops s))" and
    r: "sy_releaseRetryWait s = Some (length (sy_loops s) - 1)"
    using assms by (auto simp: sync_ok_def split: if_splits)
  show sg: "single (length (sy_loops s) - 1) s" by (rule sync_ok_single [OF assms(1) ne])
  have "releaseRetry (stopping s) = enterLoop (length (sy_loops s) - 1) ((stopping s)\<lparr>sy_releaseRetryWait := None\<rparr>)"
    by (rule releaseRetry_entered) (simp_all only: stopping_fields sg l r)
  then show "out_state (stopSync s) = out_state (finishLoop (length (sy_loops s) - 1) ((stopping s)\<lparr>sy_releaseRetryWait := None\<rparr>))"
    using assms(2) by (simp add: stopSync_stopping enterLoop_def)
qed

lemma stopSync_canceling:
  assumes "sync_ok s" "sy_state s = Starting \<or> sy_state s = Syncing"
  shows "out_state (stopSync s) = stopping s" "sync_ok (stopping s)"
proof -
  have "sy_releaseRetryWait s = None" using assms by (auto simp: sync_ok_def)
  then show "out_state (stopSync s) = stopping s" using assms(2) by (auto simp: stopSync_stopping releaseRetry_def)
  show "sync_ok (stopping s)" using assms by (auto simp: sync_ok_def split: if_splits)
qed

lemma stopSync_ok:
  assumes "sync_ok s"
  shows "sync_ok (out_state (stopSync s))"
proof (cases "sy_state s")
  case Retrying
  have "sync_ok (out_state (finishLoop (length (sy_loops s) - 1) ((stopping s)\<lparr>sy_releaseRetryWait := None\<rparr>)))"
    by (rule finishLoop_ok [THEN conjunct1]) (use stopSync_retrying(2) [OF assms Retrying] in \<open>simp_all add: single_def\<close>)
  then show ?thesis by (simp add: stopSync_retrying(1) [OF assms Retrying])
next
  case NotSyncing
  then show ?thesis using assms by (simp add: stopSync_def sync_ok_control [OF control_simps(14)])
next
  case Canceling
  then show ?thesis using assms by (simp add: stopSync_def sync_ok_control [OF control_simps(14)])
qed (simp_all add: stopSync_canceling assms)

lemma createSyncLoop_ok:
  assumes "sync_ok s" "sy_state s = NotSyncing"
  shows "sync_ok (out_state (createSyncLoop s))"
proof -
  let ?s = "s\<lparr>sy_state := Starting, sy_loops := sy_loops s @ [AtNext]\<rparr>"
  have "list_all (\<lambda>l. l = Ended) (sy_loops s)"
  proof (cases "sy_loops s" rule: rev_cases)
    case (snoc ls l)
    then show ?thesis using assms by (simp add: sync_ok_def)
  qed simp
  then have "sync_ok (out_state (enterLoop (length (sy_loops s)) ?s))"
    using assms by (intro enterLoop_ok) (simp_all add: single_def sync_ok_def)
  moreover have "out_state (createSyncLoop s) = out_state (enterLoop (length (sy_loops s)) ?s)"
    using assms(2) by (simp add: createSyncLoop_def Let_def setSyncState_allowed then_do_def split: prod.split)
  ultimately show ?thesis by simp
qed

lemma breakTimeout_ok:
  assumes "sync_ok s" "sy_state s = Canceling \<or> sy_state s = NotSyncing"
  shows "sync_ok (out_state (breakTimeout s))"
proof (cases "sy_breakTimers s = 0 \<or> sy_interrupt s = None")
  case True
  then have "control (out_state (breakTimeout s)) = control s" by (auto simp: breakTimeout_def Let_def)
  from sync_ok_control [OF this] show ?thesis using assms(1) by simp
next
  case False
  let ?s = "s\<lparr>sy_breakTimers := sy_breakTimers s - 1\<rparr>"
  obtain i where i: "sy_interrupt s = Some i" using False by blast
  have ok: "sync_ok ?s" using assms(1) by (simp only: sync_ok_control [OF control_simps(17)])
  have "sync_ok (out_state (onDone i ?s))"
  proof (cases "sy_state s = Canceling")
    case True
    then show ?thesis using onDone_ok [OF ok] by simp
  next
    case False
    then have "\<not> waitsAt i ?s" using waitsAt_ok(2) [OF ok] assms(2) by auto
    then show ?thesis using ok by (simp add: onDone_def)
  qed
  then show ?thesis using False i by (simp add: breakTimeout_def Let_def)
qed

lemma pingAnswered_ok:
  assumes "sync_ok s"
  shows "sync_ok (out_state (pingAnswered b s))"
proof -
  have ok: "sync_ok (s\<lparr>sy_pings := n\<rparr>)" for n using assms by (simp only: sync_ok_control [OF control_simps(18)])
  then have "sync_ok (sendKeepAlivePings (s\<lparr>sy_pings := n\<rparr>))" for n by (simp only: sync_ok_control [OF control_simps(2)])
  then show ?thesis using assms ok onError_ok [OF ok] by (simp add: pingAnswered_def Let_def split: option.split)
qed

text \<open>
  The inputs the design counts on: a loop is started only when none runs, the node ends the
  response stream without an error only after the client asked for it, and the timer of an earlier
  stop does not fire into a later synchronisation.
\<close>

definition syncLegal :: "SyncInput \<Rightarrow> Syncs \<Rightarrow> bool" where
  "syncLegal i s =
     (case i of
        StartSync \<Rightarrow> sy_state s = NotSyncing
      | IteratorDone _ \<Rightarrow> sy_state s = Canceling
      | BreakTimeout \<Rightarrow> sy_state s = Canceling \<or> sy_state s = NotSyncing
      | _ \<Rightarrow> True)"

lemma syncStep_ok:
  assumes "sync_ok s" "syncLegal i s"
  shows "sync_ok (out_state (syncStep x c i s))"
proof -
  have same: "sync_ok s'" if "control s' = control s" for s'
    using sync_ok_control [OF that] assms(1) by simp
  show ?thesis
  proof (cases i)
    case (Visibility hidden)
    have "sync_ok (out_state (releaseRetry (s\<lparr>sy_backgrounded := hidden\<rparr>)))" by (rule releaseRetry_ok, rule same) simp
    moreover have "sync_ok (s\<lparr>sy_backgrounded := hidden\<rparr>)" by (rule same) simp
    ultimately show ?thesis
      using Visibility by (cases hidden)
        (simp_all add: onMobileSafariBackgrounded_def Let_def andThen_state sync_ok_control [OF control_simps(8)])
  next
    case RemoveAnswered
    have "control (out_state (removeAnswered s)) = control s" by (simp add: removeAnswered_def split: list.split prod.split)
    then show ?thesis using RemoveAnswered same by simp
  next
    case (NetworkStatus online)
    then show ?thesis using assms(1) releaseRetry_ok [OF assms(1)] by (simp add: onNetworkStatusChanged_def)
  qed (use assms in \<open>simp_all add: syncLegal_def createSyncLoop_ok stopSync_ok onResponse_ok onDone_ok onError_ok
      retryElapsed_ok breakTimeout_ok pingAnswered_ok sync_ok_control [OF tickDone_control] sync_ok_control [OF control_simps(3)]
      sync_ok_control [OF control_simps(6)] sync_ok_control [OF control_simps(9)] sync_ok_control [OF control_simps(10)]
      sync_ok_control [OF control_simps(12)] sync_ok_control [OF control_simps(13)]\<close>)
qed

interpretation sync: stepping "syncStep x c" sync_ok syncLegal for x c
  by unfold_locales (rule syncStep_ok)

lemma Syncs_new_ok: "sync_ok (Syncs_new st)"
  by (simp add: sync_ok_def Syncs_new_def)

text \<open>
  (C21) At every point where the code waits, the state means what its documentation says. Without
  synchronisation no loop runs; otherwise exactly one does. It waits for the node while starting,
  syncing or canceling, and for the end of the delay while retrying. There is a synchronisation id
  exactly while syncing (while canceling the last one may still be there). This holds for every
  order of calls, responses, errors, timers and updates in which a loop is started only when none
  runs, the node ends the stream only when asked to, and no old timer fires.
\<close>

theorem sync_states_documented:
  assumes "legal_run (syncStep x c) syncLegal inputs (Syncs_new st)" and "s = run (syncStep x c) inputs (Syncs_new st)"
  shows "filter (\<lambda>l. l \<noteq> Ended) (sy_loops s) = (if sy_state s = NotSyncing then [] else [last (sy_loops s)]) \<and>
    (sy_loops s \<noteq> [] \<longrightarrow> loopFor (sy_state s) (last (sy_loops s))) \<and> syncIdFor (sy_state s) (sy_syncId s)"
proof -
  have ok: "sync_ok s" unfolding assms(2) by (rule sync.run_inv [OF Syncs_new_ok assms(1)])
  show ?thesis
  proof (cases "sy_loops s" rule: rev_cases)
    case Nil
    then show ?thesis using ok by (auto simp: sync_ok_def)
  next
    case (snoc ls l)
    have "filter (\<lambda>l. l \<noteq> Ended) ls = []" using ok snoc by (simp add: sync_ok_def list_all_iff)
    then show ?thesis using ok snoc by (cases "sy_state s") (auto simp: sync_ok_def split: LoopAt.splits)
  qed
qed

definition sample_sync_response :: "SyncOp \<Rightarrow> SyncStreamsResponse" where
  "sample_sync_response op = \<lparr>sr_syncId = ''id'', sr_syncOp = op, sr_stream = Some sample_delivered\<rparr>"

definition sample_sync_inputs :: "SyncInput list" where
  "sample_sync_inputs =
     [SetStream [] sample_stream, StartSync, Response 0 (sample_sync_response SYNC_NEW),
      Response 0 (sample_sync_response SYNC_UPDATE), TickDone, IteratorError 0, RetryElapsed 0,
      Response 0 (sample_sync_response SYNC_NEW), Response 0 (sample_sync_response SYNC_CLOSE), NetworkStatus True]"

lemma sample_sync_legal: "legal_run (syncStep sample_externs sample_crypto) syncLegal sample_sync_inputs (Syncs_new sample_store)"
  by code_simp

theorem sync_states_documented_witness:
  "syncIdFor (sy_state (run (syncStep sample_externs sample_crypto) sample_sync_inputs (Syncs_new sample_store)))
     (sy_syncId (run (syncStep sample_externs sample_crypto) sample_sync_inputs (Syncs_new sample_store)))"
  using sync_states_documented [OF sample_sync_legal refl] by blast

section \<open>Stopping\<close>

text \<open>Synchronisation is over, and the streams of \<open>t\<close> are stopped and forgotten.\<close>

definition over :: "Syncs \<Rightarrow> Syncs \<Rightarrow> bool" where
  "over t u = (sy_state u = NotSyncing \<and> sy_streams u = [] \<and>
     (\<forall>(k, a) \<in> set (sy_streams t). a < length (sy_objects t) \<longrightarrow> ss_stopped (sy_objects u ! a)))"

lemma stopObject_stopped: "a < length (sy_objects s) \<Longrightarrow> ss_stopped (sy_objects (stopObject a s) ! a)"
  by (simp add: stopObject_def stop_stream_def)

lemma stopObject_keeps: "ss_stopped (sy_objects s ! b) \<Longrightarrow> ss_stopped (sy_objects (stopObject a s) ! b)"
  by (cases "a = b"; cases "a < length (sy_objects s)") (simp_all add: stopObject_def stop_stream_def list_update_beyond)

lemma stop_all:
  fixes ks :: "(string \<times> nat) list"
  defines "f \<equiv> fold (\<lambda>(_, a). stopObject a) ks"
  shows "length (sy_objects (f s)) = length (sy_objects s)" "ss_stopped (sy_objects s ! b) \<Longrightarrow> ss_stopped (sy_objects (f s) ! b)"
    "(k, b) \<in> set ks \<Longrightarrow> b < length (sy_objects s) \<Longrightarrow> ss_stopped (sy_objects (f s) ! b)"
  unfolding f_def
  by (induction ks arbitrary: s) (auto simp: stopObject_keeps stopObject_stopped, simp_all add: stopObject_def)

lemma finishLoop_over:
  assumes "sy_state t = Canceling"
  shows "over t (out_state (finishLoop i t))"
proof -
  have st: "out_state (finishLoop i t) =
      (stopStreams ((setLoop i Ended (stopPing t))\<lparr>sy_state := NotSyncing\<rparr>))\<lparr>sy_releaseRetryWait := None, sy_syncId := None\<rparr>"
    using assms by (simp add: finishLoop_def Let_def setSyncState_allowed setLoop_def then_do_def emit_def)
  have same: "sy_streams ((setLoop i Ended (stopPing t))\<lparr>sy_state := NotSyncing\<rparr>) = sy_streams t"
    "sy_objects ((setLoop i Ended (stopPing t))\<lparr>sy_state := NotSyncing\<rparr>) = sy_objects t"
    by (simp_all add: setLoop_def stopPing_def)
  let ?t = "(setLoop i Ended (stopPing t))\<lparr>sy_state := NotSyncing\<rparr>"
  have "sy_state (stopStreams ?t) = NotSyncing" by simp
  moreover have "sy_streams (stopStreams ?t) = []" by (simp add: stopStreams_def)
  moreover have "ss_stopped (sy_objects (stopStreams ?t) ! a)" if "(k, a) \<in> set (sy_streams t)" "a < length (sy_objects t)" for k a
  proof -
    have "ss_stopped (sy_objects (fold (\<lambda>(_, a). stopObject a) (sy_streams t) ?t) ! a)"
      by (rule stop_all(3) [OF that(1)]) (simp only: same that(2))
    then show ?thesis by (simp add: stopStreams_def same)
  qed
  ultimately show ?thesis unfolding over_def st by auto
qed

lemma handleResponse_streams:
  "sy_streams (out_state (handleResponse x v s)) = sy_streams s \<and> sy_objects (out_state (handleResponse x v s)) = sy_objects s"
  by (auto simp: handleResponse_def syncStarted_def syncClosed_def setSyncState_def then_do_def emit_def pass_def throw_def
      sendKeepAlivePings_def stopPing_def sync_checkStartTicking_def sync_tick_def Let_def split: SyncOp.split list.split)

lemma over_same: "sy_streams t' = sy_streams t \<and> sy_objects t' = sy_objects t \<Longrightarrow> over t' u \<Longrightarrow> over t u"
  by (simp add: over_def)

text \<open>While canceling, whatever comes next from the node ends the synchronisation.\<close>

definition answers :: "nat \<Rightarrow> SyncInput \<Rightarrow> bool" where
  "answers n e = (case e of Response i _ \<Rightarrow> i = n | IteratorDone i \<Rightarrow> i = n | IteratorError i \<Rightarrow> i = n | _ \<Rightarrow> False)"

lemma canceling_answered:
  assumes "sync_ok t" "sy_state t = Canceling" "n = length (sy_loops t) - 1"
  shows "answers n e \<Longrightarrow> over t (out_state (syncStep x c e t))"
    "sy_breakTimers t > 0 \<Longrightarrow> over t (out_state (syncStep x c BreakTimeout t))"
proof -
  have ne: "sy_loops t \<noteq> []" and at: "last (sy_loops t) = AtNext" and i: "sy_interrupt t = Some n"
    using assms by (auto simp: sync_ok_def split: if_splits)
  have w: "waitsAt n t" using ne at assms(3) by (simp add: waitsAt_def last_conv_nth)
  note ok = waitsAt_ok [OF assms(1) w]
  note mid = handleResponse_mid [OF ok(2,1,3,4)]
  have resp: "over t (out_state (onResponse x n v t))" for v
  proof -
    let ?t = "out_state (handleResponse x v t)"
    have c: "sy_state ?t = Canceling" by (rule mid(6) [OF _ assms(2)]) simp
    then have "innerLoop n ?t = finishLoop n ?t" by (simp add: innerLoop_def enterLoop_def)
    then show ?thesis
      unfolding onResponse_waiting [OF assms(1) w] using over_same [OF handleResponse_streams] finishLoop_over [OF c] by metis
  qed
  have err: "over t (out_state (onError n t))"
    using w assms(2) over_same [of "stopPing t" t] finishLoop_over [of "stopPing t" n]
    by (simp add: onError_def attemptRetry_def enterLoop_def Let_def stopPing_def)
  have fin: "over t' (out_state (onDone n t'))" if "sy_state t' = Canceling" "waitsAt n t'" for t'
    using that over_same [of "t'\<lparr>sy_interrupt := None\<rparr>" t'] finishLoop_over [of "t'\<lparr>sy_interrupt := None\<rparr>" n] by (simp add: onDone_def)
  show "answers n e \<Longrightarrow> over t (out_state (syncStep x c e t))"
    using resp err fin [OF assms(2) w] by (cases e) (simp_all add: answers_def)
  show "sy_breakTimers t > 0 \<Longrightarrow> over t (out_state (syncStep x c BreakTimeout t))"
    using i w assms(2) fin [of "t\<lparr>sy_breakTimers := sy_breakTimers t - 1\<rparr>"] over_same [of "t\<lparr>sy_breakTimers := sy_breakTimers t - 1\<rparr>" t]
    by (simp add: breakTimeout_def Let_def waitsAt_def)
qed

lemma ended_ignores:
  assumes "sync_ok u" "sy_state u = NotSyncing" "answers n e \<or> e = BreakTimeout"
  shows "over t (out_state (syncStep x c e u)) = over t u"
proof -
  have no: "\<not> waitsAt i u'" if "sy_loops u' = sy_loops u" for i u'
    using waitsAt_ok(2) [OF assms(1), of i] assms(2) that by (auto simp: waitsAt_def)
  then have "sy_state (out_state (syncStep x c e u)) = sy_state u \<and> sy_streams (out_state (syncStep x c e u)) = sy_streams u \<and>
      sy_objects (out_state (syncStep x c e u)) = sy_objects u"
    using assms(3) by (cases e) (auto simp: answers_def onResponse_def onDone_def onError_def breakTimeout_def Let_def split: option.split)
  then show ?thesis by (simp add: over_def)
qed

text \<open>
  (C25) Stopping comes to an end, in every order of calls, responses, errors, timers and updates in
  which a loop is started only when none runs, the node ends the stream only when asked to, and no old
  timer fires. When such an order has left the loop starting, syncing or retrying, then after
  \<open>stopSync\<close> a single further answer of the node to the loop (a response of any kind, the end of
  the stream, or an error) or, when the loop was syncing, the five second timer brings the client to
  \<open>NotSyncing\<close>, with every stream of its map stopped and the map empty. The condition on the node is
  needed: a stream the node has ended by itself leaves the client in \<open>Canceling\<close>
  (\<open>ended_stream_stuck\<close>).
\<close>

theorem stop_completes:
  assumes "legal_run (syncStep x c) syncLegal inputs (Syncs_new st)" and "s = run (syncStep x c) inputs (Syncs_new st)"
    and "sy_state s \<in> {Starting, Syncing, Retrying}"
    and "answers (length (sy_loops s) - 1) e \<or> e = BreakTimeout \<and> sy_state s = Syncing"
  shows "over s (run (syncStep x c) [StopSync, e] s)"
proof -
  have ok: "sync_ok s" unfolding assms(2) by (rule sync.run_inv [OF Syncs_new_ok assms(1)])
  show ?thesis
  proof (cases "sy_state s = Retrying")
    case True
    let ?t = "(stopping s)\<lparr>sy_releaseRetryWait := None\<rparr>"
    let ?u = "out_state (stopSync s)"
    have u: "?u = out_state (finishLoop (length (sy_loops s) - 1) ?t)" by (rule stopSync_retrying(1) [OF ok True])
    have "over ?t ?u" unfolding u by (rule finishLoop_over) simp
    then have "over s ?u" by (rule over_same [rotated]) simp
    moreover have "sync_ok ?u" "sy_state ?u = NotSyncing" using stopSync_ok [OF ok] \<open>over s ?u\<close> by (simp_all add: over_def)
    moreover have "answers (length (sy_loops s) - 1) e \<or> e = BreakTimeout" using assms(4) by blast
    ultimately show ?thesis using ended_ignores [of ?u] by simp
  next
    case False
    then have st: "sy_state s = Starting \<or> sy_state s = Syncing" using assms(3) by auto
    note t = stopSync_canceling [OF ok st]
    have "over (stopping s) (out_state (syncStep x c e (stopping s)))"
    proof (cases "e = BreakTimeout")
      case True
      then have "sy_state s = Syncing" using assms(4) by (auto simp: answers_def)
      then have "sy_syncId s \<noteq> None" using ok by (simp add: sync_ok_def)
      then show ?thesis using canceling_answered(2) [OF t(2)] True by simp
    next
      case False
      then show ?thesis using canceling_answered(1) [OF t(2)] assms(4) by simp
    qed
    then have "over s (out_state (syncStep x c e (stopping s)))" by (rule over_same [rotated]) simp
    then show ?thesis by (simp add: t(1))
  qed
qed

definition sample_syncing_inputs :: "SyncInput list" where
  "sample_syncing_inputs = [SetStream sample_channel sample_stream, StartSync, Response 0 (sample_sync_response SYNC_NEW)]"

theorem stop_completes_witness:
  "over (run (syncStep sample_externs sample_crypto) sample_syncing_inputs (Syncs_new sample_store))
     (run (syncStep sample_externs sample_crypto) [StopSync, BreakTimeout]
       (run (syncStep sample_externs sample_crypto) sample_syncing_inputs (Syncs_new sample_store)))"
proof -
  have "legal_run (syncStep sample_externs sample_crypto) syncLegal sample_syncing_inputs (Syncs_new sample_store)"
    "sy_state (run (syncStep sample_externs sample_crypto) sample_syncing_inputs (Syncs_new sample_store)) = Syncing" by code_simp+
  from stop_completes [OF this(1) refl, of BreakTimeout] this(2) show ?thesis by simp
qed

section \<open>Retries\<close>

lemma error_retries:
  assumes "waitsAt i s" "sy_state s = Starting \<or> sy_state s = Syncing"
  defines "s' \<equiv> out_state (onError i s)"
  shows "sy_state s' = Retrying" "sy_retryCount s' = nextRetryCount (sy_retryCount s)"
    "i < length (sy_loops s')" "sy_loops s' ! i = AtRetry (retryDelay (nextRetryCount (sy_retryCount s)))"
  using assms(1,2)
  by (auto simp: s'_def onError_def attemptRetry_def Let_def setSyncState_allowed then_do_def emit_def pass_def setLoop_def waitsAt_def)

lemma elapsed_starts:
  assumes "i < length (sy_loops s)" "sy_loops s ! i = AtRetry d" "sy_state s = Retrying"
  defines "s' \<equiv> out_state (retryElapsed i s)"
  shows "waitsAt i s'" "sy_state s' = Starting" "sy_retryCount s' = sy_retryCount s"
  using assms(1-3)
  by (auto simp: s'_def retryElapsed_def retriesAt_def enterLoop_def setSyncState_allowed then_do_def pass_def setLoop_def waitsAt_def)

definition failures :: "nat \<Rightarrow> nat \<Rightarrow> SyncInput list" where
  "failures k i = concat (replicate k [IteratorError i, RetryElapsed i])"

lemma failures_count:
  fixes x c k
  assumes "waitsAt i s" "sy_state s = Starting \<or> sy_state s = Syncing" "sy_retryCount s \<le> 7"
  defines "s' \<equiv> run (syncStep x c) (failures k i) s"
  shows "waitsAt i s' \<and> (sy_state s' = Starting \<or> sy_state s' = Syncing) \<and> sy_retryCount s' = min (sy_retryCount s + k) 7"
  using assms(1-3) unfolding s'_def
proof (induction k arbitrary: s)
  case (Suc k)
  let ?e = "out_state (onError i s)"
  let ?r = "out_state (retryElapsed i ?e)"
  note e = error_retries [OF Suc.prems(1,2)]
  note r = elapsed_starts [OF e(3,4,1)]
  have count: "sy_retryCount ?r = min (sy_retryCount s + 1) 7" "sy_retryCount ?r \<le> 7"
    using r(3) e(2) Suc.prems(3) by (auto simp: nextRetryCount_def MAX_RETRY_DELAY_FACTOR_def)
  have "failures (Suc k) i = [IteratorError i, RetryElapsed i] @ failures k i" by (simp add: failures_def)
  then show ?case using Suc.IH [OF r(1) _ count(2)] r(2) count(1) by (simp add: min_def)
qed (simp add: failures_def)

text \<open>
  Retries back off exponentially and stay bounded. When the connection fails again and again after
  a synchronisation had been established, the loop waits two seconds after the first failure, twice
  as long after every further one, and never more than 128 seconds; a retry always follows.
\<close>

theorem retry_backoff:
  assumes "waitsAt i s" "sy_state s = Starting \<or> sy_state s = Syncing" "sy_retryCount s = 0"
  shows "sy_loops (run (syncStep x c) (failures k i @ [IteratorError i]) s) ! i = AtRetry (1000 * 2 ^ min (k + 1) 7) \<and>
    waitsAt i (run (syncStep x c) (failures (k + 1) i) s)"
proof -
  note f = failures_count [OF assms(1,2), of x c]
  let ?s = "run (syncStep x c) (failures k i) s"
  have s: "waitsAt i ?s" "sy_state ?s = Starting \<or> sy_state ?s = Syncing" "sy_retryCount ?s = min k 7"
    using f [of k] assms(3) by simp_all
  have "nextRetryCount (min k 7) = min (k + 1) 7" by (auto simp: nextRetryCount_def MAX_RETRY_DELAY_FACTOR_def)
  then have "sy_loops (out_state (onError i ?s)) ! i = AtRetry (1000 * 2 ^ min (k + 1) 7)"
    using error_retries(4) [OF s(1,2)] s(3) by (simp add: retryDelay_def)
  then show ?thesis using f [of "k + 1"] assms(3) by simp
qed

theorem retry_backoff_witness:
  "sy_loops (run (syncStep sample_externs sample_crypto) (failures 2 0 @ [IteratorError 0])
     (run (syncStep sample_externs sample_crypto) sample_syncing_inputs (Syncs_new sample_store))) ! 0 = AtRetry 8000"
proof -
  let ?s = "run (syncStep sample_externs sample_crypto) sample_syncing_inputs (Syncs_new sample_store)"
  have "waitsAt 0 ?s" "sy_state ?s = Syncing" "sy_retryCount ?s = 0" by code_simp+
  from retry_backoff [OF this(1) disjI2 [OF this(2)] this(3), where k = 2 and x = sample_externs and c = sample_crypto]
  show ?thesis by (simp add: min_def)
qed

section \<open>Flaws\<close>

text \<open>
  The promise of a finished loop is never removed, so starting again after a stop is rejected, yet
  the loop runs.
\<close>

lemma restart_rejected:
  assumes "sy_state s = NotSyncing" "sy_loops s \<noteq> []"
  shows "out_error (createSyncLoop s) = Some (JsError ''createSyncLoop called while a loop exists'')"
    "sy_state (out_state (createSyncLoop s)) = Starting" "waitsAt (length (sy_loops s)) (out_state (createSyncLoop s))"
  using assms by (simp_all add: createSyncLoop_def Let_def setSyncState_allowed then_do_def enterLoop_def setLoop_def waitsAt_def pass_def)

text \<open>Starting while a loop runs is rejected as well, and there are two loops then.\<close>

lemma second_loop_runs:
  assumes "sy_state s = Syncing" "waitsAt i s"
  shows "out_error (createSyncLoop s) = Some (JsError ''invalid state transition'')"
    "waitsAt i (out_state (createSyncLoop s))" "waitsAt (length (sy_loops s)) (out_state (createSyncLoop s))"
    "sy_syncId (out_state (createSyncLoop s)) = None"
  using assms by (auto simp: createSyncLoop_def Let_def then_do_def enterLoop_def setLoop_def waitsAt_def pass_def nth_append)

text \<open>
  When the response stream ends by itself, the loop ends but the state stays; from then on the
  client can neither receive nor stop nor start.
\<close>

lemma ended_stream_stuck:
  assumes "sy_state s = Syncing" "sy_loops s = [AtNext]" "sy_releaseRetryWait s = None"
  defines "s1 \<equiv> out_state (onDone 0 s)"
  defines "s2 \<equiv> out_state (stopSync s1)"
  shows "sy_state s1 = Syncing" "sy_loops s1 = [Ended]" "sy_state s2 = Canceling" "sy_loops s2 = [Ended]"
    "out_error (createSyncLoop s2) \<noteq> None"
proof -
  show s1: "sy_state s1 = Syncing" "sy_loops s1 = [Ended]" using assms(1,2)
    by (simp_all add: s1_def onDone_def waitsAt_def finishLoop_def Let_def setLoop_def)
  have "sy_releaseRetryWait s1 = None" using assms(1-3)
    by (simp add: s1_def onDone_def waitsAt_def finishLoop_def Let_def setLoop_def)
  then show s2: "sy_state s2 = Canceling" "sy_loops s2 = [Ended]" using s1
    by (simp_all add: s2_def stopSync_stopping releaseRetry_def)
  show "out_error (createSyncLoop s2) \<noteq> None"
    using s2 by (simp add: createSyncLoop_def Let_def split: prod.split)
qed

text \<open>The timer of a stop whose \<open>cancelSync\<close> failed is not cleared; it ends a later loop.\<close>

lemma stale_timer_ends_loop:
  assumes "sy_state s = Syncing" "sy_loops s = [Ended, AtNext]" "sy_interrupt s = Some 1" "sy_breakTimers s > 0"
  shows "sy_state (out_state (breakTimeout s)) = Syncing" "sy_loops (out_state (breakTimeout s)) = [Ended, Ended]"
  using assms by (simp_all add: breakTimeout_def Let_def onDone_def waitsAt_def finishLoop_def setLoop_def)

text \<open>A synchronisation the node closes is restarted at once, without a delay, and is never reported as inactive.\<close>

lemma closed_restarts_at_once:
  assumes "sy_state s = Syncing" "waitsAt i s" "sr_syncOp v = SYNC_CLOSE" "sr_syncId v \<noteq> []"
  shows "sy_state (out_state (onResponse x i v s)) = Starting" "sy_retryCount (out_state (onResponse x i v s)) = sy_retryCount s"
    "out_events (onResponse x i v s) = [streamSyncStateChange Retrying, streamSyncStateChange Starting]"
  using assms by (simp_all add: onResponse_def handleResponse_def syncClosed_def setSyncState_allowed innerLoop_def enterLoop_def
      then_do_def pass_def setLoop_def)

end
