(* ===== verification/ERC721A.thy ===== *)
theory ERC721A
  imports Solidity
begin

text \<open>
  The token contract that spaces, memberships and node operators are built on:
  \<open>contracts/src/diamond/facets/token/ERC721A\<close> with its extension for queries. Definitions only.

  Ownership is kept in 256-bit words, one per batch of minted tokens: a token whose word is zero
  belongs to the owner in the nearest word before it. Balances and counters of an account share a
  word too. Both are modelled at their width. The storage is a record that the contracts built on
  the token extend; what they override is an argument, \<open>h\<close>. The log of events is part of the state.
\<close>

section \<open>Storage\<close>

datatype token_event =
    TransferEvent account account uint256
  | ApprovalEvent account account uint256
  | ApprovalForAllEvent account account bool
  | ConsecutiveTransfer uint256 uint256 account account

record ERC721A =
  currentIndex :: uint256
  burnCounter :: uint256
  token_name :: string
  token_symbol :: string
  packedOwnerships :: "uint256 \<Rightarrow> uint256"
  packedAddressData :: "account \<Rightarrow> uint256"
  tokenApprovals :: "uint256 \<Rightarrow> account"
  operatorApprovals :: "account \<Rightarrow> account \<Rightarrow> bool"
  token_log :: "token_event list"

record TokenOwnership =
  own_addr :: account
  own_startTimestamp :: "64 word"
  own_burned :: bool
  own_extraData :: "24 word"

text \<open>The hooks that contracts built on the token may override; the token's own do nothing.\<close>

record 's token_hooks =
  beforeTokenTransfers :: "call_context \<Rightarrow> account \<Rightarrow> account \<Rightarrow> uint256 \<Rightarrow> uint256 \<Rightarrow> 's \<Rightarrow> sol_error + 's"
  afterTokenTransfers :: "call_context \<Rightarrow> account \<Rightarrow> account \<Rightarrow> uint256 \<Rightarrow> uint256 \<Rightarrow> 's \<Rightarrow> sol_error + 's"

definition no_hooks :: "'s token_hooks" where
  "no_hooks = \<lparr>beforeTokenTransfers = \<lambda>_ _ _ _ _ s. Inr s, afterTokenTransfers = \<lambda>_ _ _ _ _ s. Inr s\<rparr>"

definition BITMASK_ADDRESS_DATA_ENTRY :: uint256 where
  "BITMASK_ADDRESS_DATA_ENTRY = push_bit 64 1 - 1"

definition BITMASK_AUX_COMPLEMENT :: uint256 where
  "BITMASK_AUX_COMPLEMENT = push_bit 192 1 - 1"

definition BITMASK_BURNED :: uint256 where
  "BITMASK_BURNED = push_bit 224 1"

definition BITMASK_NEXT_INITIALIZED :: uint256 where
  "BITMASK_NEXT_INITIALIZED = push_bit 225 1"

definition BITMASK_EXTRA_DATA_COMPLEMENT :: uint256 where
  "BITMASK_EXTRA_DATA_COMPLEMENT = push_bit 232 1 - 1"

definition MAX_MINT_ERC2309_QUANTITY_LIMIT :: uint256 where
  "MAX_MINT_ERC2309_QUANTITY_LIMIT = 5000"

definition startTokenId :: uint256 where
  "startTokenId = 0"

definition ERC721ABase_init :: "string \<Rightarrow> string \<Rightarrow> 'a ERC721A_scheme \<Rightarrow> 'a ERC721A_scheme" where
  "ERC721ABase_init name symbol s = s\<lparr>token_name := name, token_symbol := symbol, currentIndex := startTokenId\<rparr>"

section \<open>Counters\<close>

definition totalSupply :: "'a ERC721A_scheme \<Rightarrow> uint256" where
  "totalSupply s = currentIndex s - burnCounter s - startTokenId"

definition balanceOf :: "account \<Rightarrow> 'a ERC721A_scheme \<Rightarrow> sol_error + uint256" where
  "balanceOf owner s =
     (if owner = 0 then Inl BalanceQueryForZeroAddress
      else Inr (packedAddressData s owner AND BITMASK_ADDRESS_DATA_ENTRY))"

definition nextTokenId :: "'a ERC721A_scheme \<Rightarrow> uint256" where
  "nextTokenId s = currentIndex s"

definition totalMinted :: "'a ERC721A_scheme \<Rightarrow> uint256" where
  "totalMinted s = currentIndex s - startTokenId"

definition totalBurned :: "'a ERC721A_scheme \<Rightarrow> uint256" where
  "totalBurned s = burnCounter s"

definition numberMinted :: "account \<Rightarrow> 'a ERC721A_scheme \<Rightarrow> uint256" where
  "numberMinted owner s = drop_bit 64 (packedAddressData s owner) AND BITMASK_ADDRESS_DATA_ENTRY"

definition numberBurned :: "account \<Rightarrow> 'a ERC721A_scheme \<Rightarrow> uint256" where
  "numberBurned owner s = drop_bit 128 (packedAddressData s owner) AND BITMASK_ADDRESS_DATA_ENTRY"

definition getAux :: "account \<Rightarrow> 'a ERC721A_scheme \<Rightarrow> 64 word" where
  "getAux owner s = ucast (drop_bit 192 (packedAddressData s owner))"

definition setAux :: "account \<Rightarrow> 64 word \<Rightarrow> 'a ERC721A_scheme \<Rightarrow> 'a ERC721A_scheme" where
  "setAux owner aux s =
     (let packed = packedAddressData s owner;
          packed = (packed AND BITMASK_AUX_COMPLEMENT) OR push_bit 192 (ucast aux)
      in s\<lparr>packedAddressData := (packedAddressData s)(owner := packed)\<rparr>)"

section \<open>Ownership words\<close>

text \<open>The scan towards lower ids. It has no bound of its own: \<open>None\<close> when no word is ever found.\<close>

partial_function (option) scanOwnerships :: "(uint256 \<Rightarrow> uint256) \<Rightarrow> uint256 \<Rightarrow> uint256 option" where
  "scanOwnerships ownerships tokenId =
     (let tokenId = tokenId - 1; packed = ownerships tokenId
      in if packed = 0 then scanOwnerships ownerships tokenId else Some packed)"

definition packedOwnershipOf :: "uint256 \<Rightarrow> 'a ERC721A_scheme \<Rightarrow> sol_error + uint256" where
  "packedOwnershipOf tokenId s =
     (if startTokenId \<le> tokenId \<and> packedOwnerships s tokenId AND BITMASK_BURNED = 0
      then (if packedOwnerships s tokenId = 0
            then (if currentIndex s \<le> tokenId then Inl OwnerQueryForNonexistentToken
                  else (case scanOwnerships (packedOwnerships s) tokenId of
                          None \<Rightarrow> Inl OutOfGas
                        | Some packed \<Rightarrow> Inr packed))
            else Inr (packedOwnerships s tokenId))
      else Inl OwnerQueryForNonexistentToken)"

definition unpackedOwnership :: "uint256 \<Rightarrow> TokenOwnership" where
  "unpackedOwnership packed =
     \<lparr>own_addr = ucast packed, own_startTimestamp = ucast (drop_bit 160 packed),
      own_burned = (packed AND BITMASK_BURNED \<noteq> 0), own_extraData = ucast (drop_bit 232 packed)\<rparr>"

definition packOwnershipData :: "call_context \<Rightarrow> account \<Rightarrow> uint256 \<Rightarrow> uint256" where
  "packOwnershipData ctx owner flags = ucast owner OR (push_bit 160 (block_timestamp ctx) OR flags)"

definition nextInitializedFlag :: "uint256 \<Rightarrow> uint256" where
  "nextInitializedFlag quantity = push_bit 225 (if quantity = 1 then 1 else 0)"

definition extraData :: "account \<Rightarrow> account \<Rightarrow> 24 word \<Rightarrow> 24 word" where
  "extraData from to previousExtraData = 0"

definition nextExtraData :: "account \<Rightarrow> account \<Rightarrow> uint256 \<Rightarrow> uint256" where
  "nextExtraData from to prevOwnershipPacked =
     push_bit 232 (ucast (extraData from to (ucast (drop_bit 232 prevOwnershipPacked))))"

definition ownershipOf :: "uint256 \<Rightarrow> 'a ERC721A_scheme \<Rightarrow> sol_error + TokenOwnership" where
  "ownershipOf tokenId s = bindE (packedOwnershipOf tokenId s) (\<lambda>packed. Inr (unpackedOwnership packed))"

definition ownershipAt :: "uint256 \<Rightarrow> 'a ERC721A_scheme \<Rightarrow> TokenOwnership" where
  "ownershipAt index s = unpackedOwnership (packedOwnerships s index)"

definition initializeOwnershipAt :: "uint256 \<Rightarrow> 'a ERC721A_scheme \<Rightarrow> sol_error + 'a ERC721A_scheme" where
  "initializeOwnershipAt index s =
     (if packedOwnerships s index = 0
      then bindE (packedOwnershipOf index s) (\<lambda>packed.
             Inr (s\<lparr>packedOwnerships := (packedOwnerships s)(index := packed)\<rparr>))
      else Inr s)"

definition setExtraDataAt :: "uint256 \<Rightarrow> 24 word \<Rightarrow> 'a ERC721A_scheme \<Rightarrow> sol_error + 'a ERC721A_scheme" where
  "setExtraDataAt index extra s =
     (let packed = packedOwnerships s index
      in if packed = 0 then Inl OwnershipNotInitializedForExtraData
         else (let packed = (packed AND BITMASK_EXTRA_DATA_COMPLEMENT) OR push_bit 232 (ucast extra)
               in Inr (s\<lparr>packedOwnerships := (packedOwnerships s)(index := packed)\<rparr>)))"

section \<open>Owners and approvals\<close>

definition ownerOf :: "uint256 \<Rightarrow> 'a ERC721A_scheme \<Rightarrow> sol_error + account" where
  "ownerOf tokenId s = bindE (packedOwnershipOf tokenId s) (\<lambda>packed. Inr (ucast packed))"

definition token_exists :: "uint256 \<Rightarrow> 'a ERC721A_scheme \<Rightarrow> bool" where
  "token_exists tokenId s =
     (startTokenId \<le> tokenId \<and> tokenId < currentIndex s \<and> packedOwnerships s tokenId AND BITMASK_BURNED = 0)"

definition isSenderApprovedOrOwner :: "account \<Rightarrow> account \<Rightarrow> account \<Rightarrow> bool" where
  "isSenderApprovedOrOwner approvedAddress owner msgSender = (msgSender = owner \<or> msgSender = approvedAddress)"

definition isApprovedForAll :: "account \<Rightarrow> account \<Rightarrow> 'a ERC721A_scheme \<Rightarrow> bool" where
  "isApprovedForAll owner operator s = operatorApprovals s owner operator"

definition getApproved :: "uint256 \<Rightarrow> 'a ERC721A_scheme \<Rightarrow> sol_error + account" where
  "getApproved tokenId s =
     (if token_exists tokenId s then Inr (tokenApprovals s tokenId) else Inl ApprovalQueryForNonexistentToken)"

definition approveChecked :: "call_context \<Rightarrow> account \<Rightarrow> uint256 \<Rightarrow> bool \<Rightarrow> 'a ERC721A_scheme \<Rightarrow> sol_error + 'a ERC721A_scheme" where
  "approveChecked ctx to tokenId approvalCheck s =
     bindE (ownerOf tokenId s) (\<lambda>owner.
       if approvalCheck \<and> msg_sender ctx \<noteq> owner \<and> \<not> isApprovedForAll owner (msg_sender ctx) s
       then Inl ApprovalCallerNotOwnerNorApproved
       else Inr (s\<lparr>tokenApprovals := (tokenApprovals s)(tokenId := to),
                   token_log := token_log s @ [ApprovalEvent owner to tokenId]\<rparr>))"

definition approve :: "call_context \<Rightarrow> account \<Rightarrow> uint256 \<Rightarrow> 'a ERC721A_scheme \<Rightarrow> sol_error + 'a ERC721A_scheme" where
  "approve ctx to tokenId s = approveChecked ctx to tokenId True s"

definition setApprovalForAll :: "call_context \<Rightarrow> account \<Rightarrow> bool \<Rightarrow> 'a ERC721A_scheme \<Rightarrow> sol_error + 'a ERC721A_scheme" where
  "setApprovalForAll ctx operator approved s =
     (let sender = msg_sender ctx
      in Inr (s\<lparr>operatorApprovals := (operatorApprovals s)(sender := (operatorApprovals s sender)(operator := approved)),
                token_log := token_log s @ [ApprovalForAllEvent sender operator approved]\<rparr>))"

section \<open>Minting\<close>

text \<open>The loop that logs the tokens of a batch: it compares with the end, so it wraps around with it.\<close>

function transferLogs :: "account \<Rightarrow> uint256 \<Rightarrow> uint256 \<Rightarrow> token_event list" where
  "transferLogs to tokenId stop =
     (if tokenId = stop then [] else TransferEvent 0 to tokenId # transferLogs to (tokenId + 1) stop)"
  by pat_completeness auto
termination
proof (relation "measure (\<lambda>(to, tokenId, stop). unat (stop - tokenId))")
  fix to :: account and tokenId stop :: uint256
  assume "tokenId \<noteq> stop"
  then have "unat (stop - tokenId - 1) = unat (stop - tokenId) - 1" and "unat (stop - tokenId) \<noteq> 0"
    by (auto simp: unat_pred unat_eq_0)
  then show "((to, tokenId + 1, stop), (to, tokenId, stop)) \<in> measure (\<lambda>(to, tokenId, stop). unat (stop - tokenId))"
    by (simp add: diff_diff_eq)
qed simp

declare transferLogs.simps [simp del]

definition addressDataIncrement :: uint256 where
  "addressDataIncrement = push_bit 64 1 OR 1"

definition mint :: "'a ERC721A_scheme token_hooks \<Rightarrow> call_context \<Rightarrow> account \<Rightarrow> uint256 \<Rightarrow> 'a ERC721A_scheme \<Rightarrow> sol_error + 'a ERC721A_scheme" where
  "mint h ctx to quantity s =
     (let start = currentIndex s
      in bindE (require (quantity \<noteq> 0) MintZeroQuantity) (\<lambda>_.
         bindE (beforeTokenTransfers h ctx 0 to start quantity s) (\<lambda>s.
           let stop = start + quantity;
               s = s\<lparr>packedAddressData := (packedAddressData s)(to := packedAddressData s to + quantity * addressDataIncrement)\<rparr>;
               s = s\<lparr>packedOwnerships := (packedOwnerships s)(start :=
                       packOwnershipData ctx to (nextInitializedFlag quantity OR nextExtraData 0 to 0))\<rparr>;
               s = s\<lparr>token_log := token_log s @ TransferEvent 0 to start # transferLogs to (start + 1) stop\<rparr>
           in bindE (require (to \<noteq> 0) MintToZeroAddress) (\<lambda>_.
              afterTokenTransfers h ctx 0 to start quantity (s\<lparr>currentIndex := stop\<rparr>)))))"

definition mintERC2309 :: "'a ERC721A_scheme token_hooks \<Rightarrow> call_context \<Rightarrow> account \<Rightarrow> uint256 \<Rightarrow> 'a ERC721A_scheme \<Rightarrow> sol_error + 'a ERC721A_scheme" where
  "mintERC2309 h ctx to quantity s =
     (let start = currentIndex s
      in bindE (require (to \<noteq> 0) MintToZeroAddress) (\<lambda>_.
         bindE (require (quantity \<noteq> 0) MintZeroQuantity) (\<lambda>_.
         bindE (require (quantity \<le> MAX_MINT_ERC2309_QUANTITY_LIMIT) MintERC2309QuantityExceedsLimit) (\<lambda>_.
         bindE (beforeTokenTransfers h ctx 0 to start quantity s) (\<lambda>s.
           let s = s\<lparr>packedAddressData := (packedAddressData s)(to := packedAddressData s to + quantity * addressDataIncrement)\<rparr>;
               s = s\<lparr>packedOwnerships := (packedOwnerships s)(start :=
                       packOwnershipData ctx to (nextInitializedFlag quantity OR nextExtraData 0 to 0))\<rparr>;
               s = s\<lparr>token_log := token_log s @ [ConsecutiveTransfer start (start + quantity - 1) 0 to]\<rparr>
           in afterTokenTransfers h ctx 0 to start quantity (s\<lparr>currentIndex := start + quantity\<rparr>))))))"

section \<open>Burning and transferring\<close>

text \<open>
  What \<open>transferFrom\<close> and \<open>_burn\<close> write alike: the word of the token, and that of the next one when
  it has none of its own yet.
\<close>

definition setOwnership :: "uint256 \<Rightarrow> uint256 \<Rightarrow> uint256 \<Rightarrow> 'a ERC721A_scheme \<Rightarrow> 'a ERC721A_scheme" where
  "setOwnership tokenId packed prevOwnershipPacked s =
     (let s = s\<lparr>packedOwnerships := (packedOwnerships s)(tokenId := packed)\<rparr>;
          next = tokenId + 1
      in if prevOwnershipPacked AND BITMASK_NEXT_INITIALIZED = 0 \<and> packedOwnerships s next = 0 \<and> next \<noteq> currentIndex s
         then s\<lparr>packedOwnerships := (packedOwnerships s)(next := prevOwnershipPacked)\<rparr>
         else s)"

definition clearApproval :: "uint256 \<Rightarrow> 'a ERC721A_scheme \<Rightarrow> 'a ERC721A_scheme" where
  "clearApproval tokenId s =
     (if tokenApprovals s tokenId \<noteq> 0 then s\<lparr>tokenApprovals := (tokenApprovals s)(tokenId := 0)\<rparr> else s)"

definition burn :: "'a ERC721A_scheme token_hooks \<Rightarrow> call_context \<Rightarrow> uint256 \<Rightarrow> bool \<Rightarrow> 'a ERC721A_scheme \<Rightarrow> sol_error + 'a ERC721A_scheme" where
  "burn h ctx tokenId approvalCheck s =
     bindE (packedOwnershipOf tokenId s) (\<lambda>prev.
       let from = ucast prev
       in bindE (require (\<not> (approvalCheck \<and> \<not> isSenderApprovedOrOwner (tokenApprovals s tokenId) from (msg_sender ctx) \<and>
                    \<not> isApprovedForAll from (msg_sender ctx) s)) TransferCallerNotOwnerNorApproved) (\<lambda>_.
          bindE (beforeTokenTransfers h ctx from 0 tokenId 1 s) (\<lambda>s.
            let s = clearApproval tokenId s;
                s = s\<lparr>packedAddressData := (packedAddressData s)(from := packedAddressData s from + (push_bit 128 1 - 1))\<rparr>;
                s = setOwnership tokenId (packOwnershipData ctx from
                      ((BITMASK_BURNED OR BITMASK_NEXT_INITIALIZED) OR nextExtraData from 0 prev)) prev s;
                s = s\<lparr>token_log := token_log s @ [TransferEvent from 0 tokenId]\<rparr>
            in bindE (afterTokenTransfers h ctx from 0 tokenId 1 s) (\<lambda>s.
               Inr (s\<lparr>burnCounter := burnCounter s + 1\<rparr>)))))"

definition transferFrom :: "'a ERC721A_scheme token_hooks \<Rightarrow> call_context \<Rightarrow> account \<Rightarrow> account \<Rightarrow> uint256 \<Rightarrow> 'a ERC721A_scheme \<Rightarrow> sol_error + 'a ERC721A_scheme" where
  "transferFrom h ctx from to tokenId s =
     bindE (packedOwnershipOf tokenId s) (\<lambda>prev.
     bindE (require (ucast prev = from) TransferFromIncorrectOwner) (\<lambda>_.
     bindE (require (isSenderApprovedOrOwner (tokenApprovals s tokenId) from (msg_sender ctx) \<or>
              isApprovedForAll from (msg_sender ctx) s) TransferCallerNotOwnerNorApproved) (\<lambda>_.
     bindE (require (to \<noteq> 0) TransferToZeroAddress) (\<lambda>_.
     bindE (beforeTokenTransfers h ctx from to tokenId 1 s) (\<lambda>s.
       let s = clearApproval tokenId s;
           s = s\<lparr>packedAddressData := (packedAddressData s)(from := packedAddressData s from - 1)\<rparr>;
           s = s\<lparr>packedAddressData := (packedAddressData s)(to := packedAddressData s to + 1)\<rparr>;
           s = setOwnership tokenId (packOwnershipData ctx to
                 (BITMASK_NEXT_INITIALIZED OR nextExtraData from to prev)) prev s;
           s = s\<lparr>token_log := token_log s @ [TransferEvent from to tokenId]\<rparr>
       in afterTokenTransfers h ctx from to tokenId 1 s)))))"

section \<open>Receivers\<close>

text \<open>
  A contract that receives a token is asked whether it takes it. What it answers, and what it does
  to the token contract before it does, are an argument.
\<close>

datatype receiver_answer = Selector "32 word" | Reverted bytes

type_synonym 's receiver = "account \<Rightarrow> account \<Rightarrow> account \<Rightarrow> uint256 \<Rightarrow> bytes \<Rightarrow> 's \<Rightarrow> receiver_answer \<times> 's"

definition onERC721Received_selector :: "32 word" where
  "onERC721Received_selector = 0x150b7a02"

definition checkContractOnERC721Received ::
    "'s receiver \<Rightarrow> call_context \<Rightarrow> account \<Rightarrow> account \<Rightarrow> uint256 \<Rightarrow> bytes \<Rightarrow> 's \<Rightarrow> sol_error + bool \<times> 's" where
  "checkContractOnERC721Received receiver ctx from to tokenId data s =
     (case receiver to (msg_sender ctx) from tokenId data s of
        (Selector retval, s') \<Rightarrow> Inr (retval = onERC721Received_selector, s')
      | (Reverted reason, s') \<Rightarrow>
          (if reason = [] then Inl TransferToNonERC721ReceiverImplementer else Inl (Receiver_Reverted reason)))"

definition safeTransferFrom ::
    "'a ERC721A_scheme token_hooks \<Rightarrow> 'a ERC721A_scheme receiver \<Rightarrow> call_context \<Rightarrow> account \<Rightarrow> account \<Rightarrow> uint256 \<Rightarrow> bytes \<Rightarrow>
      'a ERC721A_scheme \<Rightarrow> sol_error + 'a ERC721A_scheme" where
  "safeTransferFrom h receiver ctx from to tokenId data s =
     bindE (transferFrom h ctx from to tokenId s) (\<lambda>s.
       if code_length ctx to \<noteq> 0
       then bindE (checkContractOnERC721Received receiver ctx from to tokenId data s) (\<lambda>(accepted, s).
              if accepted then Inr s else Inl TransferToNonERC721ReceiverImplementer)
       else Inr s)"

text \<open>How often the loop of \<open>_safeMint\<close> can still run: the index wraps around at most once.\<close>

definition remaining :: "uint256 \<Rightarrow> uint256 \<Rightarrow> nat" where
  "remaining index stop = (if index = - 1 then 2 ^ 256 else unat stop - unat index)"

lemma remaining_decreases:
  assumes "index + 1 < stop"
  shows "remaining (index + 1) stop < remaining index stop"
proof (cases "index = - 1")
  case True
  have "unat stop < 2 ^ 256" using unat_less_power [of stop] by simp
  then show ?thesis using True by (simp add: remaining_def)
next
  case False
  then have "index < - 1" by (simp add: word_order.not_eq_extremum)
  then have "unat (index + 1) = Suc (unat index)" by (rule unat_Suc_fits)
  moreover have "index + 1 \<noteq> - 1" using assms by (metis word_order.extremum_strict)
  ultimately show ?thesis using False assms by (simp add: remaining_def word_less_nat_alt)
qed

text \<open>The loop of \<open>_safeMint\<close>, whose body runs once before the bound is tested.\<close>

function receiveTokens ::
    "'s receiver \<Rightarrow> call_context \<Rightarrow> account \<Rightarrow> uint256 \<Rightarrow> uint256 \<Rightarrow> bytes \<Rightarrow> 's \<Rightarrow> sol_error + 's" where
  "receiveTokens receiver ctx to index stop data s =
     bindE (checkContractOnERC721Received receiver ctx 0 to index data s) (\<lambda>(accepted, s).
       if \<not> accepted then Inl TransferToNonERC721ReceiverImplementer
       else if index + 1 < stop then receiveTokens receiver ctx to (index + 1) stop data s
       else Inr s)"
  by pat_completeness auto
termination
  by (relation "measure (\<lambda>(receiver, ctx, to, index, stop, data, s). remaining index stop)") (auto intro: remaining_decreases)

declare receiveTokens.simps [simp del]

definition safeMint ::
    "'a ERC721A_scheme token_hooks \<Rightarrow> 'a ERC721A_scheme receiver \<Rightarrow> call_context \<Rightarrow> account \<Rightarrow> uint256 \<Rightarrow> bytes \<Rightarrow>
      'a ERC721A_scheme \<Rightarrow> sol_error + 'a ERC721A_scheme" where
  "safeMint h receiver ctx to quantity data s =
     bindE (mint h ctx to quantity s) (\<lambda>s.
       if code_length ctx to \<noteq> 0
       then (let stop = currentIndex s
             in bindE (receiveTokens receiver ctx to (stop - quantity) stop data s) (\<lambda>s.
                  if currentIndex s \<noteq> stop then Inl PlainRevert else Inr s))
       else Inr s)"

section \<open>Decimal text of a number\<close>

lemma unat_div_ten: "temp div 10 \<noteq> 0 \<Longrightarrow> unat (temp div 10) < unat temp" for temp :: uint256
proof -
  assume "temp div 10 \<noteq> 0"
  then have "unat temp \<noteq> 0" by (metis div_0 unat_eq_zero)
  then show ?thesis by (simp add: unat_div)
qed

function toStringLoop :: "uint256 \<Rightarrow> string \<Rightarrow> string" where
  "toStringLoop temp str =
     (let str = char_of (48 + unat (temp mod 10)) # str; temp = temp div 10
      in if temp = 0 then str else toStringLoop temp str)"
  by pat_completeness auto
termination
  by (relation "measure (\<lambda>(temp, str). unat temp)") (auto simp: unat_div_ten)

declare toStringLoop.simps [simp del]

definition toString :: "uint256 \<Rightarrow> string" where
  "toString value = toStringLoop value []"

definition baseURI :: string where
  "baseURI = ''''"

definition tokenURI :: "uint256 \<Rightarrow> 'a ERC721A_scheme \<Rightarrow> sol_error + string" where
  "tokenURI tokenId s =
     (if \<not> token_exists tokenId s then Inl URIQueryForNonexistentToken
      else Inr (if baseURI \<noteq> [] then baseURI @ toString tokenId else ''''))"

section \<open>Tokens that cannot be transferred\<close>

definition nonTransferable_hooks :: "'s token_hooks" where
  "nonTransferable_hooks =
     \<lparr>beforeTokenTransfers = \<lambda>_ from _ _ _ s. if from \<noteq> 0 then Inl TransferFromIncorrectOwner else Inr s,
      afterTokenTransfers = \<lambda>_ _ _ _ _ s. Inr s\<rparr>"

section \<open>Queries\<close>

definition noOwnership :: TokenOwnership where
  "noOwnership = \<lparr>own_addr = 0, own_startTimestamp = 0, own_burned = False, own_extraData = 0\<rparr>"

definition explicitOwnershipOf :: "uint256 \<Rightarrow> 'a ERC721A_scheme \<Rightarrow> sol_error + TokenOwnership" where
  "explicitOwnershipOf tokenId s =
     (if tokenId < startTokenId \<or> nextTokenId s \<le> tokenId then Inr noOwnership
      else (let ownership = ownershipAt tokenId s
            in if own_burned ownership then Inr ownership else ownershipOf tokenId s))"

fun explicitOwnershipsOf :: "uint256 list \<Rightarrow> 'a ERC721A_scheme \<Rightarrow> sol_error + TokenOwnership list" where
  "explicitOwnershipsOf [] s = Inr []"
| "explicitOwnershipsOf (tokenId # tokenIds) s =
     bindE (explicitOwnershipOf tokenId s) (\<lambda>ownership.
     bindE (explicitOwnershipsOf tokenIds s) (\<lambda>ownerships. Inr (ownership # ownerships)))"

text \<open>
  The loop both enumerations share: from id \<open>i\<close> on, with the current owner and the ids found, until
  \<open>stop\<close> is reached (if there is one) or \<open>maxLen\<close> ids are found.
\<close>

partial_function (option) ownedLoop ::
    "(uint256 \<Rightarrow> uint256) \<Rightarrow> account \<Rightarrow> uint256 option \<Rightarrow> uint256 \<Rightarrow> uint256 \<Rightarrow> account \<Rightarrow> uint256 list \<Rightarrow> uint256 list option" where
  "ownedLoop ownerships owner stop maxLen i currOwnershipAddr tokenIds =
     (if stop = Some i \<or> of_nat (length tokenIds) = maxLen then Some tokenIds
      else (let ownership = unpackedOwnership (ownerships i)
            in if own_burned ownership
               then ownedLoop ownerships owner stop maxLen (i + 1) currOwnershipAddr tokenIds
               else (let curr = (if own_addr ownership \<noteq> 0 then own_addr ownership else currOwnershipAddr)
                     in ownedLoop ownerships owner stop maxLen (i + 1) curr
                          (if curr = owner then tokenIds @ [i] else tokenIds))))"

definition tokensOfOwnerIn :: "account \<Rightarrow> uint256 \<Rightarrow> uint256 \<Rightarrow> 'a ERC721A_scheme \<Rightarrow> sol_error + uint256 list" where
  "tokensOfOwnerIn owner start stop s =
     bindE (require (start < stop) InvalidQueryRange) (\<lambda>_.
       let start = (if start < startTokenId then startTokenId else start);
           stop = (if nextTokenId s < stop then nextTokenId s else stop)
       in bindE (balanceOf owner s) (\<lambda>balance.
            let maxLen = (if start < stop then (if stop - start < balance then stop - start else balance) else 0)
            in if maxLen = 0 then Inr []
               else bindE (explicitOwnershipOf start s) (\<lambda>ownership.
                      let curr = (if \<not> own_burned ownership then own_addr ownership else 0)
                      in case ownedLoop (packedOwnerships s) owner (Some stop) maxLen start curr [] of
                           None \<Rightarrow> Inl OutOfGas
                         | Some tokenIds \<Rightarrow> Inr tokenIds)))"

definition tokensOfOwner :: "account \<Rightarrow> 'a ERC721A_scheme \<Rightarrow> sol_error + uint256 list" where
  "tokensOfOwner owner s =
     bindE (balanceOf owner s) (\<lambda>balance.
       case ownedLoop (packedOwnerships s) owner None balance startTokenId 0 [] of
         None \<Rightarrow> Inl OutOfGas
       | Some tokenIds \<Rightarrow> Inr tokenIds)"

end
