(* ===== verification/Ledger.thy ===== *)
theory Ledger
  imports ERC721A
begin

text \<open>
  The token contract implements a ledger: a list with the owner of each token. The specification is
  here, with the relation between the packed storage and the ledger, and the properties of all
  sequences of calls: calls succeed and fail as the ledger says, the searches for an owner and for
  the tokens of an owner end, and the log of events determines the owners.
\<close>

section \<open>Specification\<close>

text \<open>A token that was burned has no owner. Minted and burned tokens are counted per account.\<close>

record TokenLedger =
  owners :: "account option list"
  lg_minted :: "account \<Rightarrow> nat"
  lg_burned :: "account \<Rightarrow> nat"
  lg_approved :: "uint256 \<Rightarrow> account"
  lg_operator :: "account \<Rightarrow> account \<Rightarrow> bool"

definition empty_ledger :: TokenLedger where
  "empty_ledger = \<lparr>owners = [], lg_minted = (\<lambda>_. 0), lg_burned = (\<lambda>_. 0), lg_approved = (\<lambda>_. 0), lg_operator = (\<lambda>_ _. False)\<rparr>"

definition holder :: "TokenLedger \<Rightarrow> uint256 \<Rightarrow> account option" where
  "holder L tokenId = (if unat tokenId < length (owners L) then owners L ! unat tokenId else None)"

definition held :: "TokenLedger \<Rightarrow> account \<Rightarrow> nat" where
  "held L a = count_list (owners L) (Some a)"

definition may_move :: "TokenLedger \<Rightarrow> account \<Rightarrow> account \<Rightarrow> uint256 \<Rightarrow> bool" where
  "may_move L sender owner tokenId = (sender = owner \<or> sender = lg_approved L tokenId \<or> lg_operator L owner sender)"

text \<open>The calls that contracts built on the token make, and those of its users.\<close>

datatype TokenCall =
    Mint call_context account uint256
  | Burn call_context uint256 bool
  | Transfer call_context account account uint256
  | Approve call_context account uint256 bool
  | SetApprovalForAll call_context account bool

fun tokenStep :: "'a ERC721A_scheme token_hooks \<Rightarrow> TokenCall \<Rightarrow> 'a ERC721A_scheme \<Rightarrow> sol_error + 'a ERC721A_scheme" where
  "tokenStep h (Mint ctx to quantity) s = mint h ctx to quantity s"
| "tokenStep h (Burn ctx tokenId approvalCheck) s = burn h ctx tokenId approvalCheck s"
| "tokenStep h (Transfer ctx from to tokenId) s = transferFrom h ctx from to tokenId s"
| "tokenStep h (Approve ctx to tokenId approvalCheck) s = approveChecked ctx to tokenId approvalCheck s"
| "tokenStep h (SetApprovalForAll ctx operator approved) s = setApprovalForAll ctx operator approved s"

fun ledgerStep :: "TokenCall \<Rightarrow> TokenLedger \<Rightarrow> sol_error + TokenLedger" where
  "ledgerStep (Mint ctx to quantity) L =
     (if quantity = 0 then Inl MintZeroQuantity
      else if to = 0 then Inl MintToZeroAddress
      else Inr (L\<lparr>owners := owners L @ replicate (unat quantity) (Some to),
                  lg_minted := (lg_minted L)(to := lg_minted L to + unat quantity)\<rparr>))"
| "ledgerStep (Burn ctx tokenId approvalCheck) L =
     (case holder L tokenId of
        None \<Rightarrow> Inl OwnerQueryForNonexistentToken
      | Some a \<Rightarrow>
          if approvalCheck \<and> \<not> may_move L (msg_sender ctx) a tokenId then Inl TransferCallerNotOwnerNorApproved
          else Inr (L\<lparr>owners := (owners L)[unat tokenId := None],
                      lg_burned := (lg_burned L)(a := lg_burned L a + 1),
                      lg_approved := (lg_approved L)(tokenId := 0)\<rparr>))"
| "ledgerStep (Transfer ctx from to tokenId) L =
     (case holder L tokenId of
        None \<Rightarrow> Inl OwnerQueryForNonexistentToken
      | Some a \<Rightarrow>
          if a \<noteq> from then Inl TransferFromIncorrectOwner
          else if \<not> may_move L (msg_sender ctx) from tokenId then Inl TransferCallerNotOwnerNorApproved
          else if to = 0 then Inl TransferToZeroAddress
          else Inr (L\<lparr>owners := (owners L)[unat tokenId := Some to],
                      lg_approved := (lg_approved L)(tokenId := 0)\<rparr>))"
| "ledgerStep (Approve ctx to tokenId approvalCheck) L =
     (case holder L tokenId of
        None \<Rightarrow> Inl OwnerQueryForNonexistentToken
      | Some a \<Rightarrow>
          if approvalCheck \<and> msg_sender ctx \<noteq> a \<and> \<not> lg_operator L a (msg_sender ctx) then Inl ApprovalCallerNotOwnerNorApproved
          else Inr (L\<lparr>lg_approved := (lg_approved L)(tokenId := to)\<rparr>))"
| "ledgerStep (SetApprovalForAll ctx operator approved) L =
     Inr (L\<lparr>lg_operator := (lg_operator L)(msg_sender ctx := (lg_operator L (msg_sender ctx))(operator := approved))\<rparr>)"

text \<open>
  The limits the contract documents: an account holds, and has minted, at most \<open>2\<^sup>6\<^sup>4 - 1\<close> tokens, and the
  ids of tokens do not exceed 256 bits. The number of tokens an account has burned is kept in 64 bits as well, and so are time
  stamps. A call is within the limits if its time stamp is and the ledger still is after it.
\<close>

definition limits :: "TokenLedger \<Rightarrow> bool" where
  "limits L = (length (owners L) < 2 ^ 256 \<and> (\<forall>a. held L a < 2 ^ 64 \<and> lg_minted L a < 2 ^ 64 \<and> lg_burned L a < 2 ^ 64))"

fun stampFits :: "TokenCall \<Rightarrow> bool" where
  "stampFits (Mint ctx to quantity) = (block_timestamp ctx < 2 ^ 64)"
| "stampFits (Burn ctx tokenId approvalCheck) = (block_timestamp ctx < 2 ^ 64)"
| "stampFits (Transfer ctx from to tokenId) = (block_timestamp ctx < 2 ^ 64)"
| "stampFits _ = True"

definition within_limits :: "TokenCall \<Rightarrow> TokenLedger \<Rightarrow> bool" where
  "within_limits call L = (stampFits call \<and> (case ledgerStep call L of Inl _ \<Rightarrow> True | Inr L' \<Rightarrow> limits L'))"

section \<open>Words of ownership\<close>

lemma bit_uint64: "w < 2 ^ 64 \<Longrightarrow> 64 \<le> n \<Longrightarrow> \<not> bit w n" for w :: uint256
proof
  assume "w < 2 ^ 64" and "64 \<le> n" and "bit w n"
  then have "take_bit 64 w = w" by (simp add: take_bit_eq_mod mod_word_less)
  then have "bit (take_bit 64 w) n" using \<open>bit w n\<close> by simp
  then show False using \<open>64 \<le> n\<close> by (simp add: bit_take_bit_iff)
qed

lemma and_push_bit_1: "w AND push_bit n 1 = 0 \<longleftrightarrow> \<not> bit w n" for w :: "'w::len word"
  by (simp add: push_bit_of_1 and_exp_eq_0_iff_not_bit)

lemma bit_push_bit_1: "bit (push_bit m 1 :: 'w::len word) n \<longleftrightarrow> n = m \<and> m < LENGTH('w)"
  by (auto simp: push_bit_of_1 bit_exp_iff)

lemma bit_pack:
  "bit (packOwnershipData ctx owner flags) n \<longleftrightarrow>
     n < 256 \<and> (n < 160 \<and> bit owner n \<or> 160 \<le> n \<and> bit (block_timestamp ctx) (n - 160) \<or> bit flags n)"
  by (auto simp: packOwnershipData_def bit_or_iff bit_push_bit_iff bit_unsigned_iff dest: bit_imp_le_length)

lemma burned_word: "w AND BITMASK_BURNED = 0 \<longleftrightarrow> \<not> bit w 224"
  unfolding BITMASK_BURNED_def by (rule and_push_bit_1)

lemma next_word: "w AND BITMASK_NEXT_INITIALIZED = 0 \<longleftrightarrow> \<not> bit w 225"
  unfolding BITMASK_NEXT_INITIALIZED_def by (rule and_push_bit_1)

lemma nextExtraData_zero [simp]: "nextExtraData from to prev = 0"
  by (simp add: nextExtraData_def extraData_def)

lemma bit_flags:
  "bit BITMASK_NEXT_INITIALIZED n \<longleftrightarrow> n = 225" "bit BITMASK_BURNED n \<longleftrightarrow> n = 224"
  "bit (nextInitializedFlag quantity) n \<longleftrightarrow> n = 225 \<and> quantity = 1"
  unfolding BITMASK_NEXT_INITIALIZED_def BITMASK_BURNED_def nextInitializedFlag_def
  by (simp_all only: bit_push_bit_1 split: if_split) auto

lemma ucast_pack:
  assumes "\<And>n. n < 160 \<Longrightarrow> \<not> bit flags n"
  shows "ucast (packOwnershipData ctx owner flags) = owner"
  using assms by (intro bit_word_eqI) (auto simp: bit_unsigned_iff bit_pack)

lemma pack_flags:
  assumes "block_timestamp ctx < 2 ^ 64" and "224 \<le> n" and "n < 256"
  shows "bit (packOwnershipData ctx owner flags) n \<longleftrightarrow> bit flags n"
  using assms bit_uint64 [of "block_timestamp ctx" "n - 160"] by (auto simp: bit_pack)

section \<open>The nearest word\<close>

text \<open>The first nonzero word at or below an id.\<close>

fun nearest :: "(nat \<Rightarrow> uint256) \<Rightarrow> nat \<Rightarrow> uint256" where
  "nearest f 0 = f 0"
| "nearest f (Suc i) = (if f (Suc i) = 0 then nearest f i else f (Suc i))"

lemma nearest_set: "f i \<noteq> 0 \<Longrightarrow> nearest f i = f i"
  by (cases i) auto

lemma nearest_agree:
  assumes "nearest f' m = nearest f m" and "m \<le> i" and "\<And>k. m < k \<Longrightarrow> k \<le> i \<Longrightarrow> f' k = f k"
  shows "nearest f' i = nearest f i"
  using assms(2,1,3) by (induction i rule: dec_induct) auto

lemma nearest_below: "(\<And>k. k \<le> i \<Longrightarrow> f' k = f k) \<Longrightarrow> nearest f' i = nearest f i"
  by (induction i) auto

lemma nearest_batch: "n \<le> i \<Longrightarrow> f n \<noteq> 0 \<Longrightarrow> (\<And>k. n < k \<Longrightarrow> k \<le> i \<Longrightarrow> f k = 0) \<Longrightarrow> nearest f i = f n"
  by (induction i rule: dec_induct) (auto simp: nearest_set)

text \<open>Writing the word of one token, and the next one's if it has none, changes no other owner.\<close>

lemma nearest_updated:
  assumes "f' t \<noteq> 0" and "nearest f t \<noteq> 0" and "\<And>k. k \<noteq> t \<Longrightarrow> k \<noteq> Suc t \<Longrightarrow> f' k = f k"
    and "Suc t < n \<Longrightarrow> f' (Suc t) = (if f (Suc t) = 0 then nearest f t else f (Suc t))" and "i < n"
  shows "nearest f' i = (if i = t then f' t else nearest f i)"
proof -
  consider "i = t" | "i < t" | "Suc t \<le> i" by linarith
  then show ?thesis
  proof cases
    case 1
    then show ?thesis using assms(1) by (simp add: nearest_set)
  next
    case 2
    then have "nearest f' i = nearest f i" by (intro nearest_below) (simp add: assms(3))
    then show ?thesis using 2 by simp
  next
    case 3
    then have "f' (Suc t) = nearest f (Suc t)" and "f' (Suc t) \<noteq> 0" using assms(2,4,5) by auto
    then have "nearest f' (Suc t) = nearest f (Suc t)" by (simp add: nearest_set)
    then have "nearest f' i = nearest f i" using 3 by (rule nearest_agree) (simp add: assms(3))
    then show ?thesis using 3 by simp
  qed
qed

text \<open>The scan of the contract finds the nearest word, and so ends, when there is one.\<close>

lemma scan_nearest:
  assumes "unat tokenId = Suc i" and "nearest (\<lambda>i. f (of_nat i)) i \<noteq> 0"
  shows "scanOwnerships f tokenId = Some (nearest (\<lambda>i. f (of_nat i)) i)"
  using assms
proof (induction i arbitrary: tokenId)
  case 0
  then have "tokenId = 1" by (simp add: word_unat_eq_iff)
  with "0.prems" show ?case by (subst scanOwnerships.simps) simp
next
  case (Suc i)
  then have "tokenId \<noteq> 0" by auto
  then have t: "unat (tokenId - 1) = Suc i" using Suc.prems by (simp add: unat_pred)
  then have "of_nat (Suc i) = tokenId - 1" by (metis of_nat_unat_word)
  then have n: "nearest (\<lambda>i. f (of_nat i)) (Suc i) = (if f (tokenId - 1) = 0 then nearest (\<lambda>i. f (of_nat i)) i else f (tokenId - 1))"
    by (simp only: nearest.simps)
  show ?case
  proof (cases "f (tokenId - 1) = 0")
    case True
    then have "scanOwnerships f (tokenId - 1) = Some (nearest (\<lambda>i. f (of_nat i)) i)"
      using Suc.IH [OF t] Suc.prems(2) n by simp
    then show ?thesis using True n by (subst scanOwnerships.simps) simp
  next
    case False
    then show ?thesis using n by (subst scanOwnerships.simps) simp
  qed
qed

section \<open>Packed storage and ledger\<close>

definition slot :: "'a ERC721A_scheme \<Rightarrow> nat \<Rightarrow> uint256" where
  "slot s i = packedOwnerships s (of_nat i)"

text \<open>What the words say of the owner of a token.\<close>

fun owner_is :: "uint256 \<Rightarrow> uint256 \<Rightarrow> account option \<Rightarrow> bool" where
  "owner_is w near (Some a) = (\<not> bit near 224 \<and> ucast near = a \<and> a \<noteq> 0)"
| "owner_is w near None = bit w 224"

definition slots_ok :: "(nat \<Rightarrow> uint256) \<Rightarrow> account option list \<Rightarrow> bool" where
  "slots_ok f os =
     (\<forall>i < length os. owner_is (f i) (nearest f i) (os ! i) \<and>
        (bit (nearest f i) 225 \<longrightarrow> Suc i < length os \<longrightarrow> f (Suc i) \<noteq> 0))"

definition data_ok :: "uint256 \<Rightarrow> nat \<Rightarrow> nat \<Rightarrow> nat \<Rightarrow> bool" where
  "data_ok w balance minted burned =
     (unat w mod 2 ^ 192 = balance + 2 ^ 64 * minted + 2 ^ 128 * burned)"

definition burned_tokens :: "TokenLedger \<Rightarrow> nat" where
  "burned_tokens L = count_list (owners L) None"

definition ledger_ok :: "TokenLedger \<Rightarrow> bool" where
  "ledger_ok L =
     (limits L \<and> (\<forall>a. lg_minted L a \<le> length (owners L) \<and> lg_burned L a \<le> burned_tokens L))"

definition implements :: "'a ERC721A_scheme \<Rightarrow> TokenLedger \<Rightarrow> bool" where
  "implements s L =
     (ledger_ok L \<and> unat (currentIndex s) = length (owners L) \<and>
      unat (burnCounter s) = burned_tokens L \<and>
      (\<forall>i \<ge> currentIndex s. packedOwnerships s i = 0) \<and>
      slots_ok (slot s) (owners L) \<and>
      (\<forall>a. data_ok (packedAddressData s a) (held L a) (lg_minted L a) (lg_burned L a)) \<and>
      tokenApprovals s = lg_approved L \<and> operatorApprovals s = lg_operator L)"

subsection \<open>Counters in a word\<close>

lemma data_bound: "b < 2 ^ 64 \<Longrightarrow> m < 2 ^ 64 \<Longrightarrow> n < 2 ^ 64 \<Longrightarrow> b + 2 ^ 64 * m + 2 ^ 128 * n < (2 :: nat) ^ 192"
  by simp

lemma unat_plus_mod: "unat (w + d) mod 2 ^ 192 = (unat w mod 2 ^ 192 + unat d) mod 2 ^ 192" for w d :: uint256
proof -
  have "unat (w + d) mod 2 ^ 192 = (unat w + unat d) mod 2 ^ 256 mod 2 ^ 192" by (simp add: unat_word_ariths)
  also have "\<dots> = (unat w + unat d) mod 2 ^ 192" by (simp add: mod_mod_cancel)
  finally show ?thesis by (simp add: mod_add_left_eq)
qed

lemma unat_times_mod: "unat (w * d) mod 2 ^ 192 = (unat w * unat d) mod 2 ^ 192" for w d :: uint256
  by (simp add: unat_word_ariths mod_mod_cancel)

lemma unat_increment: "unat addressDataIncrement = 2 ^ 64 + 1"
  by (simp add: addressDataIncrement_def)

lemma data_mint:
  assumes "data_ok w b m n" and "b + unat q < 2 ^ 64" and "m + unat q < 2 ^ 64" and "n < 2 ^ 64"
  shows "data_ok (w + q * addressDataIncrement) (b + unat q) (m + unat q) n"
proof -
  have "unat (w + q * addressDataIncrement) mod 2 ^ 192 =
      (b + 2 ^ 64 * m + 2 ^ 128 * n + unat q * (2 ^ 64 + 1)) mod 2 ^ 192"
    using assms(1) unat_times_mod [of q addressDataIncrement]
    by (metis (no_types, lifting) data_ok_def mod_add_right_eq unat_increment unat_plus_mod)
  also have "b + 2 ^ 64 * m + 2 ^ 128 * n + unat q * (2 ^ 64 + 1) = b + unat q + 2 ^ 64 * (m + unat q) + 2 ^ 128 * n"
    by (simp add: algebra_simps)
  also have "\<dots> mod 2 ^ 192 = \<dots>"
    using data_bound [OF assms(2-4)] by (rule mod_less)
  finally show ?thesis by (simp only: data_ok_def)
qed

lemma data_inc:
  assumes "data_ok w b m n" and "Suc b < 2 ^ 64" and "m < 2 ^ 64" and "n < 2 ^ 64"
  shows "data_ok (w + 1) (Suc b) m n"
proof -
  have "unat (w + 1) mod 2 ^ 192 = (b + 2 ^ 64 * m + 2 ^ 128 * n + 1) mod 2 ^ 192"
    using assms(1) unat_plus_mod [of w 1] by (simp only: data_ok_def unat_1)
  also have "\<dots> = Suc b + 2 ^ 64 * m + 2 ^ 128 * n"
    using data_bound [OF assms(2-4)] by simp
  finally show ?thesis by (simp only: data_ok_def)
qed

lemma data_dec:
  assumes "data_ok w (Suc b) m n" and "Suc b < 2 ^ 64" and "m < 2 ^ 64" and "n < 2 ^ 64"
  shows "data_ok (w - 1) b m n"
proof -
  have "w - 1 = w + - 1" by simp
  then have "unat (w - 1) mod 2 ^ 192 = (Suc b + 2 ^ 64 * m + 2 ^ 128 * n + unat (- 1 :: uint256)) mod 2 ^ 192"
    using assms(1) unat_plus_mod [of w "- 1"] by (simp only: data_ok_def)
  also have "unat (- 1 :: uint256) = (2 ^ 64 - 1) * 2 ^ 192 + (2 ^ 192 - 1)" by (simp add: unsigned_minus_1_eq_mask mask_eq_exp_minus_1)
  also have "(Suc b + 2 ^ 64 * m + 2 ^ 128 * n + ((2 ^ 64 - 1) * 2 ^ 192 + (2 ^ 192 - 1))) =
      (b + 2 ^ 64 * m + 2 ^ 128 * n) + 2 ^ 64 * (2 :: nat) ^ 192" by simp
  also have "\<dots> mod 2 ^ 192 = (b + 2 ^ 64 * m + 2 ^ 128 * n) mod 2 ^ 192" by (simp only: mod_mult_self1)
  also have "\<dots> = b + 2 ^ 64 * m + 2 ^ 128 * n"
    using data_bound [of b m n] assms(2-4) by simp
  finally show ?thesis by (simp only: data_ok_def)
qed

lemma data_burn:
  assumes "data_ok w (Suc b) m n" and "Suc b < 2 ^ 64" and "m < 2 ^ 64" and "Suc n < 2 ^ 64"
  shows "data_ok (w + (push_bit 128 1 - 1)) b m (Suc n)"
proof -
  have "unat (push_bit 128 1 - 1 :: uint256) = 2 ^ 128 - 1" by simp
  then have "unat (w + (push_bit 128 1 - 1)) mod 2 ^ 192 = (Suc b + 2 ^ 64 * m + 2 ^ 128 * n + (2 ^ 128 - 1)) mod 2 ^ 192"
    using assms(1) unat_plus_mod [of w "push_bit 128 1 - 1"] by (simp only: data_ok_def)
  also have "Suc b + 2 ^ 64 * m + 2 ^ 128 * n + (2 ^ 128 - 1) = b + 2 ^ 64 * m + 2 ^ 128 * Suc n" by simp
  also have "(b + 2 ^ 64 * m + 2 ^ 128 * Suc n) mod 2 ^ 192 = b + 2 ^ 64 * m + 2 ^ 128 * Suc n"
    using data_bound [of b m "Suc n"] assms(2-4) by (intro mod_less) simp
  finally show ?thesis by (simp only: data_ok_def)
qed

lemma unat_entry: "unat (v AND BITMASK_ADDRESS_DATA_ENTRY) = unat v mod 2 ^ 64"
proof -
  have "v AND BITMASK_ADDRESS_DATA_ENTRY = take_bit 64 v"
    by (simp only: BITMASK_ADDRESS_DATA_ENTRY_def push_bit_of_1 take_bit_eq_mask mask_eq_exp_minus_1)
  then have "unat (v AND BITMASK_ADDRESS_DATA_ENTRY) = take_bit 64 (unat v)" by (simp only: unsigned_take_bit_eq)
  then show ?thesis by (simp only: take_bit_eq_mod)
qed

lemma unat_shifted: "unat (drop_bit n w) = unat w div 2 ^ n" for w :: uint256
  by (simp add: unat_drop_bit_eq drop_bit_eq_div [where 'a = nat])

lemma data_entries:
  assumes "data_ok w b m n" and "b < 2 ^ 64" and "m < 2 ^ 64" and "n < 2 ^ 64"
  shows "unat (w AND BITMASK_ADDRESS_DATA_ENTRY) = b"
    and "unat (drop_bit 64 w AND BITMASK_ADDRESS_DATA_ENTRY) = m"
    and "unat (drop_bit 128 w AND BITMASK_ADDRESS_DATA_ENTRY) = n"
proof -
  define k where "k = unat w div 2 ^ 192"
  have "unat w = b + 2 ^ 64 * m + 2 ^ 128 * n + 2 ^ 192 * k"
    unfolding k_def using assms(1) by (metis data_ok_def mod_mult_div_eq)
  then have w: "unat w = b + 2 ^ 64 * (m + 2 ^ 64 * (n + 2 ^ 64 * k))" by simp
  have div_mod: "(x + 2 ^ 64 * y) mod 2 ^ 64 = x" "(x + 2 ^ 64 * y) div 2 ^ 64 = y" if "x < 2 ^ 64" for x y :: nat
    using that by (simp_all only: mod_mult_self2 mod_less div_mult_self2 div_less)
  show "unat (w AND BITMASK_ADDRESS_DATA_ENTRY) = b"
    by (simp only: unat_entry w div_mod [OF assms(2)])
  have 1: "unat w div 2 ^ 64 = m + 2 ^ 64 * (n + 2 ^ 64 * k)" by (simp only: w div_mod [OF assms(2)])
  then show "unat (drop_bit 64 w AND BITMASK_ADDRESS_DATA_ENTRY) = m"
    by (simp only: unat_entry unat_shifted div_mod [OF assms(3)])
  have "unat w div 2 ^ 128 = unat w div 2 ^ 64 div 2 ^ 64" by (simp add: div_mult2_eq [symmetric])
  also have "\<dots> = n + 2 ^ 64 * k" by (simp only: 1 div_mod [OF assms(3)])
  finally show "unat (drop_bit 128 w AND BITMASK_ADDRESS_DATA_ENTRY) = n"
    by (simp only: unat_entry unat_shifted div_mod [OF assms(4)])
qed

subsection \<open>What the storage answers\<close>

lemma implements_facts:
  assumes "implements s L"
  shows "ledger_ok L" "unat (currentIndex s) = length (owners L)" "unat (burnCounter s) = burned_tokens L"
    "\<And>i. currentIndex s \<le> i \<Longrightarrow> packedOwnerships s i = 0" "slots_ok (slot s) (owners L)"
    "\<And>a. data_ok (packedAddressData s a) (held L a) (lg_minted L a) (lg_burned L a)"
    "tokenApprovals s = lg_approved L" "operatorApprovals s = lg_operator L"
  using assms by (auto simp: implements_def)

lemma slot_unat [simp]: "slot s (unat t) = packedOwnerships s t"
  by (simp add: slot_def)

lemma index_less: "implements s L \<Longrightarrow> t < currentIndex s \<longleftrightarrow> unat t < length (owners L)"
  by (simp add: word_less_nat_alt implements_facts)

lemma held_less: "ledger_ok L \<Longrightarrow> held L a < 2 ^ 64"
  by (simp add: ledger_ok_def limits_def)

lemma length_less: "ledger_ok L \<Longrightarrow> length (owners L) < 2 ^ 256"
  by (simp add: ledger_ok_def limits_def)

lemma ledger_less: "ledger_ok L \<Longrightarrow> lg_minted L a < 2 ^ 64" "ledger_ok L \<Longrightarrow> lg_burned L a < 2 ^ 64"
  by (simp_all add: ledger_ok_def limits_def)

lemma held_le: "held L a \<le> length (owners L)" and burned_le: "burned_tokens L \<le> length (owners L)"
  by (simp_all add: held_def burned_tokens_def count_le_length)

lemma holder_word:
  assumes "implements s L" and "holder L t = Some a"
  shows "\<not> bit (nearest (slot s) (unat t)) 224" and "ucast (nearest (slot s) (unat t)) = a" and "a \<noteq> 0"
    and "nearest (slot s) (unat t) \<noteq> 0" and "unat t < length (owners L)" and "owners L ! unat t = Some a"
proof -
  show l: "unat t < length (owners L)" and o: "owners L ! unat t = Some a"
    using assms(2) by (auto simp: holder_def split: if_splits)
  have "owner_is (slot s (unat t)) (nearest (slot s) (unat t)) (owners L ! unat t)"
    using implements_facts(5) [OF assms(1)] l unfolding slots_ok_def by blast
  then show "\<not> bit (nearest (slot s) (unat t)) 224" and "ucast (nearest (slot s) (unat t)) = a" and "a \<noteq> 0"
    by (simp_all add: o)
  then show "nearest (slot s) (unat t) \<noteq> 0" by auto
qed

text \<open>The search for the word of a token ends, and finds its owner.\<close>

lemma packedOwnershipOf_ok:
  assumes "implements s L"
  shows "packedOwnershipOf t s =
    (case holder L t of None \<Rightarrow> Inl OwnerQueryForNonexistentToken | Some a \<Rightarrow> Inr (nearest (slot s) (unat t)))"
proof (cases "unat t < length (owners L)")
  case False
  then have "currentIndex s \<le> t" using index_less [OF assms, of t] by simp
  then show ?thesis using False implements_facts(4) [OF assms]
    by (simp add: packedOwnershipOf_def holder_def startTokenId_def)
next
  case True
  then have l: "\<not> currentIndex s \<le> t" using index_less [OF assms, of t] by simp
  show ?thesis
  proof (cases "owners L ! unat t")
    case None
    then have "bit (slot s (unat t)) 224" using implements_facts(5) [OF assms] True by (auto simp: slots_ok_def)
    then show ?thesis using True None by (simp add: packedOwnershipOf_def burned_word holder_def)
  next
    case (Some a)
    then have h: "holder L t = Some a" using True by (simp add: holder_def)
    show ?thesis
    proof (cases "packedOwnerships s t = 0")
      case False
      then have "nearest (slot s) (unat t) = packedOwnerships s t" using nearest_set [of "slot s" "unat t"] by simp
      then show ?thesis using False holder_word(1) [OF assms h] h
        by (simp add: packedOwnershipOf_def burned_word startTokenId_def)
    next
      case z: True
      have "unat t \<noteq> 0"
      proof
        assume "unat t = 0"
        then have "nearest (slot s) (unat t) = slot s (unat t)" by simp
        then show False using z holder_word(4) [OF assms h] by simp
      qed
      then obtain i where i: "unat t = Suc i" using not0_implies_Suc by blast
      have f: "(\<lambda>i. packedOwnerships s (of_nat i)) = slot s" by (simp add: slot_def fun_eq_iff)
      have "slot s (Suc i) = 0" using z i by (metis slot_unat)
      then have n: "nearest (slot s) (unat t) = nearest (slot s) i" using i by simp
      then have "scanOwnerships (packedOwnerships s) t = Some (nearest (slot s) i)"
        using scan_nearest [OF i, of "packedOwnerships s"] holder_word(4) [OF assms h] by (simp add: f)
      then show ?thesis using z l h n by (simp add: packedOwnershipOf_def startTokenId_def)
    qed
  qed
qed

lemma ownerOf_ok:
  "implements s L \<Longrightarrow> ownerOf t s = (case holder L t of None \<Rightarrow> Inl OwnerQueryForNonexistentToken | Some a \<Rightarrow> Inr a)"
  by (auto simp: ownerOf_def packedOwnershipOf_ok holder_word split: option.splits)

lemma token_exists_ok: "implements s L \<Longrightarrow> token_exists t s \<longleftrightarrow> holder L t \<noteq> None"
proof -
  assume s: "implements s L"
  show "token_exists t s \<longleftrightarrow> holder L t \<noteq> None"
  proof (cases "holder L t")
    case None
    then have "bit (packedOwnerships s t) 224" if "unat t < length (owners L)"
      using implements_facts(5) [OF s] that by (auto simp: slots_ok_def holder_def)
    then show ?thesis using None index_less [OF s, of t] by (auto simp: token_exists_def burned_word)
  next
    case (Some a)
    then have "\<not> bit (packedOwnerships s t) 224"
      using holder_word(1) [OF s Some] nearest_set [of "slot s" "unat t"] by (cases "packedOwnerships s t = 0") auto
    then show ?thesis using Some holder_word(5) [OF s Some] index_less [OF s, of t]
      by (simp add: token_exists_def burned_word startTokenId_def)
  qed
qed

lemma entries_ok:
  assumes "implements s L"
  shows "packedAddressData s a AND BITMASK_ADDRESS_DATA_ENTRY = of_nat (held L a)"
    and "numberMinted a s = of_nat (lg_minted L a)" and "numberBurned a s = of_nat (lg_burned L a)"
proof -
  have L: "ledger_ok L" by (rule implements_facts(1) [OF assms])
  note e = data_entries [OF implements_facts(6) [OF assms, of a] held_less [OF L] ledger_less [OF L]]
  show "packedAddressData s a AND BITMASK_ADDRESS_DATA_ENTRY = of_nat (held L a)"
    and "numberMinted a s = of_nat (lg_minted L a)" and "numberBurned a s = of_nat (lg_burned L a)"
    by (simp_all only: numberMinted_def numberBurned_def flip: e of_nat_unat_word)
qed

lemma balanceOf_ok:
  "implements s L \<Longrightarrow> balanceOf a s = (if a = 0 then Inl BalanceQueryForZeroAddress else Inr (of_nat (held L a)))"
  by (simp add: balanceOf_def entries_ok)

section \<open>Calls implement the ledger\<close>

lemma slot_update:
  assumes "i < 2 ^ 256"
  shows "slot (s\<lparr>packedOwnerships := (packedOwnerships s)(t := w)\<rparr>) i = (if i = unat t then w else slot s i)"
proof -
  have "of_nat i = t \<longleftrightarrow> i = unat t" using assms by (auto simp: unat_of_nat)
  then show ?thesis by (simp add: slot_def)
qed

lemma slots_mint:
  assumes "slots_ok f os" and "\<And>k. k < length os \<Longrightarrow> f' k = f k" and "f' (length os) = w"
    and "\<And>k. length os < k \<Longrightarrow> k < length os + q \<Longrightarrow> f' k = 0"
    and w: "w \<noteq> 0" "\<not> bit w 224" "ucast w = a" "a \<noteq> 0" "bit w 225 \<longleftrightarrow> q = 1"
  shows "slots_ok f' (os @ replicate q (Some a))"
  unfolding slots_ok_def
proof (intro allI impI)
  fix i
  assume i: "i < length (os @ replicate q (Some a))"
  show "owner_is (f' i) (nearest f' i) ((os @ replicate q (Some a)) ! i) \<and>
     (bit (nearest f' i) 225 \<longrightarrow> Suc i < length (os @ replicate q (Some a)) \<longrightarrow> f' (Suc i) \<noteq> 0)"
  proof (cases "i < length os")
    case True
    then have "nearest f' i = nearest f i" by (intro nearest_below) (simp add: assms(2))
    moreover have "f' (Suc i) \<noteq> 0" if "bit (nearest f i) 225"
      using assms(1,2,3) w(1) that True by (cases "Suc i = length os") (auto simp: slots_ok_def)
    ultimately show ?thesis using assms(1,2) True by (simp add: slots_ok_def nth_append)
  next
    case False
    then have "nearest f' i = w"
      using nearest_batch [of "length os" i f'] assms(3,4) w(1) i by simp
    then show ?thesis using False i w by (simp add: nth_append)
  qed
qed

lemma slots_updated:
  assumes "slots_ok f os" and "t < length os" and "nearest f t \<noteq> 0"
    and "f' t = w" and "w \<noteq> 0" and "owner_is w w o'"
    and "\<And>k. k < length os \<Longrightarrow> k \<noteq> t \<Longrightarrow> k \<noteq> Suc t \<Longrightarrow> f' k = f k"
    and "Suc t < length os \<Longrightarrow> f' (Suc t) = (if f (Suc t) = 0 then nearest f t else f (Suc t))"
  shows "slots_ok f' (os[t := o'])"
proof -
  define g where "g k = (if k < length os then f' k else f k)" for k
  have near: "nearest f' i = (if i = t then w else nearest f i)" if "i < length os" for i
  proof -
    have "nearest f' i = nearest g i" using that by (intro nearest_below) (simp add: g_def)
    also have "\<dots> = (if i = t then g t else nearest f i)"
      using assms that by (intro nearest_updated [where n = "length os"]) (auto simp: g_def)
    finally show ?thesis using assms(2,4) by (simp add: g_def)
  qed
  have next_set: "f' (Suc i) \<noteq> 0" if "Suc i < length os" and "i \<noteq> t \<Longrightarrow> f (Suc i) \<noteq> 0" for i
    using that assms(3-5,7,8) by (cases "i = t"; cases "Suc i = t"; cases "i = Suc t") (auto split: if_splits)
  show ?thesis
    unfolding slots_ok_def
  proof (intro allI impI)
    fix i
    assume "i < length (os[t := o'])"
    then have i: "i < length os" by simp
    have old: "owner_is (f i) (nearest f i) (os ! i)" "bit (nearest f i) 225 \<Longrightarrow> Suc i < length os \<Longrightarrow> f (Suc i) \<noteq> 0"
      using assms(1) i by (auto simp: slots_ok_def)
    have "owner_is (f' i) (nearest f i) (os ! i)" if "i \<noteq> t"
      using old(1) that i assms(2,7,8) by (cases "i = Suc t"; cases "os ! i") auto
    then show "owner_is (f' i) (nearest f' i) (os[t := o'] ! i) \<and>
       (bit (nearest f' i) 225 \<longrightarrow> Suc i < length (os[t := o']) \<longrightarrow> f' (Suc i) \<noteq> 0)"
      using near [OF i] assms(4,6) i next_set [of i] old(2) by (auto split: if_splits)
  qed
qed

lemma setOwnership_fields [simp]:
  "currentIndex (setOwnership t w prev s) = currentIndex s" "burnCounter (setOwnership t w prev s) = burnCounter s"
  "packedAddressData (setOwnership t w prev s) = packedAddressData s"
  "tokenApprovals (setOwnership t w prev s) = tokenApprovals s"
  "operatorApprovals (setOwnership t w prev s) = operatorApprovals s"
  "token_log (setOwnership t w prev s) = token_log s"
  by (simp_all add: setOwnership_def Let_def)

lemma clearApproval_fields [simp]:
  "currentIndex (clearApproval t s) = currentIndex s" "burnCounter (clearApproval t s) = burnCounter s"
  "packedAddressData (clearApproval t s) = packedAddressData s"
  "packedOwnerships (clearApproval t s) = packedOwnerships s"
  "tokenApprovals (clearApproval t s) = (tokenApprovals s)(t := 0)"
  "operatorApprovals (clearApproval t s) = operatorApprovals s"
  "token_log (clearApproval t s) = token_log s"
  by (auto simp: clearApproval_def)

lemma setOwnership_ownerships:
  "packedOwnerships (setOwnership t w prev s) =
     (if \<not> bit prev 225 \<and> packedOwnerships s (t + 1) = 0 \<and> t + 1 \<noteq> currentIndex s
      then (packedOwnerships s)(t := w, t + 1 := prev) else (packedOwnerships s)(t := w))"
proof -
  have "t + 1 \<noteq> t" for t :: uint256 by simp
  then show ?thesis by (simp add: setOwnership_def next_word Let_def)
qed

lemma setOwnership_ok:
  assumes s: "implements s L" and h: "holder L t = Some b" and prev: "prev = nearest (slot s) (unat t)"
    and s1: "packedOwnerships s1 = packedOwnerships s" "currentIndex s1 = currentIndex s"
    and w: "w \<noteq> 0" "owner_is w w o'"
  shows "slots_ok (slot (setOwnership t w prev s1)) ((owners L)[unat t := o'])"
    and "currentIndex s \<le> i \<Longrightarrow> packedOwnerships (setOwnership t w prev s1) i = 0"
proof -
  have l: "unat t < length (owners L)" and t: "t < currentIndex s"
    using holder_word(5) [OF s h] index_less [OF s] by auto
  have n: "unat (t + 1) = Suc (unat t)" using t by (rule unat_Suc_fits)
  have len: "length (owners L) < 2 ^ 256" using implements_facts(2) [OF s] unat_less_power [of "currentIndex s"] by simp
  have last: "t + 1 = currentIndex s \<longleftrightarrow> Suc (unat t) = length (owners L)"
    using n implements_facts(2) [OF s] by (auto simp: word_unat_eq_iff)
  define f' where "f' = slot (setOwnership t w prev s1)"
  have eq: "of_nat k = t \<longleftrightarrow> k = unat t" "of_nat k = t + 1 \<longleftrightarrow> k = Suc (unat t)" if "k < length (owners L)" for k
    using that len n by (auto simp: word_unat_eq_iff unat_of_nat)
  have set_next: "bit prev 225 \<Longrightarrow> Suc (unat t) < length (owners L) \<Longrightarrow> slot s (Suc (unat t)) \<noteq> 0"
    using implements_facts(5) [OF s] l by (simp add: slots_ok_def prev)
  have "of_nat (Suc (unat t)) = t + 1" using n by (metis of_nat_unat_word)
  then have slot_next: "packedOwnerships s (t + 1) = slot s (Suc (unat t))" by (simp only: slot_def)
  show "slots_ok (slot (setOwnership t w prev s1)) ((owners L)[unat t := o'])"
  proof (rule slots_updated [OF implements_facts(5) [OF s] l holder_word(4) [OF s h] _ w])
    show "slot (setOwnership t w prev s1) (unat t) = w"
      using n by (auto simp: setOwnership_ownerships)
    show "slot (setOwnership t w prev s1) k = slot s k" if "k < length (owners L)" "k \<noteq> unat t" "k \<noteq> Suc (unat t)" for k
      using that eq [of k] by (simp add: slot_def setOwnership_ownerships s1)
    show "slot (setOwnership t w prev s1) (Suc (unat t)) =
        (if slot s (Suc (unat t)) = 0 then nearest (slot s) (unat t) else slot s (Suc (unat t)))"
      if "Suc (unat t) < length (owners L)"
    proof -
      have "slot (setOwnership t w prev s1) (Suc (unat t)) = packedOwnerships (setOwnership t w prev s1) (t + 1)"
        using \<open>of_nat (Suc (unat t)) = t + 1\<close> by (simp only: slot_def)
      then show ?thesis using that set_next slot_next last prev by (auto simp: setOwnership_ownerships s1)
    qed
  qed
  show "packedOwnerships (setOwnership t w prev s1) i = 0" if "currentIndex s \<le> i"
  proof -
    have "t \<noteq> i" using t that by auto
    moreover have "t + 1 \<noteq> i" if "t + 1 \<noteq> currentIndex s"
      using that \<open>currentIndex s \<le> i\<close> n t by (auto simp: word_le_nat_alt word_less_nat_alt word_unat_eq_iff)
    ultimately show ?thesis
      using that implements_facts(4) [OF s] by (auto simp: setOwnership_ownerships s1)
  qed
qed

lemma count_update:
  assumes "i < length xs"
  shows "count_list (xs[i := y]) a + (if xs ! i = a then 1 else 0) = count_list xs a + (if y = a then 1 else 0)"
proof -
  have "count_list xs a = count_list (take i xs @ xs ! i # drop (Suc i) xs) a"
    using id_take_nth_drop [OF assms] by simp
  then show ?thesis using assms by (simp add: upd_conv_take_nth_drop)
qed

lemma pack_word:
  assumes "block_timestamp ctx < 2 ^ 64" and "a \<noteq> 0"
  shows "packOwnershipData ctx a (flags OR nextExtraData from to prev) \<noteq> 0 \<or> (\<exists>n < 160. bit flags n)"
    and "(\<And>n. n < 160 \<Longrightarrow> \<not> bit flags n) \<Longrightarrow> ucast (packOwnershipData ctx a (flags OR nextExtraData from to prev)) = a"
    and "bit (packOwnershipData ctx a (flags OR nextExtraData from to prev)) 224 \<longleftrightarrow> bit flags 224"
    and "bit (packOwnershipData ctx a (flags OR nextExtraData from to prev)) 225 \<longleftrightarrow> bit flags 225"
proof -
  show u: "(\<And>n. n < 160 \<Longrightarrow> \<not> bit flags n) \<Longrightarrow> ucast (packOwnershipData ctx a (flags OR nextExtraData from to prev)) = a"
    by (simp add: ucast_pack)
  then show "packOwnershipData ctx a (flags OR nextExtraData from to prev) \<noteq> 0 \<or> (\<exists>n < 160. bit flags n)"
    using assms(2) by (metis unsigned_0)
qed (use pack_flags [OF assms(1), of 224] pack_flags [OF assms(1), of 225] in simp_all)

lemma count_replicate: "count_list (replicate n x) y = (if x = y then n else 0)"
  by (induction n) auto

lemma mint_implements:
  assumes s: "implements s L" and "q \<noteq> 0" "to \<noteq> 0" "block_timestamp ctx < 2 ^ 64"
    and lim: "limits (L\<lparr>owners := owners L @ replicate (unat q) (Some to), lg_minted := (lg_minted L)(to := lg_minted L to + unat q)\<rparr>)"
    and s': "currentIndex s' = currentIndex s + q" "burnCounter s' = burnCounter s"
      "packedAddressData s' = (packedAddressData s)(to := packedAddressData s to + q * addressDataIncrement)"
      "packedOwnerships s' = (packedOwnerships s)(currentIndex s :=
         packOwnershipData ctx to (nextInitializedFlag q OR nextExtraData 0 to 0))"
      "tokenApprovals s' = tokenApprovals s" "operatorApprovals s' = operatorApprovals s"
  shows "implements s' (L\<lparr>owners := owners L @ replicate (unat q) (Some to), lg_minted := (lg_minted L)(to := lg_minted L to + unat q)\<rparr>)"
    (is "implements s' ?L")
proof -
  note facts = implements_facts [OF s]
  let ?n = "length (owners L)"
  define w where "w = packOwnershipData ctx to (nextInitializedFlag q OR nextExtraData 0 to 0)"
  have w: "w \<noteq> 0" "\<not> bit w 224" "ucast w = to" "bit w 225 \<longleftrightarrow> unat q = 1"
    using pack_word [OF assms(4,3), of "nextInitializedFlag q" 0 to 0]
    by (auto simp: w_def bit_flags word_unat_eq_iff)
  have q: "0 < unat q" using assms(2) by (simp add: unat_gt_0)
  have len: "?n + unat q < 2 ^ 256" using lim by (simp add: limits_def)
  have fits: "unat (currentIndex s) + unat q < 2 ^ LENGTH(256)" using len facts(2) by simp
  then have idx: "unat (currentIndex s') = ?n + unat q" by (simp only: s' unat_add_fits facts(2))
  have held: "held ?L a = held L a + (if a = to then unat q else 0)" for a
    by (simp add: held_def count_replicate)
  have ok: "ledger_ok ?L"
    using facts(1) lim by (auto simp: ledger_ok_def burned_tokens_def count_replicate intro: trans_le_add1)
  have slots: "slots_ok (slot s') (owners ?L)"
  proof -
    have old: "slot s' k = (if k = ?n then w else slot s k)" if "k < 2 ^ 256" for k
      using slot_update [of k s "currentIndex s" w] that by (simp add: slot_def s' w_def facts(2))
    have "slot s k = 0" if "?n < k" "k < ?n + unat q" for k
      using that len facts(4) [of "of_nat k"] facts(2) by (simp add: slot_def word_le_nat_alt unat_of_nat)
    then show ?thesis
      using slots_mint [OF facts(5), of "slot s'" w "unat q" to] old assms(3) len q w by (simp add: facts(2))
  qed
  have zero: "packedOwnerships s' i = 0" if "currentIndex s' \<le> i" for i
    using that idx q facts(2) facts(4) [of i] by (auto simp: s' word_le_nat_alt)
  have data: "data_ok (packedAddressData s' a) (held ?L a) (lg_minted ?L a) (lg_burned ?L a)" for a
  proof (cases "a = to")
    case True
    have "held L to + unat q < 2 ^ 64" using held_less [OF ok, of to] held [of to] by simp
    moreover have "lg_minted L to + unat q < 2 ^ 64" using ledger_less(1) [OF ok, of to] by simp
    ultimately show ?thesis
      using True data_mint [OF facts(6) [of to]] ledger_less(2) [OF facts(1)] held [of to] by (simp add: s')
  qed (use facts(6) held in \<open>simp add: s'\<close>)
  have "burned_tokens ?L = burned_tokens L" by (simp add: burned_tokens_def count_replicate)
  then show ?thesis
    using ok idx slots zero data facts(3,7,8) by (simp add: implements_def s')
qed

text \<open>A token leaves its owner: it is burned (no new owner) or transferred.\<close>

lemma moved_implements:
  assumes s: "implements s L" and h: "holder L t = Some a"
    and w: "w \<noteq> 0" "owner_is w w o'"
    and s1: "packedOwnerships s1 = packedOwnerships s" "currentIndex s1 = currentIndex s"
    and s': "currentIndex s' = currentIndex s" "unat (burnCounter s') = burned_tokens L'"
      "packedOwnerships s' = packedOwnerships (setOwnership t w (nearest (slot s) (unat t)) s1)"
      "\<And>b. data_ok (packedAddressData s' b) (held L' b) (lg_minted L' b) (lg_burned L' b)"
      "tokenApprovals s' = (tokenApprovals s)(t := 0)" "operatorApprovals s' = operatorApprovals s"
    and L': "owners L' = (owners L)[unat t := o']" "ledger_ok L'"
      "lg_approved L' = (lg_approved L)(t := 0)" "lg_operator L' = lg_operator L"
  shows "implements s' L'"
proof -
  have "slot s' = slot (setOwnership t w (nearest (slot s) (unat t)) s1)" by (simp add: slot_def fun_eq_iff s')
  then show ?thesis
    using setOwnership_ok [OF s h refl s1 w] implements_facts [OF s] s' L' by (simp add: implements_def)
qed

lemma held_moved:
  assumes "implements s L" and "holder L t = Some a" and "owners L' = (owners L)[unat t := o']"
  shows "held L' b + (if b = a then 1 else 0) = held L b + (if o' = Some b then 1 else 0)"
    and "burned_tokens L' = burned_tokens L + (if o' = None then 1 else 0)"
  using count_update [OF holder_word(5) [OF assms(1,2)], of o' "Some b"]
    count_update [OF holder_word(5) [OF assms(1,2)], of o' None] holder_word(6) [OF assms(1,2)]
  by (auto simp: held_def burned_tokens_def assms(3))

lemma no_hooks_simps [simp]:
  "beforeTokenTransfers no_hooks ctx from to t n s = Inr s" "afterTokenTransfers no_hooks ctx from to t n s = Inr s"
  by (simp_all add: no_hooks_def)

lemma mint_sim:
  assumes "implements s L" and "within_limits (Mint ctx to q) L"
  shows "rel_sum (=) implements (mint no_hooks ctx to q s) (ledgerStep (Mint ctx to q) L)"
proof (cases "q = 0 \<or> to = 0")
  case True
  then show ?thesis by (auto simp: mint_def Let_def)
next
  case False
  then show ?thesis using assms
    by (auto simp: mint_def Let_def within_limits_def intro!: mint_implements)
qed

lemma mintERC2309_sim:
  assumes "implements s L" and "within_limits (Mint ctx to q) L" and "q \<le> MAX_MINT_ERC2309_QUANTITY_LIMIT" and "to \<noteq> 0"
  shows "rel_sum (=) implements (mintERC2309 no_hooks ctx to q s) (ledgerStep (Mint ctx to q) L)"
  using assms by (cases "q = 0") (auto simp: mintERC2309_def Let_def within_limits_def intro!: mint_implements)

lemma burn_sim:
  assumes s: "implements s L" and lim: "within_limits (Burn ctx t approvalCheck) L"
  shows "rel_sum (=) implements (burn no_hooks ctx t approvalCheck s) (ledgerStep (Burn ctx t approvalCheck) L)"
proof (cases "holder L t")
  case None
  then show ?thesis by (simp add: burn_def packedOwnershipOf_ok [OF s])
next
  case h: (Some a)
  show ?thesis
  proof (cases "approvalCheck \<and> \<not> may_move L (msg_sender ctx) a t")
    case True
    then show ?thesis
      using h holder_word(2) [OF s h] implements_facts(7,8) [OF s]
      by (simp add: burn_def packedOwnershipOf_ok [OF s] isSenderApprovedOrOwner_def isApprovedForAll_def may_move_def Let_def require_def)
  next
    case may: False
    note facts = implements_facts [OF s]
    define L' where "L' = L\<lparr>owners := (owners L)[unat t := None], lg_burned := (lg_burned L)(a := lg_burned L a + 1),
        lg_approved := (lg_approved L)(t := 0)\<rparr>"
    have L': "lg_minted L' = lg_minted L" "lg_burned L' = (lg_burned L)(a := lg_burned L a + 1)" by (simp_all add: L'_def)
    define prev where "prev = nearest (slot s) (unat t)"
    define w where "w = packOwnershipData ctx a ((BITMASK_BURNED OR BITMASK_NEXT_INITIALIZED) OR nextExtraData a 0 prev)"
    have w: "owner_is w w None" "w \<noteq> 0"
      using pack_word [of ctx a "BITMASK_BURNED OR BITMASK_NEXT_INITIALIZED" a 0 prev] lim holder_word(3) [OF s h]
      by (auto simp: w_def bit_flags bit_or_iff within_limits_def)
    have moved: "held L' b + (if b = a then 1 else 0) = held L b" "burned_tokens L' = burned_tokens L + 1" for b
      using held_moved [OF s h, of L' None] by (simp_all add: L'_def)
    have ok: "ledger_ok L'"
      using facts(1) moved(2) lim h may by (auto simp: ledger_ok_def L'_def within_limits_def intro: le_SucI split: if_splits)
    have data: "data_ok (((packedAddressData s)(a := packedAddressData s a + (push_bit 128 1 - 1))) b)
        (held L' b) (lg_minted L' b) (lg_burned L' b)" for b
    proof (cases "b = a")
      case True
      have "data_ok (packedAddressData s a) (Suc (held L' a)) (lg_minted L a) (lg_burned L a)"
        using facts(6) [of a] moved(1) [of a] by simp
      then have "data_ok (packedAddressData s a + (push_bit 128 1 - 1)) (held L' a) (lg_minted L a) (Suc (lg_burned L a))"
        using moved(1) [of a] held_less [OF facts(1), of a] ledger_less [OF facts(1), of a] ledger_less(2) [OF ok, of a]
        by (intro data_burn) (simp_all add: L'_def)
      then show ?thesis using True by (simp add: L')
    next
      case False
      then show ?thesis using facts(6) [of b] moved(1) [of b] by (simp add: L')
    qed
    define s1 where "s1 = clearApproval t s\<lparr>packedAddressData := (packedAddressData s)(a := packedAddressData s a + (push_bit 128 1 - 1))\<rparr>"
    define s' where "s' = setOwnership t w prev s1\<lparr>token_log := token_log s @ [TransferEvent a 0 t], burnCounter := burnCounter s + 1\<rparr>"
    have "unat (burnCounter s) + unat (1 :: uint256) < 2 ^ LENGTH(256)"
      using facts(3) moved(2) burned_le [of L'] length_less [OF ok] by simp
    then have "unat (burnCounter s') = burned_tokens L'"
      using facts(3) moved(2) unat_add_fits [of "burnCounter s" 1] by (simp add: s'_def)
    then have "implements s' L'"
      using moved_implements [OF s h w(2,1), of s1 s' L'] data ok by (simp add: s'_def s1_def prev_def L'_def)
    moreover have "burn no_hooks ctx t approvalCheck s =
        (if approvalCheck \<and> \<not> may_move L (msg_sender ctx) a t then Inl TransferCallerNotOwnerNorApproved else Inr s')"
      using h holder_word(2) [OF s h] facts(7,8)
      by (simp add: burn_def packedOwnershipOf_ok [OF s] isSenderApprovedOrOwner_def isApprovedForAll_def may_move_def Let_def
          require_def s'_def s1_def w_def prev_def)
    ultimately show ?thesis using h by (simp add: L'_def)
  qed
qed

lemma transferFrom_sim:
  assumes s: "implements s L" and lim: "within_limits (Transfer ctx from to t) L"
  shows "rel_sum (=) implements (transferFrom no_hooks ctx from to t s) (ledgerStep (Transfer ctx from to t) L)"
proof (cases "holder L t = Some from \<and> to \<noteq> 0 \<and> may_move L (msg_sender ctx) from t")
  case False
  then show ?thesis
    using implements_facts(7,8) [OF s]
    by (cases "holder L t") (auto simp: transferFrom_def packedOwnershipOf_ok [OF s] holder_word [OF s] require_def
        isSenderApprovedOrOwner_def isApprovedForAll_def may_move_def)
next
  case True
  then have h: "holder L t = Some from" and "to \<noteq> 0" and may: "may_move L (msg_sender ctx) from t" by auto
  note facts = implements_facts [OF s]
  define L' where "L' = L\<lparr>owners := (owners L)[unat t := Some to], lg_approved := (lg_approved L)(t := 0)\<rparr>"
  have L': "lg_minted L' = lg_minted L" "lg_burned L' = lg_burned L" by (simp_all add: L'_def)
  define prev where "prev = nearest (slot s) (unat t)"
  define w where "w = packOwnershipData ctx to (BITMASK_NEXT_INITIALIZED OR nextExtraData from to prev)"
  have w: "owner_is w w (Some to)" "w \<noteq> 0"
    using pack_word [of ctx to BITMASK_NEXT_INITIALIZED "from" to prev] lim \<open>to \<noteq> 0\<close>
    by (auto simp: w_def bit_flags within_limits_def)
  have moved: "held L' b + (if b = from then 1 else 0) = held L b + (if b = to then 1 else 0)"
      "burned_tokens L' = burned_tokens L" for b
    using held_moved(1) [OF s h, of L' "Some to" b] held_moved(2) [OF s h, of L' "Some to"] by (auto simp: L'_def)
  have ok: "ledger_ok L'"
    using facts(1) moved(2) lim h \<open>to \<noteq> 0\<close> may by (simp add: ledger_ok_def L'_def within_limits_def)
  define p where "p = (packedAddressData s)(from := packedAddressData s from - 1)"
  have data: "data_ok ((p(to := p to + 1)) b) (held L' b) (lg_minted L' b) (lg_burned L' b)" for b
  proof -
    note less = held_less [OF facts(1)] held_less [OF ok] ledger_less [OF facts(1)]
    have "0 < held L from" using moved(1) [of "from"] holder_word(5,6) [OF s h]
      by (auto simp: held_def count_list_0_iff in_set_conv_nth intro!: gr0I)
    then have "data_ok (packedAddressData s from - 1) (held L from - 1) (lg_minted L from) (lg_burned L from)"
      using facts(6) [of "from"] less(1) [of "from"] less(3,4) [of "from"] by (intro data_dec) simp_all
    then have 1: "data_ok (p b) (held L b - (if b = from then 1 else 0)) (lg_minted L b) (lg_burned L b)" for b
      using facts(6) [of b] by (simp add: p_def)
    show ?thesis
    proof (cases "b = to")
      case True
      have "held L' to = Suc (held L to - (if to = from then 1 else 0))"
        using moved(1) [of to] \<open>0 < held L from\<close> by (auto split: if_splits)
      then have "data_ok (p to + 1) (held L' to) (lg_minted L to) (lg_burned L to)"
        using data_inc [OF 1 [of to]] less(2) [of to] less(3,4) [of to] by simp
      then show ?thesis using True by (simp add: L')
    next
      case False
      then have "held L b - (if b = from then 1 else 0) = held L' b" using moved(1) [of b] by (auto split: if_splits)
      then show ?thesis using 1 [of b] False by (simp add: L')
    qed
  qed
  define s1 where "s1 = clearApproval t s\<lparr>packedAddressData := p(to := p to + 1)\<rparr>"
  define s' where "s' = setOwnership t w prev s1\<lparr>token_log := token_log s @ [TransferEvent from to t]\<rparr>"
  have "implements s' L'"
    using moved_implements [OF s h w(2,1), of s1 s' L'] data ok facts(3) moved(2) by (simp add: s'_def s1_def prev_def L'_def)
  moreover have "transferFrom no_hooks ctx from to t s =
      (if \<not> may_move L (msg_sender ctx) from t then Inl TransferCallerNotOwnerNorApproved else Inr s')"
    using h \<open>to \<noteq> 0\<close> holder_word(2) [OF s h] facts(7,8)
    by (simp add: transferFrom_def packedOwnershipOf_ok [OF s] isSenderApprovedOrOwner_def isApprovedForAll_def may_move_def Let_def
        require_def s'_def s1_def w_def prev_def p_def)
  ultimately show ?thesis using h \<open>to \<noteq> 0\<close> by (simp add: L'_def)
qed

lemma approve_sim:
  assumes s: "implements s L"
  shows "rel_sum (=) implements (approveChecked ctx to t approvalCheck s) (ledgerStep (Approve ctx to t approvalCheck) L)"
proof -
  have "implements (s\<lparr>tokenApprovals := (tokenApprovals s)(t := to), token_log := l\<rparr>) (L\<lparr>lg_approved := (lg_approved L)(t := to)\<rparr>)" for l
    using s by (simp add: implements_def slot_def [abs_def] ledger_ok_def limits_def held_def burned_tokens_def)
  then show ?thesis
    using implements_facts(8) [OF s] by (cases "holder L t") (auto simp: approveChecked_def ownerOf_ok [OF s] isApprovedForAll_def)
qed

lemma setApprovalForAll_sim:
  assumes s: "implements s L"
  shows "rel_sum (=) implements (setApprovalForAll ctx operator approved s) (ledgerStep (SetApprovalForAll ctx operator approved) L)"
  using s by (simp add: setApprovalForAll_def implements_def slot_def [abs_def] ledger_ok_def limits_def held_def burned_tokens_def Let_def)

interpretation token: contract_refines "tokenStep no_hooks" ledgerStep implements within_limits
proof
  fix s :: "'a ERC721A_scheme" and L call
  assume "implements s L" and "within_limits call L"
  then show "rel_sum (=) implements (tokenStep no_hooks call s) (ledgerStep call L)"
    by (cases call) (simp_all only: tokenStep.simps mint_sim burn_sim transferFrom_sim approve_sim setApprovalForAll_sim)
qed

definition emptyERC721A :: ERC721A where
  "emptyERC721A = \<lparr>currentIndex = 0, burnCounter = 0, token_name = [], token_symbol = [], packedOwnerships = (\<lambda>_. 0),
     packedAddressData = (\<lambda>_. 0), tokenApprovals = (\<lambda>_. 0), operatorApprovals = (\<lambda>_ _. False), token_log = []\<rparr>"

lemma empty_implements: "implements (ERC721ABase_init name symbol emptyERC721A) empty_ledger"
  by (simp add: implements_def ERC721ABase_init_def emptyERC721A_def empty_ledger_def ledger_ok_def limits_def slots_ok_def data_ok_def
      held_def burned_tokens_def startTokenId_def)

section \<open>Enumeration of tokens\<close>

definition owned :: "account option list \<Rightarrow> account \<Rightarrow> nat \<Rightarrow> nat \<Rightarrow> nat list" where
  "owned os a i j = filter (\<lambda>k. os ! k = Some a) [i..<j]"

lemma owned_Suc: "i \<le> j \<Longrightarrow> owned os a i (Suc j) = owned os a i j @ (if os ! j = Some a then [j] else [])"
  by (simp add: owned_def)

lemma owned_split: "i \<le> j \<Longrightarrow> j \<le> k \<Longrightarrow> owned os a i k = owned os a i j @ owned os a j k"
  using upt_add_eq_append [of i j "k - j"] by (simp add: owned_def)

lemma length_owned_all: "length (owned os a 0 (length os)) = count_list os (Some a)"
proof -
  have "count_list os (Some a) = length (filter (\<lambda>x. x = Some a) os)"
    by (induction os) auto
  also have "\<dots> = length (filter (\<lambda>k. os ! k = Some a) [0..<length os])"
    using filter_map [of "\<lambda>x. x = Some a" "(!) os" "[0..<length os]"] by (simp add: map_nth o_def)
  finally show ?thesis by (simp add: owned_def)
qed

lemma length_owned: "i \<le> j \<Longrightarrow> j \<le> length os \<Longrightarrow> length (owned os a i j) \<le> count_list os (Some a)"
  using owned_split [of 0 i "length os" os a] owned_split [of i j "length os" os a] length_owned_all [of os a]
  by simp

text \<open>The owner the loop has in hand is that of the next token, if that has no word of its own.\<close>

definition in_hand :: "(nat \<Rightarrow> uint256) \<Rightarrow> account option list \<Rightarrow> nat \<Rightarrow> account \<Rightarrow> bool" where
  "in_hand f os i cur = (i < length os \<longrightarrow> f i = 0 \<longrightarrow> os ! i = Some cur)"

lemma slot_owner:
  assumes "slots_ok f os" and "i < length os"
  shows "bit (f i) 224 \<longleftrightarrow> os ! i = None"
    and "f i \<noteq> 0 \<Longrightarrow> \<not> bit (f i) 224 \<Longrightarrow> os ! i = Some (ucast (f i)) \<and> (ucast (f i) :: account) \<noteq> 0"
proof -
  have o: "owner_is (f i) (nearest f i) (os ! i)" using assms by (simp add: slots_ok_def)
  show "bit (f i) 224 \<longleftrightarrow> os ! i = None"
    using o nearest_set [of f i] by (cases "os ! i"; cases "f i = 0") auto
  show "os ! i = Some (ucast (f i)) \<and> (ucast (f i) :: account) \<noteq> 0" if "f i \<noteq> 0" "\<not> bit (f i) 224"
    using o nearest_set [of f i] that by (cases "os ! i") auto
qed

lemma slot_next_owner:
  assumes "slots_ok f os" and "Suc i < length os" and "f (Suc i) = 0"
  shows "os ! Suc i = os ! i" and "os ! i \<noteq> None"
proof -
  have 1: "owner_is (f i) (nearest f i) (os ! i)" "owner_is (f (Suc i)) (nearest f (Suc i)) (os ! Suc i)"
    using assms(1,2) unfolding slots_ok_def by (simp_all only: Suc_lessD)
  have "os ! i \<noteq> None"
  proof
    assume "os ! i = None"
    then have "bit (f i) 224" using 1 by simp
    then have "bit (nearest f i) 224" using nearest_set [of f i] by (cases "f i = 0") auto
    then show False using 1(2) assms(3) by (cases "os ! Suc i") auto
  qed
  then show "os ! i \<noteq> None" and "os ! Suc i = os ! i"
    using 1 assms(3) by (cases "os ! i"; cases "os ! Suc i"; auto)+
qed

lemma in_hand_next:
  assumes "slots_ok f os" and "i < length os" and "in_hand f os i cur"
  shows "in_hand f os (Suc i) (if bit (f i) 224 \<or> (ucast (f i) :: account) = 0 then cur else ucast (f i))"
    and "\<not> bit (f i) 224 \<Longrightarrow> os ! i = Some (if (ucast (f i) :: account) = 0 then cur else ucast (f i))"
proof -
  have o: "os ! i = Some (if (ucast (f i) :: account) = 0 then cur else ucast (f i))" if "\<not> bit (f i) 224"
    using slot_owner(2) [OF assms(1,2)] that assms(2,3) by (cases "f i = 0") (auto simp: in_hand_def)
  then show "\<not> bit (f i) 224 \<Longrightarrow> os ! i = Some (if (ucast (f i) :: account) = 0 then cur else ucast (f i))" .
  show "in_hand f os (Suc i) (if bit (f i) 224 \<or> (ucast (f i) :: account) = 0 then cur else ucast (f i))"
    using slot_next_owner [OF assms(1), of i] slot_owner(1) [OF assms(1,2)] o by (auto simp: in_hand_def)
qed

lemma ownedLoop_ok:
  assumes f: "slots_ok f os" "f = (\<lambda>i. ownerships (of_nat i))" and len: "length os < 2 ^ 256"
    and e: "i0 \<le> i" "i \<le> e" "e \<le> length os" and M: "length (owned os a i0 e) \<le> M" "M < 2 ^ 256"
    and stop: "stop = Some (of_nat e) \<or> stop = None \<and> length (owned os a i0 e) = M"
    and hand: "in_hand f os i cur"
  shows "ownedLoop ownerships a stop (of_nat M) (of_nat i) cur (map of_nat (owned os a i0 i)) =
    Some (map of_nat (owned os a i0 e))"
  using e(1,2) hand
proof (induction "e - i" arbitrary: i cur)
  case 0
  then have "i = e" by simp
  with stop show ?case by (subst ownedLoop.simps) auto
next
  case (Suc d)
  then have i: "i < e" "i < length os" using e(3) by linarith+
  have split: "owned os a i0 e = owned os a i0 i @ owned os a i e" using owned_split Suc.prems by blast
  have small: "x < 2 ^ 256 \<Longrightarrow> y < 2 ^ 256 \<Longrightarrow> (of_nat x :: uint256) = of_nat y \<longleftrightarrow> x = y" for x y
    by (auto simp: word_unat_eq_iff unat_of_nat)
  have c1: "stop = Some (of_nat i) \<longleftrightarrow> False" using stop i small [of e i] e(3) len by auto
  have c2: "(of_nat (length (map of_nat (owned os a i0 i) :: uint256 list)) :: uint256) = of_nat M \<longleftrightarrow> length (owned os a i0 i) = M"
    using small [of "length (owned os a i0 i)" M] M split by simp
  show ?case
  proof (cases "length (owned os a i0 i) = M")
    case True
    then have "owned os a i e = []" using M(1) split by simp
    then show ?thesis using c2 True split by (subst ownedLoop.simps) simp
  next
    case False
    have own: "own_burned (unpackedOwnership (ownerships (of_nat i))) \<longleftrightarrow> bit (f i) 224"
      "own_addr (unpackedOwnership (ownerships (of_nat i))) = ucast (f i)"
      by (simp_all add: unpackedOwnership_def burned_word f(2))
    have step: "(of_nat (Suc i) :: uint256) = of_nat i + 1" by simp
    let ?cur = "if bit (f i) 224 \<or> (ucast (f i) :: account) = 0 then cur else ucast (f i)"
    have s: "owned os a i0 (Suc i) = owned os a i0 i @ (if os ! i = Some a then [i] else [])"
      using owned_Suc Suc.prems(1) by blast
    have "ownedLoop ownerships a stop (of_nat M) (of_nat (Suc i)) ?cur (map of_nat (owned os a i0 (Suc i))) =
        Some (map of_nat (owned os a i0 e))"
      using Suc.hyps(2) Suc.prems in_hand_next(1) [OF f(1) i(2) Suc.prems(3)] i by (intro Suc.hyps(1)) simp_all
    moreover have "ownedLoop ownerships a stop (of_nat M) (of_nat i) cur (map of_nat (owned os a i0 i)) =
        ownedLoop ownerships a stop (of_nat M) (of_nat (Suc i)) ?cur (map of_nat (owned os a i0 (Suc i)))"
    proof (cases "bit (f i) 224")
      case True
      then have "os ! i = None" using slot_owner(1) [OF f(1) i(2)] by simp
      then show ?thesis using c1 c2 False True own step by (subst ownedLoop.simps) (simp add: s del: of_nat_Suc)
    next
      case nb: False
      then have "os ! i = Some ?cur" using in_hand_next(2) [OF f(1) i(2) Suc.prems(3)] by simp
      then show ?thesis using c1 c2 False nb own step
        by (subst ownedLoop.simps) (cases "(ucast (f i) :: account) = 0"; simp add: s Let_def del: of_nat_Suc)
    qed
    ultimately show ?thesis by simp
  qed
qed

lemma slot_first:
  assumes "slots_ok f os" and "0 < length os"
  shows "f 0 \<noteq> 0"
proof -
  have "owner_is (f 0) (f 0) (os ! 0)" using assms by (auto simp: slots_ok_def)
  then show ?thesis by (cases "os ! 0") auto
qed

lemma tokensOfOwner_ok:
  assumes s: "implements s L" and "a \<noteq> 0"
  shows "tokensOfOwner a s = Inr (map of_nat (owned (owners L) a 0 (length (owners L))))"
proof -
  note facts = implements_facts [OF s]
  have "in_hand (slot s) (owners L) 0 0"
    using slot_first [OF facts(5)] by (auto simp: in_hand_def)
  moreover have "slot s = (\<lambda>i. packedOwnerships s (of_nat i))" by (simp add: slot_def fun_eq_iff)
  ultimately have "ownedLoop (packedOwnerships s) a None (of_nat (held L a)) (of_nat 0) 0 (map of_nat (owned (owners L) a 0 0)) =
      Some (map of_nat (owned (owners L) a 0 (length (owners L))))"
    using length_less [OF facts(1)] held_le [of L a] length_owned_all [of "owners L" a]
    by (intro ownedLoop_ok [OF facts(5)]) (simp_all only: held_def le_refl zero_le simp_thms le_less_trans)
  then show ?thesis using assms(2)
    by (simp add: tokensOfOwner_def balanceOf_ok [OF s] startTokenId_def owned_def [of _ _ 0 0])
qed

lemma tokensOfOwnerIn_ok:
  assumes s: "implements s L" and "a \<noteq> 0" and "start < stop"
  shows "tokensOfOwnerIn a start stop s =
    Inr (map of_nat (owned (owners L) a (unat start) (min (unat stop) (length (owners L)))))"
proof -
  note facts = implements_facts [OF s]
  let ?os = "owners L" and ?stop = "if nextTokenId s < stop then nextTokenId s else stop"
  let ?e = "min (unat stop) (length ?os)"
  have e: "unat ?stop = ?e"
    using facts(2) by (simp add: nextTokenId_def word_less_nat_alt min_def)
  show ?thesis
  proof (cases "start < ?stop")
    case False
    then have "?e \<le> unat start" using e by (metis not_le word_less_nat_alt)
    then have "owned ?os a (unat start) ?e = []" by (simp add: owned_def)
    then show ?thesis using False assms(2,3)
      by (simp add: tokensOfOwnerIn_def balanceOf_ok [OF s] startTokenId_def Let_def)
  next
    case True
    then have l: "unat start < ?e" using e by (metis word_less_nat_alt)
    have diff: "unat (?stop - start) = ?e - unat start"
      using True e by (metis less_imp_le unat_sub)
    define M where "M = min (held L a) (?e - unat start)"
    have owned_le: "length (owned ?os a (unat start) ?e) \<le> M"
      using l length_owned [of "unat start" ?e ?os a] length_filter_le [of _ "[unat start..<?e]"]
      by (simp add: M_def held_def owned_def)
    have M: "M < 2 ^ 256" using held_less [OF facts(1), of a] by (simp add: M_def)
    have "(if ?stop - start < of_nat (held L a) then ?stop - start else of_nat (held L a)) = of_nat M"
      using held_less [OF facts(1), of a] diff
      by (auto simp: M_def word_less_nat_alt unat_of_nat min_def word_unat_eq_iff)
    moreover have "start < nextTokenId s" using l facts(2) by (simp add: nextTokenId_def word_less_nat_alt)
    moreover define ownership where "ownership = (if own_burned (ownershipAt start s) then ownershipAt start s
        else unpackedOwnership (nearest (slot s) (unat start)))"
    moreover define cur where "cur = (if own_burned ownership then 0 else own_addr ownership)"
    moreover have "explicitOwnershipOf start s = Inr ownership"
    proof -
      have "bit (slot s (unat start)) 224 \<longleftrightarrow> ?os ! unat start = None"
        by (rule slot_owner(1) [OF facts(5)]) (use l in simp)
      then show ?thesis using l \<open>start < nextTokenId s\<close>
        by (auto simp: explicitOwnershipOf_def ownershipOf_def packedOwnershipOf_ok [OF s] ownershipAt_def holder_def ownership_def
            startTokenId_def unpackedOwnership_def burned_word split: option.splits)
    qed
    moreover have "ownedLoop (packedOwnerships s) a (Some ?stop) (of_nat M) start cur [] =
        Some (map of_nat (owned ?os a (unat start) ?e))"
    proof -
      have "in_hand (slot s) ?os (unat start) cur"
      proof -
        have "owner_is (slot s (unat start)) (nearest (slot s) (unat start)) (?os ! unat start)"
          using facts(5) l unfolding slots_ok_def by (meson min_less_iff_conj)
        then show ?thesis
          by (cases "?os ! unat start")
            (auto simp: in_hand_def cur_def ownership_def ownershipAt_def unpackedOwnership_def burned_word)
      qed
      moreover have "slot s = (\<lambda>i. packedOwnerships s (of_nat i))" by (simp add: slot_def fun_eq_iff)
      moreover have "Some ?stop = Some (of_nat ?e)" using e by (metis of_nat_unat_word)
      ultimately have "ownedLoop (packedOwnerships s) a (Some ?stop) (of_nat M) (of_nat (unat start)) cur
          (map of_nat (owned ?os a (unat start) (unat start))) = Some (map of_nat (owned ?os a (unat start) ?e))"
        using l length_less [OF facts(1)] owned_le M by (intro ownedLoop_ok [OF facts(5)]) simp_all
      then show ?thesis by (simp add: owned_def [of _ _ "unat start" "unat start"])
    qed
    moreover have "owned ?os a (unat start) ?e = []" if "of_nat M = (0 :: uint256)"
      using that M owned_le by (auto simp: word_unat_eq_iff unat_of_nat)
    ultimately show ?thesis using assms(2,3) True
      by (auto simp: tokensOfOwnerIn_def balanceOf_ok [OF s] startTokenId_def Let_def)
  qed
qed

section \<open>The log\<close>

text \<open>The owners as a reader of the log rebuilds them.\<close>

fun replay :: "token_event list \<Rightarrow> (uint256 \<Rightarrow> account option) \<Rightarrow> uint256 \<Rightarrow> account option" where
  "replay [] m = m"
| "replay (TransferEvent from to t # es) m = replay es (m(t := if to = 0 then None else Some to))"
| "replay (ConsecutiveTransfer i j from to # es) m =
     replay es (\<lambda>t. if i \<le> t \<and> t \<le> j then Some to else m t)"
| "replay (e # es) m = replay es m"

definition logged :: "'a ERC721A_scheme \<Rightarrow> TokenLedger \<Rightarrow> bool" where
  "logged s L = (\<forall>t. replay (token_log s) (\<lambda>_. None) t = holder L t)"

lemma replay_append: "replay (es @ es') m = replay es' (replay es m)"
proof (induction es arbitrary: m)
  case (Cons e es)
  then show ?case by (cases e) (simp_all add: fun_upd_def)
qed simp

lemma replay_transferLogs:
  assumes "to \<noteq> 0"
  shows "replay (transferLogs to i stop) m t = (if t - i < stop - i then Some to else m t)"
proof (induction "unat (stop - i)" arbitrary: i m)
  case 0
  then have "i = stop" by (simp add: unat_eq_zero)
  then show ?case by (simp add: transferLogs.simps)
next
  case (Suc n)
  then have ne: "i \<noteq> stop" by auto
  have d: "stop - (i + 1) = (stop - i) - 1" by simp
  have u: "unat (stop - (i + 1)) = unat (stop - i) - 1" unfolding d using ne by (intro unat_pred) simp
  have IH: "replay (transferLogs to (i + 1) stop) m' t = (if t - (i + 1) < stop - (i + 1) then Some to else m' t)" for m'
    using Suc.hyps u by (metis diff_Suc_1)
  have "t - (i + 1) < stop - (i + 1) \<longleftrightarrow> t - i < stop - i" if "t \<noteq> i"
  proof -
    have "unat (t - (i + 1)) = unat (t - i) - 1" using that unat_pred [of "t - i"] by (simp add: diff_diff_eq)
    moreover have "unat (t - i) \<noteq> 0" using that by (simp add: unat_eq_zero)
    ultimately show ?thesis using u Suc.hyps(2) unfolding word_less_nat_alt by linarith
  qed
  moreover have "0 < stop - i" using ne by (simp add: word_gt_0)
  ultimately show ?case using ne assms by (subst transferLogs.simps) (auto simp: IH)
qed

lemma logged_append:
  assumes "logged s L" and "token_log s' = token_log s @ es"
  shows "logged s' L' \<longleftrightarrow> (\<forall>t. replay es (holder L) t = holder L' t)"
proof -
  have "replay (token_log s) (\<lambda>_. None) = holder L" using assms(1) by (simp add: logged_def fun_eq_iff)
  then show ?thesis by (simp add: logged_def assms(2) replay_append)
qed

lemma logged_moved:
  assumes "logged s L" and "token_log s' = token_log s @ [TransferEvent from to t]" and "unat t < length (owners L)"
    and "owners L' = (owners L)[unat t := (if to = 0 then None else Some to)]"
  shows "logged s' L'"
  using assms(3) by (auto simp: logged_append [OF assms(1,2)] holder_def assms(4) word_unat_eq_iff)

lemma logged_call:
  assumes s: "implements s L" "logged s L" and call: "within_limits call L" "tokenStep no_hooks call s = Inr s'" "ledgerStep call L = Inr L'"
  shows "logged s' L'"
proof (cases call)
  case (Mint ctx to q)
  let ?i = "currentIndex s"
  have q: "q \<noteq> 0" "to \<noteq> 0" and L': "owners L' = owners L @ replicate (unat q) (Some to)"
    using call(3) by (auto simp: Mint split: if_splits)
  have fits: "unat (?i + q) = length (owners L) + unat q"
    using call(1) implements_facts(2) [OF s(1)] unat_add_fits [of ?i q] q by (simp add: Mint within_limits_def limits_def)
  have log: "token_log s' = token_log s @ transferLogs to ?i (?i + q)"
    using call(2) q transferLogs.simps [of to ?i "?i + q"] by (auto simp: Mint mint_def Let_def)
  have "t - ?i < q \<longleftrightarrow> length (owners L) \<le> unat t \<and> unat t < length (owners L) + unat q" for t
  proof (cases "?i \<le> t")
    case True
    then show ?thesis using implements_facts(2) [OF s(1)] unat_sub [of ?i t] by (simp add: word_less_nat_alt word_le_nat_alt) linarith
  next
    case False
    then have "unat t < unat ?i" by (simp add: word_less_nat_alt not_le)
    moreover have "unat (t - ?i) = 2 ^ 256 + unat t - unat ?i"
      using False by (simp add: unat_sub_if' word_le_nat_alt)
    ultimately show ?thesis using fits implements_facts(2) [OF s(1)] unat_less_power [of "?i + q"]
      by (simp add: word_less_nat_alt)
  qed
  then show ?thesis
    by (auto simp: logged_append [OF s(2) log] replay_transferLogs [OF q(2)] holder_def L' nth_append)
next
  case (Burn ctx t approvalCheck)
  then obtain a where h: "holder L t = Some a" using call(3) by (auto split: option.splits)
  show ?thesis
    using call(2,3) h holder_word(5) [OF s(1) h] logged_moved [OF s(2), of s' a 0 t L']
    by (auto simp: Burn burn_def packedOwnershipOf_ok [OF s(1)] holder_word(2) [OF s(1) h] bindE_Inr Let_def split: if_splits)
next
  case (Transfer ctx "from" to t)
  then obtain a where h: "holder L t = Some a" using call(3) by (auto split: option.splits)
  show ?thesis
    using call(2,3) h holder_word(5) [OF s(1) h] logged_moved [OF s(2), of s' "from" to t L']
    by (auto simp: Transfer transferFrom_def packedOwnershipOf_ok [OF s(1)] holder_word(2) [OF s(1) h] bindE_Inr Let_def split: if_splits)
next
  case (Approve ctx to t approvalCheck)
  then show ?thesis
    using call(2,3) s(2) by (auto simp: approveChecked_def logged_def bindE_Inr replay_append holder_def split: option.splits if_splits)
next
  case (SetApprovalForAll ctx operator approved)
  then show ?thesis
    using call(2,3) s(2) by (auto simp: setApprovalForAll_def logged_def Let_def replay_append holder_def)
qed

interpretation token_log: contract_refines "tokenStep no_hooks" ledgerStep "\<lambda>s L. implements s L \<and> logged s L" within_limits
proof
  fix s :: "'a ERC721A_scheme" and L call
  assume "implements s L \<and> logged s L" and "within_limits call L"
  then show "rel_sum (=) (\<lambda>s L. implements s L \<and> logged s L) (tokenStep no_hooks call s) (ledgerStep call L)"
    using token.call_sim [of s L call] logged_call [of s L call]
    by (cases "tokenStep no_hooks call s"; cases "ledgerStep call L") auto
qed

lemma empty_logged: "logged (ERC721ABase_init name symbol emptyERC721A) empty_ledger"
  by (simp add: logged_def ERC721ABase_init_def emptyERC721A_def empty_ledger_def holder_def)

section \<open>Contracts built on the token\<close>

text \<open>
  The hooks of a contract built on the token may fail and may change its own part of the state. Its
  calls then succeed in fewer cases, with the effect the token's own calls have.
\<close>

abbreviation token_part :: "'a ERC721A_scheme \<Rightarrow> ERC721A" where
  "token_part \<equiv> ERC721A.ERC721A.truncate"

lemma token_part_fields [simp]:
  "currentIndex (token_part s) = currentIndex s" "burnCounter (token_part s) = burnCounter s"
  "packedOwnerships (token_part s) = packedOwnerships s" "packedAddressData (token_part s) = packedAddressData s"
  "tokenApprovals (token_part s) = tokenApprovals s" "operatorApprovals (token_part s) = operatorApprovals s"
  "token_log (token_part s) = token_log s"
  by (simp_all add: ERC721A.ERC721A.truncate_def)

lemma token_part_updates [simp]:
  "token_part (s\<lparr>currentIndex := i\<rparr>) = token_part s\<lparr>currentIndex := i\<rparr>"
  "token_part (s\<lparr>burnCounter := i\<rparr>) = token_part s\<lparr>burnCounter := i\<rparr>"
  "token_part (s\<lparr>packedOwnerships := f\<rparr>) = token_part s\<lparr>packedOwnerships := f\<rparr>"
  "token_part (s\<lparr>packedAddressData := d\<rparr>) = token_part s\<lparr>packedAddressData := d\<rparr>"
  "token_part (s\<lparr>tokenApprovals := m\<rparr>) = token_part s\<lparr>tokenApprovals := m\<rparr>"
  "token_part (s\<lparr>operatorApprovals := r\<rparr>) = token_part s\<lparr>operatorApprovals := r\<rparr>"
  "token_part (s\<lparr>token_log := l\<rparr>) = token_part s\<lparr>token_log := l\<rparr>"
  by (simp_all add: ERC721A.ERC721A.truncate_def)

lemma token_part_helpers [simp]:
  "packedOwnershipOf t (token_part s) = packedOwnershipOf t s" "ownerOf t (token_part s) = ownerOf t s"
  "isApprovedForAll a b (token_part s) = isApprovedForAll a b s"
  "token_part (setOwnership t w prev s) = setOwnership t w prev (token_part s)"
  "token_part (clearApproval t s) = clearApproval t (token_part s)"
  "implements (token_part s) L = implements s L" "logged (token_part s) L = logged s L"
  by (auto simp: packedOwnershipOf_def ownerOf_def isApprovedForAll_def setOwnership_def clearApproval_def implements_def
      logged_def slot_def [abs_def] Let_def)

locale token_contract =
  fixes h :: "'a ERC721A_scheme token_hooks"
  assumes before_frame: "beforeTokenTransfers h ctx from to t n s = Inr s' \<Longrightarrow> token_part s' = token_part s"
    and after_frame: "afterTokenTransfers h ctx from to t n s = Inr s' \<Longrightarrow> token_part s' = token_part s"
begin

lemma before_eqs:
  assumes "beforeTokenTransfers h ctx from to t n s = Inr s'"
  shows "token_part s' = token_part s \<and> currentIndex s' = currentIndex s \<and> packedOwnerships s' = packedOwnerships s \<and>
    packedAddressData s' = packedAddressData s \<and> tokenApprovals s' = tokenApprovals s \<and> token_log s' = token_log s \<and>
    burnCounter s' = burnCounter s"
  using before_frame [OF assms] token_part_fields by metis

lemma after_eqs:
  assumes "afterTokenTransfers h ctx from to t n s = Inr s'"
  shows "token_part s' = token_part s \<and> burnCounter s' = burnCounter s"
  using after_frame [OF assms] token_part_fields by metis

lemma mint_part: "mint h ctx to q s = Inr s' \<Longrightarrow> mint no_hooks ctx to q (token_part s) = Inr (token_part s')"
  by (auto simp: mint_def bindE_Inr Let_def dest!: before_eqs after_eqs)

lemma burn_part: "burn h ctx t approvalCheck s = Inr s' \<Longrightarrow> burn no_hooks ctx t approvalCheck (token_part s) = Inr (token_part s')"
  by (auto simp: burn_def bindE_Inr Let_def dest!: before_eqs after_eqs)

lemma transferFrom_part:
  "transferFrom h ctx from to t s = Inr s' \<Longrightarrow> transferFrom no_hooks ctx from to t (token_part s) = Inr (token_part s')"
  by (auto simp: transferFrom_def bindE_Inr Let_def dest!: before_eqs after_eqs)

lemma call_part:
  assumes "tokenStep h call s = Inr s'"
  shows "tokenStep no_hooks call (token_part s) = Inr (token_part s')"
proof (cases call)
  case (Approve ctx to t approvalCheck)
  then show ?thesis using assms by (auto simp: approveChecked_def bindE_Inr split: if_splits)
next
  case (SetApprovalForAll ctx operator approved)
  then show ?thesis using assms by (auto simp: setApprovalForAll_def Let_def)
qed (use assms mint_part burn_part transferFrom_part in auto)

lemma call_implements:
  assumes "implements s L" and "within_limits call L" and "tokenStep h call s = Inr s'"
  obtains L' where "ledgerStep call L = Inr L'" and "implements s' L'"
  using token.call_sim [of "token_part s" L call] call_part [OF assms(3)] assms(1,2)
  by (cases "ledgerStep call L") auto

end

interpretation plain: token_contract no_hooks
  by unfold_locales simp_all

interpretation nonTransferable: token_contract nonTransferable_hooks
  by unfold_locales (auto simp: nonTransferable_hooks_def split: if_splits)

section \<open>Other operations\<close>

text \<open>Giving a token a word of its own changes no owner.\<close>

lemma initializeOwnershipAt_implements:
  assumes s: "implements s L" and "initializeOwnershipAt t s = Inr s'"
  shows "implements s' L"
proof (cases "packedOwnerships s t = 0")
  case False
  then show ?thesis using assms by (simp add: initializeOwnershipAt_def)
next
  case True
  let ?near = "nearest (slot s) (unat t)"
  note facts = implements_facts [OF s]
  obtain a where h: "holder L t = Some a" and s': "s' = s\<lparr>packedOwnerships := (packedOwnerships s)(t := ?near)\<rparr>"
    using assms True by (auto simp: initializeOwnershipAt_def packedOwnershipOf_ok [OF s] bindE_Inr split: option.splits)
  have len: "length (owners L) < 2 ^ 256" by (rule length_less [OF facts(1)])
  have f': "slot s' k = (if k = unat t then ?near else slot s k)" if "k < length (owners L)" for k
    using slot_update [of k s t ?near] that len by (simp add: s')
  have near: "nearest (slot s') k = nearest (slot s) k" if "k < length (owners L)" for k
    using that
  proof (induction k)
    case 0
    then show ?case using f' [of 0] True by (cases "unat t = 0") auto
  next
    case (Suc k)
    then show ?case
      using f' [of "Suc k"] True holder_word(4) [OF s h] nearest_set [of "slot s'" "unat t"] by (cases "Suc k = unat t") auto
  qed
  have "slots_ok (slot s') (owners L)"
    unfolding slots_ok_def
  proof (intro allI impI)
    fix i
    assume i: "i < length (owners L)"
    have old: "owner_is (slot s i) (nearest (slot s) i) (owners L ! i)"
      "bit (nearest (slot s) i) 225 \<Longrightarrow> Suc i < length (owners L) \<Longrightarrow> slot s (Suc i) \<noteq> 0"
      using facts(5) i unfolding slots_ok_def by blast+
    have "owner_is (slot s' i) (nearest (slot s) i) (owners L ! i)"
      using old(1) f' [OF i] holder_word(6) [OF s h] by (cases "i = unat t"; cases "owners L ! i") auto
    then show "owner_is (slot s' i) (nearest (slot s') i) (owners L ! i) \<and>
        (bit (nearest (slot s') i) 225 \<longrightarrow> Suc i < length (owners L) \<longrightarrow> slot s' (Suc i) \<noteq> 0)"
      using near [OF i] old(2) f' [of "Suc i"] holder_word(4) [OF s h] by auto
  qed
  moreover have "packedOwnerships s' i = 0" if "currentIndex s \<le> i" for i
    using that holder_word(5) [OF s h] index_less [OF s, of t] facts(4) by (auto simp: s')
  ultimately show ?thesis using facts by (simp add: implements_def s')
qed

lemma safeTransferFrom_accepted:
  assumes "safeTransferFrom h receiver ctx from to t data s = Inr s'"
  obtains s1 where "transferFrom h ctx from to t s = Inr s1"
    and "if code_length ctx to = 0 then s' = s1
         else receiver to (msg_sender ctx) from t data s1 = (Selector onERC721Received_selector, s')"
  using assms
  by (auto simp: safeTransferFrom_def checkContractOnERC721Received_def bindE_Inr split: if_splits prod.splits receiver_answer.splits)

text \<open>A receiver that mints tokens itself, while it is asked, makes the call fail.\<close>

lemma safeMint_no_other_mint:
  assumes "safeMint h receiver ctx to q data s = Inr s'"
  obtains s1 where "mint h ctx to q s = Inr s1" and "currentIndex s' = currentIndex s1"
  using assms by (auto simp: safeMint_def bindE_Inr Let_def split: if_splits)

definition decimal :: "string \<Rightarrow> nat" where
  "decimal str = foldl (\<lambda>n c. 10 * n + (of_char c - 48)) 0 str"

lemma toStringLoop_value: "decimal (toStringLoop temp str) = foldl (\<lambda>n c. 10 * n + (of_char c - 48)) (unat temp) str"
proof (induction temp str rule: toStringLoop.induct)
  case (1 temp str)
  have digit: "of_char (char_of (48 + unat (temp mod 10))) - 48 = unat temp mod 10"
  proof -
    have "unat (temp mod 10) = unat temp mod 10" by (simp add: unat_mod)
    moreover have "48 + unat temp mod 10 < 256" using mod_less_divisor [of 10 "unat temp"] by linarith
    ultimately show ?thesis by simp
  qed
  show ?case
  proof (cases "temp div 10 = 0")
    case True
    then have "unat (temp div 10) = 0" by simp
    then have "unat temp div 10 = 0" by (simp add: unat_div)
    then show ?thesis using True digit by (subst toStringLoop.simps) (simp add: decimal_def)
  next
    case False
    then show ?thesis using 1 [OF refl refl] digit by (subst toStringLoop.simps) (simp add: Let_def unat_div)
  qed
qed

lemma toString_value: "decimal (toString v) = unat v"
  by (simp add: toString_def toStringLoop_value)

section \<open>Properties of all sequences of calls\<close>

definition token_state :: "string \<Rightarrow> string \<Rightarrow> TokenCall list \<Rightarrow> ERC721A" where
  "token_state name symbol inputs = calls (tokenStep no_hooks) inputs (ERC721ABase_init name symbol emptyERC721A)"

definition ledger_state :: "TokenCall list \<Rightarrow> TokenLedger" where
  "ledger_state inputs = calls ledgerStep inputs empty_ledger"

abbreviation legal_inputs :: "TokenCall list \<Rightarrow> bool" where
  "legal_inputs inputs \<equiv> legal_calls ledgerStep within_limits inputs empty_ledger"

lemma token_state_ok:
  assumes "legal_inputs inputs"
  shows "implements (token_state name symbol inputs) (ledger_state inputs)"
    and "logged (token_state name symbol inputs) (ledger_state inputs)"
  using token_log.calls_sim [OF _ assms, of "ERC721ABase_init name symbol emptyERC721A"] empty_implements empty_logged
  by (auto simp: token_state_def ledger_state_def)

lemma totalSupply_ok: "implements s L \<Longrightarrow> totalSupply s = of_nat (length (owners L) - burned_tokens L)"
proof -
  assume s: "implements s L"
  have "burned_tokens L \<le> length (owners L)" by (simp add: burned_tokens_def count_le_length)
  moreover have "currentIndex s = of_nat (length (owners L))" and "burnCounter s = of_nat (burned_tokens L)"
    using implements_facts(2,3) [OF s] by (metis of_nat_unat_word)+
  ultimately show ?thesis by (simp add: totalSupply_def startTokenId_def of_nat_diff)
qed

lemma replicate_3: "replicate 3 x = [x, x, x]"
  by (simp add: numeral_3_eq_3)

lemma list_update_numeral: "(x # xs)[numeral k := y] = x # xs[pred_numeral k := y]"
  by (simp add: numeral_eq_Suc)

definition sample_context :: "account \<Rightarrow> call_context" where
  "sample_context a = \<lparr>msg_sender = a, block_timestamp = 1700000000, block_number = 1, code_length = (\<lambda>_. 0)\<rparr>"

text \<open>Three tokens minted at once; the middle one is transferred, by an operator, and the last burned.\<close>

definition sample_inputs :: "TokenCall list" where
  "sample_inputs =
     [Mint (sample_context 9) 7 3, SetApprovalForAll (sample_context 7) 5 True, Transfer (sample_context 5) 7 8 1,
      Burn (sample_context 7) 2 True]"

lemma sample_legal: "legal_inputs sample_inputs" "legal_inputs [Mint (sample_context 9) 7 3]"
  by (simp_all add: sample_inputs_def empty_ledger_def sample_context_def holder_def may_move_def list_update_numeral
      within_limits_def limits_def held_def replicate_3)

lemma sample_owners:
  "owners (ledger_state sample_inputs) = [Some 7, Some 8, None]" "owners (ledger_state [Mint (sample_context 9) 7 3]) = [Some 7, Some 7, Some 7]"
  by (simp_all add: ledger_state_def sample_inputs_def empty_ledger_def sample_context_def holder_def may_move_def
      list_update_numeral replicate_3)

text \<open>As long as there are fewer than \<open>2\<^sup>6\<^sup>4\<close> tokens in all, minting one and transferring are within the limits.\<close>

lemma few_tokens_limits:
  assumes "ledger_ok L" and "length (owners L) + 1 < 2 ^ 64" and "block_timestamp ctx < 2 ^ 64"
  shows "within_limits (Mint ctx to 1) L" and "within_limits (Transfer ctx from to t) L"
proof -
  have few: "length (owners L') < 2 ^ 64 \<Longrightarrow> (\<And>a. lg_minted L' a \<le> length (owners L') \<and> lg_burned L' a \<le> length (owners L')) \<Longrightarrow> limits L'" for L' :: TokenLedger
  proof -
    fix L' :: TokenLedger
    assume len: "length (owners L') < 2 ^ 64" and le: "\<And>a. lg_minted L' a \<le> length (owners L') \<and> lg_burned L' a \<le> length (owners L')"
    have "length (owners L') < 2 ^ 256" by (rule less_trans [OF len]) simp
    moreover have "held L' a < 2 ^ 64" "lg_minted L' a < 2 ^ 64" "lg_burned L' a < 2 ^ 64" for a
      using le_less_trans [OF _ len] le [of a] held_le [of L' a] by blast+
    ultimately show "limits L'" unfolding limits_def by blast
  qed
  have "lg_minted L a \<le> length (owners L)" "lg_burned L a \<le> length (owners L)" for a
    using assms(1) burned_le [of L] by (auto simp: ledger_ok_def intro: le_trans)
  then show "within_limits (Mint ctx to 1) L" and "within_limits (Transfer ctx from to t) L"
    using assms(2,3) by (auto simp: within_limits_def intro!: few le_SucI split: option.splits)
qed

text \<open>
  The documentation of \<open>setApprovalForAll\<close> requires that the operator is not the caller. The code
  does not check it: an account can make itself its operator.
\<close>

lemma operator_may_be_caller:
  "\<exists>s'. setApprovalForAll ctx (msg_sender ctx) True s = Inr s' \<and> isApprovedForAll (msg_sender ctx) (msg_sender ctx) s'"
  by (simp add: setApprovalForAll_def isApprovedForAll_def Let_def)

text \<open>
  (C6) After every sequence of calls within the limits (an account holds, has minted and has burned fewer
  than \<open>2 ^ 64\<close> tokens, there are fewer than \<open>2 ^ 256\<close>, and time stamps have 64 bits), the token contract answers as the
  ledger of owners does: the owner of a token, balances, supply, numbers of minted and burned tokens,
  approvals; and every further call within the limits fails exactly when, and with the error, the ledger says. In
  the ledger, as in the code and unlike in its documentation, an account may approve itself as operator.
\<close>

theorem token_implements_ledger:
  assumes "legal_inputs inputs"
  shows "let s = token_state name symbol inputs; L = ledger_state inputs in
    (\<forall>t. ownerOf t s = (case holder L t of None \<Rightarrow> Inl OwnerQueryForNonexistentToken | Some a \<Rightarrow> Inr a)) \<and>
    (\<forall>a. balanceOf a s = (if a = 0 then Inl BalanceQueryForZeroAddress else Inr (of_nat (held L a)))) \<and>
    totalSupply s = of_nat (length (owners L) - burned_tokens L) \<and>
    (\<forall>a. numberMinted a s = of_nat (lg_minted L a) \<and> numberBurned a s = of_nat (lg_burned L a)) \<and>
    (\<forall>t. getApproved t s = (if holder L t = None then Inl ApprovalQueryForNonexistentToken else Inr (lg_approved L t))) \<and>
    (\<forall>a b. isApprovedForAll a b s = lg_operator L a b) \<and>
    (\<forall>call. within_limits call L \<longrightarrow> rel_sum (=) implements (tokenStep no_hooks call s) (ledgerStep call L))"
proof -
  note s = token_state_ok(1) [OF assms, of name symbol]
  show ?thesis
    unfolding Let_def
    by (intro conjI allI impI ownerOf_ok [OF s] balanceOf_ok [OF s] totalSupply_ok [OF s] entries_ok(2,3) [OF s] token.call_sim [OF s])
      (simp_all add: getApproved_def token_exists_ok [OF s] isApprovedForAll_def implements_facts(7,8) [OF s])
qed

theorem token_implements_ledger_witness:
  "owners (ledger_state sample_inputs) = [Some 7, Some 8, None] \<and>
   ownerOf 0 (token_state ''Space'' ''SPC'' sample_inputs) = Inr 7 \<and> ownerOf 1 (token_state ''Space'' ''SPC'' sample_inputs) = Inr 8 \<and>
   ownerOf 2 (token_state ''Space'' ''SPC'' sample_inputs) = Inl OwnerQueryForNonexistentToken \<and>
   balanceOf 7 (token_state ''Space'' ''SPC'' sample_inputs) = Inr 1"
  using token_implements_ledger [OF sample_legal(1), of "''Space''" "''SPC''"] sample_owners
  by (simp add: Let_def holder_def held_def)

text \<open>
  (C15) After every sequence of calls within the limits, the search for the owner of a token that
  exists ends, although it has no bound of its own: the word it looks for is there.
\<close>

theorem owner_search_ends:
  assumes "legal_inputs inputs" and "token_exists t (token_state name symbol inputs)"
    and "packedOwnerships (token_state name symbol inputs) t = 0"
  shows "\<exists>packed. scanOwnerships (packedOwnerships (token_state name symbol inputs)) t = Some packed \<and>
    holder (ledger_state inputs) t = Some (ucast packed)"
proof -
  let ?s = "token_state name symbol inputs"
  note s = token_state_ok(1) [OF assms(1), of name symbol]
  obtain a where h: "holder (ledger_state inputs) t = Some a" using assms(2) token_exists_ok [OF s] by blast
  have "packedOwnershipOf t ?s = Inr (nearest (slot ?s) (unat t))" by (simp add: packedOwnershipOf_ok [OF s] h)
  then have "scanOwnerships (packedOwnerships ?s) t = Some (nearest (slot ?s) (unat t))"
    using assms(2,3) by (auto simp: packedOwnershipOf_def token_exists_def split: if_splits option.splits)
  then show ?thesis using h holder_word(2) [OF s h] by simp
qed

theorem owner_search_ends_witness:
  "\<exists>packed. scanOwnerships (packedOwnerships (token_state [] [] [Mint (sample_context 9) 7 3])) 2 = Some packed \<and> ucast packed = (7 :: account)"
  using owner_search_ends [OF sample_legal(2), of 2 "[]" "[]"] sample_owners(2)
  by (simp add: holder_def token_state_def mint_def Let_def ERC721ABase_init_def emptyERC721A_def startTokenId_def token_exists_def)

text \<open>
  (C37) The enumeration of an owner's tokens ends after every sequence of calls within the limits, and
  returns the tokens the ledger gives to the owner, in order; so does the enumeration of a range.
\<close>

theorem tokens_of_owner_exact:
  assumes "legal_inputs inputs" and "a \<noteq> 0"
  shows "tokensOfOwner a (token_state name symbol inputs) =
      Inr (map of_nat (owned (owners (ledger_state inputs)) a 0 (length (owners (ledger_state inputs))))) \<and>
    (\<forall>start stop. start < stop \<longrightarrow> tokensOfOwnerIn a start stop (token_state name symbol inputs) =
      Inr (map of_nat (owned (owners (ledger_state inputs)) a (unat start) (min (unat stop) (length (owners (ledger_state inputs)))))))"
  using tokensOfOwner_ok [OF token_state_ok(1) [OF assms(1)] assms(2)]
    tokensOfOwnerIn_ok [OF token_state_ok(1) [OF assms(1)] assms(2)] by blast

theorem tokens_of_owner_exact_witness:
  "tokensOfOwner 7 (token_state [] [] [Mint (sample_context 9) 7 3]) = Inr [0, 1, 2] \<and>
   tokensOfOwner 8 (token_state [] [] sample_inputs) = Inr [1] \<and>
   tokensOfOwnerIn 7 1 9 (token_state [] [] [Mint (sample_context 9) 7 3]) = Inr [1, 2]"
  using tokens_of_owner_exact [OF sample_legal(2), of 7 "[]" "[]"] tokens_of_owner_exact [OF sample_legal(1), of 8 "[]" "[]"]
  by (simp add: sample_owners owned_def upt_rec [of 0] upt_rec [of "Suc 0"] upt_rec [of "Suc (Suc 0)"] numeral_3_eq_3)

text \<open>
  (C16) Whoever reads the transfer events of the contract, in order, knows the owner of every token.
\<close>

theorem events_determine_owners:
  assumes "legal_inputs inputs"
  shows "ownerOf t (token_state name symbol inputs) =
    (case replay (token_log (token_state name symbol inputs)) (\<lambda>_. None) t of
       None \<Rightarrow> Inl OwnerQueryForNonexistentToken | Some a \<Rightarrow> Inr a)"
  using token_state_ok(2) [OF assms, of name symbol]
  by (simp add: ownerOf_ok [OF token_state_ok(1) [OF assms]] logged_def)

theorem events_determine_owners_witness:
  "ownerOf 1 (token_state [] [] sample_inputs) = Inr 8 \<and>
   replay (token_log (token_state [] [] sample_inputs)) (\<lambda>_. None) 1 = Some 8"
proof -
  have "ownerOf 1 (token_state [] [] sample_inputs) = Inr 8"
    by (simp add: ownerOf_ok [OF token_state_ok(1) [OF sample_legal(1)]] sample_owners holder_def)
  then show ?thesis
    using events_determine_owners [OF sample_legal(1), of 1 "[]" "[]"] by (simp split: option.splits)
qed

end
