(* ===== verification/Checkpoints.thy ===== *)
theory Checkpoints
  imports Solidity
begin

text \<open>
  Histories of a value as lists of checkpoints,
  \<open>contracts/src/diamond/facets/governance/votes/Checkpoints.sol\<close>. The source has the code three
  times, for keys of 32, 32 and 96 bits and values of 224, 224 and 160; the model has it once, for
  words of any length. \<open>Math\<close> and \<open>SafeCast\<close> of the contract library are a parameter with the laws
  they document. The binary searches have no measure of their own: that they end rests on these laws.
\<close>

section \<open>Library\<close>

record oz_math =
  oz_average :: "uint256 \<Rightarrow> uint256 \<Rightarrow> uint256"
  oz_sqrt :: "uint256 \<Rightarrow> uint256"
  oz_toUint32 :: "uint256 \<Rightarrow> sol_error + 32 word"
  oz_toUint48 :: "uint256 \<Rightarrow> sol_error + 48 word"
  oz_toUint224 :: "uint256 \<Rightarrow> sol_error + 224 word"

text \<open>The average and the square root are rounded down; a cast reverts when the value does not fit.\<close>

definition cast_law :: "(uint256 \<Rightarrow> sol_error + 'w::len word) \<Rightarrow> bool" where
  "cast_law f = (\<forall>x. if unat x < 2 ^ LENGTH('w) then f x = Inr (ucast x) else \<exists>e. f x = Inl e)"

definition math_laws :: "oz_math \<Rightarrow> bool" where
  "math_laws M =
     ((\<forall>a b. unat (oz_average M a b) = (unat a + unat b) div 2) \<and>
      (\<forall>a. (unat (oz_sqrt M a))\<^sup>2 \<le> unat a \<and> unat a < (unat (oz_sqrt M a) + 1)\<^sup>2) \<and>
      cast_law (oz_toUint32 M) \<and> cast_law (oz_toUint48 M) \<and> cast_law (oz_toUint224 M))"

section \<open>Checkpoints\<close>

record ('k, 'v) Checkpoint =
  ckpt_key :: 'k
  ckpt_value :: 'v

type_synonym Trace224 = "(32 word, 224 word) Checkpoint list"

definition zeroCheckpoint :: "('k::len word, 'v::len word) Checkpoint" where
  "zeroCheckpoint = \<lparr>ckpt_key = 0, ckpt_value = 0\<rparr>"

text \<open>Access without a check of the bounds: the storage after the array is zero.\<close>

definition unsafeAccess :: "('k::len word, 'v::len word) Checkpoint list \<Rightarrow> uint256 \<Rightarrow> ('k word, 'v word) Checkpoint" where
  "unsafeAccess self pos = (if unat pos < length self then self ! unat pos else zeroCheckpoint)"

definition ckpt_length :: "('k::len word, 'v::len word) Checkpoint list \<Rightarrow> uint256" where
  "ckpt_length self = of_nat (length self)"

definition latest :: "('k::len word, 'v::len word) Checkpoint list \<Rightarrow> 'v word" where
  "latest self =
     (let pos = ckpt_length self in if pos = 0 then 0 else ckpt_value (unsafeAccess self (pos - 1)))"

definition latestCheckpoint :: "('k::len word, 'v::len word) Checkpoint list \<Rightarrow> bool \<times> 'k word \<times> 'v word" where
  "latestCheckpoint self =
     (let pos = ckpt_length self
      in if pos = 0 then (False, 0, 0)
         else (let ckpt = unsafeAccess self (pos - 1) in (True, ckpt_key ckpt, ckpt_value ckpt)))"

text \<open>The result of an insertion: the values before and after it, and the new list.\<close>

definition ckpt_insert ::
    "('k::len word, 'v::len word) Checkpoint list \<Rightarrow> 'k word \<Rightarrow> 'v word \<Rightarrow> sol_error + 'v word \<times> 'v word \<times> ('k word, 'v word) Checkpoint list" where
  "ckpt_insert self key val =
     (let pos = ckpt_length self
      in if 0 < pos
         then (let prev = unsafeAccess self (pos - 1)
               in bindE (require (ckpt_key prev \<le> key) (RevertString ''Checkpoint: decreasing keys'')) (\<lambda>_.
                    Inr (ckpt_value prev, val,
                         if ckpt_key prev = key then self[unat (pos - 1) := prev\<lparr>ckpt_value := val\<rparr>]
                         else self @ [\<lparr>ckpt_key = key, ckpt_value = val\<rparr>])))
         else Inr (0, val, self @ [\<lparr>ckpt_key = key, ckpt_value = val\<rparr>]))"

partial_function (option) upperBinaryLookup ::
    "oz_math \<Rightarrow> ('k::len word, 'v::len word) Checkpoint list \<Rightarrow> 'k word \<Rightarrow> uint256 \<Rightarrow> uint256 \<Rightarrow> (sol_error + uint256) option" where
  "upperBinaryLookup M self key low high =
     (if low < high
      then (let mid = oz_average M low high
            in if key < ckpt_key (unsafeAccess self mid) then upperBinaryLookup M self key low mid
               else (case checked_add mid 1 of
                       Inl e \<Rightarrow> Some (Inl e)
                     | Inr low' \<Rightarrow> upperBinaryLookup M self key low' high))
      else Some (Inr high))"

partial_function (option) lowerBinaryLookup ::
    "oz_math \<Rightarrow> ('k::len word, 'v::len word) Checkpoint list \<Rightarrow> 'k word \<Rightarrow> uint256 \<Rightarrow> uint256 \<Rightarrow> (sol_error + uint256) option" where
  "lowerBinaryLookup M self key low high =
     (if low < high
      then (let mid = oz_average M low high
            in if ckpt_key (unsafeAccess self mid) < key
               then (case checked_add mid 1 of
                       Inl e \<Rightarrow> Some (Inl e)
                     | Inr low' \<Rightarrow> lowerBinaryLookup M self key low' high)
               else lowerBinaryLookup M self key low mid)
      else Some (Inr high))"

text \<open>A search that does not end uses up the gas of the call.\<close>

definition searched :: "(sol_error + 'a) option \<Rightarrow> sol_error + 'a" where
  "searched r = (case r of None \<Rightarrow> Inl OutOfGas | Some r' \<Rightarrow> r')"

definition lowerLookup :: "oz_math \<Rightarrow> ('k::len word, 'v::len word) Checkpoint list \<Rightarrow> 'k word \<Rightarrow> sol_error + 'v word" where
  "lowerLookup M self key =
     (let len = ckpt_length self
      in bindE (searched (lowerBinaryLookup M self key 0 len)) (\<lambda>pos.
           Inr (if pos = len then 0 else ckpt_value (unsafeAccess self pos))))"

definition upperLookup :: "oz_math \<Rightarrow> ('k::len word, 'v::len word) Checkpoint list \<Rightarrow> 'k word \<Rightarrow> sol_error + 'v word" where
  "upperLookup M self key =
     (let len = ckpt_length self
      in bindE (searched (upperBinaryLookup M self key 0 len)) (\<lambda>pos.
           Inr (if pos = 0 then 0 else ckpt_value (unsafeAccess self (pos - 1)))))"

definition upperLookupRecent :: "oz_math \<Rightarrow> ('k::len word, 'v::len word) Checkpoint list \<Rightarrow> 'k word \<Rightarrow> sol_error + 'v word" where
  "upperLookupRecent M self key =
     (let len = ckpt_length self
      in bindE (if 5 < len
                then bindE (checked_sub len (oz_sqrt M len)) (\<lambda>mid.
                       if key < ckpt_key (unsafeAccess self mid) then Inr (0, mid)
                       else bindE (checked_add mid 1) (\<lambda>low. Inr (low, len)))
                else Inr (0, len)) (\<lambda>(low, high).
           bindE (searched (upperBinaryLookup M self key low high)) (\<lambda>pos.
             Inr (if pos = 0 then 0 else ckpt_value (unsafeAccess self (pos - 1))))))"

text \<open>The first of the three copies takes block numbers.\<close>

definition getAtBlock :: "oz_math \<Rightarrow> call_context \<Rightarrow> Trace224 \<Rightarrow> uint256 \<Rightarrow> sol_error + 224 word" where
  "getAtBlock M ctx self blockNumber =
     bindE (require (blockNumber < block_number ctx) (RevertString ''Checkpoints: block not yet mined'')) (\<lambda>_.
     bindE (oz_toUint32 M blockNumber) (\<lambda>key. upperLookup M self key))"

definition getAtProbablyRecentBlock :: "oz_math \<Rightarrow> call_context \<Rightarrow> Trace224 \<Rightarrow> uint256 \<Rightarrow> sol_error + 224 word" where
  "getAtProbablyRecentBlock M ctx self blockNumber =
     bindE (require (blockNumber < block_number ctx) (RevertString ''Checkpoints: block not yet mined'')) (\<lambda>_.
     bindE (oz_toUint32 M blockNumber) (\<lambda>key. upperLookupRecent M self key))"

definition history_push :: "oz_math \<Rightarrow> call_context \<Rightarrow> Trace224 \<Rightarrow> uint256 \<Rightarrow> sol_error + 224 word \<times> 224 word \<times> Trace224" where
  "history_push M ctx self val =
     bindE (oz_toUint32 M (block_number ctx)) (\<lambda>key.
     bindE (oz_toUint224 M val) (\<lambda>v. ckpt_insert self key v))"

section \<open>Reference\<close>

text \<open>The last checkpoint not after a key, and the first not before it; zero when there is none.\<close>

definition value_at :: "('k::len word, 'v::len word) Checkpoint list \<Rightarrow> 'k word \<Rightarrow> 'v word" where
  "value_at self key =
     (let before = filter (\<lambda>c. ckpt_key c \<le> key) self in if before = [] then 0 else ckpt_value (last before))"

definition value_from :: "('k::len word, 'v::len word) Checkpoint list \<Rightarrow> 'k word \<Rightarrow> 'v word" where
  "value_from self key =
     (let after = filter (\<lambda>c. key \<le> ckpt_key c) self in if after = [] then 0 else ckpt_value (hd after))"

definition increasing :: "('k::len word, 'v::len word) Checkpoint list \<Rightarrow> bool" where
  "increasing self = sorted_wrt (<) (map ckpt_key self)"

section \<open>Searches\<close>

lemma increasing_length:
  fixes self :: "('k::len word, 'v::len word) Checkpoint list"
  assumes "increasing self" and "LENGTH('k) < 256"
  shows "length self < 2 ^ 256"
proof -
  have "distinct (map ckpt_key self)" using assms(1) by (simp add: increasing_def strict_sorted_iff)
  then have "length self = card (ckpt_key ` set self)" by (metis distinct_card length_map set_map)
  also have "\<dots> \<le> CARD('k word)" by (rule card_mono) auto
  also have "\<dots> < 2 ^ 256" unfolding card_word by (rule power_strict_increasing [OF assms(2)]) simp
  finally show ?thesis .
qed

lemma increasing_nth: "increasing self \<Longrightarrow> i < j \<Longrightarrow> j < length self \<Longrightarrow> ckpt_key (self ! i) < ckpt_key (self ! j)"
  by (simp add: increasing_def sorted_wrt_iff_nth_less)

text \<open>A property that holds of a prefix of the list holds of as many elements as the prefix has.\<close>

lemma prefix_filter:
  assumes "\<And>i j. i < j \<Longrightarrow> j < length xs \<Longrightarrow> P (xs ! j) \<Longrightarrow> P (xs ! i)"
  shows "takeWhile P xs = filter P xs" and "i < length xs \<Longrightarrow> P (xs ! i) \<longleftrightarrow> i < length (filter P xs)"
proof -
  show eq: "takeWhile P xs = filter P xs"
    using assms
  proof (induction xs)
    case (Cons x xs)
    have IH: "takeWhile P xs = filter P xs"
    proof (rule Cons.IH)
      fix i j
      assume "i < j" "j < length xs" "P (xs ! j)"
      then show "P (xs ! i)" using Cons.prems [of "Suc i" "Suc j"] by simp
    qed
    have "\<not> P y" if "\<not> P x" "y \<in> set xs" for y
    proof
      assume "P y"
      obtain j where "j < length xs" "xs ! j = y" using \<open>y \<in> set xs\<close> by (auto simp: in_set_conv_nth)
      then show False using Cons.prems [of 0 "Suc j"] \<open>P y\<close> \<open>\<not> P x\<close> by simp
    qed
    then show ?case by (cases "P x") (simp_all add: IH filter_empty_conv)
  qed simp
  assume i: "i < length xs"
  let ?n = "length (takeWhile P xs)"
  have "P (xs ! i)" if "i < ?n" using that by (metis nth_mem set_takeWhileD takeWhile_nth)
  moreover have "\<not> P (xs ! i)" if "?n \<le> i"
    using nth_length_takeWhile [of P xs] assms [of ?n i] i that by (cases "?n = i") auto
  ultimately show "P (xs ! i) \<longleftrightarrow> i < length (filter P xs)" unfolding eq [symmetric] by (meson not_le)
qed

definition upper_index :: "('k::len word, 'v::len word) Checkpoint list \<Rightarrow> 'k word \<Rightarrow> nat" where
  "upper_index self key = length (filter (\<lambda>c. ckpt_key c \<le> key) self)"

definition lower_index :: "('k::len word, 'v::len word) Checkpoint list \<Rightarrow> 'k word \<Rightarrow> nat" where
  "lower_index self key = length (filter (\<lambda>c. ckpt_key c < key) self)"

lemma upper_index_iff:
  assumes "increasing self" and "i < length self"
  shows "ckpt_key (self ! i) \<le> key \<longleftrightarrow> i < upper_index self key"
  unfolding upper_index_def using assms increasing_nth [OF assms(1)]
  by (intro prefix_filter(2)) (meson less_le_trans less_imp_le)

lemma lower_index_iff:
  assumes "increasing self" and "i < length self"
  shows "ckpt_key (self ! i) < key \<longleftrightarrow> i < lower_index self key"
  unfolding lower_index_def using assms increasing_nth [OF assms(1)]
  by (intro prefix_filter(2)) (meson less_trans)

lemma average_between:
  assumes "math_laws M" and "low < high"
  shows "unat low \<le> unat (oz_average M low high)" and "unat (oz_average M low high) < unat high"
  using assms by (auto simp: math_laws_def word_less_nat_alt)

lemma mid_plus_one:
  fixes mid high :: uint256
  assumes "unat mid < unat high"
  shows "checked_add mid 1 = Inr (mid + 1)" and "unat (mid + 1) = Suc (unat mid)"
proof -
  have "mid < high" using assms by (simp add: word_less_nat_alt)
  then show "unat (mid + 1) = Suc (unat mid)" by (rule unat_Suc_fits)
  then show "checked_add mid 1 = Inr (mid + 1)" by (simp add: checked_add_def word_less_nat_alt)
qed

text \<open>Both searches end, and find the boundary between the keys before and after the one sought.\<close>

lemma upperBinaryLookup_ok:
  assumes M: "math_laws M" and self: "increasing self"
    and "unat low \<le> upper_index self key" "upper_index self key \<le> unat high" "unat high \<le> length self"
  shows "upperBinaryLookup M self key low high = Some (Inr (of_nat (upper_index self key)))"
  using assms(3-5)
proof (induction "unat high - unat low" arbitrary: low high rule: less_induct)
  case less
  show ?case
  proof (cases "low < high")
    case False
    then have "unat high = upper_index self key" using less.prems by (simp add: word_less_nat_alt)
    then have "high = of_nat (upper_index self key)" by (metis of_nat_unat_word)
    then show ?thesis using False by (subst upperBinaryLookup.simps) simp
  next
    case True
    define mid where "mid = oz_average M low high"
    have mid: "unat low \<le> unat mid" "unat mid < unat high" unfolding mid_def by (rule average_between [OF M True])+
    have access: "unsafeAccess self mid = self ! unat mid" using mid less.prems by (simp add: unsafeAccess_def)
    have iff: "key < ckpt_key (self ! unat mid) \<longleftrightarrow> upper_index self key \<le> unat mid"
      using upper_index_iff [OF self, of "unat mid" key] mid less.prems by (simp add: not_le [symmetric])
    show ?thesis
    proof (cases "key < ckpt_key (self ! unat mid)")
      case True
      then have "upperBinaryLookup M self key low mid = Some (Inr (of_nat (upper_index self key)))"
        using less.prems mid iff by (intro less.hyps) auto
      then show ?thesis using True \<open>low < high\<close> access by (subst upperBinaryLookup.simps) (simp add: mid_def [symmetric])
    next
      case False
      then have "upperBinaryLookup M self key (mid + 1) high = Some (Inr (of_nat (upper_index self key)))"
        using less.prems mid iff mid_plus_one [OF mid(2)] by (intro less.hyps) auto
      then show ?thesis using False \<open>low < high\<close> access mid_plus_one(1) [OF mid(2)]
        by (subst upperBinaryLookup.simps) (simp add: mid_def [symmetric])
    qed
  qed
qed

lemma lowerBinaryLookup_ok:
  assumes M: "math_laws M" and self: "increasing self"
    and "unat low \<le> lower_index self key" "lower_index self key \<le> unat high" "unat high \<le> length self"
  shows "lowerBinaryLookup M self key low high = Some (Inr (of_nat (lower_index self key)))"
  using assms(3-5)
proof (induction "unat high - unat low" arbitrary: low high rule: less_induct)
  case less
  show ?case
  proof (cases "low < high")
    case False
    then have "unat high = lower_index self key" using less.prems by (simp add: word_less_nat_alt)
    then have "high = of_nat (lower_index self key)" by (metis of_nat_unat_word)
    then show ?thesis using False by (subst lowerBinaryLookup.simps) simp
  next
    case True
    define mid where "mid = oz_average M low high"
    have mid: "unat low \<le> unat mid" "unat mid < unat high" unfolding mid_def by (rule average_between [OF M True])+
    have access: "unsafeAccess self mid = self ! unat mid" using mid less.prems by (simp add: unsafeAccess_def)
    have iff: "ckpt_key (self ! unat mid) < key \<longleftrightarrow> unat mid < lower_index self key"
      using lower_index_iff [OF self, of "unat mid" key] mid less.prems by simp
    show ?thesis
    proof (cases "ckpt_key (self ! unat mid) < key")
      case True
      then have "lowerBinaryLookup M self key (mid + 1) high = Some (Inr (of_nat (lower_index self key)))"
        using less.prems mid iff mid_plus_one [OF mid(2)] by (intro less.hyps) auto
      then show ?thesis using True \<open>low < high\<close> access mid_plus_one(1) [OF mid(2)]
        by (subst lowerBinaryLookup.simps) (simp add: mid_def [symmetric])
    next
      case False
      then have "lowerBinaryLookup M self key low mid = Some (Inr (of_nat (lower_index self key)))"
        using less.prems mid iff by (intro less.hyps) auto
      then show ?thesis using False \<open>low < high\<close> access by (subst lowerBinaryLookup.simps) (simp add: mid_def [symmetric])
    qed
  qed
qed

section \<open>Lookups\<close>

lemma upper_index_le: "upper_index self key \<le> length self" and lower_index_le: "lower_index self key \<le> length self"
  by (simp_all add: upper_index_def lower_index_def)

lemma unat_index: "n \<le> length self \<Longrightarrow> length self < 2 ^ 256 \<Longrightarrow> unat (of_nat n :: uint256) = n"
  by (simp add: unat_of_nat)

lemma value_at_index:
  assumes "increasing self"
  shows "value_at self key = (if upper_index self key = 0 then 0 else ckpt_value (self ! (upper_index self key - 1)))"
proof -
  let ?P = "\<lambda>c. ckpt_key c \<le> key"
  have "takeWhile ?P self = filter ?P self"
    using increasing_nth [OF assms] by (intro prefix_filter(1)) (meson less_le_trans less_imp_le)
  then have "filter ?P self = take (upper_index self key) self" by (metis takeWhile_eq_take upper_index_def)
  moreover have "last (take n self) = self ! (n - 1)" if "0 < n" "n \<le> length self" for n
    using that by (subst last_conv_nth) auto
  ultimately show ?thesis
    using upper_index_le [of self key] by (cases "upper_index self key = 0") (auto simp: value_at_def Let_def)
qed

lemma value_from_index:
  assumes "increasing self"
  shows "value_from self key = (if lower_index self key = length self then 0 else ckpt_value (self ! lower_index self key))"
proof -
  let ?P = "\<lambda>c. ckpt_key c < key"
  have tw: "takeWhile ?P self = filter ?P self"
    using increasing_nth [OF assms] by (intro prefix_filter(1)) (meson less_trans)
  have "filter (\<lambda>c. key \<le> ckpt_key c) self = dropWhile ?P self"
  proof -
    have all: "key \<le> ckpt_key c" if c: "c \<in> set (dropWhile ?P self)" for c
    proof -
      obtain j where j: "j < length self - lower_index self key" "c = self ! (lower_index self key + j)"
        using c by (auto simp: in_set_conv_nth dropWhile_eq_drop tw lower_index_def)
      then show ?thesis using lower_index_iff [OF assms, of "lower_index self key + j" key] by (simp add: not_less)
    qed
    have "filter (\<lambda>c. key \<le> ckpt_key c) (takeWhile ?P self) = []"
      unfolding filter_empty_conv by (meson leD set_takeWhileD)
    moreover have "filter (\<lambda>c. key \<le> ckpt_key c) (dropWhile ?P self) = dropWhile ?P self"
      using all by (intro filter_True) blast
    ultimately have "filter (\<lambda>c. key \<le> ckpt_key c) (takeWhile ?P self @ dropWhile ?P self) = dropWhile ?P self"
      by (simp only: filter_append append_Nil)
    then show ?thesis by simp
  qed
  then have "filter (\<lambda>c. key \<le> ckpt_key c) self = drop (lower_index self key) self"
    by (simp add: dropWhile_eq_drop tw lower_index_def)
  then show ?thesis using lower_index_le [of self key] by (auto simp: value_from_def Let_def hd_drop_conv_nth)
qed

lemma found_value:
  assumes "increasing self" and "length self < 2 ^ 256"
  shows "(let pos = of_nat (upper_index self key) in if pos = 0 then 0 else ckpt_value (unsafeAccess self (pos - 1))) = value_at self key"
proof -
  let ?n = "upper_index self key"
  have u: "unat (of_nat ?n :: uint256) = ?n" using unat_index upper_index_le assms(2) by blast
  then have z: "(of_nat ?n :: uint256) = 0 \<longleftrightarrow> ?n = 0" by (metis unat_eq_zero)
  show ?thesis
  proof (cases "?n = 0")
    case True
    then show ?thesis by (simp add: value_at_index [OF assms(1)])
  next
    case False
    then have "unat (of_nat ?n - 1 :: uint256) = ?n - 1" using u z by (simp add: unat_pred)
    moreover have "?n - 1 < length self" using False upper_index_le [of self key] by linarith
    ultimately show ?thesis using False z
      by (simp add: value_at_index [OF assms(1)] unsafeAccess_def Let_def)
  qed
qed

lemma upperLookup_ok:
  assumes "math_laws M" and "increasing self" and "length self < 2 ^ 256"
  shows "upperLookup M self key = Inr (value_at self key)"
proof -
  have "upperBinaryLookup M self key 0 (of_nat (length self)) = Some (Inr (of_nat (upper_index self key)))"
    using upper_index_le unat_index [OF le_refl assms(3)] by (intro upperBinaryLookup_ok assms(1,2)) auto
  then show ?thesis using found_value [OF assms(2,3), of key] by (simp add: upperLookup_def searched_def ckpt_length_def Let_def)
qed

lemma sqrt_between:
  assumes "math_laws M" and "5 < unat len"
  shows "0 < unat (oz_sqrt M len)" and "unat (oz_sqrt M len) \<le> unat len"
proof -
  let ?r = "unat (oz_sqrt M len)"
  have "?r\<^sup>2 \<le> unat len" and u: "unat len < (?r + 1)\<^sup>2" using assms(1) by (auto simp: math_laws_def)
  moreover have "?r \<le> ?r\<^sup>2" by (simp add: power2_eq_square)
  ultimately show "?r \<le> unat len" by linarith
  show "0 < ?r"
  proof (rule gr0I)
    assume "?r = 0"
    then show False using u assms(2) by simp
  qed
qed

lemma upperLookupRecent_ok:
  assumes M: "math_laws M" and self: "increasing self" and len: "length self < 2 ^ 256"
  shows "upperLookupRecent M self key = Inr (value_at self key)"
proof -
  let ?len = "of_nat (length self) :: uint256" and ?n = "upper_index self key"
  have u: "unat ?len = length self" by (rule unat_index [OF le_refl len])
  note val_eq = found_value [OF self len, of key]
  show ?thesis
  proof (cases "5 < ?len")
    case False
    have "upperBinaryLookup M self key 0 ?len = Some (Inr (of_nat ?n))"
      using upper_index_le u by (intro upperBinaryLookup_ok [OF M self]) auto
    then show ?thesis using False val_eq by (simp add: upperLookupRecent_def searched_def ckpt_length_def Let_def)
  next
    case True
    then have "5 < unat ?len" by (simp add: word_less_nat_alt)
    note r = sqrt_between [OF M this]
    define mid where "mid = ?len - oz_sqrt M ?len"
    have sub: "checked_sub ?len (oz_sqrt M ?len) = Inr mid" using r by (simp add: checked_sub_nat mid_def)
    have "unat mid = unat ?len - unat (oz_sqrt M ?len)" using r unfolding mid_def by (intro unat_sub) (simp add: word_le_nat_alt)
    then have mid: "unat mid < length self" "unat mid < unat ?len" using r u by linarith+
    have access: "unsafeAccess self mid = self ! unat mid" using mid by (simp add: unsafeAccess_def)
    have iff: "key < ckpt_key (self ! unat mid) \<longleftrightarrow> ?n \<le> unat mid"
      using upper_index_iff [OF self mid(1), of key] by (simp add: not_le [symmetric])
    show ?thesis
    proof (cases "key < ckpt_key (self ! unat mid)")
      case k: True
      then have "upperBinaryLookup M self key 0 mid = Some (Inr (of_nat ?n))"
        using iff mid by (intro upperBinaryLookup_ok [OF M self]) auto
      then show ?thesis using True k val_eq sub access
        by (simp add: upperLookupRecent_def searched_def ckpt_length_def Let_def)
    next
      case k: False
      then have "upperBinaryLookup M self key (mid + 1) ?len = Some (Inr (of_nat ?n))"
        using iff mid u mid_plus_one [OF mid(2)] upper_index_le by (intro upperBinaryLookup_ok [OF M self]) auto
      then show ?thesis using True k val_eq sub access mid_plus_one(1) [OF mid(2)]
        by (simp add: upperLookupRecent_def searched_def ckpt_length_def Let_def)
    qed
  qed
qed

lemma lowerLookup_ok:
  assumes "math_laws M" and "increasing self" and "length self < 2 ^ 256"
  shows "lowerLookup M self key = Inr (value_from self key)"
proof -
  let ?n = "lower_index self key"
  have u: "unat (of_nat ?n :: uint256) = ?n" "unat (of_nat (length self) :: uint256) = length self"
    by (rule unat_index [OF lower_index_le assms(3)], rule unat_index [OF le_refl assms(3)])
  have "lowerBinaryLookup M self key 0 (of_nat (length self)) = Some (Inr (of_nat ?n))"
    using assms lower_index_le u by (intro lowerBinaryLookup_ok) auto
  moreover have "(of_nat ?n :: uint256) = of_nat (length self) \<longleftrightarrow> ?n = length self" using u by (metis)
  ultimately show ?thesis
    using u lower_index_le [of self key]
    by (simp add: lowerLookup_def searched_def ckpt_length_def Let_def value_from_index [OF assms(2)] unsafeAccess_def)
qed

section \<open>Insertion\<close>

lemma latest_last:
  assumes "length self < 2 ^ 256"
  shows "latest self = (if self = [] then 0 else ckpt_value (last self))"
proof (cases "self = []")
  case True
  then show ?thesis by (simp add: latest_def ckpt_length_def)
next
  case False
  have u: "unat (of_nat (length self) :: uint256) = length self" by (rule unat_index [OF le_refl assms])
  then have z: "(of_nat (length self) :: uint256) \<noteq> 0" using False by (metis length_0_conv unat_0)
  then have "unat (of_nat (length self) - 1 :: uint256) = length self - 1" using u by (simp add: unat_pred)
  then show ?thesis using False z by (simp add: latest_def ckpt_length_def unsafeAccess_def last_conv_nth Let_def)
qed

lemma update_last: "xs \<noteq> [] \<Longrightarrow> xs[length xs - Suc 0 := y] = butlast xs @ [y]"
  by (induction xs rule: rev_induct) auto

text \<open>What an insertion does: it fails on a smaller key, replaces the value of the same key, or appends.\<close>

lemma ckpt_insert_cases:
  assumes "length self < 2 ^ 256"
  shows "ckpt_insert self key v =
    (if self = [] then Inr (0, v, [\<lparr>ckpt_key = key, ckpt_value = v\<rparr>])
     else if key < ckpt_key (last self) then Inl (RevertString ''Checkpoint: decreasing keys'')
     else Inr (ckpt_value (last self), v,
       (if ckpt_key (last self) = key then butlast self else self) @ [\<lparr>ckpt_key = key, ckpt_value = v\<rparr>]))"
proof (cases "self = []")
  case True
  then show ?thesis by (simp add: ckpt_insert_def ckpt_length_def)
next
  case False
  have u: "unat (of_nat (length self) :: uint256) = length self" by (rule unat_index [OF le_refl assms])
  then have z: "(of_nat (length self) :: uint256) \<noteq> 0" using False by (metis length_0_conv unat_0)
  then have p: "unat (of_nat (length self) - 1 :: uint256) = length self - 1" using u by (simp add: unat_pred)
  have last: "unsafeAccess self (of_nat (length self) - 1) = last self" using False p by (simp add: unsafeAccess_def last_conv_nth)
  have rec: "(c :: ('x, 'y) Checkpoint)\<lparr>ckpt_value := w\<rparr> = \<lparr>ckpt_key = ckpt_key c, ckpt_value = w\<rparr>" for c :: "('x, 'y) Checkpoint" and w
    by simp
  show ?thesis
    using False z p last
    by (auto simp: ckpt_insert_def ckpt_length_def Let_def require_def word_gt_0 rec update_last not_less)
qed

lemma increasing_snoc:
  "increasing (self @ [c]) \<longleftrightarrow> increasing self \<and> (\<forall>d \<in> set self. ckpt_key d < ckpt_key c)"
  by (auto simp: increasing_def sorted_wrt_append)

lemma increasing_last:
  assumes "increasing self" and "d \<in> set self"
  shows "ckpt_key d \<le> ckpt_key (last self)"
proof -
  have ne: "self \<noteq> []" using assms(2) by auto
  then have "increasing (butlast self @ [last self])" using assms(1) by simp
  then have "\<forall>d \<in> set (butlast self). ckpt_key d < ckpt_key (last self)" by (simp add: increasing_snoc)
  moreover have "d \<in> set (butlast self) \<or> d = last self" using assms(2) ne by (metis append_butlast_last_id rotate1.simps(2) set_ConsD set_rotate1)
  ultimately show ?thesis by (auto intro: less_imp_le)
qed

lemma increasing_butlast: "increasing self \<Longrightarrow> self \<noteq> [] \<Longrightarrow> increasing (butlast self) \<and> (\<forall>d \<in> set (butlast self). ckpt_key d < ckpt_key (last self))"
  using increasing_snoc [of "butlast self" "last self"] by simp

lemma value_at_snoc:
  "value_at (self @ [c]) key = (if ckpt_key c \<le> key then ckpt_value c else value_at self key)"
  by (simp add: value_at_def Let_def)

lemma value_at_butlast:
  assumes "self \<noteq> []" and "key < ckpt_key (last self)"
  shows "value_at (butlast self) key = value_at self key"
proof -
  have "\<not> ckpt_key (last self) \<le> key" using assms(2) by (simp add: not_le)
  then show ?thesis using value_at_snoc [of "butlast self" "last self" key] assms(1) by simp
qed

text \<open>The new list is a list whose keys are smaller, and the new checkpoint; earlier values are kept.\<close>

lemma inserted:
  assumes "increasing self" and "length self < 2 ^ 256" and "ckpt_insert self key v = Inr (old, new, self')"
  obtains us where "self' = us @ [\<lparr>ckpt_key = key, ckpt_value = v\<rparr>]" and "increasing us" and "\<forall>d \<in> set us. ckpt_key d < key"
    and "old = latest self" and "new = v" and "\<And>k. k < key \<Longrightarrow> value_at us k = value_at self k"
proof (cases "self = []")
  case True
  then have "self' = [] @ [\<lparr>ckpt_key = key, ckpt_value = v\<rparr>]" "old = latest self" "new = v"
    using assms(3) ckpt_insert_cases [OF assms(2), of key v] latest_last [OF assms(2)] by auto
  then show ?thesis using that [of "[]"] True by (simp add: increasing_def)
next
  case False
  let ?us = "if ckpt_key (last self) = key then butlast self else self"
  have le: "ckpt_key (last self) \<le> key" and r: "old = latest self" "new = v" "self' = ?us @ [\<lparr>ckpt_key = key, ckpt_value = v\<rparr>]"
    using assms(3) False by (auto simp: ckpt_insert_cases [OF assms(2)] latest_last [OF assms(2)] split: if_splits)
  show ?thesis
  proof (rule that [OF r(3) _ _ r(1,2)])
    show "increasing ?us" using increasing_butlast [OF assms(1) False] assms(1) by simp
    show "\<forall>d \<in> set ?us. ckpt_key d < key"
    proof (cases "ckpt_key (last self) = key")
      case True
      then show ?thesis using increasing_butlast [OF assms(1) False] by simp
    next
      case ne: False
      then have "ckpt_key (last self) < key" using le by simp
      then show ?thesis using ne increasing_last [OF assms(1)] by (auto intro: le_less_trans)
    qed
    show "value_at ?us k = value_at self k" if "k < key" for k
      using that value_at_butlast [OF False, of k] by simp
  qed
qed

text \<open>The checkpoints of other keys are the ones there were.\<close>

lemma inserted_others:
  assumes "length self < 2 ^ 256" and "ckpt_insert self key v = Inr (old, new, self')"
  shows "self = [] \<or> ckpt_key (last self) \<le> key"
    and "filter (\<lambda>c. ckpt_key c \<noteq> key) self' = filter (\<lambda>c. ckpt_key c \<noteq> key) self"
proof -
  have "filter (\<lambda>c. ckpt_key c \<noteq> key) (butlast self) = filter (\<lambda>c. ckpt_key c \<noteq> key) self" if "self \<noteq> []" "ckpt_key (last self) = key"
    using that by (induction self rule: rev_induct) auto
  then show "self = [] \<or> ckpt_key (last self) \<le> key" "filter (\<lambda>c. ckpt_key c \<noteq> key) self' = filter (\<lambda>c. ckpt_key c \<noteq> key) self"
    using assms(2) by (auto simp: ckpt_insert_cases [OF assms(1)] not_less split: if_splits)
qed

section \<open>An instance of the library\<close>

fun isqrt :: "nat \<Rightarrow> nat" where
  "isqrt 0 = 0"
| "isqrt (Suc n) = (let r = isqrt n in if (r + 1) * (r + 1) \<le> Suc n then r + 1 else r)"

lemma isqrt_bounds: "(isqrt n)\<^sup>2 \<le> n \<and> n < (isqrt n + 1)\<^sup>2"
proof (induction n)
  case (Suc n)
  then show ?case by (auto simp: Let_def power2_eq_square)
qed simp

definition sample_cast :: "uint256 \<Rightarrow> sol_error + 'w::len word" where
  "sample_cast x = (if unat x < 2 ^ LENGTH('w) then Inr (ucast x) else Inl (RevertString ''SafeCast''))"

definition sample_math :: oz_math where
  "sample_math =
     \<lparr>oz_average = \<lambda>a b. of_nat ((unat a + unat b) div 2), oz_sqrt = \<lambda>a. of_nat (isqrt (unat a)),
      oz_toUint32 = sample_cast, oz_toUint48 = sample_cast, oz_toUint224 = sample_cast\<rparr>"

lemma cast_sample: "cast_law sample_cast"
  by (simp add: cast_law_def sample_cast_def)

lemma sample_math_laws: "math_laws sample_math"
proof -
  have avg: "unat (of_nat ((unat a + unat b) div 2) :: uint256) = (unat a + unat b) div 2" for a b :: uint256
    using unat_less_power [of a] unat_less_power [of b] by (simp add: unat_of_nat)
  have root: "unat (of_nat (isqrt (unat a)) :: uint256) = isqrt (unat a)" for a :: uint256
  proof -
    have "isqrt (unat a) \<le> (isqrt (unat a))\<^sup>2" by (simp add: power2_eq_square)
    then have "isqrt (unat a) < 2 ^ 256" using isqrt_bounds [of "unat a"] unat_less_power [of a] by simp
    then show ?thesis by (simp add: unat_of_nat)
  qed
  show ?thesis
    unfolding math_laws_def sample_math_def using avg root isqrt_bounds by (simp add: cast_sample del: of_nat_add)
qed

section \<open>Properties\<close>

text \<open>
  (C38) The binary searches end, for every list of checkpoints, sorted or not, every key and every
  section of the list: the midpoint the library returns lies in the section.
\<close>

theorem binary_searches_end:
  assumes "math_laws M"
  shows "(\<exists>pos. upperBinaryLookup M self key low high = Some (Inr pos) \<and> (low \<le> high \<longrightarrow> low \<le> pos \<and> pos \<le> high)) \<and>
    (\<exists>pos. lowerBinaryLookup M self key low high = Some (Inr pos) \<and> (low \<le> high \<longrightarrow> low \<le> pos \<and> pos \<le> high))"
proof (induction "unat high - unat low" arbitrary: low high rule: less_induct)
  case less
  show ?case
  proof (cases "low < high")
    case False
    then show ?thesis by (subst upperBinaryLookup.simps, subst lowerBinaryLookup.simps) auto
  next
    case True
    define mid where "mid = oz_average M low high"
    have mid: "unat low \<le> unat mid" "unat mid < unat high" unfolding mid_def by (rule average_between [OF assms True])+
    note next_low = mid_plus_one [OF mid(2)]
    have IH: "unat mid - unat low < unat high - unat low" "unat high - unat (mid + 1) < unat high - unat low"
      using mid next_low(2) by linarith+
    have le: "low \<le> mid" "low \<le> mid + 1" "mid \<le> high" "mid + 1 \<le> high" using mid next_low(2) by (simp_all add: word_le_nat_alt)
    show ?thesis
      using less.hyps [OF IH(1)] less.hyps [OF IH(2)] True next_low(1) le
      by (subst upperBinaryLookup.simps, subst lowerBinaryLookup.simps) (auto simp: mid_def [symmetric] intro: order_trans)
  qed
qed

definition sample_trace :: Trace224 where
  "sample_trace = [\<lparr>ckpt_key = 3, ckpt_value = 10\<rparr>, \<lparr>ckpt_key = 5, ckpt_value = 20\<rparr>, \<lparr>ckpt_key = 9, ckpt_value = 7\<rparr>]"

theorem binary_searches_end_witness:
  "\<exists>pos. upperBinaryLookup sample_math (rev sample_trace) 4 0 3 = Some (Inr pos) \<and> pos \<le> 3"
  using binary_searches_end [OF sample_math_laws, of "rev sample_trace" 4 0 3] by auto

text \<open>
  (C39) On a list with increasing keys the three lookups return what a search of the whole list does:
  the value of the last checkpoint whose key is not greater (the plain one and the one optimised for
  recent keys alike), or that of the first whose key is not smaller; zero if there is none.
\<close>

theorem lookups_match_reference:
  fixes self :: "('k::len word, 'v::len word) Checkpoint list"
  assumes "math_laws M" and "increasing self" and "LENGTH('k) < 256"
  shows "upperLookup M self key = Inr (value_at self key) \<and> upperLookupRecent M self key = Inr (value_at self key) \<and>
    lowerLookup M self key = Inr (value_from self key)"
  using assms(1,2) increasing_length [OF assms(2,3)]
  by (intro conjI upperLookup_ok upperLookupRecent_ok lowerLookup_ok)

theorem lookups_match_reference_witness:
  "upperLookup sample_math sample_trace 6 = Inr 20 \<and> upperLookupRecent sample_math sample_trace 2 = Inr 0 \<and>
   lowerLookup sample_math sample_trace 6 = Inr 7"
  using lookups_match_reference [OF sample_math_laws, of sample_trace 6] lookups_match_reference [OF sample_math_laws, of sample_trace 2]
  by (simp add: increasing_def sample_trace_def value_at_def value_from_def)

text \<open>
  (C40) Inserting a checkpoint never rewrites history. Into a list with increasing keys, keys
  having fewer than 256 bits, an insertion is refused exactly when the key is smaller than the last one. Otherwise the keys stay
  increasing, every checkpoint of another key stays and none of another key is added, the values before the key are what they
  were, and from the key on the value is the new one; returned are the old and the new last value.
\<close>

theorem insertion_keeps_history:
  fixes self :: "('k::len word, 'v::len word) Checkpoint list"
  assumes "increasing self" and "LENGTH('k) < 256"
  shows "case ckpt_insert self key v of
      Inl e \<Rightarrow> self \<noteq> [] \<and> key < ckpt_key (last self) \<and> e = RevertString ''Checkpoint: decreasing keys''
    | Inr (old, new, self') \<Rightarrow> (self = [] \<or> ckpt_key (last self) \<le> key) \<and> increasing self' \<and>
        filter (\<lambda>c. ckpt_key c \<noteq> key) self' = filter (\<lambda>c. ckpt_key c \<noteq> key) self \<and>
        old = latest self \<and> new = v \<and> latest self' = v \<and>
        (\<forall>k. value_at self' k = (if k < key then value_at self k else v))"
proof (cases "ckpt_insert self key v")
  case (Inl e)
  then show ?thesis by (auto simp: ckpt_insert_cases [OF increasing_length [OF assms]] split: if_splits)
next
  case (Inr r)
  obtain old new self' where r: "r = (old, new, self')" by (cases r) auto
  obtain us where us: "self' = us @ [\<lparr>ckpt_key = key, ckpt_value = v\<rparr>]" "increasing us" "\<forall>d \<in> set us. ckpt_key d < key"
    "old = latest self" "new = v" "\<And>k. k < key \<Longrightarrow> value_at us k = value_at self k"
    using inserted [OF assms(1) increasing_length [OF assms]] Inr r by metis
  then have "increasing self'" by (simp add: increasing_snoc)
  moreover have "self = [] \<or> ckpt_key (last self) \<le> key" "filter (\<lambda>c. ckpt_key c \<noteq> key) self' = filter (\<lambda>c. ckpt_key c \<noteq> key) self"
    using inserted_others [OF increasing_length [OF assms]] Inr r by auto
  ultimately show ?thesis
    using us Inr r latest_last [OF increasing_length [OF _ assms(2)], of self'] by (auto simp: value_at_snoc not_le)
qed

theorem insertion_keeps_history_witness:
  "(case ckpt_insert sample_trace 12 40 of Inl e \<Rightarrow> False | Inr (old, new, self') \<Rightarrow> old = 7 \<and> value_at self' 8 = 20 \<and> value_at self' 15 = 40) \<and>
   ckpt_insert sample_trace 4 40 = Inl (RevertString ''Checkpoint: decreasing keys'')"
proof -
  have inc: "increasing sample_trace" by (simp add: increasing_def sample_trace_def)
  have "\<exists>r. ckpt_insert sample_trace 12 40 = Inr r"
    using increasing_length [OF inc] by (simp add: ckpt_insert_cases sample_trace_def)
  moreover have "value_at sample_trace 8 = 20" "latest sample_trace = 7" "ckpt_key (last sample_trace) > 4" "sample_trace \<noteq> []"
    using increasing_length [OF inc] by (simp_all add: latest_last) (simp_all add: value_at_def sample_trace_def)
  ultimately show ?thesis
    using insertion_keeps_history [OF inc, of 12 40] insertion_keeps_history [OF inc, of 4 40] by (auto split: sum.splits)
qed

end
