(* ===== verification/Votes.thy ===== *)
theory Votes
  imports Checkpoints
begin

text \<open>
  Delegation of votes, \<open>contracts/src/diamond/facets/governance/votes/VotesBase.sol\<close> with
  \<open>contracts/src/diamond/utils/Nonces.sol\<close>. The voting units of an account come from the contract
  built on it, so they are an argument; so is the recovery of the signer of a typed message, which is
  the contract library's.

  The invariant says that the votes of a delegate are the units of the accounts that chose it; it is
  kept by every operation, with the units before and after as parameters.
\<close>

section \<open>State\<close>

datatype vote_event =
    DelegateChanged account account account
  | DelegateVotesChanged account "224 word" "224 word"

record Votes =
  v_delegation :: "account \<Rightarrow> account"
  v_delegateCheckpoints :: "account \<Rightarrow> Trace224"
  v_totalCheckpoints :: Trace224
  v_nonces :: "account \<Rightarrow> uint256"
  v_log :: "vote_event list"

definition emptyVotes :: Votes where
  "emptyVotes = \<lparr>v_delegation = (\<lambda>_. 0), v_delegateCheckpoints = (\<lambda>_. []), v_totalCheckpoints = [], v_nonces = (\<lambda>_. 0), v_log = []\<rparr>"

section \<open>Nonces\<close>

definition latestNonce :: "account \<Rightarrow> Votes \<Rightarrow> uint256" where
  "latestNonce owner s = v_nonces s owner"

definition useNonce :: "account \<Rightarrow> Votes \<Rightarrow> uint256 \<times> Votes" where
  "useNonce owner s = (v_nonces s owner, s\<lparr>v_nonces := (v_nonces s)(owner := v_nonces s owner + 1)\<rparr>)"

definition useCheckedNonce :: "account \<Rightarrow> uint256 \<Rightarrow> Votes \<Rightarrow> sol_error + Votes" where
  "useCheckedNonce owner nonce s =
     (let (current, s') = useNonce owner s
      in if nonce \<noteq> current then Inl (InvalidAccountNonce owner current) else Inr s')"

section \<open>Clock\<close>

definition clock :: "oz_math \<Rightarrow> call_context \<Rightarrow> sol_error + 48 word" where
  "clock M ctx = oz_toUint48 M (block_number ctx)"

definition clockMode :: "oz_math \<Rightarrow> call_context \<Rightarrow> sol_error + string" where
  "clockMode M ctx =
     bindE (clock M ctx) (\<lambda>c.
     bindE (require (ucast c = block_number ctx) (RevertString ''Votes: broken clock mode'')) (\<lambda>_.
     Inr ''mode=blocknumber&from=default''))"

section \<open>Votes\<close>

definition getVotes :: "account \<Rightarrow> Votes \<Rightarrow> 224 word" where
  "getVotes account s = latest (v_delegateCheckpoints s account)"

definition getPastVotes :: "oz_math \<Rightarrow> call_context \<Rightarrow> account \<Rightarrow> uint256 \<Rightarrow> Votes \<Rightarrow> sol_error + 224 word" where
  "getPastVotes M ctx account timepoint s =
     bindE (clock M ctx) (\<lambda>c.
     bindE (require (timepoint < ucast c) (RevertString ''Votes: future lookup'')) (\<lambda>_.
     bindE (oz_toUint32 M timepoint) (\<lambda>key. upperLookupRecent M (v_delegateCheckpoints s account) key)))"

definition getPastTotalSupply :: "oz_math \<Rightarrow> call_context \<Rightarrow> uint256 \<Rightarrow> Votes \<Rightarrow> sol_error + 224 word" where
  "getPastTotalSupply M ctx timepoint s =
     bindE (clock M ctx) (\<lambda>c.
     bindE (require (timepoint < ucast c) (RevertString ''Votes: future lookup'')) (\<lambda>_.
     bindE (oz_toUint32 M timepoint) (\<lambda>key. upperLookupRecent M (v_totalCheckpoints s) key)))"

definition getTotalSupply :: "Votes \<Rightarrow> 224 word" where
  "getTotalSupply s = latest (v_totalCheckpoints s)"

definition delegates :: "account \<Rightarrow> Votes \<Rightarrow> account" where
  "delegates account s = v_delegation s account"

definition votes_push ::
    "oz_math \<Rightarrow> call_context \<Rightarrow> (224 word \<Rightarrow> 224 word \<Rightarrow> sol_error + 224 word) \<Rightarrow> 224 word \<Rightarrow> Trace224 \<Rightarrow>
      sol_error + 224 word \<times> 224 word \<times> Trace224" where
  "votes_push M ctx f delta store =
     bindE (clock M ctx) (\<lambda>c.
     bindE (oz_toUint32 M (ucast c)) (\<lambda>key.
     bindE (f (latest store) delta) (\<lambda>v. ckpt_insert store key v)))"

definition votes_add :: "224 word \<Rightarrow> 224 word \<Rightarrow> sol_error + 224 word" where
  "votes_add a b = checked_add a b"

definition votes_subtract :: "224 word \<Rightarrow> 224 word \<Rightarrow> sol_error + 224 word" where
  "votes_subtract a b = checked_sub a b"

text \<open>One of the two updates of \<open>_moveDelegateVotes\<close>, for a delegate that is not the zero address.\<close>

definition moveVotes ::
    "oz_math \<Rightarrow> call_context \<Rightarrow> (224 word \<Rightarrow> 224 word \<Rightarrow> sol_error + 224 word) \<Rightarrow> account \<Rightarrow> uint256 \<Rightarrow> Votes \<Rightarrow> sol_error + Votes" where
  "moveVotes M ctx f account amount s =
     (if account \<noteq> 0
      then bindE (oz_toUint224 M amount) (\<lambda>delta.
           bindE (votes_push M ctx f delta (v_delegateCheckpoints s account)) (\<lambda>(oldValue, newValue, store).
             Inr (s\<lparr>v_delegateCheckpoints := (v_delegateCheckpoints s)(account := store),
                    v_log := v_log s @ [DelegateVotesChanged account oldValue newValue]\<rparr>)))
      else Inr s)"

definition moveDelegateVotes :: "oz_math \<Rightarrow> call_context \<Rightarrow> account \<Rightarrow> account \<Rightarrow> uint256 \<Rightarrow> Votes \<Rightarrow> sol_error + Votes" where
  "moveDelegateVotes M ctx from to amount s =
     (if from \<noteq> to \<and> 0 < amount
      then bindE (moveVotes M ctx votes_subtract from amount s) (\<lambda>s. moveVotes M ctx votes_add to amount s)
      else Inr s)"

definition moveTotal ::
    "oz_math \<Rightarrow> call_context \<Rightarrow> (224 word \<Rightarrow> 224 word \<Rightarrow> sol_error + 224 word) \<Rightarrow> account \<Rightarrow> uint256 \<Rightarrow> Votes \<Rightarrow> sol_error + Votes" where
  "moveTotal M ctx f account amount s =
     (if account = 0
      then bindE (oz_toUint224 M amount) (\<lambda>delta.
           bindE (votes_push M ctx f delta (v_totalCheckpoints s)) (\<lambda>(oldValue, newValue, store).
             Inr (s\<lparr>v_totalCheckpoints := store\<rparr>)))
      else Inr s)"

definition transferVotingUnits :: "oz_math \<Rightarrow> call_context \<Rightarrow> account \<Rightarrow> account \<Rightarrow> uint256 \<Rightarrow> Votes \<Rightarrow> sol_error + Votes" where
  "transferVotingUnits M ctx from to amount s =
     bindE (moveTotal M ctx votes_add from amount s) (\<lambda>s.
     bindE (moveTotal M ctx votes_subtract to amount s) (\<lambda>s.
     moveDelegateVotes M ctx (delegates from s) (delegates to s) amount s))"

definition delegate_votes ::
    "oz_math \<Rightarrow> call_context \<Rightarrow> (account \<Rightarrow> sol_error + uint256) \<Rightarrow> account \<Rightarrow> account \<Rightarrow> Votes \<Rightarrow> sol_error + Votes" where
  "delegate_votes M ctx getVotingUnits account delegatee s =
     (let oldDelegate = delegates account s;
          s = s\<lparr>v_delegation := (v_delegation s)(account := delegatee),
                v_log := v_log s @ [DelegateChanged account oldDelegate delegatee]\<rparr>
      in bindE (getVotingUnits account) (\<lambda>units. moveDelegateVotes M ctx oldDelegate delegatee units s))"

text \<open>\<open>recover\<close> is the signer of the message with this delegate, nonce and expiry.\<close>

type_synonym 'g recovery = "account \<Rightarrow> uint256 \<Rightarrow> uint256 \<Rightarrow> 'g \<Rightarrow> sol_error + account"

definition delegateBySig ::
    "oz_math \<Rightarrow> 'g recovery \<Rightarrow> call_context \<Rightarrow> (account \<Rightarrow> sol_error + uint256) \<Rightarrow>
      account \<Rightarrow> uint256 \<Rightarrow> uint256 \<Rightarrow> 'g \<Rightarrow> Votes \<Rightarrow> sol_error + Votes" where
  "delegateBySig M recover ctx getVotingUnits delegatee nonce expiry sig s =
     bindE (require (block_timestamp ctx \<le> expiry) (RevertString ''Votes: signature expired'')) (\<lambda>_.
     bindE (recover delegatee nonce expiry sig) (\<lambda>signer.
     bindE (useCheckedNonce signer nonce s) (\<lambda>s.
     delegate_votes M ctx getVotingUnits signer delegatee s)))"

section \<open>One checkpoint\<close>

definition block_key :: "call_context \<Rightarrow> 32 word" where
  "block_key ctx = ucast (block_number ctx)"

text \<open>What a step at a key may do to a list: values before the key stay, no key after it appears.\<close>

definition keys_upto :: "32 word \<Rightarrow> Trace224 \<Rightarrow> bool" where
  "keys_upto m store = (\<forall>c \<in> set store. ckpt_key c \<le> m)"

definition history_step :: "32 word \<Rightarrow> Trace224 \<Rightarrow> Trace224 \<Rightarrow> bool" where
  "history_step key store store' =
     (increasing store' \<and> (\<forall>k < key. value_at store' k = value_at store k) \<and>
      (\<forall>m \<ge> key. keys_upto m store \<longrightarrow> keys_upto m store'))"

lemma history_step_refl: "increasing store \<Longrightarrow> history_step key store store"
  by (simp add: history_step_def)

lemma history_step_trans: "history_step key a b \<Longrightarrow> history_step key b c \<Longrightarrow> history_step key a c"
  by (simp add: history_step_def)

lemma unat_ucast_mod: "unat (ucast x :: 'b::len word) = unat x mod 2 ^ LENGTH('b)"
  by (simp only: unsigned_ucast_eq take_bit_eq_mod)

lemma cast_Inr:
  fixes f :: "uint256 \<Rightarrow> sol_error + 'w::len word"
  shows "cast_law f \<Longrightarrow> f x = Inr y \<Longrightarrow> unat x < 2 ^ LENGTH('w) \<and> y = ucast x"
  unfolding cast_law_def by (metis Inl_Inr_False Inr_inject)

lemma clock_key:
  assumes "math_laws M" and "clock M ctx = Inr c" and "oz_toUint32 M (ucast c) = Inr key"
  shows "key = block_key ctx" and "unat (block_key ctx) = unat (block_number ctx)"
proof -
  have "cast_law (oz_toUint48 M)" and "cast_law (oz_toUint32 M)" using assms(1) by (simp_all add: math_laws_def)
  then have b: "unat (block_number ctx) < 2 ^ 48" "c = ucast (block_number ctx)"
    and c: "unat (ucast c :: uint256) < 2 ^ 32" "key = ucast (ucast c :: uint256)"
    using cast_Inr [of "oz_toUint48 M"] cast_Inr [of "oz_toUint32 M"] assms(2,3) by (auto simp: clock_def)
  have u: "unat (ucast c :: uint256) = unat (block_number ctx)"
    using b by (simp add: unat_ucast_mod)
  then have "(ucast c :: uint256) = block_number ctx" by (simp add: word_unat_eq_iff)
  then show "key = block_key ctx" using c(2) by (simp add: block_key_def)
  show "unat (block_key ctx) = unat (block_number ctx)" using u c(1) by (simp add: block_key_def unat_ucast_mod)
qed

lemma increasing_length_32: "increasing store \<Longrightarrow> length store < 2 ^ 256" for store :: Trace224
  by (rule increasing_length) simp_all

lemma push_ok:
  assumes M: "math_laws M" and store: "increasing store" and push: "votes_push M ctx f delta store = Inr (old, new, store')"
  shows "f (latest store) delta = Inr (latest store')" and "history_step (block_key ctx) store store'"
    and "value_at store' k = (if k < block_key ctx then value_at store k else latest store')"
    and "keys_upto (block_key ctx) store'"
proof -
  note len = increasing_length_32 [OF store]
  obtain c key v where c: "clock M ctx = Inr c" "oz_toUint32 M (ucast c) = Inr key" and v: "f (latest store) delta = Inr v"
    and ins: "ckpt_insert store key v = Inr (old, new, store')"
    using push by (auto simp: votes_push_def bindE_Inr)
  have key: "key = block_key ctx" by (rule clock_key(1) [OF M c])
  obtain us where us: "store' = us @ [\<lparr>ckpt_key = key, ckpt_value = v\<rparr>]" "increasing us" "\<forall>d \<in> set us. ckpt_key d < key"
    "\<And>k. k < key \<Longrightarrow> value_at us k = value_at store k"
    using inserted [OF store len ins] by metis
  have inc: "increasing store'" using us by (simp add: increasing_snoc)
  then have latest: "latest store' = v" using latest_last [OF increasing_length_32 [OF inc]] us(1) by simp
  then show "f (latest store) delta = Inr (latest store')" using v by simp
  show at: "value_at store' k = (if k < block_key ctx then value_at store k else latest store')" for k
    using us(1,4) key latest by (cases "k < block_key ctx") (auto simp: value_at_snoc not_le dest: leD)
  show upto: "keys_upto (block_key ctx) store'" using us(1,3) key by (auto simp: keys_upto_def)
  show "history_step (block_key ctx) store store'"
    using inc at upto by (auto simp: history_step_def keys_upto_def intro: order_trans)
qed

section \<open>Votes and units\<close>

text \<open>\<open>units a\<close> is the number of voting units account \<open>a\<close> holds.\<close>

definition delegated :: "Votes \<Rightarrow> (account \<Rightarrow> nat) \<Rightarrow> account \<Rightarrow> nat" where
  "delegated s units d = (\<Sum>a | v_delegation s a = d. units a)"

definition votes_inv :: "(account \<Rightarrow> nat) \<Rightarrow> Votes \<Rightarrow> bool" where
  "votes_inv units s =
     ((\<forall>d. increasing (v_delegateCheckpoints s d)) \<and> increasing (v_totalCheckpoints s) \<and>
      (\<forall>d. d \<noteq> 0 \<longrightarrow> unat (getVotes d s) = delegated s units d) \<and>
      unat (getTotalSupply s) = (\<Sum>a \<in> UNIV. units a) \<and> v_delegation s 0 = 0 \<and> units 0 = 0)"

definition votes_history :: "32 word \<Rightarrow> Votes \<Rightarrow> Votes \<Rightarrow> bool" where
  "votes_history key s s' =
     ((\<forall>d. history_step key (v_delegateCheckpoints s d) (v_delegateCheckpoints s' d)) \<and>
      history_step key (v_totalCheckpoints s) (v_totalCheckpoints s'))"

definition increasing_votes :: "Votes \<Rightarrow> bool" where
  "increasing_votes s = ((\<forall>d. increasing (v_delegateCheckpoints s d)) \<and> increasing (v_totalCheckpoints s))"

lemma votes_history_refl: "increasing_votes s \<Longrightarrow> votes_history key s s"
  by (simp add: votes_history_def increasing_votes_def history_step_refl)

lemma votes_history_trans: "votes_history key s s' \<Longrightarrow> votes_history key s' s'' \<Longrightarrow> votes_history key s s''"
  unfolding votes_history_def by (meson history_step_trans)

lemma votes_history_increasing: "votes_history key s s' \<Longrightarrow> increasing_votes s'"
  by (simp add: votes_history_def increasing_votes_def history_step_def)

lemma add_Inr: "votes_add a b = Inr c \<Longrightarrow> unat c = unat a + unat b"
  by (auto simp: votes_add_def checked_add_nat unat_add_fits split: if_splits)

lemma subtract_Inr: "votes_subtract a b = Inr c \<Longrightarrow> unat b \<le> unat a \<and> unat c = unat a - unat b"
  by (auto simp: votes_subtract_def checked_sub_nat word_le_nat_alt unat_sub split: if_splits)

lemma unat_224: "math_laws M \<Longrightarrow> oz_toUint224 M x = Inr y \<Longrightarrow> unat y = unat x"
  using cast_Inr [of "oz_toUint224 M" x y] by (auto simp: math_laws_def unat_ucast_mod)

lemma moveVotes_ok:
  assumes M: "math_laws M" and s: "increasing_votes s" and move: "moveVotes M ctx f account amount s = Inr s'"
  shows "votes_history (block_key ctx) s s'" and "v_delegation s' = v_delegation s" and "v_totalCheckpoints s' = v_totalCheckpoints s"
    and "v_nonces s' = v_nonces s" and "d \<noteq> account \<Longrightarrow> getVotes d s' = getVotes d s"
    and "account \<noteq> 0 \<Longrightarrow> \<exists>delta. unat delta = unat amount \<and> f (getVotes account s) delta = Inr (getVotes account s')"
proof -
  have "votes_history (block_key ctx) s s' \<and> v_delegation s' = v_delegation s \<and> v_totalCheckpoints s' = v_totalCheckpoints s \<and>
      v_nonces s' = v_nonces s \<and> (d \<noteq> account \<longrightarrow> getVotes d s' = getVotes d s) \<and>
      (account \<noteq> 0 \<longrightarrow> (\<exists>delta. unat delta = unat amount \<and> f (getVotes account s) delta = Inr (getVotes account s')))"
  proof (cases "account = 0")
    case True
    then show ?thesis using move votes_history_refl [OF s] by (simp add: moveVotes_def)
  next
    case False
    then obtain delta old new store where d: "oz_toUint224 M amount = Inr delta"
      and push: "votes_push M ctx f delta (v_delegateCheckpoints s account) = Inr (old, new, store)"
      and s': "s' = s\<lparr>v_delegateCheckpoints := (v_delegateCheckpoints s)(account := store),
          v_log := v_log s @ [DelegateVotesChanged account old new]\<rparr>"
      using move by (auto simp: moveVotes_def bindE_Inr)
    have inc: "increasing (v_delegateCheckpoints s account)" using s by (simp add: increasing_votes_def)
    note p = push_ok [OF M inc push]
    show ?thesis
      using p(1,2) unat_224 [OF M d] s
      by (auto simp: s' getVotes_def votes_history_def increasing_votes_def history_step_refl)
  qed
  then show "votes_history (block_key ctx) s s'" and "v_delegation s' = v_delegation s" and "v_totalCheckpoints s' = v_totalCheckpoints s"
    and "v_nonces s' = v_nonces s" and "d \<noteq> account \<Longrightarrow> getVotes d s' = getVotes d s"
    and "account \<noteq> 0 \<Longrightarrow> \<exists>delta. unat delta = unat amount \<and> f (getVotes account s) delta = Inr (getVotes account s')"
    by auto
qed

lemma moveTotal_ok:
  assumes M: "math_laws M" and s: "increasing_votes s" and move: "moveTotal M ctx f account amount s = Inr s'"
  shows "votes_history (block_key ctx) s s'" and "v_delegation s' = v_delegation s"
    and "v_delegateCheckpoints s' = v_delegateCheckpoints s" and "v_nonces s' = v_nonces s"
    and "account \<noteq> 0 \<Longrightarrow> s' = s"
    and "account = 0 \<Longrightarrow> \<exists>delta. unat delta = unat amount \<and> f (getTotalSupply s) delta = Inr (getTotalSupply s')"
proof -
  have "votes_history (block_key ctx) s s' \<and> v_delegation s' = v_delegation s \<and>
      v_delegateCheckpoints s' = v_delegateCheckpoints s \<and> v_nonces s' = v_nonces s \<and> (account \<noteq> 0 \<longrightarrow> s' = s) \<and>
      (account = 0 \<longrightarrow> (\<exists>delta. unat delta = unat amount \<and> f (getTotalSupply s) delta = Inr (getTotalSupply s')))"
  proof (cases "account = 0")
    case False
    then show ?thesis using move votes_history_refl [OF s] by (simp add: moveTotal_def)
  next
    case True
    then obtain delta old new store where d: "oz_toUint224 M amount = Inr delta"
      and push: "votes_push M ctx f delta (v_totalCheckpoints s) = Inr (old, new, store)"
      and s': "s' = s\<lparr>v_totalCheckpoints := store\<rparr>"
      using move by (auto simp: moveTotal_def bindE_Inr)
    have inc: "increasing (v_totalCheckpoints s)" using s by (simp add: increasing_votes_def)
    show ?thesis
      using True push_ok(1,2) [OF M inc push] unat_224 [OF M d] s
      by (auto simp: s' getTotalSupply_def votes_history_def increasing_votes_def history_step_refl)
  qed
  then show "votes_history (block_key ctx) s s'" and "v_delegation s' = v_delegation s"
    and "v_delegateCheckpoints s' = v_delegateCheckpoints s" and "v_nonces s' = v_nonces s"
    and "account \<noteq> 0 \<Longrightarrow> s' = s"
    and "account = 0 \<Longrightarrow> \<exists>delta. unat delta = unat amount \<and> f (getTotalSupply s) delta = Inr (getTotalSupply s')"
    by auto
qed

lemma moveDelegateVotes_ok:
  assumes M: "math_laws M" and s: "increasing_votes s" and move: "moveDelegateVotes M ctx from to amount s = Inr s'"
  shows "votes_history (block_key ctx) s s'" and "v_delegation s' = v_delegation s" and "v_totalCheckpoints s' = v_totalCheckpoints s"
    and "v_nonces s' = v_nonces s"
    and "d \<noteq> 0 \<Longrightarrow> unat (getVotes d s') + (if d = from then unat amount else 0) = unat (getVotes d s) + (if d = to then unat amount else 0)"
proof -
  have "votes_history (block_key ctx) s s' \<and> v_delegation s' = v_delegation s \<and> v_totalCheckpoints s' = v_totalCheckpoints s \<and>
      v_nonces s' = v_nonces s \<and> (d \<noteq> 0 \<longrightarrow>
        unat (getVotes d s') + (if d = from then unat amount else 0) = unat (getVotes d s) + (if d = to then unat amount else 0))"
  proof (cases "from \<noteq> to \<and> 0 < amount")
    case False
    then show ?thesis using move votes_history_refl [OF s] by (auto simp: moveDelegateVotes_def word_gt_0)
  next
    case True
    then obtain s1 where s1: "moveVotes M ctx votes_subtract from amount s = Inr s1" and s2: "moveVotes M ctx votes_add to amount s1 = Inr s'"
      using move by (auto simp: moveDelegateVotes_def bindE_Inr)
    note m1 = moveVotes_ok [OF M s s1]
    note m2 = moveVotes_ok [OF M votes_history_increasing [OF m1(1)] s2]
    have "unat (getVotes d s') + (if d = from then unat amount else 0) = unat (getVotes d s) + (if d = to then unat amount else 0)"
      if d: "d \<noteq> 0"
    proof -
      consider "d = from" | "d = to" | "d \<noteq> from" "d \<noteq> to" by auto
      then show ?thesis
      proof cases
        case 1
        then obtain delta where "unat delta = unat amount" "votes_subtract (getVotes d s) delta = Inr (getVotes d s1)"
          using m1(6) d by auto
        then show ?thesis using 1 True m2(5) [of d] subtract_Inr [of "getVotes d s" delta] by auto
      next
        case 2
        then obtain delta where "unat delta = unat amount" "votes_add (getVotes d s1) delta = Inr (getVotes d s')"
          using m2(6) d by auto
        then show ?thesis using 2 True m1(5) [of d] add_Inr [of "getVotes d s1" delta] by auto
      next
        case 3
        then show ?thesis using m1(5) [of d] m2(5) [of d] by simp
      qed
    qed
    then show ?thesis using m1(1-4) m2(1-4) votes_history_trans by auto
  qed
  then show "votes_history (block_key ctx) s s'" and "v_delegation s' = v_delegation s" and "v_totalCheckpoints s' = v_totalCheckpoints s"
    and "v_nonces s' = v_nonces s"
    and "d \<noteq> 0 \<Longrightarrow> unat (getVotes d s') + (if d = from then unat amount else 0) = unat (getVotes d s) + (if d = to then unat amount else 0)"
    by auto
qed

text \<open>The units after a transfer; the zero address has none.\<close>

definition transfer_units :: "account \<Rightarrow> account \<Rightarrow> nat \<Rightarrow> (account \<Rightarrow> nat) \<Rightarrow> account \<Rightarrow> nat" where
  "transfer_units from to n units =
     (let units = (if from = 0 then units else units(from := units from - n))
      in if to = 0 then units else units(to := units to + n))"

lemma sum_updated:
  fixes f :: "'a \<Rightarrow> nat"
  assumes "finite A"
  shows "(\<Sum>a \<in> A. (f(x := v)) a) + (if x \<in> A then f x else 0) = (\<Sum>a \<in> A. f a) + (if x \<in> A then v else 0)"
proof (cases "x \<in> A")
  case True
  then have "A = insert x (A - {x})" by auto
  then have "(\<Sum>a \<in> A. g a) = g x + (\<Sum>a \<in> A - {x}. g a)" for g :: "'a \<Rightarrow> nat"
    using assms by (metis Diff_iff finite_Diff insertI1 sum.insert)
  moreover have "(\<Sum>a \<in> A - {x}. (f(x := v)) a) = (\<Sum>a \<in> A - {x}. f a)" by (intro sum.cong) auto
  ultimately show ?thesis using True by simp
next
  case False
  then have "(\<Sum>a \<in> A. (f(x := v)) a) = (\<Sum>a \<in> A. f a)" by (intro sum.cong) auto
  then show ?thesis using False by simp
qed

lemma sum_transferred:
  assumes "from \<noteq> 0 \<Longrightarrow> n \<le> units from"
  shows "(\<Sum>a \<in> A. transfer_units from to n units a) + (if from \<noteq> 0 \<and> from \<in> A then n else 0) =
    (\<Sum>a \<in> A. units a) + (if to \<noteq> 0 \<and> to \<in> A then n else 0)"
proof -
  define u where "u = (if from = 0 then units else units(from := units from - n))"
  have "(\<Sum>a \<in> A. u a) + (if from \<noteq> 0 \<and> from \<in> A then n else 0) = (\<Sum>a \<in> A. units a)"
    using sum_updated [OF finite, of units "from" "units from - n" A] assms by (cases "from = 0"; cases "from \<in> A") (auto simp: u_def)
  moreover have "(\<Sum>a \<in> A. transfer_units from to n units a) = (\<Sum>a \<in> A. u a) + (if to \<noteq> 0 \<and> to \<in> A then n else 0)"
    using sum_updated [OF finite, of u to "u to + n" A] by (cases "to \<in> A") (auto simp: transfer_units_def u_def [symmetric] Let_def)
  ultimately show ?thesis by simp
qed

lemma votes_inv_increasing: "votes_inv units s \<Longrightarrow> increasing_votes s"
  by (simp add: votes_inv_def increasing_votes_def)

lemma transferVotingUnits_ok:
  assumes M: "math_laws M" and s: "votes_inv units s" and n: "from \<noteq> 0 \<Longrightarrow> unat amount \<le> units from"
    and "transferVotingUnits M ctx from to amount s = Inr s'"
  shows "votes_inv (transfer_units from to (unat amount) units) s'" (is "votes_inv ?units s'")
    and "votes_history (block_key ctx) s s'" and "v_delegation s' = v_delegation s" and "v_nonces s' = v_nonces s"
proof -
  obtain s1 s2 where s1: "moveTotal M ctx votes_add from amount s = Inr s1" and s2: "moveTotal M ctx votes_subtract to amount s1 = Inr s2"
    and s3: "moveDelegateVotes M ctx (delegates from s2) (delegates to s2) amount s2 = Inr s'"
    using assms(4) by (auto simp: transferVotingUnits_def bindE_Inr)
  note inc = votes_inv_increasing [OF s]
  note m1 = moveTotal_ok [OF M inc s1]
  note m2 = moveTotal_ok [OF M votes_history_increasing [OF m1(1)] s2]
  note m3 = moveDelegateVotes_ok [OF M votes_history_increasing [OF m2(1)] s3]
  show hist: "votes_history (block_key ctx) s s'" using m1(1) m2(1) m3(1) votes_history_trans by blast
  show deleg: "v_delegation s' = v_delegation s" and "v_nonces s' = v_nonces s" using m1 m2 m3 by simp_all
  have z: "v_delegation s 0 = 0" "units 0 = 0" using s by (simp_all add: votes_inv_def)
  have votes: "unat (getVotes d s') = delegated s' ?units d" if "d \<noteq> 0" for d
  proof -
    have "getVotes d s2 = getVotes d s" using m1(3) m2(3) by (simp add: getVotes_def)
    moreover have "unat (getVotes d s) = delegated s units d" using s that by (simp add: votes_inv_def)
    ultimately have "unat (getVotes d s') + (if d = v_delegation s from then unat amount else 0) =
        delegated s units d + (if d = v_delegation s to then unat amount else 0)"
      using m3(5) [OF that] m1(2) m2(2) by (simp add: delegates_def)
    moreover have "delegated s' ?units d + (if d = v_delegation s from then unat amount else 0) =
        delegated s units d + (if d = v_delegation s to then unat amount else 0)"
      using sum_transferred [of "from" "unat amount" units to "{a. v_delegation s a = d}"] n z(1) that
      by (auto simp: delegated_def deleg split: if_splits)
    ultimately show ?thesis by linarith
  qed
  have all: "(\<Sum>a \<in> UNIV. ?units a) + (if from \<noteq> 0 then unat amount else 0) = (\<Sum>a \<in> UNIV. units a) + (if to \<noteq> 0 then unat amount else 0)"
    using sum_transferred [of "from" "unat amount" units to UNIV] n by simp
  have t0: "unat (getTotalSupply s) = (\<Sum>a \<in> UNIV. units a)" using s by (simp add: votes_inv_def)
  have t1: "unat (getTotalSupply s1) = unat (getTotalSupply s) + (if from = 0 then unat amount else 0)"
    using m1(5,6) add_Inr by (cases "from = 0") auto
  have t2: "unat (getTotalSupply s2) + (if to = 0 then unat amount else 0) = unat (getTotalSupply s1)"
    using m2(5,6) subtract_Inr [of "getTotalSupply s1"] by (cases "to = 0") force+
  have "getTotalSupply s' = getTotalSupply s2" using m3(3) by (simp add: getTotalSupply_def)
  then have "unat (getTotalSupply s') = (\<Sum>a \<in> UNIV. ?units a)" using all t0 t1 t2 by (auto split: if_splits)
  moreover have "?units 0 = 0" using z by (simp add: transfer_units_def)
  ultimately show "votes_inv ?units s'"
    using votes deleg z votes_history_increasing [OF hist] by (simp add: votes_inv_def increasing_votes_def)
qed

lemma delegate_votes_ok:
  assumes M: "math_laws M" and s: "votes_inv units s" and "account \<noteq> 0"
    and u: "\<And>n. getVotingUnits account = Inr n \<Longrightarrow> unat n = units account"
    and "delegate_votes M ctx getVotingUnits account delegatee s = Inr s'"
  shows "votes_inv units s'" and "votes_history (block_key ctx) s s'"
    and "v_delegation s' = (v_delegation s)(account := delegatee)" and "v_nonces s' = v_nonces s"
proof -
  let ?old = "v_delegation s account"
  obtain n s1 where n: "getVotingUnits account = Inr n"
    and s1: "s1 = s\<lparr>v_delegation := (v_delegation s)(account := delegatee), v_log := v_log s @ [DelegateChanged account ?old delegatee]\<rparr>"
    and move: "moveDelegateVotes M ctx ?old delegatee n s1 = Inr s'"
    using assms(5) by (auto simp: delegate_votes_def delegates_def bindE_Inr Let_def)
  have inc: "increasing_votes s1" using votes_inv_increasing [OF s] by (simp add: s1 increasing_votes_def)
  note m = moveDelegateVotes_ok [OF M inc move]
  show hist: "votes_history (block_key ctx) s s'" using m(1) by (simp add: s1 votes_history_def)
  show deleg: "v_delegation s' = (v_delegation s)(account := delegatee)" and "v_nonces s' = v_nonces s"
    using m(2,4) by (simp_all add: s1)
  have votes: "unat (getVotes d s') = delegated s' units d" if "d \<noteq> 0" for d
  proof -
    let ?A = "{a. v_delegation s a = d} - {account}"
    have split: "(\<Sum>a | f a = d. units a) = (\<Sum>a | f a = d \<and> a \<noteq> account. units a) + (if f account = d then units account else 0)"
      for f :: "account \<Rightarrow> account"
    proof (cases "f account = d")
      case True
      then have "{a. f a = d} = insert account {a. f a = d \<and> a \<noteq> account}" by auto
      then show ?thesis using True by simp
    next
      case False
      then have "{a. f a = d} = {a. f a = d \<and> a \<noteq> account}" by auto
      then show ?thesis using False by simp
    qed
    have "{a. v_delegation s' a = d \<and> a \<noteq> account} = {a. v_delegation s a = d \<and> a \<noteq> account}" by (auto simp: deleg)
    then have "delegated s' units d + (if d = ?old then units account else 0) = delegated s units d + (if d = delegatee then units account else 0)"
      using split [of "v_delegation s"] split [of "v_delegation s'"] by (auto simp: delegated_def deleg)
    moreover have "unat (getVotes d s) = delegated s units d" using s that by (simp add: votes_inv_def)
    ultimately show ?thesis using m(5) [OF that] u [OF n] by (simp add: s1 getVotes_def split: if_splits)
  qed
  have "getTotalSupply s' = getTotalSupply s" using m(3) by (simp add: s1 getTotalSupply_def)
  then show "votes_inv units s'"
    using votes deleg s assms(3) votes_history_increasing [OF hist] by (simp add: votes_inv_def increasing_votes_def)
qed

lemma useCheckedNonce_ok:
  "useCheckedNonce owner nonce s = Inr s' \<Longrightarrow>
     nonce = v_nonces s owner \<and> s' = s\<lparr>v_nonces := (v_nonces s)(owner := v_nonces s owner + 1)\<rparr>"
  by (auto simp: useCheckedNonce_def useNonce_def split: if_splits)

lemma votes_inv_nonces [simp]: "votes_inv units (s\<lparr>v_nonces := f\<rparr>) = votes_inv units s"
  by (simp add: votes_inv_def getVotes_def getTotalSupply_def delegated_def)

lemma votes_history_nonces [simp]: "votes_history key (s\<lparr>v_nonces := f\<rparr>) s' = votes_history key s s'"
  by (simp add: votes_history_def)

lemma emptyVotes_inv: "votes_inv (\<lambda>_. 0) emptyVotes"
  by (simp add: votes_inv_def emptyVotes_def increasing_def getVotes_def getTotalSupply_def latest_def ckpt_length_def delegated_def)

end
