(* ===== verification/SpaceOwner.thy ===== *)
theory SpaceOwner
  imports Ledger Votes
begin

text \<open>
  The contract that owns the spaces, \<open>contracts/src/spaces/facets/owner\<close>: one token per space, with
  votes that follow the tokens and a guardian that keeps them from being moved
  (\<open>contracts/src/spaces/facets/guardian\<close>). It composes the token, the votes and the guardian: its
  state extends the token's, and its hooks are those the token calls. Definitions, the invariant of the
  composition, and properties of all sequences of calls.
\<close>

section \<open>State\<close>

record Space =
  sp_name :: bytes
  sp_uri :: bytes
  sp_tokenId :: uint256
  sp_createdAt :: uint256

datatype space_event =
    GuardianUpdated account bool uint256 uint256
  | SpaceOwner__SetFactory account
  | SpaceOwner__UpdateSpace account
  | OwnershipTransferred account account

record SpaceOwner = ERC721A +
  so_votes :: Votes
  so_cooldownByAddress :: "account \<Rightarrow> uint256"
  so_defaultCooldown :: uint256
  so_factory :: account
  so_spaceByAddress :: "account \<Rightarrow> Space"
  so_spaceByTokenId :: "uint256 \<Rightarrow> account"
  so_owner :: account
  so_log :: "space_event list"

definition emptySpace :: Space where
  "emptySpace = \<lparr>sp_name = [], sp_uri = [], sp_tokenId = 0, sp_createdAt = 0\<rparr>"

section \<open>Checks\<close>

definition checkLength :: "bytes \<Rightarrow> nat \<Rightarrow> sol_error + unit" where
  "checkLength name least = require (least \<le> length name) Validator__InvalidStringLength"

definition checkAddress :: "account \<Rightarrow> sol_error + unit" where
  "checkAddress addr = require (addr \<noteq> 0) Validator__InvalidAddress"

definition onlyOwner :: "call_context \<Rightarrow> SpaceOwner \<Rightarrow> sol_error + unit" where
  "onlyOwner ctx s = require (msg_sender ctx = so_owner s) (Ownable__NotOwner (msg_sender ctx))"

definition onlyFactory :: "call_context \<Rightarrow> SpaceOwner \<Rightarrow> sol_error + unit" where
  "onlyFactory ctx s = require (msg_sender ctx = so_factory s) SpaceOwner__OnlyFactoryAllowed"

definition onlyEOA :: "call_context \<Rightarrow> sol_error + unit" where
  "onlyEOA ctx = require (code_length ctx (msg_sender ctx) = 0) NotExternalAccount"

section \<open>Guardian\<close>

definition enableGuardian :: "call_context \<Rightarrow> SpaceOwner \<Rightarrow> sol_error + SpaceOwner" where
  "enableGuardian ctx s =
     (let guardian = msg_sender ctx
      in bindE (onlyEOA ctx) (\<lambda>_.
         bindE (require (so_cooldownByAddress s guardian \<noteq> 0) AlreadyEnabled) (\<lambda>_.
         Inr (s\<lparr>so_cooldownByAddress := (so_cooldownByAddress s)(guardian := 0),
                so_log := so_log s @ [GuardianUpdated guardian True 0 (block_timestamp ctx)]\<rparr>))))"

definition disableGuardian :: "call_context \<Rightarrow> SpaceOwner \<Rightarrow> sol_error + SpaceOwner" where
  "disableGuardian ctx s =
     (let guardian = msg_sender ctx
      in bindE (onlyEOA ctx) (\<lambda>_.
         bindE (require (so_cooldownByAddress s guardian = 0) AlreadyDisabled) (\<lambda>_.
         bindE (checked_add (block_timestamp ctx) (so_defaultCooldown s)) (\<lambda>cooldown.
         Inr (s\<lparr>so_cooldownByAddress := (so_cooldownByAddress s)(guardian := cooldown),
                so_log := so_log s @ [GuardianUpdated guardian False cooldown (block_timestamp ctx)]\<rparr>)))))"

definition guardianCooldown :: "account \<Rightarrow> SpaceOwner \<Rightarrow> uint256" where
  "guardianCooldown guardian s = so_cooldownByAddress s guardian"

definition guardianEnabled :: "call_context \<Rightarrow> account \<Rightarrow> SpaceOwner \<Rightarrow> bool" where
  "guardianEnabled ctx guardian s =
     (code_length ctx guardian = 0 \<and>
      (so_cooldownByAddress s guardian = 0 \<or> block_timestamp ctx < so_cooldownByAddress s guardian))"

section \<open>Hooks of the token\<close>

definition so_beforeTokenTransfers :: "call_context \<Rightarrow> account \<Rightarrow> account \<Rightarrow> uint256 \<Rightarrow> uint256 \<Rightarrow> SpaceOwner \<Rightarrow> sol_error + SpaceOwner" where
  "so_beforeTokenTransfers ctx from to startToken quantity s =
     (if from \<noteq> 0 \<and> guardianEnabled ctx from s then Inl GuardianEnabled else Inr s)"

definition so_afterTokenTransfers :: "oz_math \<Rightarrow> call_context \<Rightarrow> account \<Rightarrow> account \<Rightarrow> uint256 \<Rightarrow> uint256 \<Rightarrow> SpaceOwner \<Rightarrow> sol_error + SpaceOwner" where
  "so_afterTokenTransfers M ctx from to firstTokenId batchSize s =
     bindE (transferVotingUnits M ctx from to batchSize (so_votes s)) (\<lambda>v. Inr (s\<lparr>so_votes := v\<rparr>))"

definition space_hooks :: "oz_math \<Rightarrow> SpaceOwner token_hooks" where
  "space_hooks M = \<lparr>beforeTokenTransfers = so_beforeTokenTransfers, afterTokenTransfers = so_afterTokenTransfers M\<rparr>"

definition getVotingUnits :: "SpaceOwner \<Rightarrow> account \<Rightarrow> sol_error + uint256" where
  "getVotingUnits s account = balanceOf account s"

section \<open>Calls\<close>

definition setFactory :: "call_context \<Rightarrow> account \<Rightarrow> SpaceOwner \<Rightarrow> sol_error + SpaceOwner" where
  "setFactory ctx factory s =
     bindE (onlyOwner ctx s) (\<lambda>_.
     bindE (checkAddress factory) (\<lambda>_.
     Inr (s\<lparr>so_factory := factory, so_log := so_log s @ [SpaceOwner__SetFactory factory]\<rparr>)))"

definition transferOwnership :: "call_context \<Rightarrow> account \<Rightarrow> SpaceOwner \<Rightarrow> sol_error + SpaceOwner" where
  "transferOwnership ctx newOwner s =
     bindE (onlyOwner ctx s) (\<lambda>_.
     bindE (require (newOwner \<noteq> 0) Ownable__ZeroAddress) (\<lambda>_.
     Inr (s\<lparr>so_owner := newOwner, so_log := so_log s @ [OwnershipTransferred (so_owner s) newOwner]\<rparr>)))"

definition registerSpace :: "call_context \<Rightarrow> bytes \<Rightarrow> bytes \<Rightarrow> uint256 \<Rightarrow> account \<Rightarrow> SpaceOwner \<Rightarrow> sol_error + SpaceOwner" where
  "registerSpace ctx name uri tokenId space s =
     bindE (checkLength name 2) (\<lambda>_.
     bindE (checkLength uri 0) (\<lambda>_.
     bindE (checkAddress space) (\<lambda>_.
     Inr (s\<lparr>so_spaceByTokenId := (so_spaceByTokenId s)(tokenId := space),
            so_spaceByAddress := (so_spaceByAddress s)(space :=
              \<lparr>sp_name = name, sp_uri = uri, sp_tokenId = tokenId, sp_createdAt = block_timestamp ctx\<rparr>)\<rparr>))))"

definition mintSpace :: "oz_math \<Rightarrow> call_context \<Rightarrow> bytes \<Rightarrow> bytes \<Rightarrow> account \<Rightarrow> SpaceOwner \<Rightarrow> sol_error + SpaceOwner" where
  "mintSpace M ctx name uri space s =
     bindE (onlyFactory ctx s) (\<lambda>_.
     bindE (registerSpace ctx name uri (nextTokenId s) space s) (\<lambda>s.
     mint (space_hooks M) ctx (msg_sender ctx) 1 s))"

definition getSpaceInfo :: "account \<Rightarrow> SpaceOwner \<Rightarrow> Space" where
  "getSpaceInfo space s = so_spaceByAddress s space"

definition onlySpaceOwner :: "call_context \<Rightarrow> account \<Rightarrow> SpaceOwner \<Rightarrow> sol_error + unit" where
  "onlySpaceOwner ctx space s =
     bindE (ownerOf (sp_tokenId (getSpaceInfo space s)) s) (\<lambda>owner.
     require (owner = msg_sender ctx) SpaceOwner__OnlySpaceOwnerAllowed)"

definition updateSpaceInfo :: "call_context \<Rightarrow> account \<Rightarrow> bytes \<Rightarrow> bytes \<Rightarrow> SpaceOwner \<Rightarrow> sol_error + SpaceOwner" where
  "updateSpaceInfo ctx space name uri s =
     bindE (onlySpaceOwner ctx space s) (\<lambda>_.
     bindE (checkLength name 2) (\<lambda>_.
     bindE (checkLength uri 1) (\<lambda>_.
     Inr (s\<lparr>so_spaceByAddress := (so_spaceByAddress s)(space := (so_spaceByAddress s space)\<lparr>sp_name := name, sp_uri := uri\<rparr>),
            so_log := so_log s @ [SpaceOwner__UpdateSpace space]\<rparr>))))"

definition so_approve :: "call_context \<Rightarrow> account \<Rightarrow> uint256 \<Rightarrow> SpaceOwner \<Rightarrow> sol_error + SpaceOwner" where
  "so_approve ctx to tokenId s =
     (if to \<noteq> 0 \<and> guardianEnabled ctx (msg_sender ctx) s then Inl GuardianEnabled else approve ctx to tokenId s)"

definition so_setApprovalForAll :: "call_context \<Rightarrow> account \<Rightarrow> bool \<Rightarrow> SpaceOwner \<Rightarrow> sol_error + SpaceOwner" where
  "so_setApprovalForAll ctx operator approved s =
     (if approved \<and> guardianEnabled ctx (msg_sender ctx) s then Inl GuardianEnabled
      else setApprovalForAll ctx operator approved s)"

definition so_delegate :: "oz_math \<Rightarrow> call_context \<Rightarrow> account \<Rightarrow> SpaceOwner \<Rightarrow> sol_error + SpaceOwner" where
  "so_delegate M ctx delegatee s =
     bindE (delegate_votes M ctx (getVotingUnits s) (msg_sender ctx) delegatee (so_votes s)) (\<lambda>v. Inr (s\<lparr>so_votes := v\<rparr>))"

definition so_delegateBySig ::
    "oz_math \<Rightarrow> 'g recovery \<Rightarrow> call_context \<Rightarrow> account \<Rightarrow> uint256 \<Rightarrow> uint256 \<Rightarrow> 'g \<Rightarrow> SpaceOwner \<Rightarrow> sol_error + SpaceOwner" where
  "so_delegateBySig M recover ctx delegatee nonce expiry sig s =
     bindE (delegateBySig M recover ctx (getVotingUnits s) delegatee nonce expiry sig (so_votes s)) (\<lambda>v. Inr (s\<lparr>so_votes := v\<rparr>))"

text \<open>The metadata of a token; the two encoders are library functions.\<close>

definition ascii :: "string \<Rightarrow> bytes" where
  "ascii str = map of_char str"

definition so_render :: "(bytes \<Rightarrow> bytes) \<Rightarrow> (uint256 \<Rightarrow> bytes) \<Rightarrow> uint256 \<Rightarrow> SpaceOwner \<Rightarrow> bytes" where
  \<open>so_render base64 toText tokenId s =
     (let space = so_spaceByTokenId s tokenId
      in if space = 0 then []
         else (let info = so_spaceByAddress s space
               in ascii ''data:application/json;base64,'' @
                  base64 (ascii ''{"name":"'' @ sp_name info @ ascii ''","image":"'' @ sp_uri info @
                    ascii ''","attributes":[{"trait_type":"Created","display_type": "date", "value":'' @
                    toText (sp_createdAt info) @ ascii ''}]}'')))\<close>

definition so_tokenURI :: "(bytes \<Rightarrow> bytes) \<Rightarrow> (uint256 \<Rightarrow> bytes) \<Rightarrow> uint256 \<Rightarrow> SpaceOwner \<Rightarrow> sol_error + bytes" where
  "so_tokenURI base64 toText tokenId s =
     (if \<not> token_exists tokenId s then Inl URIQueryForNonexistentToken else Inr (so_render base64 toText tokenId s))"

text \<open>
  A call, with its context and its arguments. A safe transfer has what the receiving contract answers to
  \<open>onERC721Received\<close>; calls that contract makes before it answers are not part of it.
\<close>

datatype 'g SpaceCall =
    SO_mintSpace bytes bytes account
  | SO_transferFrom account account uint256
  | SO_safeTransferFrom account account uint256 bytes receiver_answer
  | SO_approve account uint256
  | SO_setApprovalForAll account bool
  | SO_updateSpaceInfo account bytes bytes
  | SO_setFactory account
  | SO_transferOwnership account
  | SO_delegate account
  | SO_delegateBySig account uint256 uint256 'g
  | SO_enableGuardian
  | SO_disableGuardian

fun spaceStep :: "oz_math \<Rightarrow> 'g recovery \<Rightarrow> call_context \<times> 'g SpaceCall \<Rightarrow> SpaceOwner \<Rightarrow> sol_error + SpaceOwner" where
  "spaceStep M recover (ctx, SO_mintSpace name uri space) s = mintSpace M ctx name uri space s"
| "spaceStep M recover (ctx, SO_transferFrom from to tokenId) s = transferFrom (space_hooks M) ctx from to tokenId s"
| "spaceStep M recover (ctx, SO_safeTransferFrom from to tokenId data answer) s =
     safeTransferFrom (space_hooks M) (\<lambda>_ _ _ _ _ s. (answer, s)) ctx from to tokenId data s"
| "spaceStep M recover (ctx, SO_approve to tokenId) s = so_approve ctx to tokenId s"
| "spaceStep M recover (ctx, SO_setApprovalForAll operator approved) s = so_setApprovalForAll ctx operator approved s"
| "spaceStep M recover (ctx, SO_updateSpaceInfo space name uri) s = updateSpaceInfo ctx space name uri s"
| "spaceStep M recover (ctx, SO_setFactory factory) s = setFactory ctx factory s"
| "spaceStep M recover (ctx, SO_transferOwnership newOwner) s = transferOwnership ctx newOwner s"
| "spaceStep M recover (ctx, SO_delegate delegatee) s = so_delegate M ctx delegatee s"
| "spaceStep M recover (ctx, SO_delegateBySig delegatee nonce expiry sig) s = so_delegateBySig M recover ctx delegatee nonce expiry sig s"
| "spaceStep M recover (ctx, SO_enableGuardian) s = enableGuardian ctx s"
| "spaceStep M recover (ctx, SO_disableGuardian) s = disableGuardian ctx s"

text \<open>A safe transfer that succeeds is a transfer.\<close>

lemma safe_transfer_step:
  "spaceStep M recover (ctx, SO_safeTransferFrom from to t data answer) s = Inr s' \<Longrightarrow> transferFrom (space_hooks M) ctx from to t s = Inr s'"
  by (auto simp: safeTransferFrom_def checkContractOnERC721Received_def bindE_Inr split: if_splits receiver_answer.splits)

section \<open>Invariant of the composition\<close>

text \<open>The token part implements a ledger, and the votes are those of its holders.\<close>

definition space_inv :: "TokenLedger \<Rightarrow> SpaceOwner \<Rightarrow> bool" where
  "space_inv L s = (implements s L \<and> votes_inv (held L) (so_votes s))"

text \<open>
  Calls come from accounts, time stamps fit 64 bits, and fewer than \<open>2\<^sup>6\<^sup>4\<close> spaces are minted.
\<close>

fun legal_call :: "call_context \<times> 'g SpaceCall \<Rightarrow> SpaceOwner \<Rightarrow> bool" where
  "legal_call (ctx, call) s =
     (msg_sender ctx \<noteq> 0 \<and> block_timestamp ctx < 2 ^ 64 \<and> unat (currentIndex s) + 1 < 2 ^ 64)"

definition signers_ok :: "'g recovery \<Rightarrow> bool" where
  "signers_ok recover = (\<forall>d n e sig a. recover d n e sig = Inr a \<longrightarrow> a \<noteq> 0)"

lemma other_token_part [simp]:
  "token_part (s\<lparr>so_votes := v\<rparr>) = token_part s" "token_part (s\<lparr>so_cooldownByAddress := c\<rparr>) = token_part s"
  "token_part (s\<lparr>so_factory := f\<rparr>) = token_part s" "token_part (s\<lparr>so_spaceByAddress := m\<rparr>) = token_part s"
  "token_part (s\<lparr>so_spaceByTokenId := m'\<rparr>) = token_part s" "token_part (s\<lparr>so_owner := a\<rparr>) = token_part s"
  "token_part (s\<lparr>so_log := l\<rparr>) = token_part s"
  by (simp_all add: ERC721A.ERC721A.truncate_def)

interpretation space_token: token_contract "space_hooks M" for M
  by unfold_locales (auto simp: space_hooks_def so_beforeTokenTransfers_def so_afterTokenTransfers_def bindE_Inr split: if_splits)

lemma implements_part: "token_part s' = token_part s \<Longrightarrow> implements s' L = implements s L"
  by (metis token_part_helpers(6))

text \<open>The hooks move the votes with the tokens.\<close>

lemma mint_votes:
  "mint (space_hooks M) ctx to q s = Inr s' \<Longrightarrow> transferVotingUnits M ctx 0 to q (so_votes s) = Inr (so_votes s')"
  by (auto simp: mint_def bindE_Inr Let_def space_hooks_def so_beforeTokenTransfers_def so_afterTokenTransfers_def)

lemma setOwnership_votes [simp]: "so_votes (setOwnership t w prev s) = so_votes s" "so_votes (clearApproval t s) = so_votes s"
  by (simp_all add: setOwnership_def clearApproval_def Let_def)

lemma transferFrom_votes:
  "transferFrom (space_hooks M) ctx from to t s = Inr s' \<Longrightarrow>
     transferVotingUnits M ctx from to 1 (so_votes s) = Inr (so_votes s') \<and> (from = 0 \<or> \<not> guardianEnabled ctx from s)"
  by (auto simp: transferFrom_def bindE_Inr Let_def space_hooks_def so_beforeTokenTransfers_def so_afterTokenTransfers_def split: if_splits)

lemma held_mint:
  "ledgerStep (Mint ctx to q) L = Inr L' \<Longrightarrow> held L' = transfer_units 0 to (unat q) (held L)"
  by (auto simp: held_def transfer_units_def count_replicate fun_eq_iff split: if_splits)

lemma held_transfer:
  assumes s: "implements s L" and step: "ledgerStep (Transfer ctx from to t) L = Inr L'"
  shows "held L' = transfer_units from to 1 (held L)" and "1 \<le> held L from" and "from \<noteq> 0"
proof -
  have h: "holder L t = Some from" "to \<noteq> 0" and L': "owners L' = (owners L)[unat t := Some to]"
    using step by (auto split: option.splits if_splits)
  show "from \<noteq> 0" by (rule holder_word(3) [OF s h(1)])
  have pos: "0 < held L from"
    using holder_word(5,6) [OF s h(1)] by (auto simp: held_def count_list_0_iff in_set_conv_nth intro!: gr0I)
  then show "1 \<le> held L from" by simp
  show "held L' = transfer_units from to 1 (held L)"
  proof
    fix b
    have "held L' b + (if b = from then 1 else 0) = held L b + (if to = b then 1 else 0)"
      using held_moved(1) [OF s h(1) L', of b] by (simp cong: if_cong)
    then show "held L' b = transfer_units from to 1 (held L) b"
      using \<open>from \<noteq> 0\<close> h(2) pos by (auto simp: transfer_units_def Let_def split: if_splits)
  qed
qed

lemma legal_limits:
  assumes "space_inv L s" and "legal_call (ctx, call) s"
  shows "within_limits (Mint ctx to 1) L" and "within_limits (Transfer ctx from to t) L"
  using assms implements_facts(1,2) [of s L] few_tokens_limits [of L ctx] by (simp_all add: space_inv_def)

lemma mint_inv:
  assumes M: "math_laws M" and s: "space_inv L s" and legal: "legal_call (ctx, call) s"
    and step: "mint (space_hooks M) ctx to 1 s = Inr s'"
  obtains L' where "space_inv L' s'" and "ledgerStep (Mint ctx to 1) L = Inr L'"
    and "votes_history (block_key ctx) (so_votes s) (so_votes s')" and "v_nonces (so_votes s') = v_nonces (so_votes s)"
    and "v_delegation (so_votes s') = v_delegation (so_votes s)"
proof -
  obtain L' where L': "ledgerStep (Mint ctx to 1) L = Inr L'" and imp: "implements s' L'"
    using space_token.call_implements [of s L "Mint ctx to 1" M s'] s legal_limits(1) [OF s legal] step by (auto simp: space_inv_def)
  note v = transferVotingUnits_ok [OF M _ _ mint_votes [OF step], of "held L"]
  have "votes_inv (held L') (so_votes s')"
    using v(1) s held_mint [OF L'] by (simp add: space_inv_def)
  then show ?thesis using that L' imp v(2-4) s by (simp add: space_inv_def)
qed

lemma transfer_inv:
  assumes M: "math_laws M" and s: "space_inv L s" and legal: "legal_call (ctx, call) s"
    and step: "transferFrom (space_hooks M) ctx from to t s = Inr s'"
  obtains L' where "space_inv L' s'" and "ledgerStep (Transfer ctx from to t) L = Inr L'"
    and "votes_history (block_key ctx) (so_votes s) (so_votes s')" and "v_nonces (so_votes s') = v_nonces (so_votes s)"
    and "v_delegation (so_votes s') = v_delegation (so_votes s)"
proof -
  obtain L' where L': "ledgerStep (Transfer ctx from to t) L = Inr L'" and imp: "implements s' L'"
    using space_token.call_implements [of s L "Transfer ctx from to t" M s'] s legal_limits(2) [OF s legal] step
    by (auto simp: space_inv_def)
  have impl: "implements s L" using s by (simp add: space_inv_def)
  have v0: "transferVotingUnits M ctx from to 1 (so_votes s) = Inr (so_votes s')" using transferFrom_votes [OF step] by simp
  have units: "unat (1 :: uint256) \<le> held L from" using held_transfer(2) [OF impl L'] by simp
  have vi: "votes_inv (held L) (so_votes s)" using s by (simp add: space_inv_def)
  note v = transferVotingUnits_ok [OF M vi _ v0, simplified units, simplified]
  have "votes_inv (held L') (so_votes s')"
    using v(1) held_transfer(1) [OF impl L'] by simp
  then show ?thesis using that L' imp v(2-4) s by (simp add: space_inv_def)
qed

text \<open>What a call that succeeds changes of the token and of the votes.\<close>

lemma same_parts_inv:
  assumes "space_inv L s" and "token_part s' = token_part s" and "so_votes s' = so_votes s"
  shows "space_inv L s'" and "votes_history key (so_votes s) (so_votes s')"
  using assms votes_history_refl [OF votes_inv_increasing, of "held L" "so_votes s"] implements_part [OF assms(2)]
  by (simp_all add: space_inv_def)

lemma approval_inv:
  assumes s: "space_inv L s" and call: "call = Approve ctx to t True \<or> call = SetApprovalForAll ctx operator approved"
    and step: "tokenStep (space_hooks M) call s = Inr s'"
  obtains L' where "space_inv L' s'" and "owners L' = owners L" and "so_votes s' = so_votes s"
proof -
  have "limits L" using s implements_facts(1) [of s L] by (simp add: space_inv_def ledger_ok_def)
  then have "within_limits call L"
    using call by (auto simp: within_limits_def limits_def held_def split: option.splits)
  then obtain L' where L': "ledgerStep call L = Inr L'" and imp: "implements s' L'"
    using space_token.call_implements [of s L call M s'] s step by (auto simp: space_inv_def)
  have owners: "owners L' = owners L" using L' call by (auto split: option.splits if_splits)
  have votes: "so_votes s' = so_votes s"
    using step call by (auto simp: approveChecked_def setApprovalForAll_def bindE_Inr Let_def split: if_splits)
  have "held L' = held L" using owners by (simp add: held_def fun_eq_iff)
  then have "space_inv L' s'" using imp votes s by (simp add: space_inv_def)
  then show ?thesis using that owners votes by blast
qed

lemma units_of_account:
  assumes "space_inv L s" and "getVotingUnits s account = Inr n"
  shows "unat n = held L account"
proof -
  have imp: "implements s L" using assms(1) by (simp add: space_inv_def)
  then have "n = of_nat (held L account)" using assms(2) balanceOf_ok [OF imp, of account] by (simp add: getVotingUnits_def split: if_splits)
  then show ?thesis using held_less [OF implements_facts(1) [OF imp], of account] by (simp add: unat_of_nat)
qed

lemma delegate_inv:
  assumes M: "math_laws M" and s: "space_inv L s" and "account \<noteq> 0"
    and step: "delegate_votes M ctx (getVotingUnits s) account delegatee (so_votes s\<lparr>v_nonces := f\<rparr>) = Inr v"
  shows "space_inv L (s\<lparr>so_votes := v\<rparr>)" and "votes_history (block_key ctx) (so_votes s) v" and "v_nonces v = f"
proof -
  have vi: "votes_inv (held L) (so_votes s\<lparr>v_nonces := f\<rparr>)" using s by (simp add: space_inv_def)
  note d = delegate_votes_ok [OF M vi assms(3) units_of_account [OF s] step]
  show "space_inv L (s\<lparr>so_votes := v\<rparr>)" and "votes_history (block_key ctx) (so_votes s) v" and "v_nonces v = f"
    using d(1,2,4) s implements_part [of "s\<lparr>so_votes := v\<rparr>" s L] by (simp_all add: space_inv_def)
qed

lemma spaceStep_inv:
  assumes M: "math_laws M" and r: "signers_ok recover" and s: "space_inv L s" and legal: "legal_call (ctx, call) s"
    and step: "spaceStep M recover (ctx, call) s = Inr s'"
  shows "(\<exists>L'. space_inv L' s') \<and> votes_history (block_key ctx) (so_votes s) (so_votes s')"
proof (cases call)
  case (SO_mintSpace name uri space)
  then obtain s1 where s1: "registerSpace ctx name uri (nextTokenId s) space s = Inr s1"
    and mint: "mint (space_hooks M) ctx (msg_sender ctx) 1 s1 = Inr s'"
    using step by (auto simp: mintSpace_def bindE_Inr)
  have parts: "token_part s1 = token_part s" "so_votes s1 = so_votes s" using s1 by (auto simp: registerSpace_def bindE_Inr)
  then have "currentIndex s1 = currentIndex s" by (metis token_part_fields(1))
  then have "legal_call (ctx, call) s1" using legal by simp
  then show ?thesis using mint_inv [OF M same_parts_inv(1) [OF s parts] _ mint] parts by metis
next
  case (SO_transferFrom "from" to t)
  then show ?thesis using transfer_inv [OF M s legal, of "from" to t s'] step by auto
next
  case (SO_safeTransferFrom "from" to t data answer)
  then have "transferFrom (space_hooks M) ctx from to t s = Inr s'" using step safe_transfer_step by blast
  then show ?thesis using transfer_inv [OF M s legal] by blast
next
  case (SO_approve to t)
  then have "tokenStep (space_hooks M) (Approve ctx to t True) s = Inr s'"
    using step by (auto simp: so_approve_def approve_def split: if_splits)
  then obtain L' where "space_inv L' s'" "so_votes s' = so_votes s" using approval_inv [OF s] by metis
  then show ?thesis using same_parts_inv(2) [of L' s' s'] by auto
next
  case (SO_setApprovalForAll operator approved)
  then have "tokenStep (space_hooks M) (SetApprovalForAll ctx operator approved) s = Inr s'"
    using step by (auto simp: so_setApprovalForAll_def split: if_splits)
  then obtain L' where "space_inv L' s'" "so_votes s' = so_votes s" using approval_inv [OF s] by metis
  then show ?thesis using same_parts_inv(2) [of L' s' s'] by auto
next
  case (SO_updateSpaceInfo space name uri)
  then show ?thesis using step same_parts_inv [OF s, of s'] by (auto simp: updateSpaceInfo_def bindE_Inr)
next
  case (SO_setFactory factory)
  then show ?thesis using step same_parts_inv [OF s, of s'] by (auto simp: setFactory_def bindE_Inr)
next
  case (SO_transferOwnership newOwner)
  then show ?thesis using step same_parts_inv [OF s, of s'] by (auto simp: transferOwnership_def bindE_Inr)
next
  case (SO_delegate delegatee)
  then obtain v where "delegate_votes M ctx (getVotingUnits s) (msg_sender ctx) delegatee (so_votes s) = Inr v" "s' = s\<lparr>so_votes := v\<rparr>"
    using step by (auto simp: so_delegate_def bindE_Inr)
  then show ?thesis using delegate_inv [OF M s, of "msg_sender ctx" ctx delegatee "v_nonces (so_votes s)" v] legal by auto
next
  case (SO_delegateBySig delegatee nonce expiry sig)
  then obtain signer f v where signer: "recover delegatee nonce expiry sig = Inr signer"
    and v: "delegate_votes M ctx (getVotingUnits s) signer delegatee (so_votes s\<lparr>v_nonces := f\<rparr>) = Inr v" and s': "s' = s\<lparr>so_votes := v\<rparr>"
    using step by (auto simp: so_delegateBySig_def delegateBySig_def bindE_Inr dest!: useCheckedNonce_ok)
  have "signer \<noteq> 0" using r signer by (auto simp: signers_ok_def)
  then show ?thesis using delegate_inv [OF M s _ v] s' by auto
next
  case SO_enableGuardian
  then show ?thesis using step same_parts_inv [OF s, of s'] by (auto simp: enableGuardian_def bindE_Inr Let_def)
next
  case SO_disableGuardian
  then show ?thesis using step same_parts_inv [OF s, of s'] by (auto simp: disableGuardian_def bindE_Inr Let_def)
qed

lemma space_contract:
  assumes "math_laws M" and "signers_ok recover"
  shows "contract_inv (spaceStep M recover) (\<lambda>s. \<exists>L. space_inv L s) legal_call"
proof
  fix s s' :: SpaceOwner and i
  assume "\<exists>L. space_inv L s" and "legal_call i s" and "spaceStep M recover i s = Inr s'"
  then show "\<exists>L. space_inv L s'" using spaceStep_inv [OF assms] by (cases i) blast
qed

section \<open>Guarded tokens\<close>

text \<open>
  A token of an account whose guardian is on, and stays on until time \<open>T\<close> plus the cooldown, even if it
  is disabled at \<open>T\<close> or later.
\<close>

definition guarded_inv :: "account \<Rightarrow> uint256 \<Rightarrow> uint256 \<Rightarrow> uint256 \<Rightarrow> SpaceOwner \<Rightarrow> bool" where
  "guarded_inv a t T cooldown s =
     (so_defaultCooldown s = cooldown \<and>
      (so_cooldownByAddress s a = 0 \<or> unat T + unat cooldown \<le> unat (so_cooldownByAddress s a)) \<and>
      (\<exists>L. implements s L \<and> holder L t = Some a))"

fun window_call :: "account \<Rightarrow> uint256 \<Rightarrow> uint256 \<Rightarrow> call_context \<times> 'g SpaceCall \<Rightarrow> SpaceOwner \<Rightarrow> bool" where
  "window_call a T cooldown (ctx, call) s =
     (legal_call (ctx, call) s \<and> code_length ctx a = 0 \<and>
      T \<le> block_timestamp ctx \<and> unat (block_timestamp ctx) < unat T + unat cooldown)"

lemma guarded_enabled:
  "guarded_inv a t T cooldown s \<Longrightarrow> window_call a T cooldown (ctx, call) s \<Longrightarrow> guardianEnabled ctx a s"
  by (auto simp: guarded_inv_def guardianEnabled_def word_less_nat_alt)

lemma guarded_same:
  assumes "guarded_inv a t T cooldown s" and "so_defaultCooldown s' = so_defaultCooldown s"
    and "so_cooldownByAddress s' = so_cooldownByAddress s" and "token_part s' = token_part s"
  shows "guarded_inv a t T cooldown s'"
  using assms implements_part [OF assms(4)] by (simp add: guarded_inv_def)

fun moves :: "TokenCall \<Rightarrow> uint256 \<Rightarrow> bool" where
  "moves (Transfer ctx from to t') t = (t' = t)"
| "moves (Burn ctx t' approvalCheck) t = (t' = t)"
| "moves call t = False"

lemma holder_kept:
  assumes "ledgerStep call L = Inr L'" and "holder L t = Some a" and "\<not> moves call t"
  shows "holder L' t = Some a"
proof -
  have t: "unat t < length (owners L)" "owners L ! unat t = Some a" using assms(2) by (auto simp: holder_def split: if_splits)
  have other: "unat t' \<noteq> unat t" if "t' \<noteq> t" for t' using that by (simp add: word_unat_eq_iff)
  show ?thesis
    using assms(1,3) t
    by (cases call) (auto simp: holder_def nth_append nth_list_update other split: option.splits if_splits)
qed

lemma guarded_token_call:
  assumes s: "guarded_inv a t T cooldown s" and "within_limits call L" and imp: "implements s L" and h: "holder L t = Some a"
    and step: "tokenStep (space_hooks M) call s = Inr s'" and kept: "\<not> moves call t"
    and so: "so_defaultCooldown s' = so_defaultCooldown s" "so_cooldownByAddress s' = so_cooldownByAddress s"
  shows "guarded_inv a t T cooldown s'"
proof -
  obtain L' where "ledgerStep call L = Inr L'" and "implements s' L'"
    using space_token.call_implements [OF imp assms(2) step] .
  then show ?thesis using holder_kept [OF _ h kept] s so by (auto simp: guarded_inv_def)
qed

abbreviation cooldowns :: "SpaceOwner \<Rightarrow> uint256 \<times> (account \<Rightarrow> uint256)" where
  "cooldowns s \<equiv> (so_defaultCooldown s, so_cooldownByAddress s)"

lemma setOwnership_cooldowns [simp]:
  "so_defaultCooldown (setOwnership t w prev s) = so_defaultCooldown s" "so_cooldownByAddress (setOwnership t w prev s) = so_cooldownByAddress s"
  "so_defaultCooldown (clearApproval t s) = so_defaultCooldown s" "so_cooldownByAddress (clearApproval t s) = so_cooldownByAddress s"
  by (simp_all add: setOwnership_def clearApproval_def Let_def)

lemma hooks_cooldowns:
  "beforeTokenTransfers (space_hooks M) ctx from to t n s = Inr s' \<Longrightarrow> cooldowns s' = cooldowns s"
  "afterTokenTransfers (space_hooks M) ctx from to t n s = Inr s' \<Longrightarrow> cooldowns s' = cooldowns s"
  by (auto simp: space_hooks_def so_beforeTokenTransfers_def so_afterTokenTransfers_def bindE_Inr split: if_splits)

lemma mint_cooldowns: "mint (space_hooks M) ctx to q s = Inr s' \<Longrightarrow> cooldowns s' = cooldowns s"
  by (auto simp: mint_def bindE_Inr Let_def dest!: hooks_cooldowns)

lemma transferFrom_cooldowns: "transferFrom (space_hooks M) ctx from to t s = Inr s' \<Longrightarrow> cooldowns s' = cooldowns s"
  by (auto simp: transferFrom_def bindE_Inr Let_def dest!: hooks_cooldowns)

lemma approval_cooldowns:
  "approveChecked ctx to t approvalCheck s = Inr s' \<Longrightarrow> cooldowns s' = cooldowns s"
  "setApprovalForAll ctx operator approved s = Inr s' \<Longrightarrow> cooldowns s' = cooldowns s"
  by (auto simp: approveChecked_def setApprovalForAll_def bindE_Inr Let_def split: if_splits)

lemmas cooldowns_kept = mint_cooldowns transferFrom_cooldowns approval_cooldowns

lemma spaceStep_defaultCooldown:
  assumes "spaceStep M recover (ctx, call) s = Inr s'"
  shows "so_defaultCooldown s' = so_defaultCooldown s"
proof (cases call)
  case (SO_mintSpace name uri space)
  then obtain s1 where "registerSpace ctx name uri (nextTokenId s) space s = Inr s1" "mint (space_hooks M) ctx (msg_sender ctx) 1 s1 = Inr s'"
    using assms by (auto simp: mintSpace_def bindE_Inr)
  then show ?thesis using mint_cooldowns [of M ctx "msg_sender ctx" 1 s1 s'] by (auto simp: registerSpace_def bindE_Inr)
next
  case (SO_safeTransferFrom "from" to t data answer)
  then show ?thesis using assms transferFrom_cooldowns [OF safe_transfer_step] by simp
qed (use assms in \<open>auto simp: so_delegate_def so_delegateBySig_def updateSpaceInfo_def setFactory_def transferOwnership_def enableGuardian_def
      disableGuardian_def so_approve_def so_setApprovalForAll_def approve_def bindE_Inr Let_def dest!: transferFrom_cooldowns approval_cooldowns
      split: if_splits\<close>)

lemma calls_defaultCooldown: "so_defaultCooldown (calls (spaceStep M recover) inputs s) = so_defaultCooldown s"
proof (induction inputs arbitrary: s)
  case (Cons i inputs)
  have "so_defaultCooldown (committed s (spaceStep M recover i s)) = so_defaultCooldown s"
    using spaceStep_defaultCooldown [of M recover "fst i" "snd i" s] by (cases "spaceStep M recover i s") auto
  then show ?case using Cons by simp
qed simp

lemma guarded_limits:
  assumes "implements s L" and "window_call a T cooldown (ctx, call) s"
  shows "within_limits (Mint ctx to 1) L" and "within_limits (Transfer ctx from to t) L"
    and "within_limits (Approve ctx to t approvalCheck) L" and "within_limits (SetApprovalForAll ctx operator approved) L"
  using assms implements_facts(1,2) [OF assms(1)] few_tokens_limits [of L ctx]
  by (auto simp: within_limits_def ledger_ok_def limits_def held_def split: option.splits)

lemma guarded_transfer:
  assumes s: "guarded_inv a t T cooldown s" and legal: "window_call a T cooldown (ctx, call) s"
    and tr: "transferFrom (space_hooks M) ctx from to t' s = Inr s'"
  shows "guarded_inv a t T cooldown s'"
proof -
  obtain L where imp: "implements s L" and h: "holder L t = Some a" using s by (auto simp: guarded_inv_def)
  note lim = guarded_limits(2) [OF imp legal, of "from" to t']
  have "t' \<noteq> t"
  proof
    assume "t' = t"
    moreover obtain L' where "ledgerStep (Transfer ctx from to t') L = Inr L'"
      using space_token.call_implements [OF imp lim, of M s'] tr by auto
    ultimately have "from = a" using h by (auto split: if_splits)
    moreover have "a \<noteq> 0" by (rule holder_word(3) [OF imp h])
    ultimately show False using transferFrom_votes [OF tr] guarded_enabled [OF s legal] by simp
  qed
  then show ?thesis using guarded_token_call [OF s lim imp h, of M s'] cooldowns_kept(2) [OF tr] tr by simp
qed

lemma guarded_step:
  assumes s: "guarded_inv a t T cooldown s" and legal: "window_call a T cooldown (ctx, call) s"
    and step: "spaceStep M recover (ctx, call) s = Inr s'"
  shows "guarded_inv a t T cooldown s'"
proof -
  obtain L where imp: "implements s L" and h: "holder L t = Some a" using s by (auto simp: guarded_inv_def)
  note lim = guarded_limits [OF imp legal]
  show ?thesis
  proof (cases call)
    case (SO_mintSpace name uri space)
    then obtain s1 where s1: "registerSpace ctx name uri (nextTokenId s) space s = Inr s1"
      and mint: "mint (space_hooks M) ctx (msg_sender ctx) 1 s1 = Inr s'"
      using step by (auto simp: mintSpace_def bindE_Inr)
    have parts: "token_part s1 = token_part s" "so_defaultCooldown s1 = so_defaultCooldown s" "so_cooldownByAddress s1 = so_cooldownByAddress s"
      using s1 by (auto simp: registerSpace_def bindE_Inr)
    have "implements s1 L" using imp implements_part [OF parts(1)] by simp
    then show ?thesis
      using guarded_token_call [OF guarded_same [OF s parts(2,3,1)], of "Mint ctx (msg_sender ctx) 1" L M s'] cooldowns_kept(1) [OF mint] mint lim(1) h
      by simp
  next
    case (SO_transferFrom "from" to t')
    then show ?thesis using guarded_transfer [OF s legal] step by simp
  next
    case (SO_safeTransferFrom "from" to t' data answer)
    then show ?thesis using guarded_transfer [OF s legal] step safe_transfer_step by blast
  next
    case (SO_approve to t')
    then have "approveChecked ctx to t' True s = Inr s'" using step by (auto simp: so_approve_def approve_def split: if_splits)
    then show ?thesis
      using guarded_token_call [OF s, of "Approve ctx to t' True" L M s'] cooldowns_kept(3) [of ctx to t' True s s'] lim(3) imp h by simp
  next
    case (SO_setApprovalForAll operator approved)
    then have "setApprovalForAll ctx operator approved s = Inr s'" using step by (auto simp: so_setApprovalForAll_def split: if_splits)
    then show ?thesis
      using guarded_token_call [OF s, of "SetApprovalForAll ctx operator approved" L M s'] cooldowns_kept(4) [of ctx operator approved s s'] lim(4) imp h by simp
  next
    case (SO_updateSpaceInfo space name uri)
    then show ?thesis using step guarded_same [OF s, of s'] by (auto simp: updateSpaceInfo_def bindE_Inr)
  next
    case (SO_setFactory factory)
    then show ?thesis using step guarded_same [OF s, of s'] by (auto simp: setFactory_def bindE_Inr)
  next
    case (SO_transferOwnership newOwner)
    then show ?thesis using step guarded_same [OF s, of s'] by (auto simp: transferOwnership_def bindE_Inr)
  next
    case (SO_delegate delegatee)
    then show ?thesis using step guarded_same [OF s, of s'] by (auto simp: so_delegate_def bindE_Inr)
  next
    case (SO_delegateBySig delegatee nonce expiry sig)
    then show ?thesis using step guarded_same [OF s, of s'] by (auto simp: so_delegateBySig_def bindE_Inr)
  next
    case SO_enableGuardian
    then have "s' = s\<lparr>so_cooldownByAddress := (so_cooldownByAddress s)(msg_sender ctx := 0),
        so_log := so_log s @ [GuardianUpdated (msg_sender ctx) True 0 (block_timestamp ctx)]\<rparr>"
      using step by (auto simp: enableGuardian_def bindE_Inr Let_def)
    then show ?thesis using s imp h implements_part [of s' s] by (auto simp: guarded_inv_def)
  next
    case SO_disableGuardian
    then obtain c where c: "checked_add (block_timestamp ctx) cooldown = Inr c"
      and s': "s' = s\<lparr>so_cooldownByAddress := (so_cooldownByAddress s)(msg_sender ctx := c),
        so_log := so_log s @ [GuardianUpdated (msg_sender ctx) False c (block_timestamp ctx)]\<rparr>"
      using step s by (auto simp: disableGuardian_def bindE_Inr Let_def guarded_inv_def)
    have "unat c = unat (block_timestamp ctx) + unat cooldown"
      using c by (auto simp: checked_add_nat unat_add_fits split: if_splits)
    then have "unat T + unat cooldown \<le> unat c" using legal by (simp add: word_le_nat_alt)
    then show ?thesis using s imp h implements_part [of s' s] by (auto simp: guarded_inv_def s')
  qed
qed

interpretation guarded: contract_inv "spaceStep M recover" "guarded_inv a t T cooldown" "window_call a T cooldown"
  for M recover a t T cooldown
proof
  fix s s' :: SpaceOwner and i
  assume "guarded_inv a t T cooldown s" and "window_call a T cooldown i s" and "spaceStep M recover i s = Inr s'"
  then show "guarded_inv a t T cooldown s'" using guarded_step by (cases i) blast
qed

section \<open>Nonces\<close>

lemma moveDelegateVotes_nonces: "moveDelegateVotes M ctx from to amount s = Inr s' \<Longrightarrow> v_nonces s' = v_nonces s"
  by (auto simp: moveDelegateVotes_def moveVotes_def bindE_Inr split: if_splits)

lemma delegate_votes_nonces: "delegate_votes M ctx units account delegatee s = Inr s' \<Longrightarrow> v_nonces s' = v_nonces s"
  by (auto simp: delegate_votes_def bindE_Inr Let_def dest!: moveDelegateVotes_nonces)

lemma transferVotingUnits_nonces: "transferVotingUnits M ctx from to amount s = Inr s' \<Longrightarrow> v_nonces s' = v_nonces s"
  by (auto simp: transferVotingUnits_def moveTotal_def bindE_Inr dest!: moveDelegateVotes_nonces split: if_splits)

lemma approval_votes:
  "so_approve ctx to t s = Inr s' \<Longrightarrow> so_votes s' = so_votes s"
  "so_setApprovalForAll ctx operator approved s = Inr s' \<Longrightarrow> so_votes s' = so_votes s"
  by (auto simp: so_approve_def so_setApprovalForAll_def approve_def approveChecked_def setApprovalForAll_def bindE_Inr Let_def split: if_splits)

text \<open>A call raises a nonce by one or leaves it.\<close>

lemma spaceStep_nonces:
  assumes "spaceStep M recover (ctx, call) s = Inr s'"
  shows "v_nonces (so_votes s') a = v_nonces (so_votes s) a \<or> v_nonces (so_votes s') a = v_nonces (so_votes s) a + 1"
proof (cases call)
  case (SO_mintSpace name uri space)
  then obtain s1 where "registerSpace ctx name uri (nextTokenId s) space s = Inr s1" "mint (space_hooks M) ctx (msg_sender ctx) 1 s1 = Inr s'"
    using assms by (auto simp: mintSpace_def bindE_Inr)
  then have "so_votes s1 = so_votes s" "v_nonces (so_votes s') = v_nonces (so_votes s1)"
    using transferVotingUnits_nonces [OF mint_votes] by (auto simp: registerSpace_def bindE_Inr)
  then show ?thesis by simp
next
  case (SO_transferFrom "from" to t)
  then have "transferVotingUnits M ctx from to 1 (so_votes s) = Inr (so_votes s')" using assms transferFrom_votes by simp
  then show ?thesis using transferVotingUnits_nonces by metis
next
  case (SO_safeTransferFrom "from" to t data answer)
  then have "transferVotingUnits M ctx from to 1 (so_votes s) = Inr (so_votes s')" using assms transferFrom_votes safe_transfer_step by blast
  then show ?thesis using transferVotingUnits_nonces by metis
next
  case (SO_delegateBySig delegatee nonce expiry sig)
  then show ?thesis using assms
    by (auto simp: so_delegateBySig_def delegateBySig_def bindE_Inr dest!: delegate_votes_nonces useCheckedNonce_ok)
qed (use assms in \<open>auto simp: so_delegate_def updateSpaceInfo_def setFactory_def transferOwnership_def enableGuardian_def disableGuardian_def
      bindE_Inr Let_def dest!: delegate_votes_nonces approval_votes\<close>)

lemma calls_nonces:
  assumes "unat (v_nonces (so_votes s) a) + length inputs < 2 ^ 256"
  shows "unat (v_nonces (so_votes s) a) \<le> unat (v_nonces (so_votes (calls (spaceStep M recover) inputs s)) a)"
  using assms
proof (induction inputs arbitrary: s)
  case (Cons i inputs)
  let ?s = "committed s (spaceStep M recover i s)"
  have "v_nonces (so_votes ?s) a = v_nonces (so_votes s) a \<or> v_nonces (so_votes ?s) a = v_nonces (so_votes s) a + 1"
    using spaceStep_nonces [of M recover "fst i" "snd i" s] by (cases "spaceStep M recover i s") auto
  moreover have "unat (v_nonces (so_votes s) a + 1) = Suc (unat (v_nonces (so_votes s) a))"
    using Cons.prems unat_add_fits [of "v_nonces (so_votes s) a" 1] by simp
  ultimately have n: "unat (v_nonces (so_votes s) a) \<le> unat (v_nonces (so_votes ?s) a)"
      "unat (v_nonces (so_votes ?s) a) \<le> Suc (unat (v_nonces (so_votes s) a))" by auto
  then have "unat (v_nonces (so_votes ?s) a) + length inputs < 2 ^ 256" using Cons.prems by simp
  then have "unat (v_nonces (so_votes ?s) a) \<le> unat (v_nonces (so_votes (calls (spaceStep M recover) inputs ?s)) a)"
    by (rule Cons.IH)
  then show ?case using n by simp
qed simp

section \<open>Histories of votes\<close>

definition votes_upto :: "32 word \<Rightarrow> Votes \<Rightarrow> bool" where
  "votes_upto m v = ((\<forall>d. keys_upto m (v_delegateCheckpoints v d)) \<and> keys_upto m (v_totalCheckpoints v))"

lemma latest_value_at:
  assumes "increasing store" and "keys_upto m store"
  shows "value_at store m = latest store"
proof -
  have "filter (\<lambda>c. ckpt_key c \<le> m) store = store" using assms(2) by (auto simp: keys_upto_def)
  then show ?thesis using latest_last [OF increasing_length_32 [OF assms(1)]] by (simp add: value_at_def Let_def)
qed

lemma block_key_less:
  assumes "unat (block_number ctx) < 2 ^ 32" and "unat t < 2 ^ 32"
  shows "block_key ctx \<le> ucast t \<longleftrightarrow> block_number ctx \<le> t" and "ucast t < block_key ctx \<longleftrightarrow> t < block_number ctx"
  using assms by (simp_all add: block_key_def word_le_nat_alt word_less_nat_alt unat_ucast_mod)

lemma committed_history:
  assumes M: "math_laws M" and r: "signers_ok recover" and s: "space_inv L s" and legal: "legal_call (ctx, call) s"
  defines "s1 \<equiv> committed s (spaceStep M recover (ctx, call) s)"
  shows "\<exists>L'. space_inv L' s1" and "votes_history (block_key ctx) (so_votes s) (so_votes s1)"
proof -
  have "(\<exists>L'. space_inv L' s1) \<and> votes_history (block_key ctx) (so_votes s) (so_votes s1)"
  proof (cases "spaceStep M recover (ctx, call) s")
    case (Inl e)
    then show ?thesis using s same_parts_inv(2) [OF s, of s] by (auto simp: s1_def)
  next
    case (Inr s')
    then show ?thesis using spaceStep_inv [OF M r s legal Inr] by (simp add: s1_def)
  qed
  then show "\<exists>L'. space_inv L' s1" and "votes_history (block_key ctx) (so_votes s) (so_votes s1)" by auto
qed

lemma history_upto: "votes_history key v v' \<Longrightarrow> key \<le> m \<Longrightarrow> votes_upto m v \<Longrightarrow> votes_upto m v'"
  by (simp add: votes_history_def history_step_def votes_upto_def)

lemma history_value:
  assumes "votes_history key v v'" and "m < key"
  shows "value_at (v_delegateCheckpoints v' d) m = value_at (v_delegateCheckpoints v d) m"
    and "value_at (v_totalCheckpoints v') m = value_at (v_totalCheckpoints v) m"
  using assms by (simp_all add: votes_history_def history_step_def)

lemma calls_upto:
  assumes "math_laws M" and "signers_ok recover" and "space_inv L s" and "legal_calls (spaceStep M recover) legal_call inputs s"
    and "\<forall>(ctx, call) \<in> set inputs. block_key ctx \<le> m" and "votes_upto m (so_votes s)"
  shows "votes_upto m (so_votes (calls (spaceStep M recover) inputs s))"
  using assms(3-6)
proof (induction inputs arbitrary: s L)
  case (Cons i inputs)
  obtain ctx call where i: "i = (ctx, call)" by (cases i) auto
  have legal: "legal_call (ctx, call) s" using Cons.prems(2) by (simp add: i)
  note h = committed_history [OF assms(1,2) Cons.prems(1) legal]
  obtain L' where "space_inv L' (committed s (spaceStep M recover (ctx, call) s))" using h(1) by blast
  then have "votes_upto m (so_votes (calls (spaceStep M recover) inputs (committed s (spaceStep M recover (ctx, call) s))))"
    using Cons.prems(2,3,4) history_upto [OF h(2)] by (intro Cons.IH) (auto simp: i)
  then show ?case by (simp add: i)
qed simp

lemma calls_values:
  assumes "math_laws M" and "signers_ok recover" and "space_inv L s" and "legal_calls (spaceStep M recover) legal_call inputs s"
    and "\<forall>(ctx, call) \<in> set inputs. m < block_key ctx"
  shows "value_at (v_delegateCheckpoints (so_votes (calls (spaceStep M recover) inputs s)) d) m = value_at (v_delegateCheckpoints (so_votes s) d) m \<and>
    value_at (v_totalCheckpoints (so_votes (calls (spaceStep M recover) inputs s))) m = value_at (v_totalCheckpoints (so_votes s)) m"
  using assms(3-5)
proof (induction inputs arbitrary: s L)
  case (Cons i inputs)
  obtain ctx call where i: "i = (ctx, call)" by (cases i) auto
  have legal: "legal_call (ctx, call) s" using Cons.prems(2) by (simp add: i)
  note h = committed_history [OF assms(1,2) Cons.prems(1) legal]
  obtain L' where L': "space_inv L' (committed s (spaceStep M recover (ctx, call) s))" using h(1) by blast
  have "m < block_key ctx" using Cons.prems(3) by (simp add: i)
  then show ?case
    using Cons.IH [OF L'] Cons.prems(2,3) history_value [OF h(2)] by (simp add: i)
qed simp

section \<open>Properties\<close>

definition space_init :: "string \<Rightarrow> string \<Rightarrow> account \<Rightarrow> uint256 \<Rightarrow> SpaceOwner" where
  "space_init name symbol owner cooldown =
     ERC721A.ERC721A.extend (ERC721ABase_init name symbol emptyERC721A)
       \<lparr>so_votes = emptyVotes, so_cooldownByAddress = (\<lambda>_. 0), so_defaultCooldown = cooldown, so_factory = 0,
        so_spaceByAddress = (\<lambda>_. emptySpace), so_spaceByTokenId = (\<lambda>_. 0), so_owner = owner, so_log = []\<rparr>"

lemma space_init_inv: "space_inv empty_ledger (space_init name symbol owner cooldown)"
proof -
  have "token_part (space_init name symbol owner cooldown) = ERC721ABase_init name symbol emptyERC721A"
    by (simp add: space_init_def ERC721A.ERC721A.truncate_def ERC721A.ERC721A.extend_def ERC721ABase_init_def emptyERC721A_def)
  then have "implements (space_init name symbol owner cooldown) empty_ledger"
    using empty_implements [of name symbol] by (metis token_part_helpers(6))
  moreover have "so_votes (space_init name symbol owner cooldown) = emptyVotes"
    by (simp add: space_init_def ERC721A.ERC721A.extend_def)
  moreover have "held empty_ledger = (\<lambda>_. 0)" by (simp add: held_def empty_ledger_def fun_eq_iff)
  ultimately show ?thesis using emptyVotes_inv by (simp add: space_inv_def)
qed

abbreviation legal_space_calls where
  "legal_space_calls M recover inputs s \<equiv> legal_calls (spaceStep M recover) legal_call inputs s"

lemma reachable_inv:
  assumes "math_laws M" and "signers_ok recover" and "legal_space_calls M recover inputs (space_init name symbol owner cooldown)"
  shows "\<exists>L. space_inv L (calls (spaceStep M recover) inputs (space_init name symbol owner cooldown))"
  using contract_inv.calls_inv [OF space_contract [OF assms(1,2)] _ assms(3)] space_init_inv by blast

definition tokens :: "SpaceOwner \<Rightarrow> account \<Rightarrow> nat" where
  "tokens s a = (case balanceOf a s of Inl _ \<Rightarrow> 0 | Inr n \<Rightarrow> unat n)"

lemma tokens_held: "space_inv L s \<Longrightarrow> tokens s = held L"
proof
  fix a
  assume "space_inv L s"
  then have imp: "implements s L" and "held L 0 = 0" by (auto simp: space_inv_def votes_inv_def)
  then show "tokens s a = held L a"
    using balanceOf_ok [OF imp, of a] held_less [OF implements_facts(1) [OF imp], of a] by (simp add: tokens_def unat_of_nat)
qed

lemma sum_held: "(\<Sum>a \<in> UNIV. count_list os (Some a)) + count_list os None = length (os :: account option list)"
proof (induction os)
  case (Cons o' os)
  show ?case
  proof (cases o')
    case None
    then show ?thesis using Cons by simp
  next
    case (Some b)
    have "(\<Sum>a \<in> UNIV. count_list (o' # os) (Some a)) = (\<Sum>a \<in> UNIV. count_list os (Some a) + (if a = b then 1 else 0))"
      by (intro sum.cong) (auto simp: Some)
    also have "\<dots> = (\<Sum>a \<in> UNIV. count_list os (Some a)) + 1" by (simp add: sum.distrib)
    finally show ?thesis using Cons Some by simp
  qed
qed simp

text \<open>A sample of the library functions, and of calls.\<close>

definition sample_recover :: "account recovery" where
  "sample_recover delegatee nonce expiry sig = (if sig = 0 then Inl (RevertString ''ECDSA: invalid signature'') else Inr sig)"

lemma sample_signers: "signers_ok sample_recover"
  by (simp add: signers_ok_def sample_recover_def)

definition sample_ctx :: "account \<Rightarrow> uint256 \<Rightarrow> call_context" where
  "sample_ctx sender n =
     \<lparr>msg_sender = sender, block_timestamp = n, block_number = n, code_length = (\<lambda>a. if a = 2 then 1 else 0)\<rparr>"

definition sample_space :: SpaceOwner where
  "sample_space = space_init ''Space'' ''SPACE'' 1 500"

definition sample_before :: "(call_context \<times> account SpaceCall) list" where
  "sample_before =
     [(sample_ctx 1 1, SO_setFactory 2), (sample_ctx 2 2, SO_delegate 8), (sample_ctx 2 3, SO_mintSpace [65, 66] [67] 77)]"

definition sample_after :: "(call_context \<times> account SpaceCall) list" where
  "sample_after = [(sample_ctx 2 10, SO_delegate 9)]"

lemmas sample_defs =
  sample_before_def sample_after_def sample_ctx_def sample_space_def space_init_def ERC721A.ERC721A.extend_def emptyERC721A_def ERC721ABase_init_def
  emptyVotes_def sample_recover_def sample_math_def sample_cast_def

lemmas space_call_defs =
  Let_def require_def checkLength_def checkAddress_def onlyOwner_def onlyFactory_def onlyEOA_def setFactory_def so_delegate_def so_delegateBySig_def
  delegateBySig_def useCheckedNonce_def useNonce_def delegate_votes_def delegates_def
  getVotingUnits_def balanceOf_def moveDelegateVotes_def mintSpace_def registerSpace_def mint_def space_hooks_def
  so_beforeTokenTransfers_def so_afterTokenTransfers_def transferVotingUnits_def moveTotal_def moveVotes_def votes_push_def
  clock_def votes_add_def votes_subtract_def checked_add_def checked_sub_def ckpt_insert_def latest_def ckpt_length_def unsafeAccess_def nextTokenId_def startTokenId_def
  packOwnershipData_def addressDataIncrement_def nextInitializedFlag_def getVotes_def totalSupply_def BITMASK_ADDRESS_DATA_ENTRY_def

lemmas guardian_defs =
  guardianCooldown_def disableGuardian_def ownerOf_def packedOwnershipOf_def BITMASK_BURNED_def

lemma space_sample_calls:
  "currentIndex (calls (spaceStep sample_math sample_recover) sample_before sample_space) = 1"
  "getVotes 8 (so_votes (calls (spaceStep sample_math sample_recover) sample_before sample_space)) = 1"
  "getVotes 8 (so_votes (calls (spaceStep sample_math sample_recover) (sample_before @ sample_after) sample_space)) = 0"
  "totalSupply (calls (spaceStep sample_math sample_recover) sample_before sample_space) = 1"
  "getTotalSupply (so_votes (calls (spaceStep sample_math sample_recover) sample_before sample_space)) = 1"
  by (simp_all add: sample_defs space_call_defs getTotalSupply_def)

lemma space_sample_legal: "legal_space_calls sample_math sample_recover (sample_before @ sample_after) sample_space"
  using space_sample_calls(1) by (simp add: sample_defs space_call_defs)

text \<open>
  (C5) After every sequence of calls, the votes of a delegate are the tokens of the accounts that
  delegated to it, and the votes in total are the supply of tokens.
\<close>

theorem votes_match_tokens:
  assumes "math_laws M" and "signers_ok recover" and "legal_space_calls M recover inputs (space_init name symbol owner cooldown)"
  defines "s \<equiv> calls (spaceStep M recover) inputs (space_init name symbol owner cooldown)"
  shows "(\<forall>d. d \<noteq> 0 \<longrightarrow> unat (getVotes d (so_votes s)) = (\<Sum>a | delegates a (so_votes s) = d. tokens s a)) \<and>
    unat (getTotalSupply (so_votes s)) = unat (totalSupply s)"
proof -
  obtain L where L: "space_inv L s" using reachable_inv [OF assms(1-3)] by (auto simp: s_def)
  then have imp: "implements s L" and v: "votes_inv (held L) (so_votes s)" by (auto simp: space_inv_def)
  have "(\<Sum>a \<in> UNIV. held L a) = length (owners L) - burned_tokens L"
    using sum_held [of "owners L"] by (simp add: held_def burned_tokens_def)
  moreover have "length (owners L) - burned_tokens L < 2 ^ 256" using length_less [OF implements_facts(1) [OF imp]] by simp
  ultimately have "unat (totalSupply s) = (\<Sum>a \<in> UNIV. held L a)" by (simp add: totalSupply_ok [OF imp] unat_of_nat)
  then show ?thesis using v by (simp add: tokens_held [OF L] votes_inv_def delegates_def delegated_def)
qed

theorem votes_match_tokens_witness:
  "let s = calls (spaceStep sample_math sample_recover) sample_before sample_space
   in (\<Sum>a | delegates a (so_votes s) = 8. tokens s a) = 1 \<and> unat (getTotalSupply (so_votes s)) = 1"
proof -
  have "legal_space_calls sample_math sample_recover sample_before (space_init ''Space'' ''SPACE'' 1 500)"
    using space_sample_legal by (simp flip: sample_space_def)
  note v = votes_match_tokens [OF sample_math_laws sample_signers this, folded sample_space_def]
  show ?thesis using spec [OF conjunct1 [OF v], of 8] v space_sample_calls(2,5) by (simp add: Let_def)
qed

lemma past_values:
  assumes M: "math_laws M" and now: "t < block_number now" "unat (block_number now) < 2 ^ 32"
    and inc: "votes_inv units v"
  shows "getPastVotes M now a t v = Inr (value_at (v_delegateCheckpoints v a) (ucast t))"
    and "getPastTotalSupply M now t v = Inr (value_at (v_totalCheckpoints v) (ucast t))"
proof -
  have t: "unat t < 2 ^ 32" using now by (simp add: word_less_nat_alt)
  have laws: "cast_law (oz_toUint48 M)" "cast_law (oz_toUint32 M)" using M by (simp_all add: math_laws_def)
  have c: "clock M now = Inr (ucast (block_number now))" using laws(1) now(2) by (auto simp: clock_def cast_law_def)
  have k: "oz_toUint32 M t = Inr (ucast t)" using laws(2) t by (auto simp: cast_law_def)
  have "unat (ucast (ucast (block_number now) :: 48 word) :: uint256) = unat (block_number now)"
    using now(2) by (simp add: unat_ucast_mod)
  then have less: "t < ucast (ucast (block_number now) :: 48 word)" using now(1) unfolding word_less_nat_alt by (simp only:)
  have i: "increasing (v_delegateCheckpoints v a)" "increasing (v_totalCheckpoints v)" using inc by (simp_all add: votes_inv_def)
  show "getPastVotes M now a t v = Inr (value_at (v_delegateCheckpoints v a) (ucast t))"
    using upperLookupRecent_ok [OF M i(1) increasing_length_32 [OF i(1)]] less by (simp add: getPastVotes_def c k require_def)
  show "getPastTotalSupply M now t v = Inr (value_at (v_totalCheckpoints v) (ucast t))"
    using upperLookupRecent_ok [OF M i(2) increasing_length_32 [OF i(2)]] less by (simp add: getPastTotalSupply_def c k require_def)
qed

lemma block_keys:
  assumes "t < block_number now" and "unat (block_number now) < 2 ^ 32"
  shows "\<forall>(ctx, call) \<in> set inputs. block_number ctx \<le> t \<Longrightarrow> \<forall>(ctx, call) \<in> set inputs. block_key ctx \<le> ucast t"
    and "\<forall>(ctx, call) \<in> set inputs'. t < block_number ctx \<and> unat (block_number ctx) < 2 ^ 32 \<Longrightarrow>
      \<forall>(ctx, call) \<in> set inputs'. ucast t < block_key ctx"
proof -
  have t: "unat t < 2 ^ 32" using assms by (simp add: word_less_nat_alt)
  have "block_key ctx \<le> ucast t" if "block_number ctx \<le> t" for ctx
  proof -
    have "unat (block_number ctx) < 2 ^ 32" using that t by (simp add: word_le_nat_alt)
    then show ?thesis using block_key_less(1) [OF _ t] that by blast
  qed
  then show "\<forall>(ctx, call) \<in> set inputs. block_number ctx \<le> t \<Longrightarrow> \<forall>(ctx, call) \<in> set inputs. block_key ctx \<le> ucast t" by fastforce
  show "\<forall>(ctx, call) \<in> set inputs'. t < block_number ctx \<and> unat (block_number ctx) < 2 ^ 32 \<Longrightarrow>
      \<forall>(ctx, call) \<in> set inputs'. ucast t < block_key ctx"
    using block_key_less(2) [OF _ t] by blast
qed

text \<open>
  (C13) The votes at a past block are fixed: whatever is called after block \<open>t\<close>, a query for \<open>t\<close>
  returns the votes, and the total, as they were after the last call up to \<open>t\<close>. Block numbers
  fit the 32 bits of the checkpoints.
\<close>

theorem past_votes_fixed:
  assumes "math_laws M" and "signers_ok recover"
    and "legal_space_calls M recover (before @ after) (space_init name symbol owner cooldown)"
    and "\<forall>(ctx, call) \<in> set before. block_number ctx \<le> t"
    and "\<forall>(ctx, call) \<in> set after. t < block_number ctx \<and> unat (block_number ctx) < 2 ^ 32"
    and "t < block_number now" and "unat (block_number now) < 2 ^ 32"
  defines "s \<equiv> calls (spaceStep M recover) before (space_init name symbol owner cooldown)"
    and "s' \<equiv> calls (spaceStep M recover) (before @ after) (space_init name symbol owner cooldown)"
  shows "getPastVotes M now a t (so_votes s') = Inr (getVotes a (so_votes s)) \<and>
    getPastTotalSupply M now t (so_votes s') = Inr (getTotalSupply (so_votes s))"
proof -
  let ?i = "space_init name symbol owner cooldown"
  have l: "legal_space_calls M recover before ?i" "legal_space_calls M recover after s"
    using assms(3) by (simp_all add: s_def)
  have s': "s' = calls (spaceStep M recover) after s" by (simp add: s_def s'_def)
  obtain L where L: "space_inv L s" using reachable_inv [OF assms(1,2) l(1)] by (auto simp: s_def)
  obtain L' where L': "space_inv L' s'" using reachable_inv [OF assms(1-3)] by (auto simp: s'_def)
  have inv: "votes_inv (held L) (so_votes s)" "votes_inv (held L') (so_votes s')" using L L' by (auto simp: space_inv_def)
  have "votes_upto (ucast t) (so_votes ?i)"
    by (simp add: votes_upto_def keys_upto_def space_init_def ERC721A.ERC721A.extend_def emptyVotes_def)
  then have "votes_upto (ucast t) (so_votes s)"
    unfolding s_def by (rule calls_upto [OF assms(1,2) space_init_inv l(1) block_keys(1) [OF assms(6,7,4)]])
  then have "value_at (v_delegateCheckpoints (so_votes s) a) (ucast t) = getVotes a (so_votes s)"
    "value_at (v_totalCheckpoints (so_votes s)) (ucast t) = getTotalSupply (so_votes s)"
    using inv(1) by (auto simp: votes_upto_def votes_inv_def getVotes_def getTotalSupply_def intro: latest_value_at)
  then show ?thesis
    using past_values [OF assms(1,6,7) inv(2)] calls_values [OF assms(1,2) L l(2) block_keys(2) [OF assms(6,7,5)]]
    by (simp add: s')
qed


theorem past_votes_fixed_witness:
  "let s = so_votes (calls (spaceStep sample_math sample_recover) (sample_before @ sample_after) sample_space)
   in getVotes 8 s = 0 \<and> getPastVotes sample_math (sample_ctx 1 12) 8 5 s = Inr 1 \<and>
      getPastTotalSupply sample_math (sample_ctx 1 12) 5 s = Inr 1"
proof -
  have "\<forall>(ctx, call) \<in> set sample_before. block_number ctx \<le> 5"
    and "\<forall>(ctx, call) \<in> set sample_after. 5 < block_number ctx \<and> unat (block_number ctx) < 2 ^ 32"
    and "5 < block_number (sample_ctx 1 12)" and "unat (block_number (sample_ctx 1 12)) < 2 ^ 32"
    by (simp_all add: sample_before_def sample_after_def sample_ctx_def)
  from past_votes_fixed [OF sample_math_laws sample_signers space_sample_legal [unfolded sample_space_def] this, of 8] show ?thesis
    using space_sample_calls by (simp add: Let_def flip: sample_space_def)
qed

text \<open>
  (C14) While the guardian of an account is on, and for the length of the cooldown after it may have been
  switched off, its tokens stay: whatever calls follow, by whoever, each of its tokens still has it as owner. The
  account has no code, and the calls are in a window of time that is no longer than the cooldown.
\<close>

theorem guarded_tokens_stay:
  assumes "math_laws M" and "signers_ok recover" and "legal_space_calls M recover before (space_init name symbol owner cooldown)"
    and "ownerOf t (calls (spaceStep M recover) before (space_init name symbol owner cooldown)) = Inr a"
    and "guardianCooldown a (calls (spaceStep M recover) before (space_init name symbol owner cooldown)) = 0"
    and "legal_calls (spaceStep M recover) (window_call a T cooldown) after
      (calls (spaceStep M recover) before (space_init name symbol owner cooldown))"
  shows "ownerOf t (calls (spaceStep M recover) (before @ after) (space_init name symbol owner cooldown)) = Inr a"
proof -
  let ?s = "calls (spaceStep M recover) before (space_init name symbol owner cooldown)"
  let ?s' = "calls (spaceStep M recover) after ?s"
  obtain L where L: "space_inv L ?s" using reachable_inv [OF assms(1-3)] by blast
  then have imp: "implements ?s L" by (simp add: space_inv_def)
  moreover have "holder L t = Some a" using assms(4) ownerOf_ok [OF imp, of t] by (simp split: option.splits)
  moreover have "so_defaultCooldown (space_init name symbol owner cooldown) = cooldown"
    by (simp add: space_init_def ERC721A.ERC721A.extend_def)
  ultimately have "guarded_inv a t T cooldown ?s"
    using assms(5) calls_defaultCooldown [of M recover before] by (auto simp: guarded_inv_def guardianCooldown_def)
  then have "guarded_inv a t T cooldown ?s'" using guarded.calls_inv assms(6) by blast
  then obtain L' where "implements ?s' L'" "holder L' t = Some a" by (auto simp: guarded_inv_def)
  then show ?thesis by (simp add: ownerOf_ok [of _ L'])
qed

definition sample_minted :: "(call_context \<times> account SpaceCall) list" where
  "sample_minted = [(sample_ctx 1 1, SO_setFactory 3), (sample_ctx 3 2, SO_mintSpace [65, 66] [67] 77)]"

definition sample_moves :: "(call_context \<times> account SpaceCall) list" where
  "sample_moves =
     [(sample_ctx 3 100, SO_disableGuardian), (sample_ctx 3 599, SO_transferFrom 3 7 0)]"

theorem guarded_tokens_stay_witness:
  "ownerOf 0 (calls (spaceStep sample_math sample_recover) (sample_minted @ sample_moves) sample_space) = Inr 3"
proof -
  have c: "currentIndex (calls (spaceStep sample_math sample_recover) sample_minted sample_space) = 1"
    "currentIndex (calls (spaceStep sample_math sample_recover) (sample_minted @ [hd sample_moves]) sample_space) = 1"
    "ownerOf 0 (calls (spaceStep sample_math sample_recover) sample_minted sample_space) = Inr 3"
    "guardianCooldown 3 (calls (spaceStep sample_math sample_recover) sample_minted sample_space) = 0"
    by (simp_all add: sample_minted_def sample_moves_def sample_defs space_call_defs guardian_defs)
  have "legal_space_calls sample_math sample_recover sample_minted sample_space"
    by (simp add: sample_minted_def sample_defs space_call_defs)
  moreover have "legal_calls (spaceStep sample_math sample_recover) (window_call 3 100 500) sample_moves
      (calls (spaceStep sample_math sample_recover) sample_minted sample_space)"
    using c(1,2) by (simp add: sample_moves_def sample_ctx_def)
  ultimately show ?thesis
    using guarded_tokens_stay [OF sample_math_laws sample_signers _ _ _, of sample_minted "''Space''" "''SPACE''" 1 500 0 3 100 sample_moves] c(3,4)
    by (simp flip: sample_space_def)
qed

text \<open>
  (C36) A signature works once: after a delegation by signature has succeeded, the same message and
  signature are refused, whatever calls come between, as long as their number cannot bring the nonce
  around.
\<close>

theorem signature_used_once:
  assumes "spaceStep M recover (ctx, SO_delegateBySig delegatee nonce expiry sig) s = Inr s1"
    and "unat nonce + 1 + length inputs < 2 ^ 256"
  shows "\<exists>signer. recover delegatee nonce expiry sig = Inr signer \<and>
    spaceStep M recover (ctx', SO_delegateBySig delegatee nonce expiry sig) (calls (spaceStep M recover) inputs s1) =
      Inl (if expiry < block_timestamp ctx' then RevertString ''Votes: signature expired''
           else InvalidAccountNonce signer (latestNonce signer (so_votes (calls (spaceStep M recover) inputs s1))))"
proof -
  obtain signer v where signer: "recover delegatee nonce expiry sig = Inr signer"
    and v: "useCheckedNonce signer nonce (so_votes s) = Inr v"
    and d: "delegate_votes M ctx (getVotingUnits s) signer delegatee v = Inr (so_votes s1)"
    using assms(1) by (auto simp: so_delegateBySig_def delegateBySig_def bindE_Inr)
  have "v_nonces (so_votes s1) signer = nonce + 1"
    using useCheckedNonce_ok [OF v] delegate_votes_nonces [OF d] by simp
  moreover have "unat (nonce + 1) = unat nonce + 1" using assms(2) unat_add_fits [of nonce 1] by simp
  ultimately have "unat nonce < unat (v_nonces (so_votes (calls (spaceStep M recover) inputs s1)) signer)"
    using calls_nonces [of s1 signer inputs M recover] assms(2) by simp
  then have "v_nonces (so_votes (calls (spaceStep M recover) inputs s1)) signer \<noteq> nonce" by auto
  then show ?thesis
    using signer by (auto simp: so_delegateBySig_def delegateBySig_def require_def useCheckedNonce_def useNonce_def latestNonce_def not_le)
qed

theorem signature_used_once_witness:
  "case spaceStep sample_math sample_recover (sample_ctx 4 5, SO_delegateBySig 8 0 50 3) sample_space of
     Inl e \<Rightarrow> False
   | Inr s \<Rightarrow> spaceStep sample_math sample_recover (sample_ctx 4 6, SO_delegateBySig 8 0 50 3)
       (calls (spaceStep sample_math sample_recover) [(sample_ctx 1 5, SO_setFactory 2)] s) = Inl (InvalidAccountNonce 3 1)"
proof -
  obtain s1 where s1: "spaceStep sample_math sample_recover (sample_ctx 4 5, SO_delegateBySig 8 0 50 3) sample_space = Inr s1"
    by (simp add: sample_defs space_call_defs)
  then have "v_nonces (so_votes s1) 3 = 1" by (auto simp: sample_defs space_call_defs)
  then have "latestNonce 3 (so_votes (calls (spaceStep sample_math sample_recover) [(sample_ctx 1 5, SO_setFactory 2)] s1)) = 1"
    by (cases "setFactory (sample_ctx 1 5) 2 s1") (auto simp: latestNonce_def setFactory_def bindE_Inr)
  then show ?thesis
    using signature_used_once [OF s1, of "[(sample_ctx 1 5, SO_setFactory 2)]" "sample_ctx 4 6"] s1
    by (simp add: sample_recover_def sample_ctx_def del: spaceStep.simps calls_simps)
qed

text \<open>
  The check of the owner reads the token id of the space. For an address that was never minted it is
  zero, so that the owner of token zero may write the name and the uri of any such address.
\<close>

lemma unregistered_space_writable:
  assumes "getSpaceInfo space s = emptySpace" and "ownerOf 0 s = Inr (msg_sender ctx)" and "2 \<le> length name" and "1 \<le> length uri"
  shows "\<exists>s'. updateSpaceInfo ctx space name uri s = Inr s' \<and> sp_name (getSpaceInfo space s') = name \<and> sp_uri (getSpaceInfo space s') = uri"
  using assms by (simp add: updateSpaceInfo_def onlySpaceOwner_def checkLength_def require_def getSpaceInfo_def emptySpace_def)

end
