(* ===== verification/Spec2Isabelle.thy ===== *)
theory Spec2Isabelle
  imports Confirmation DecryptionRuns Gated SyncRuns SpaceOwner
begin

text \<open>
  A verification development for the client of the River protocol, for the path an entitlement
  rule takes from the client through the contracts to the nodes that vote on it, and for the
  contract that owns the spaces. The sources are
  under \<open>src/\<close>: TypeScript (\<open>core/sdk\<close>, \<open>core/encryption\<close>, \<open>core/web3\<close>, \<open>core/dlog\<close>), Solidity
  (\<open>contracts\<close>), Go (\<open>core/xchain\<close>).

  \<^bold>\<open>The program.\<close> A user's client keeps a view of each stream it follows (a channel, a space, a
  direct message, the user's own streams). A view starts from a snapshot and miniblocks, then
  receives events; miniblock headers confirm earlier events; members, user names, and the content
  specific to the kind of stream are derived from the events. Encrypted content goes to a
  decryption extension that queues it, asks other devices for missing session keys and answers
  their requests. Who may join or read is decided by entitlements: user entitlements are looked
  up in a contract, rules are trees of checks that are stored in a contract and evaluated by the
  client when it picks a wallet, and by randomly selected nodes whose votes a contract counts.
  A space is owned by the holder of its token; the token contract packs its data into words, and its
  holders delegate votes whose history is kept in checkpoints.

  \<^bold>\<open>Conventions.\<close> \<open>Prelude\<close> has the statements of the TypeScript code: a statement is a function
  from the state to the state after it, the events emitted, and the exception if one was thrown;
  a throw keeps what was written before it. It also has runs of a step function, the locale
  \<open>stepping\<close> for invariants of runs, and generic lemmas. \<open>Externs\<close> gathers the functions of
  third-party packages as one record \<open>x\<close> that is passed to every definition that uses one, the
  documented laws as predicates, and an instance for which they hold; also \<open>core/dlog\<close>.
  JavaScript objects that are shared and updated in place (the timeline events) live in a store
  and are referred to by position; everything else is a value. Maps whose order matters are
  association lists. Handlers run to completion between two \<open>await\<close>s, and the models of
  asynchronous parts have one step per such stretch, so a theorem about all sequences of steps is
  one about all interleavings. Strings are lists of eight-bit characters, of which \<open>toLowerCase\<close> changes the ASCII letters. Big integers are integers; where a width matters (the random
  index, the narrowing of error arguments, \<open>Number\<close> of a big integer, the low 64 bits of a chain
  id) it is written out. No definition uses fuel: a loop of the modelled code is total by structural
  recursion or by a length that decreases; those that have no bound of their own (\<open>retryLoop\<close>,
  \<open>scanOwnerships\<close>, \<open>ownedLoop\<close>, the two binary searches) are partial functions whose value is \<open>None\<close>
  when they do not end, and it is proved when that happens: never for the last four in a state the
  contracts can reach. \<open>Solidity\<close> has what the contracts share: accounts and words at their width,
  errors, the context of a call, checked arithmetic, sequences of calls in which a reverted one changes
  nothing, and the locales \<open>contract_inv\<close> and \<open>contract_refines\<close> that lift a law of one call to all
  sequences of calls.

  \<^bold>\<open>Client: streams.\<close>
  \<^item> \<open>Ids\<close>: \<open>core/sdk/src/id.ts\<close>. Every id made is valid and typed, addresses are recovered,
    the id of a direct message does not depend on the order of its users.
  \<^item> \<open>Protocol\<close>: the messages of \<open>protocol/protocol.proto\<close> the client reads, timeline events and the
    notifications, as records and datatypes.
  \<^item> \<open>Migrations\<close>: \<open>core/sdk/src/migrations\<close>; the in-place compaction keeps the first entry of every
    run of equal keys, the migration applies exactly the missing steps and loses no key.
  \<^item> \<open>Membership\<close>, \<open>UserMetadata\<close>, \<open>Members\<close>: the member state of a stream
    (\<open>streamStateView_Members*.ts\<close>, \<open>userMetadata_*.ts\<close>); memberships follow the history, one
    solicitation per device, no two users claim the same user name, the parts agree after every
    sequence of operations.
  \<^item> \<open>ChannelContents\<close>, \<open>OtherContents\<close>, \<open>Contents\<close>: the nine kinds of content and the dispatch
    between them (\<open>streamStateView_*.ts\<close>).
  \<^item> \<open>StreamView\<close>: \<open>streamStateView.ts\<close>, definitions only. \<open>Timeline\<close> has the frame lemmas and the
    invariant, \<open>Views\<close> the properties of all sequences of operations, of appending, scrolling
    back and local events, \<open>Confirmation\<close> those of miniblock headers: a header confirms what it lists
    when every listed event can be confirmed.
  \<^item> \<open>Persistence\<close>: the local database of streams, \<open>persistenceStore.ts\<close> and \<open>streamUtils.ts\<close>; messages
    and blocks are read back as they were written, a range of blocks is complete or empty.
  \<^item> \<open>SyncedStream\<close>: \<open>stream.ts\<close> and \<open>syncedStream.ts\<close>; after a restart the stream is initialized with
    what the node had delivered, and every header leaves the blocks of the stream complete.
  \<^item> \<open>Sign\<close>: \<open>sign.ts\<close> and \<open>signerContext.ts\<close>; events the client signs are accepted by its own checks,
    accepted events are authentic, two with one id are the same or their bytes collide, a stream the node delivers unpacks to the events it was built of.
  \<^item> \<open>Sync\<close>: the synchronisation loop of \<open>syncedStreams.ts\<close> with its states, retries, pings and timers,
    one step per stretch of code between two \<open>await\<close>s. \<open>SyncRuns\<close> shows that every run only makes the
    documented state changes, that a stop completes, and how the delay between retries grows, for orders
    in which a loop is started only when none runs, the node ends the stream only when asked to and no
    old timer fires; lemmas show what happens otherwise.

  \<^bold>\<open>Client: decryption.\<close> \<open>Queues\<close> has the queues of \<open>core/encryption/src/decryptionExtensions.ts\<close>,
  with a locale for dequeueing; \<open>Decryption\<close> the scheduler and the handlers with the overrides of
  \<open>core/sdk/src/clientDecryptionExtensions.ts\<close>. The answers of cryptography, key store, contracts
  and node are a record that may differ at every step. Reporting a failure goes
  to the view of the stream and can be refused there. \<open>DecryptionRuns\<close> shows that no item is
  lost or handled twice, that a report is refused only for an event that has been decrypted, that requests are unique, and when keys are sent or asked for.

  \<^bold>\<open>Entitlements.\<close>
  \<^item> \<open>Entitlement\<close>: rule trees and their array form, \<open>core/web3/src/entitlement.ts\<close> and the decoder of
    \<open>core/xchain/entitlement/entitlement.go\<close>. The client's numbers are unbounded, those of the struct of
    the contracts and of the node have their width; the arrays of a tree fit it exactly up to 256 checks,
    and then encoding and decoding are inverse.
  \<^item> \<open>RuleEvaluation\<close>: evaluation by the client, with promise races and aborts, and by the node, with
    cancelled contexts; a definition returns the list of all results some schedule can give. A
    locale derives the meaning of a rule from that of checks and gates and is interpreted for
    both; the client is never more generous than the node, and they agree on the checks both decide
    alike (\<open>client_node_differ\<close> has the others).
  \<^item> \<open>RuleContract\<close>, \<open>UserContract\<close>: \<open>RuleEntitlement.sol\<close> and \<open>UserEntitlement.sol\<close>; what is written is
    read back, and the user contract implements its specification (a simulation).
  \<^item> \<open>Gated\<close>: \<open>EntitlementChecker.sol\<close>, \<open>EntitlementGatedBase.sol\<close> and the request handling of
    \<open>core/xchain/server/server.go\<close>; the selection is without repetition, results need a majority,
    and with half of the nodes running the node program a result is the meaning of the rule.

  \<^bold>\<open>Tokens, votes and space ownership.\<close>
  \<^item> \<open>ERC721A\<close>: the token contract in \<open>contracts/src/diamond/facets/token/ERC721A\<close>, definitions only, with
    the layout of its packed words; hooks are a parameter. \<open>Ledger\<close> specifies it as a list of owners,
    with balances, counters and approvals, and shows by simulation that it answers as the ledger does
    within the limits its documentation gives per account; that
    the search for an owner ends; that the tokens of an owner are listed exactly; that the events of
    the log determine the owners. The locale \<open>token_contract\<close> carries this over to contracts that extend the token.
  \<^item> \<open>Checkpoints\<close>: \<open>Checkpoints.sol\<close>; the binary searches end and agree with a linear reference, and an
    insertion never changes the past.
  \<^item> \<open>Votes\<close>: \<open>VotesBase.sol\<close>, \<open>Votes.sol\<close> and \<open>Nonces.sol\<close>; the votes of a delegate are the units of those who
    delegate to it, and every step only appends to the histories.
  \<^item> \<open>SpaceOwner\<close>: the contract in \<open>contracts/src/spaces/facets/owner\<close> with the guardian; it composes the
    three (a receiver of a safe transfer answers, but does not call back): votes follow the tokens, past votes are fixed, guarded tokens stay, a signature works once.

  \<^bold>\<open>Flaws the model shows\<close> are lemmas next to the definitions they concern:
  \<open>cached_cleartext_unchecked\<close>, \<open>removeCommon_unsorted\<close>, \<open>earliest_item_blocked\<close>,
  \<open>decoded_root_drops_check\<close>, \<open>join_ignores_check\<close>, \<open>joining_aborts_mock\<close>, \<open>second_rule_appended\<close>,
  \<open>anyone_removes_rule\<close>, \<open>first_result_ends_all\<close>, \<open>anyone_unregisters\<close>, \<open>retry_never_ends\<close>,
  \<open>minipool_cleartext_ignored\<close>, \<open>restart_rejected\<close>, \<open>second_loop_runs\<close>, \<open>ended_stream_stuck\<close>,
  \<open>stale_timer_ends_loop\<close>, \<open>closed_restarts_at_once\<close>, \<open>unregistered_space_writable\<close>,
  \<open>client_node_differ\<close>, \<open>operator_may_be_caller\<close>.

  \<^bold>\<open>Not modelled.\<close> Logging and metrics, which no other behaviour depends on. Cryptography, ABI and
  protobuf encodings, the browser database and the chain clients, which are packages. \<open>client.ts\<close>
  and the contract wrappers of \<open>core/web3\<close>, which mostly pass calls on. The storage node in Go and
  the remaining contracts. Gas, reentrancy (the entry points carry a guard) and the upgrade mechanism of the
  contracts are outside the model.
\<close>

end
